(* ===== verification/Lab_Prelude.thy ===== *)
theory Lab_Prelude
  imports Complex_Main "HOL-Library.AList" "HOL-Library.Char_ord"
    "HOL-Library.List_Lexorder" "HOL-Library.Product_Lexorder"
begin

text \<open>
  Shared vocabulary of the development: the Python and SQL primitives that several
  components use, with the lemmas about them, and the generic locale of stateful
  components.

  \<^item> Money. The services carry \<open>Decimal\<close> values and store them in columns of type
    \<open>NUMERIC(12, 2)\<close>. A Decimal is an exact rational here; \<open>numeric_12_2\<close> is the
    assignment cast of PostgreSQL: it rounds half away from zero to two places and
    raises when ten integer digits do not suffice.
  \<^item> Tables. A table is the list of its rows in insertion order; \<open>sum_where\<close> is
    \<open>COALESCE(SUM(..), 0) .. WHERE\<close>, \<open>update_where\<close> is \<open>UPDATE .. SET .. WHERE\<close>,
    \<open>row_where\<close> is \<open>fetchone\<close> of a \<open>SELECT .. WHERE\<close>.
  \<^item> Components. \<open>stateful\<close> is the interface every component of the program offers: a
    state, operations on it and an invariant each operation keeps.
\<close>

section \<open>Automation\<close>

named_theorems table_simps \<open>rewrite rules for the SQL table primitives\<close>
named_theorems inv_intros \<open>one-step preservation of component invariants\<close>

section \<open>Money\<close>

type_synonym decimal = rat

definition round_half_away :: "rat \<Rightarrow> int" where
  "round_half_away x = (if 0 \<le> x then \<lfloor>x + 1/2\<rfloor> else - \<lfloor>1/2 - x\<rfloor>)"

definition round2 :: "decimal \<Rightarrow> decimal" where
  "round2 x = of_int (round_half_away (100 * x)) / 100"

definition numeric_12_2 :: "decimal \<Rightarrow> decimal option" where
  "numeric_12_2 x = (if \<bar>round2 x\<bar> < 10000000000 then Some (round2 x) else None)"

definition in_cents :: "decimal \<Rightarrow> bool" where
  "in_cents x \<longleftrightarrow> of_int \<lfloor>100 * x\<rfloor> = 100 * x"

lemma in_cents_iff: "in_cents x \<longleftrightarrow> (\<exists>n::int. x = of_int n / 100)"
proof
  assume "in_cents x"
  then obtain n :: int where n: "100 * x = of_int n"
    unfolding in_cents_def by metis
  have "x = 100 * x / 100" by simp
  also have "\<dots> = of_int n / 100" unfolding n ..
  finally show "\<exists>n::int. x = of_int n / 100" by blast
next
  assume "\<exists>n::int. x = of_int n / 100"
  then obtain n :: int where "x = of_int n / 100" by blast
  then have "100 * x = of_int n" by simp
  then show "in_cents x" unfolding in_cents_def by simp
qed

lemma in_cents_of_int [simp]: "in_cents (of_int n)"
proof -
  have "100 * (of_int n :: rat) = of_int (100 * n)" by simp
  then show ?thesis unfolding in_cents_def by (metis floor_of_int)
qed

lemma in_cents_numeral [simp]: "in_cents (numeral n)"
  using in_cents_of_int [of "numeral n"] by simp

lemma in_cents_0 [simp]: "in_cents 0" and in_cents_1 [simp]: "in_cents 1"
  using in_cents_of_int [of 0] in_cents_of_int [of 1] by simp_all

lemma in_cents_add: "in_cents x \<Longrightarrow> in_cents y \<Longrightarrow> in_cents (x + y)"
  unfolding in_cents_iff
  by (metis add_divide_distrib of_int_add)

lemma in_cents_diff: "in_cents x \<Longrightarrow> in_cents y \<Longrightarrow> in_cents (x - y)"
  unfolding in_cents_iff
  by (metis diff_divide_distrib of_int_diff)

lemma in_cents_round2 [simp]: "in_cents (round2 x)"
  by (auto simp: in_cents_iff round2_def)

lemma round_half_away_of_int [simp]: "round_half_away (of_int n) = n"
proof (cases "0 \<le> n")
  case True
  have "\<lfloor>of_int n + 1/2 :: rat\<rfloor> = n" by linarith
  with True show ?thesis by (simp add: round_half_away_def)
next
  case False
  have "\<lfloor>1/2 - of_int n :: rat\<rfloor> = - n" by linarith
  with False show ?thesis by (simp add: round_half_away_def)
qed

lemma round2_in_cents:
  assumes "in_cents x" shows "round2 x = x"
proof -
  from assms obtain n :: int where x: "x = of_int n / 100"
    by (auto simp: in_cents_iff)
  then have "100 * x = of_int n" by simp
  then have "round_half_away (100 * x) = n" by simp
  then show ?thesis by (simp add: round2_def x)
qed

text \<open>Rounding never crosses a value that is itself a whole number of cents.\<close>

lemma round_half_away_le:
  assumes "x \<le> of_int n" shows "round_half_away x \<le> n"
proof (cases "0 \<le> x")
  case True
  have "\<lfloor>x + 1/2\<rfloor> \<le> n" using assms by linarith
  with True show ?thesis by (simp add: round_half_away_def)
next
  case False
  have "- \<lfloor>1/2 - x\<rfloor> \<le> n" using assms by linarith
  with False show ?thesis by (simp add: round_half_away_def)
qed

lemma round2_le:
  assumes "x \<le> y" and "in_cents y" shows "round2 x \<le> y"
proof -
  from assms(2) obtain n :: int where y: "y = of_int n / 100"
    by (auto simp: in_cents_iff)
  from assms(1) have "100 * x \<le> of_int n" by (simp add: y)
  then have "round_half_away (100 * x) \<le> n" by (rule round_half_away_le)
  then show ?thesis by (simp add: round2_def y)
qed

lemma numeric_12_2_Some: "numeric_12_2 x = Some y \<Longrightarrow> y = round2 x"
  by (auto simp: numeric_12_2_def split: if_splits)

lemma numeric_12_2_cents: "numeric_12_2 x = Some y \<Longrightarrow> in_cents y"
  using numeric_12_2_Some in_cents_round2 by blast

lemma numeric_12_2_le:
  "numeric_12_2 x = Some y \<Longrightarrow> x \<le> z \<Longrightarrow> in_cents z \<Longrightarrow> y \<le> z"
  using numeric_12_2_Some round2_le by blast

lemma numeric_12_2_numeral [simp]:
  "numeric_12_2 (numeral n) = (if (numeral n :: rat) < 10000000000 then Some (numeral n) else None)"
  by (simp add: numeric_12_2_def round2_in_cents)

lemma numeric_12_2_exact:
  "in_cents x \<Longrightarrow> \<bar>x\<bar> < 10000000000 \<Longrightarrow> numeric_12_2 x = Some x"
  by (simp add: numeric_12_2_def round2_in_cents)

section \<open>Time\<close>

text \<open>
  A \<open>datetime\<close> is its distance from 0001-01-01T00:00:00 UTC in microseconds. Adding a
  \<open>timedelta\<close> raises \<open>OverflowError\<close> outside the years 1 to 9999, and so does building a
  \<open>timedelta\<close> too long to fit (its own limit is wider than that range).
\<close>

type_synonym datetime = int

definition datetime_limit :: datetime where
  "datetime_limit = 3652059 * 86400 * 1000000"

definition add_microseconds :: "datetime \<Rightarrow> int \<Rightarrow> datetime option" where
  "add_microseconds t us = (if 0 \<le> t + us \<and> t + us < datetime_limit then Some (t + us) else None)"

definition add_seconds :: "datetime \<Rightarrow> int \<Rightarrow> datetime option" where
  "add_seconds t s = add_microseconds t (s * 1000000)"

lemma add_seconds_Some: "add_seconds t s = Some t' \<Longrightarrow> t' = t + s * 1000000"
  by (auto simp: add_seconds_def add_microseconds_def split: if_splits)

section \<open>HTTP\<close>

text \<open>An \<open>HTTPException\<close> with its status and its detail, or an uncaught exception (500).\<close>

datatype 'd http_error = HTTPException (status: nat) (detail: 'd)

section \<open>Tables\<close>

definition sum_where :: "('r \<Rightarrow> bool) \<Rightarrow> ('r \<Rightarrow> decimal) \<Rightarrow> 'r list \<Rightarrow> decimal" where
  "sum_where P f rows = sum_list (map f (filter P rows))"

definition update_where :: "('r \<Rightarrow> bool) \<Rightarrow> ('r \<Rightarrow> 'r) \<Rightarrow> 'r list \<Rightarrow> 'r list" where
  "update_where P f rows = map (\<lambda>r. if P r then f r else r) rows"

definition row_where :: "('r \<Rightarrow> bool) \<Rightarrow> 'r list \<Rightarrow> 'r option" where
  "row_where P rows = List.find P rows"

lemma sum_where_Nil [simp, table_simps]: "sum_where P f [] = 0"
  by (simp add: sum_where_def)

lemma sum_where_Cons [simp, table_simps]:
  "sum_where P f (r # rows) = (if P r then f r else 0) + sum_where P f rows"
  by (simp add: sum_where_def)

lemma sum_where_append [simp, table_simps]:
  "sum_where P f (xs @ ys) = sum_where P f xs + sum_where P f ys"
  by (simp add: sum_where_def)

lemma sum_where_nonneg: "(\<And>r. r \<in> set rows \<Longrightarrow> P r \<Longrightarrow> 0 \<le> f r) \<Longrightarrow> 0 \<le> sum_where P f rows"
  by (induction rows) (simp_all add: add_nonneg_nonneg)

lemma sum_where_cong:
  "(\<And>r. r \<in> set rows \<Longrightarrow> P r = Q r) \<Longrightarrow> (\<And>r. r \<in> set rows \<Longrightarrow> Q r \<Longrightarrow> f r = g r) \<Longrightarrow>
   sum_where P f rows = sum_where Q g rows"
  by (induction rows) auto

lemma sum_where_mono:
  "(\<And>r. r \<in> set rows \<Longrightarrow> P r \<Longrightarrow> Q r) \<Longrightarrow> (\<And>r. r \<in> set rows \<Longrightarrow> 0 \<le> f r) \<Longrightarrow>
   sum_where P f rows \<le> sum_where Q f rows"
proof (induction rows)
  case Nil
  then show ?case by simp
next
  case (Cons r rows)
  have "sum_where P f rows \<le> sum_where Q f rows" using Cons by simp
  moreover have "(if P r then f r else 0) \<le> (if Q r then f r else 0)"
    using Cons.prems by simp
  ultimately show ?case unfolding sum_where_Cons by (rule add_mono [rotated])
qed

lemma sum_where_cents:
  "(\<And>r. r \<in> set rows \<Longrightarrow> in_cents (f r)) \<Longrightarrow> in_cents (sum_where P f rows)"
  by (induction rows) (auto intro: in_cents_add)

lemma sum_where_none: "(\<And>r. r \<in> set rows \<Longrightarrow> \<not> P r) \<Longrightarrow> sum_where P f rows = 0"
  by (induction rows) auto

text \<open>An update changes a sum by what it changes in the rows it touches.\<close>

lemma sum_where_update:
  "sum_where Q g (update_where P f rows) =
   sum_where (\<lambda>r. Q (if P r then f r else r)) (\<lambda>r. g (if P r then f r else r)) rows"
  by (induction rows) (auto simp: update_where_def)

lemma update_where_Nil [simp, table_simps]: "update_where P f [] = []"
  by (simp add: update_where_def)

lemma update_where_Cons [simp, table_simps]:
  "update_where P f (r # rows) = (if P r then f r else r) # update_where P f rows"
  by (simp add: update_where_def)

lemma update_where_append [simp, table_simps]:
  "update_where P f (xs @ ys) = update_where P f xs @ update_where P f ys"
  by (simp add: update_where_def)

lemma length_update_where [simp]: "length (update_where P f rows) = length rows"
  by (simp add: update_where_def)

lemma set_update_where: "set (update_where P f rows) = (\<lambda>r. if P r then f r else r) ` set rows"
  by (simp add: update_where_def)

lemma map_update_where [simp]:
  "(\<And>r. g (f r) = g r) \<Longrightarrow> map g (update_where P f rows) = map g rows"
  by (induction rows) auto

lemma update_where_none: "(\<And>r. r \<in> set rows \<Longrightarrow> \<not> P r) \<Longrightarrow> update_where P f rows = rows"
  by (induction rows) auto

lemma row_where_Nil [simp, table_simps]: "row_where P [] = None"
  by (simp add: row_where_def)

lemma row_where_Cons [simp, table_simps]:
  "row_where P (r # rows) = (if P r then Some r else row_where P rows)"
  by (simp add: row_where_def)

lemma row_where_None: "row_where P rows = None \<longleftrightarrow> (\<forall>r\<in>set rows. \<not> P r)"
  by (induction rows) auto

lemma row_where_Some: "row_where P rows = Some r \<Longrightarrow> r \<in> set rows \<and> P r"
  by (induction rows) (auto split: if_splits)

lemma row_where_append [simp, table_simps]:
  "row_where P (xs @ ys) = (case row_where P xs of None \<Rightarrow> row_where P ys | Some r \<Rightarrow> Some r)"
  by (induction xs) auto

text \<open>An update seen by a lookup: by its own condition, or by one it does not concern.\<close>

lemma row_where_update:
  "(\<And>r. P (f r) = P r) \<Longrightarrow> row_where P (update_where P f rows) = map_option f (row_where P rows)"
  by (induction rows) auto

lemma row_where_update_other:
  "(\<And>r. P r \<Longrightarrow> \<not> Q r \<and> \<not> Q (f r)) \<Longrightarrow> row_where Q (update_where P f rows) = row_where Q rows"
  by (induction rows) auto

text \<open>With unique keys the row that \<open>fetchone\<close> returns is the only one there is.\<close>

lemma row_where_unique:
  assumes "distinct (map k rows)" and "r \<in> set rows"
  shows "row_where (\<lambda>r'. k r' = k r) rows = Some r"
  using assms
proof (induction rows)
  case Nil
  then show ?case by simp
next
  case (Cons x rows)
  show ?case
  proof (cases "r = x")
    case False
    with Cons.prems have "r \<in> set rows" by simp
    with Cons.prems have "k x \<noteq> k r" by (metis distinct.simps(2) image_eqI list.set_map list.simps(9))
    with Cons \<open>r \<in> set rows\<close> show ?thesis by simp
  qed simp
qed

section \<open>Stateful components\<close>

text \<open>
  Every service is driven by a sequence of operations on its own state. What each
  operation keeps, a whole run keeps.
\<close>

locale stateful =
  fixes apply_op :: "'op \<Rightarrow> 's \<Rightarrow> 's"
    and inv :: "'s \<Rightarrow> bool"
  assumes op_inv: "inv s \<Longrightarrow> inv (apply_op x s)"
begin

lemma run_inv: "inv s \<Longrightarrow> inv (fold apply_op xs s)"
  by (induction xs arbitrary: s) (simp_all add: op_inv)

lemma run_rel:
  assumes refl: "\<And>s. R s s" and trans: "\<And>a b c. R a b \<Longrightarrow> R b c \<Longrightarrow> R a c"
    and step: "\<And>s x. inv s \<Longrightarrow> R s (apply_op x s)"
  shows "inv s \<Longrightarrow> R s (fold apply_op xs s)"
proof (induction xs arbitrary: s)
  case Nil
  show ?case by (simp add: refl)
next
  case (Cons x xs)
  have "R s (apply_op x s)" using Cons.prems by (rule step)
  moreover have "R (apply_op x s) (fold apply_op xs (apply_op x s))"
    using Cons by (simp add: op_inv)
  ultimately show ?case using trans by simp
qed

end

end
