(* ===== verification/Schedules.thy ===== *)
theory Schedules
  imports Lab_Prelude
begin

text \<open>
  The deterministic schedule of \<^verbatim>\<open>apps/coordinator/schedule.py\<close>: the declared step list,
  the pointer into it, and the occurrence index that the coordinator assigns to each
  arrival, with \<^verbatim>\<open>expected_release_order\<close> of \<^verbatim>\<open>schedules/runner.py\<close>, the runner's own
  account of the same keys. The lemmas say which occurrence index a declared step
  carries, that the declared keys are pairwise distinct, and that arrivals of one
  (actor, checkpoint) pair are numbered 0, 1, 2, .. until the declaration is exhausted.
\<close>

section \<open>Data\<close>

type_synonym step = "string \<times> string"
type_synonym key = "string \<times> string \<times> nat"

text \<open>The message of the exception: schedule, actor, checkpoint, occurrence.\<close>

datatype undeclared_occurrence = UndeclaredOccurrence string string string nat

text \<open>\<open>arrivals\<close> is the \<open>Counter\<close> of the class: a missing entry reads as 0.\<close>

record schedule =
  schedule_id :: string
  steps :: "step list"
  pointer :: nat
  arrivals :: "step \<Rightarrow> nat"
  step_occurrence :: "nat list"
  declared :: "key set"

text \<open>The loop of the constructor, with its local counter \<open>seen\<close>.\<close>

fun occurrences :: "(step \<Rightarrow> nat) \<Rightarrow> step list \<Rightarrow> nat list" where
  "occurrences seen [] = []"
| "occurrences seen (s # ss) = seen s # occurrences (seen(s := Suc (seen s))) ss"

fun zip_keys :: "step list \<Rightarrow> nat list \<Rightarrow> key list" where
  "zip_keys ((actor, checkpoint) # ss) (n # ns) = (actor, checkpoint, n) # zip_keys ss ns"
| "zip_keys _ _ = []"

definition make_schedule :: "string \<Rightarrow> step list \<Rightarrow> schedule" where
  "make_schedule sid ss =
     (let occ = occurrences (\<lambda>_. 0) ss
      in \<lparr>schedule_id = sid, steps = ss, pointer = 0, arrivals = (\<lambda>_. 0),
          step_occurrence = occ, declared = set (zip_keys ss occ)\<rparr>)"

section \<open>Operations\<close>

definition is_complete :: "schedule \<Rightarrow> bool" where
  "is_complete s \<longleftrightarrow> length (steps s) \<le> pointer s"

definition known_actors :: "schedule \<Rightarrow> string set" where
  "known_actors s = fst ` set (steps s)"

definition current_step :: "schedule \<Rightarrow> key option" where
  "current_step s =
     (if is_complete s then None
      else case steps s ! pointer s of (actor, checkpoint) \<Rightarrow>
        Some (actor, checkpoint, step_occurrence s ! pointer s))"

definition matches_pointer :: "schedule \<Rightarrow> step \<Rightarrow> nat \<Rightarrow> bool" where
  "matches_pointer s step occurrence \<longleftrightarrow>
     (if is_complete s then False
      else steps s ! pointer s = step \<and> step_occurrence s ! pointer s = occurrence)"

definition arrive ::
  "string \<Rightarrow> string \<Rightarrow> schedule \<Rightarrow> undeclared_occurrence + (nat \<times> bool) \<times> schedule" where
  "arrive actor checkpoint s =
     (let step = (actor, checkpoint); occurrence = arrivals s step in
      if (actor, checkpoint, occurrence) \<notin> declared s
      then Inl (UndeclaredOccurrence (schedule_id s) actor checkpoint occurrence)
      else let s' = s\<lparr>arrivals := (arrivals s)(step := arrivals s step + 1)\<rparr>
           in Inr ((occurrence, matches_pointer s' step occurrence), s'))"

definition advance :: "schedule \<Rightarrow> schedule" where
  "advance s = s\<lparr>pointer := pointer s + 1\<rparr>"

text \<open>
  The runner's \<^verbatim>\<open>expected_release_order\<close>, over the steps of the loaded file: its own
  counter and its own list, appended to.
\<close>

fun expected_loop :: "(step \<Rightarrow> nat) \<Rightarrow> key list \<Rightarrow> step list \<Rightarrow> key list" where
  "expected_loop seen order [] = order"
| "expected_loop seen order ((actor, checkpoint) # ss) =
     expected_loop (seen((actor, checkpoint) := seen (actor, checkpoint) + 1))
       (order @ [(actor, checkpoint, seen (actor, checkpoint))]) ss"

definition expected_release_order :: "step list \<Rightarrow> key list" where
  "expected_release_order ss = expected_loop (\<lambda>_. 0) [] ss"

section \<open>The declared keys\<close>

definition step_of :: "key \<Rightarrow> step" where
  "step_of k = (fst k, fst (snd k))"

definition occ_of :: "key \<Rightarrow> nat" where
  "occ_of k = snd (snd k)"

lemma step_of_simp [simp]: "step_of (a, c, n) = (a, c)"
  by (simp add: step_of_def)

lemma occ_of_simp [simp]: "occ_of (a, c, n) = n"
  by (simp add: occ_of_def)

lemma key_eqI: "step_of k = step_of k' \<Longrightarrow> occ_of k = occ_of k' \<Longrightarrow> k = k'"
  by (cases k; cases k') simp

text \<open>The keys of a step list in declaration order.\<close>

definition keys_of :: "step list \<Rightarrow> key list" where
  "keys_of ss = zip_keys ss (occurrences (\<lambda>_. 0) ss)"

definition keys_from :: "(step \<Rightarrow> nat) \<Rightarrow> step list \<Rightarrow> key list" where
  "keys_from seen ss = zip_keys ss (occurrences seen ss)"

lemma keys_from_Nil [simp]: "keys_from seen [] = []"
  by (simp add: keys_from_def)

lemma keys_from_Cons [simp]:
  "keys_from seen (s # ss) =
     (fst s, snd s, seen s) # keys_from (seen(s := Suc (seen s))) ss"
  by (cases s) (simp add: keys_from_def)

lemma keys_of_from: "keys_of ss = keys_from (\<lambda>_. 0) ss"
  by (simp add: keys_of_def keys_from_def)

lemma length_occurrences [simp]: "length (occurrences seen ss) = length ss"
  by (induction ss arbitrary: seen) auto

lemma length_keys_from [simp]: "length (keys_from seen ss) = length ss"
  by (induction ss arbitrary: seen) auto

lemma length_keys_of [simp]: "length (keys_of ss) = length ss"
  by (simp add: keys_of_from)

lemma map_step_keys_from: "map step_of (keys_from seen ss) = ss"
  by (induction ss arbitrary: seen) auto

lemma keys_from_member:
  "k \<in> set (keys_from seen ss) \<longleftrightarrow>
     seen (step_of k) \<le> occ_of k \<and> occ_of k < seen (step_of k) + count_list ss (step_of k)"
proof (induction ss arbitrary: seen)
  case Nil
  then show ?case by simp
next
  case (Cons s ss)
  have "k = (fst s, snd s, seen s) \<longleftrightarrow> step_of k = s \<and> occ_of k = seen s"
    by (cases k; cases s) auto
  then show ?case by (auto simp: Cons.IH)
qed

lemma keys_of_member: "k \<in> set (keys_of ss) \<longleftrightarrow> occ_of k < count_list ss (step_of k)"
  by (simp add: keys_of_from keys_from_member)

lemma distinct_keys_from: "distinct (keys_from seen ss)"
  by (induction ss arbitrary: seen) (auto simp: keys_from_member)

lemma distinct_keys_of: "distinct (keys_of ss)"
  by (simp add: keys_of_from distinct_keys_from)

lemma expected_loop_keys: "expected_loop seen order ss = order @ keys_from seen ss"
  by (induction seen order ss rule: expected_loop.induct) (simp_all add: fun_upd_def)

lemma expected_keys: "expected_release_order ss = keys_of ss"
  by (simp add: expected_release_order_def expected_loop_keys keys_of_from)

section \<open>Well-formed schedules\<close>

definition wf_schedule :: "schedule \<Rightarrow> bool" where
  "wf_schedule s \<longleftrightarrow>
     step_occurrence s = occurrences (\<lambda>_. 0) (steps s) \<and>
     declared s = set (keys_of (steps s)) \<and>
     pointer s \<le> length (steps s) \<and>
     (\<forall>st. arrivals s st \<le> count_list (steps s) st)"

lemma wf_make_schedule [simp]: "wf_schedule (make_schedule sid ss)"
  by (simp add: wf_schedule_def make_schedule_def Let_def keys_of_def)

lemma make_schedule_simps [simp]:
  "steps (make_schedule sid ss) = ss" "pointer (make_schedule sid ss) = 0"
  "arrivals (make_schedule sid ss) = (\<lambda>_. 0)" "schedule_id (make_schedule sid ss) = sid"
  by (simp_all add: make_schedule_def Let_def)

lemma keys_of_nth:
  "i < length ss \<Longrightarrow> keys_of ss ! i = (fst (ss ! i), snd (ss ! i), occurrences (\<lambda>_. 0) ss ! i)"
proof -
  have "i < length ss \<Longrightarrow>
      keys_from seen ss ! i = (fst (ss ! i), snd (ss ! i), occurrences seen ss ! i)" for seen
    by (induction ss arbitrary: seen i) (auto simp: nth_Cons split: nat.splits)
  then show "i < length ss \<Longrightarrow> ?thesis" by (simp add: keys_of_from)
qed

lemma current_step_key:
  "wf_schedule s \<Longrightarrow> current_step s =
     (if pointer s < length (steps s) then Some (keys_of (steps s) ! pointer s) else None)"
  by (auto simp: current_step_def is_complete_def wf_schedule_def keys_of_nth split: prod.splits)

lemma matches_pointer_current:
  "matches_pointer s st n \<longleftrightarrow> current_step s = Some (fst st, snd st, n)"
  by (auto simp: matches_pointer_def current_step_def split: prod.splits)

lemma arrive_Inr:
  assumes "arrive a c s = Inr ((n, nxt), s')"
  shows "n = arrivals s (a, c)" and "(a, c, n) \<in> declared s"
    and "s' = s\<lparr>arrivals := (arrivals s)((a, c) := Suc n)\<rparr>"
    and "nxt \<longleftrightarrow> current_step s = Some (a, c, n)"
  using assms
  by (auto simp: arrive_def Let_def matches_pointer_current current_step_def is_complete_def
      split: if_splits)

lemma arrive_Inl:
  assumes "arrive a c s = Inl e"
  shows "(a, c, arrivals s (a, c)) \<notin> declared s"
    and "e = UndeclaredOccurrence (schedule_id s) a c (arrivals s (a, c))"
  using assms by (auto simp: arrive_def Let_def split: if_splits)

lemma wf_arrive [inv_intros]:
  assumes wf: "wf_schedule s" and arr: "arrive a c s = Inr (r, s')"
  shows "wf_schedule s'"
proof -
  obtain n nxt where r: "r = (n, nxt)" by (cases r)
  note A = arrive_Inr [OF arr [unfolded r]]
  have "n < count_list (steps s) (a, c)"
    using A(2) wf by (simp add: wf_schedule_def keys_of_member)
  then show ?thesis using wf A(1,3) by (auto simp: wf_schedule_def)
qed

lemma wf_advance [inv_intros]:
  "wf_schedule s \<Longrightarrow> pointer s < length (steps s) \<Longrightarrow> wf_schedule (advance s)"
  by (simp add: wf_schedule_def advance_def)

lemma advance_simps [simp]:
  "steps (advance s) = steps s" "arrivals (advance s) = arrivals s"
  "pointer (advance s) = Suc (pointer s)" "schedule_id (advance s) = schedule_id s"
  "declared (advance s) = declared s" "step_occurrence (advance s) = step_occurrence s"
  by (simp_all add: advance_def)

text \<open>An arrival is accepted exactly while the declaration still has that occurrence.\<close>

lemma arrive_accepts:
  assumes "wf_schedule s"
  shows "(\<exists>r. arrive a c s = Inr r) \<longleftrightarrow> arrivals s (a, c) < count_list (steps s) (a, c)"
  using assms by (auto simp: arrive_def Let_def wf_schedule_def keys_of_member)

section \<open>Properties\<close>

text \<open>
  The order in which the runner expects the barrier to release its waiters is the
  coordinator's own list of declared keys: two independently written loops, each with its
  own counter, assign the same occurrence index to every declared step. And no key occurs
  twice, so a release can be attributed to one declared step.
\<close>

lemma runner_and_coordinator_agree_on_keys:
  "expected_release_order ss =
     zip_keys (steps (make_schedule sid ss)) (step_occurrence (make_schedule sid ss))
   \<and> distinct (expected_release_order ss)
   \<and> declared (make_schedule sid ss) = set (expected_release_order ss)
   \<and> map step_of (expected_release_order ss) = ss"
  by (simp add: expected_keys make_schedule_def Let_def distinct_keys_from map_step_keys_from
      keys_of_from flip: keys_of_def)

end
