(* ===== verification/Barriers.thy ===== *)
theory Barriers
  imports Schedules "HOL-Library.Multiset"
begin

text \<open>
  The barrier of \<^verbatim>\<open>apps/coordinator/barrier.py\<close>. The state is the object's fields; a
  \<open>threading.Event\<close> is represented by the key it was created for, and \<open>signalled\<close> lists
  the events that have been set. Each \<open>with self._lock\<close> section is one operation here:
  \<open>wait_enter\<close> is the first section of \<open>wait\<close>, \<open>wait_timeout\<close> the section a waiter runs
  when \<open>event.wait\<close> returns False, \<open>wait_woken\<close> what it does when it returns True.
  \<open>abort\<close> is its locked section followed by the \<open>event.set\<close> calls: between the two only
  a timing-out waiter could observe the difference, and \<open>wait_timeout\<close> may run for any
  key at any time in the operation sequences below.

  The lemmas: the cascade loop ends; what it releases is the longest run of parked
  waiters from the pointer on; the invariant \<open>barrier_inv\<close> and that every operation keeps
  it; that an aborted barrier never releases again; and that arrivals in any order drive
  the schedule to its end in declaration order.
\<close>

section \<open>State\<close>

type_synonym time = rat

text \<open>schedule id, the waiter, the key the pointer expects, the keys still parked.\<close>

datatype barrier_timeout = BarrierTimeout string key "key option" "key list"

datatype abort_reason =
    Missing_Actor_Id
  | Missing_Schedule_Id
  | Schedule_Mismatch string
  | Unknown_Actor string
  | Undeclared undeclared_occurrence
  | Timed_Out barrier_timeout
  | Lease_Expired "key list"
  | Reset_Requested

datatype key_error = KeyError key

record barrier =
  sched :: schedule
  parked :: "key list"
  leases :: "(key \<times> time) list"
  lease_ttls :: "(key \<times> time) list"
  release_order :: "key list"
  aborted :: "abort_reason option"
  signalled :: "key list"

definition make_barrier :: "schedule \<Rightarrow> barrier" where
  "make_barrier s = \<lparr>sched = s, parked = [], leases = [], lease_ttls = [],
     release_order = [], aborted = None, signalled = []\<rparr>"

lemma make_barrier_simps [simp]:
  "sched (make_barrier s) = s" "parked (make_barrier s) = []" "leases (make_barrier s) = []"
  "release_order (make_barrier s) = []" "aborted (make_barrier s) = None"
  by (simp_all add: make_barrier_def)

section \<open>Operations\<close>

definition abort :: "abort_reason \<Rightarrow> barrier \<Rightarrow> barrier" where
  "abort reason b = b\<lparr>aborted := (if aborted b = None then Some reason else aborted b),
     parked := [], leases := [], lease_ttls := [],
     signalled := signalled b @ parked b\<rparr>"

definition waiters_locked :: "barrier \<Rightarrow> key list" where
  "waiters_locked b = sort (parked b)"

text \<open>One round of the \<open>while True\<close> loop: the parked waiter at the pointer is released.\<close>

definition release_parked :: "key \<Rightarrow> barrier \<Rightarrow> barrier" where
  "release_parked k b = b\<lparr>parked := remove1 k (parked b),
     leases := AList.delete k (leases b), lease_ttls := AList.delete k (lease_ttls b),
     release_order := release_order b @ [k], signalled := signalled b @ [k],
     sched := advance (sched b)\<rparr>"

function cascade :: "barrier \<Rightarrow> barrier" where
  "cascade b = (case current_step (sched b) of None \<Rightarrow> b
     | Some k \<Rightarrow> if k \<in> set (parked b) then cascade (release_parked k b) else b)"
  by pat_completeness auto
termination
  by (relation "measure (\<lambda>b. length (steps (sched b)) - pointer (sched b))")
     (auto simp: release_parked_def current_step_def is_complete_def split: if_splits)

declare cascade.simps [simp del]

definition advance_locked :: "key \<Rightarrow> barrier \<Rightarrow> barrier" where
  "advance_locked k b = cascade (b\<lparr>release_order := release_order b @ [k],
     leases := AList.delete k (leases b), lease_ttls := AList.delete k (lease_ttls b),
     sched := advance (sched b)\<rparr>)"

datatype wait_result =
    Wait_Aborted abort_reason
  | Wait_Undeclared undeclared_occurrence
  | Wait_Released nat
  | Wait_Parked key

definition wait_enter ::
  "time \<Rightarrow> time option \<Rightarrow> string \<Rightarrow> string \<Rightarrow> barrier \<Rightarrow> wait_result \<times> barrier" where
  "wait_enter now lease_ttl actor checkpoint b =
     (case aborted b of Some reason \<Rightarrow> (Wait_Aborted reason, b)
      | None \<Rightarrow> (case arrive actor checkpoint (sched b) of
          Inl e \<Rightarrow> (Wait_Undeclared e, b)
        | Inr ((occurrence, is_next), s') \<Rightarrow>
            (let k = (actor, checkpoint, occurrence); b = b\<lparr>sched := s'\<rparr> in
             if is_next then (Wait_Released occurrence, advance_locked k b)
             else let b = b\<lparr>parked := parked b @ [k]\<rparr> in
               (Wait_Parked k,
                case lease_ttl of None \<Rightarrow> b
                | Some ttl \<Rightarrow> b\<lparr>leases := AList.update k (now + ttl) (leases b),
                    lease_ttls := AList.update k ttl (lease_ttls b)\<rparr>))))"

definition wait_timeout :: "key \<Rightarrow> barrier \<Rightarrow> barrier_timeout \<times> barrier" where
  "wait_timeout k b =
     (let b = b\<lparr>parked := remove1 k (parked b), leases := AList.delete k (leases b),
        lease_ttls := AList.delete k (lease_ttls b)\<rparr>
      in (BarrierTimeout (schedule_id (sched b)) k (current_step (sched b)) (waiters_locked b), b))"

definition wait_woken :: "key \<Rightarrow> barrier \<Rightarrow> abort_reason + nat" where
  "wait_woken k b = (case aborted b of Some reason \<Rightarrow> Inl reason | None \<Rightarrow> Inr (occ_of k))"

definition heartbeat ::
  "time \<Rightarrow> string \<Rightarrow> string \<Rightarrow> nat \<Rightarrow> barrier \<Rightarrow> key_error + bool \<times> barrier" where
  "heartbeat now actor checkpoint occurrence b =
     (let k = (actor, checkpoint, occurrence) in
      if k \<notin> fst ` set (leases b) then Inr (False, b)
      else case map_of (lease_ttls b) k of None \<Rightarrow> Inl (KeyError k)
        | Some ttl \<Rightarrow> Inr (True, b\<lparr>leases := AList.update k (now + ttl) (leases b)\<rparr>))"

definition expired_leases :: "time \<Rightarrow> barrier \<Rightarrow> key list" where
  "expired_leases now b = sort (map fst (filter (\<lambda>(k, e). e \<le> now) (leases b)))"

definition reap :: "time \<Rightarrow> barrier \<Rightarrow> key list \<times> barrier" where
  "reap now b = (let expired = expired_leases now b in
     (expired, if expired \<noteq> [] then abort (Lease_Expired expired) b else b))"

text \<open>One pass of the reaper thread's loop; the flag says whether the thread goes on.\<close>

definition reaper_pass :: "time \<Rightarrow> barrier \<Rightarrow> bool \<times> barrier" where
  "reaper_pass now b = (if aborted b \<noteq> None then (False, b) else (True, snd (reap now b)))"

text \<open>
  The locked sections, in any interleaving. A reaper that has computed its expired keys
  aborts in a later section, which is \<open>Abort_Op (Lease_Expired ks)\<close>.
\<close>

datatype barrier_op =
    Wait_Op string string time "time option"
  | Timeout_Op key
  | Heartbeat_Op string string nat time
  | Reap_Op time
  | Abort_Op abort_reason

fun barrier_step :: "barrier_op \<Rightarrow> barrier \<Rightarrow> barrier" where
  "barrier_step (Wait_Op a c now ttl) b = snd (wait_enter now ttl a c b)"
| "barrier_step (Timeout_Op k) b = snd (wait_timeout k b)"
| "barrier_step (Heartbeat_Op a c n now) b =
     (case heartbeat now a c n b of Inl _ \<Rightarrow> b | Inr (_, b') \<Rightarrow> b')"
| "barrier_step (Reap_Op now) b = snd (reap now b)"
| "barrier_step (Abort_Op r) b = abort r b"

section \<open>The invariant\<close>

text \<open>Both lease dictionaries have the same keys, all of them parked waiters.\<close>

definition lease_inv :: "key set \<Rightarrow> (key \<times> time) list \<Rightarrow> (key \<times> time) list \<Rightarrow> bool" where
  "lease_inv ks ls ttls \<longleftrightarrow>
     map fst ls = map fst ttls \<and> distinct (map fst ttls) \<and> set (map fst ttls) \<subseteq> ks"

lemma lease_inv_Nil [simp]: "lease_inv ks [] []"
  by (simp add: lease_inv_def)

lemma lease_inv_mono: "lease_inv ks ls ttls \<Longrightarrow> ks \<subseteq> ks' \<Longrightarrow> lease_inv ks' ls ttls"
  by (auto simp: lease_inv_def)

lemma lease_inv_delete:
  "lease_inv ks ls ttls \<Longrightarrow> lease_inv (ks - {k}) (AList.delete k ls) (AList.delete k ttls)"
  unfolding lease_inv_def delete_keys by (auto simp: distinct_removeAll)

lemma lease_inv_update:
  "lease_inv ks ls ttls \<Longrightarrow> k \<in> ks \<Longrightarrow> lease_inv ks (AList.update k v ls) (AList.update k w ttls)"
  unfolding lease_inv_def update_keys by auto

lemma lease_inv_refresh:
  "lease_inv ks ls ttls \<Longrightarrow> k \<in> fst ` set ls \<Longrightarrow> lease_inv ks (AList.update k v ls) ttls"
  unfolding lease_inv_def update_keys by (metis list.set_map)

text \<open>What holds at every point under the lock, also in the middle of the cascade.\<close>

definition core_inv :: "barrier \<Rightarrow> bool" where
  "core_inv b \<longleftrightarrow>
     wf_schedule (sched b) \<and>
     release_order b = take (pointer (sched b)) (keys_of (steps (sched b))) \<and>
     distinct (parked b) \<and>
     (\<forall>k\<in>set (parked b). occ_of k < arrivals (sched b) (step_of k) \<and> k \<notin> set (release_order b)) \<and>
     (\<forall>k\<in>set (release_order b). occ_of k < arrivals (sched b) (step_of k)) \<and>
     (aborted b \<noteq> None \<longrightarrow> parked b = []) \<and>
     lease_inv (set (parked b)) (leases b) (lease_ttls b) \<and>
     (aborted b = None \<longrightarrow> set (signalled b) \<subseteq> set (release_order b))"

text \<open>No waiter is parked at the pointer: it would be a missed wake-up.\<close>

definition settled :: "barrier \<Rightarrow> bool" where
  "settled b \<longleftrightarrow> (\<forall>k. current_step (sched b) = Some k \<longrightarrow> k \<notin> set (parked b))"

definition barrier_inv :: "barrier \<Rightarrow> bool" where
  "barrier_inv b \<longleftrightarrow> core_inv b \<and> settled b"

text \<open>What no operation changes, and how the release order may grow.\<close>

definition same_run :: "barrier \<Rightarrow> barrier \<Rightarrow> bool" where
  "same_run b b' \<longleftrightarrow>
     steps (sched b') = steps (sched b) \<and>
     schedule_id (sched b') = schedule_id (sched b) \<and>
     (\<exists>ks. release_order b' = release_order b @ ks) \<and>
     (aborted b \<noteq> None \<longrightarrow> aborted b' = aborted b \<and> release_order b' = release_order b)"

lemma same_run_refl [simp]: "same_run b b"
  by (simp add: same_run_def)

lemma same_run_trans: "same_run a b \<Longrightarrow> same_run b c \<Longrightarrow> same_run a c"
  by (auto simp: same_run_def)

lemma core_inv_make [simp]: "wf_schedule s \<Longrightarrow> pointer s = 0 \<Longrightarrow> core_inv (make_barrier s)"
  by (simp add: core_inv_def make_barrier_def)

lemma barrier_inv_make [simp]: "barrier_inv (make_barrier (make_schedule sid ss))"
  by (simp add: barrier_inv_def settled_def make_barrier_def core_inv_def)

section \<open>The cascade\<close>

lemma current_key:
  "wf_schedule s \<Longrightarrow> current_step s = Some k \<Longrightarrow>
     pointer s < length (steps s) \<and> k = keys_of (steps s) ! pointer s"
  by (simp add: current_step_key split: if_splits)

lemma release_next:
  assumes wf: "wf_schedule s" and cur: "current_step s = Some k"
  shows "take (Suc (pointer s)) (keys_of (steps s)) = take (pointer s) (keys_of (steps s)) @ [k]"
    and "k \<notin> set (take (pointer s) (keys_of (steps s)))"
proof -
  from current_key [OF assms] have p: "pointer s < length (keys_of (steps s))"
    and k: "k = keys_of (steps s) ! pointer s" by simp_all
  then show "take (Suc (pointer s)) (keys_of (steps s)) =
      take (pointer s) (keys_of (steps s)) @ [k]"
    by (simp add: take_Suc_conv_app_nth)
  have "distinct (take (Suc (pointer s)) (keys_of (steps s)))"
    by (rule distinct_take [OF distinct_keys_of])
  with p k show "k \<notin> set (take (pointer s) (keys_of (steps s)))"
    by (simp add: take_Suc_conv_app_nth)
qed

text \<open>
  Releasing the key at the pointer, parked or just arrived: the part of the invariant that
  the two callers share.
\<close>

lemma core_inv_release:
  assumes inv: "core_inv b" and cur: "current_step (sched b) = Some k"
    and arr: "occ_of k < arrivals (sched b) (step_of k)" and ab: "aborted b = None"
    and s: "set s' \<subseteq> insert k (set (signalled b))"
  shows "core_inv (b\<lparr>parked := remove1 k (parked b),
     leases := AList.delete k (leases b), lease_ttls := AList.delete k (lease_ttls b),
     release_order := release_order b @ [k], signalled := s', sched := advance (sched b)\<rparr>)"
proof -
  have wf: "wf_schedule (sched b)" using inv by (simp add: core_inv_def)
  note nxt = release_next [OF wf cur]
  have p: "pointer (sched b) < length (steps (sched b))" using current_key [OF wf cur] by simp
  show ?thesis
    using inv arr ab s nxt wf_advance [OF wf p]
    unfolding core_inv_def by (auto simp: lease_inv_delete)
qed

lemma core_inv_release_parked:
  assumes "core_inv b" and "current_step (sched b) = Some k" and "k \<in> set (parked b)"
  shows "core_inv (release_parked k b)"
proof -
  have "occ_of k < arrivals (sched b) (step_of k)" "aborted b = None"
    using assms by (auto simp: core_inv_def)
  with assms show ?thesis
    unfolding release_parked_def by (intro core_inv_release) auto
qed

lemma release_parked_simps [simp]:
  "aborted (release_parked k b) = aborted b"
  "steps (sched (release_parked k b)) = steps (sched b)"
  "arrivals (sched (release_parked k b)) = arrivals (sched b)"
  "schedule_id (sched (release_parked k b)) = schedule_id (sched b)"
  "release_order (release_parked k b) = release_order b @ [k]"
  by (simp_all add: release_parked_def)

lemma cascade_frame:
  "aborted (cascade b) = aborted b \<and> steps (sched (cascade b)) = steps (sched b)
   \<and> arrivals (sched (cascade b)) = arrivals (sched b)
   \<and> schedule_id (sched (cascade b)) = schedule_id (sched b)
   \<and> set (release_order (cascade b)) \<union> set (parked (cascade b))
       \<supseteq> set (release_order b) \<union> set (parked b)
   \<and> (\<exists>ks. release_order (cascade b) = release_order b @ ks)"
proof (induction b rule: cascade.induct)
  case (1 b)
  show ?case
  proof (cases "\<exists>k. current_step (sched b) = Some k \<and> k \<in> set (parked b)")
    case True
    then obtain k where k: "current_step (sched b) = Some k" "k \<in> set (parked b)" by blast
    have "set (parked b) \<subseteq> insert k (set (parked (release_parked k b)))"
      by (simp add: release_parked_def) (metis insert_iff in_set_remove1 subsetI)
    with "1.IH" [OF k] show ?thesis by (simp add: cascade.simps [of b] k) fastforce
  next
    case False
    then show ?thesis by (auto simp: cascade.simps [of b] split: option.splits)
  qed
qed

lemma cascade_inv: "core_inv b \<Longrightarrow> core_inv (cascade b) \<and> settled (cascade b)"
proof (induction b rule: cascade.induct)
  case (1 b)
  show ?case
  proof (cases "\<exists>k. current_step (sched b) = Some k \<and> k \<in> set (parked b)")
    case True
    then obtain k where k: "current_step (sched b) = Some k" "k \<in> set (parked b)" by blast
    from "1.IH" [OF k core_inv_release_parked [OF "1.prems" k]] show ?thesis
      by (simp add: cascade.simps [of b] k)
  next
    case False
    with "1.prems" show ?thesis
      by (auto simp: cascade.simps [of b] settled_def split: option.splits)
  qed
qed

section \<open>Every operation keeps the invariant\<close>

lemma current_step_arrivals [simp]: "current_step (s\<lparr>arrivals := f\<rparr>) = current_step s"
  by (simp add: current_step_def is_complete_def)

lemma core_arrived:
  "core_inv b \<Longrightarrow> k \<in> set (parked b) \<union> set (release_order b) \<Longrightarrow>
     occ_of k < arrivals (sched b) (step_of k)"
  unfolding core_inv_def by blast

lemma core_inv_arrive:
  assumes inv: "core_inv b" and arr: "arrive a c (sched b) = Inr ((n, nxt), s')"
  shows "core_inv (b\<lparr>sched := s'\<rparr>)" and "current_step s' = current_step (sched b)"
    and "n < arrivals s' (a, c)"
    and "(a, c, n) \<notin> set (parked b)" and "(a, c, n) \<notin> set (release_order b)"
    and "steps s' = steps (sched b)" and "schedule_id s' = schedule_id (sched b)"
proof -
  note A = arrive_Inr [OF arr]
  have wf: "wf_schedule s'" using inv arr by (auto simp: core_inv_def intro: wf_arrive)
  have mono: "arrivals (sched b) st \<le> arrivals s' st" for st using A(1,3) by simp
  have "steps s' = steps (sched b)" "pointer s' = pointer (sched b)" using A(3) by simp_all
  then show "core_inv (b\<lparr>sched := s'\<rparr>)"
    using inv wf unfolding core_inv_def by (auto intro: less_le_trans [OF _ mono])
  show "current_step s' = current_step (sched b)" "n < arrivals s' (a, c)"
    "steps s' = steps (sched b)" "schedule_id s' = schedule_id (sched b)"
    using A(3) by simp_all
  show "(a, c, n) \<notin> set (parked b)" "(a, c, n) \<notin> set (release_order b)"
    using core_arrived [OF inv, of "(a, c, n)"] A(1) by auto
qed

lemma advance_locked_inv:
  assumes inv: "core_inv b" and cur: "current_step (sched b) = Some k"
    and arr: "occ_of k < arrivals (sched b) (step_of k)" and ab: "aborted b = None"
    and new: "k \<notin> set (parked b)"
  shows "barrier_inv (advance_locked k b)"
proof -
  let ?b = "b\<lparr>release_order := release_order b @ [k],
     leases := AList.delete k (leases b), lease_ttls := AList.delete k (lease_ttls b),
     sched := advance (sched b)\<rparr>"
  have "?b = b\<lparr>parked := remove1 k (parked b),
     leases := AList.delete k (leases b), lease_ttls := AList.delete k (lease_ttls b),
     release_order := release_order b @ [k], signalled := signalled b,
     sched := advance (sched b)\<rparr>"
    using new by (simp add: remove1_idem)
  also have "core_inv \<dots>" using assms by (intro core_inv_release) auto
  finally show ?thesis
    unfolding advance_locked_def barrier_inv_def by (rule cascade_inv)
qed

lemma advance_locked_frame:
  "aborted (advance_locked k b) = aborted b"
  "steps (sched (advance_locked k b)) = steps (sched b)"
  "arrivals (sched (advance_locked k b)) = arrivals (sched b)"
  "schedule_id (sched (advance_locked k b)) = schedule_id (sched b)"
  "set (release_order (advance_locked k b)) \<union> set (parked (advance_locked k b))
     \<supseteq> insert k (set (release_order b) \<union> set (parked b))"
  "\<exists>ks. release_order (advance_locked k b) = release_order b @ k # ks"
  using cascade_frame [of "b\<lparr>release_order := release_order b @ [k],
     leases := AList.delete k (leases b), lease_ttls := AList.delete k (lease_ttls b),
     sched := advance (sched b)\<rparr>"]
  by (auto simp: advance_locked_def)

text \<open>The two ways in which an arrival leaves the first locked section of \<open>wait\<close>.\<close>

lemma wait_enter_cases:
  assumes "wait_enter now ttl a c b = (r, b')"
  obtains (aborted) reason where "aborted b = Some reason" "r = Wait_Aborted reason" "b' = b"
  | (undeclared) e where "aborted b = None" "arrive a c (sched b) = Inl e"
      "r = Wait_Undeclared e" "b' = b"
  | (released) n s' where "aborted b = None" "arrive a c (sched b) = Inr ((n, True), s')"
      "r = Wait_Released n" "b' = advance_locked (a, c, n) (b\<lparr>sched := s'\<rparr>)"
  | (parked) n s' ls ts where "aborted b = None" "arrive a c (sched b) = Inr ((n, False), s')"
      "r = Wait_Parked (a, c, n)"
      "b' = b\<lparr>sched := s', parked := parked b @ [(a, c, n)], leases := ls, lease_ttls := ts\<rparr>"
      "(ls, ts) = (case ttl of None \<Rightarrow> (leases b, lease_ttls b)
         | Some t \<Rightarrow> (AList.update (a, c, n) (now + t) (leases b),
             AList.update (a, c, n) t (lease_ttls b)))"
  using assms unfolding wait_enter_def
  by (auto simp: Let_def split: option.splits sum.splits prod.splits if_splits)

lemma wait_enter_inv:
  assumes inv: "barrier_inv b" and w: "wait_enter now ttl a c b = (r, b')"
  shows "barrier_inv b' \<and> same_run b b'"
  using w
proof (cases rule: wait_enter_cases)
  case (released n s')
  have core: "core_inv b" using inv by (simp add: barrier_inv_def)
  note A = core_inv_arrive [OF core released(2)]
  have cur: "current_step s' = Some (a, c, n)"
    using arrive_Inr(4) [OF released(2)] A(2) by simp
  have "barrier_inv b'"
    unfolding released(4) using A(1,3,4) cur released(1) by (intro advance_locked_inv) auto
  moreover have "same_run b b'"
    using advance_locked_frame [of "(a, c, n)" "b\<lparr>sched := s'\<rparr>"] A(6,7) released(1)
    by (auto simp: same_run_def released(4))
  ultimately show ?thesis ..
next
  case (parked n s' ls ts)
  have core: "core_inv b" using inv by (simp add: barrier_inv_def)
  note A = core_inv_arrive [OF core parked(2)]
  have "current_step s' \<noteq> Some (a, c, n)"
    using arrive_Inr(4) [OF parked(2)] A(2) by simp
  moreover have "lease_inv (set (parked b) \<union> {(a, c, n)}) ls ts"
    using parked(5) core
    by (auto simp: core_inv_def split: option.splits intro: lease_inv_update
        elim: lease_inv_mono)
  ultimately have "barrier_inv b'"
    using inv A parked(1,4) by (auto simp: barrier_inv_def settled_def core_inv_def)
  then show ?thesis using A(6,7) parked(1,4) by (simp add: same_run_def)
qed (use inv in simp_all)

lemma wait_timeout_inv:
  "barrier_inv b \<Longrightarrow> barrier_inv (snd (wait_timeout k b)) \<and> same_run b (snd (wait_timeout k b))"
  by (auto simp: wait_timeout_def barrier_inv_def settled_def core_inv_def same_run_def
      Let_def lease_inv_delete remove1_idem notin_set_remove1)

lemma heartbeat_cases:
  assumes inv: "barrier_inv b"
  obtains (absent) "heartbeat now a c n b = Inr (False, b)"
  | (refreshed) ls where "heartbeat now a c n b = Inr (True, b\<lparr>leases := ls\<rparr>)"
      "lease_inv (set (parked b)) ls (lease_ttls b)"
proof -
  have li: "lease_inv (set (parked b)) (leases b) (lease_ttls b)"
    using inv by (simp add: barrier_inv_def core_inv_def)
  then have eq: "fst ` set (leases b) = dom (map_of (lease_ttls b))"
    unfolding lease_inv_def dom_map_of_conv_image_fst by (metis list.set_map)
  show thesis
  proof (cases "(a, c, n) \<in> fst ` set (leases b)")
    case True
    then obtain t where "map_of (lease_ttls b) (a, c, n) = Some t"
      unfolding eq by auto
    then have "heartbeat now a c n b =
        Inr (True, b\<lparr>leases := AList.update (a, c, n) (now + t) (leases b)\<rparr>)"
      using True by (simp add: heartbeat_def Let_def)
    then show thesis using lease_inv_refresh [OF li True] by (rule refreshed)
  next
    case False
    then have "heartbeat now a c n b = Inr (False, b)" by (simp add: heartbeat_def Let_def)
    then show thesis by (rule absent)
  qed
qed

lemma barrier_inv_leases:
  "barrier_inv b \<Longrightarrow> lease_inv (set (parked b)) ls (lease_ttls b) \<Longrightarrow>
     barrier_inv (b\<lparr>leases := ls\<rparr>) \<and> same_run b (b\<lparr>leases := ls\<rparr>)"
  unfolding barrier_inv_def core_inv_def settled_def same_run_def by clarsimp

lemma heartbeat_no_key_error:
  assumes inv: "barrier_inv b" shows "\<not> isl (heartbeat now a c n b)"
  by (rule heartbeat_cases [OF inv, of now a c n]) simp_all

lemma heartbeat_inv:
  assumes inv: "barrier_inv b" and hb: "heartbeat now a c n b = Inr (r, b')"
  shows "barrier_inv b' \<and> same_run b b'"
  by (rule heartbeat_cases [OF inv, of now a c n])
     (use inv hb barrier_inv_leases [OF inv] in auto)

lemma abort_inv: "barrier_inv b \<Longrightarrow> barrier_inv (abort r b) \<and> same_run b (abort r b)"
  by (auto simp: abort_def barrier_inv_def core_inv_def settled_def same_run_def)

lemma reap_inv: "barrier_inv b \<Longrightarrow> barrier_inv (snd (reap now b)) \<and> same_run b (snd (reap now b))"
  using abort_inv by (simp add: reap_def Let_def)

lemma barrier_step_inv:
  assumes "barrier_inv b"
  shows "barrier_inv (barrier_step x b) \<and> same_run b (barrier_step x b)"
proof (cases x)
  case (Wait_Op a c now ttl)
  then show ?thesis
    using wait_enter_inv [OF assms, of now ttl a c] by (cases "wait_enter now ttl a c b") simp
next
  case (Heartbeat_Op a c n now)
  then show ?thesis
    using heartbeat_inv [OF assms, of now a c n] assms by (auto split: sum.split)
qed (use assms in \<open>simp_all add: wait_timeout_inv reap_inv abort_inv\<close>)

interpretation br: stateful barrier_step barrier_inv
  by unfold_locales (simp add: barrier_step_inv)

definition barrier_run :: "string \<Rightarrow> step list \<Rightarrow> barrier_op list \<Rightarrow> barrier" where
  "barrier_run sid ss xs = fold barrier_step xs (make_barrier (make_schedule sid ss))"

lemma barrier_run_inv: "barrier_inv (barrier_run sid ss xs)"
  unfolding barrier_run_def by (rule br.run_inv) simp

lemma barrier_run_same: "barrier_inv b \<Longrightarrow> same_run b (fold barrier_step xs b)"
  by (rule br.run_rel [of same_run]) (auto intro: same_run_trans simp: barrier_step_inv)

lemma steps_barrier_run [simp]: "steps (sched (barrier_run sid ss xs)) = ss"
  using barrier_run_same [OF barrier_inv_make, of sid ss xs]
  by (simp add: barrier_run_def same_run_def)

section \<open>Arrivals without timeouts or aborts\<close>

text \<open>Every arrival so far has been released or is parked: none was lost.\<close>

definition accounted :: "barrier \<Rightarrow> bool" where
  "accounted b \<longleftrightarrow> (\<forall>k. occ_of k < arrivals (sched b) (step_of k) \<longrightarrow>
     k \<in> set (release_order b) \<union> set (parked b))"

lemma accountedD:
  "accounted b \<Longrightarrow> occ_of k < arrivals (sched b) (step_of k) \<Longrightarrow>
     k \<in> set (release_order b) \<union> set (parked b)"
  unfolding accounted_def by blast

lemma accounted_make [simp]: "accounted (make_barrier (make_schedule sid ss))"
  by (simp add: accounted_def)

lemma wait_enter_accounts:
  assumes inv: "barrier_inv b" and ab: "aborted b = None" and acc: "accounted b"
    and room: "arrivals (sched b) (a, c) < count_list (steps (sched b)) (a, c)"
    and w: "wait_enter now ttl a c b = (r, b')"
  shows "aborted b' = None" and "accounted b'"
    and "arrivals (sched b') = (arrivals (sched b))((a, c) := Suc (arrivals (sched b) (a, c)))"
proof -
  have wf: "wf_schedule (sched b)" using inv by (simp add: barrier_inv_def core_inv_def)
  have "aborted b' = None \<and> accounted b' \<and>
      arrivals (sched b') = (arrivals (sched b))((a, c) := Suc (arrivals (sched b) (a, c)))"
    using w
  proof (cases rule: wait_enter_cases)
    case (aborted reason)
    then show ?thesis using ab by simp
  next
    case (undeclared e)
    then show ?thesis using arrive_accepts [OF wf, of a c] room by auto
  next
    case (released n s')
    note A = arrive_Inr [OF released(2)]
    note F = advance_locked_frame [of "(a, c, n)" "b\<lparr>sched := s'\<rparr>"]
    have "accounted b'" unfolding accounted_def
    proof (intro allI impI)
      fix k assume "occ_of k < arrivals (sched b') (step_of k)"
      then have "k = (a, c, n) \<or> occ_of k < arrivals (sched b) (step_of k)"
        using F(3) A(1,3) released(4) by (auto simp: less_Suc_eq intro!: key_eqI split: if_splits)
      then have "k \<in> insert (a, c, n) (set (release_order b) \<union> set (parked b))"
        using accountedD [OF acc] by blast
      then show "k \<in> set (release_order b') \<union> set (parked b')"
        using F(5) released(4) by auto
    qed
    then show ?thesis using F(1,3) A(1,3) released(4) ab by simp
  next
    case (parked n s' ls ts)
    note A = arrive_Inr [OF parked(2)]
    have "accounted b'" unfolding accounted_def
    proof (intro allI impI)
      fix k assume "occ_of k < arrivals (sched b') (step_of k)"
      then have "k = (a, c, n) \<or> occ_of k < arrivals (sched b) (step_of k)"
        using A(1,3) parked(4) by (auto simp: less_Suc_eq intro!: key_eqI split: if_splits)
      then have "k \<in> insert (a, c, n) (set (release_order b) \<union> set (Barriers.parked b))"
        using accountedD [OF acc] by blast
      then show "k \<in> set (release_order b') \<union> set (Barriers.parked b')"
        using parked(4) by auto
    qed
    then show ?thesis using A(1,3) parked(4) ab by simp
  qed
  then show "aborted b' = None" "accounted b'"
    "arrivals (sched b') = (arrivals (sched b))((a, c) := Suc (arrivals (sched b) (a, c)))"
    by simp_all
qed

type_synonym arrival = "step \<times> time \<times> time option"

fun wait_op :: "arrival \<Rightarrow> barrier_op" where
  "wait_op ((a, c), now, ttl) = Wait_Op a c now ttl"

lemma arrivals_run:
  assumes "barrier_inv b" "aborted b = None" "accounted b"
    and "\<And>st. arrivals (sched b) st + count_list (map fst ars) st \<le> count_list (steps (sched b)) st"
    and "b' = fold barrier_step (map wait_op ars) b"
  shows "aborted b' = None \<and> accounted b' \<and>
     arrivals (sched b') = (\<lambda>st. arrivals (sched b) st + count_list (map fst ars) st)"
  using assms
proof (induction ars arbitrary: b)
  case Nil
  then show ?case by simp
next
  case (Cons x ars)
  obtain a c now ttl where x: "x = ((a, c), now, ttl)" by (metis surj_pair)
  obtain r b1 where w: "wait_enter now ttl a c b = (r, b1)" by (cases "wait_enter now ttl a c b")
  have "arrivals (sched b) (a, c) < count_list (steps (sched b)) (a, c)"
    using Cons.prems(4) [of "(a, c)"] by (simp add: x)
  note W = wait_enter_accounts [OF Cons.prems(1,2,3) this w]
  have inv1: "barrier_inv b1" "steps (sched b1) = steps (sched b)"
    using wait_enter_inv [OF Cons.prems(1) w] by (simp_all add: same_run_def)
  have eq: "b' = fold barrier_step (map wait_op ars) b1"
    using Cons.prems(5) w by (simp add: x)
  have bound: "arrivals (sched b1) st + count_list (map fst ars) st
      \<le> count_list (steps (sched b1)) st" for st
    using Cons.prems(4) [of st] by (auto simp: x W(3) inv1(2) split: if_splits)
  have "aborted b' = None \<and> accounted b' \<and>
     arrivals (sched b') = (\<lambda>st. arrivals (sched b1) st + count_list (map fst ars) st)"
    by (rule Cons.IH [OF inv1(1) W(1,2) bound eq])
  then show ?case by (auto simp: W(3) x)
qed

text \<open>When everything declared has arrived, the barrier has released all of it.\<close>

lemma all_arrived_complete:
  assumes inv: "barrier_inv b" and acc: "accounted b"
    and full: "arrivals (sched b) = count_list (steps (sched b))"
  shows "is_complete (sched b) \<and> release_order b = keys_of (steps (sched b)) \<and> parked b = []"
proof -
  have core: "core_inv b" and st: "settled b" using inv by (simp_all add: barrier_inv_def)
  then have wf: "wf_schedule (sched b)" by (simp add: core_inv_def)
  have ro: "release_order b = take (pointer (sched b)) (keys_of (steps (sched b)))"
    using core by (simp add: core_inv_def)
  have fin: "is_complete (sched b)"
  proof (rule ccontr)
    assume "\<not> is_complete (sched b)"
    then obtain k where cur: "current_step (sched b) = Some k"
      by (cases "current_step (sched b)") (auto simp: current_step_def split: prod.splits)
    then have "k \<in> set (keys_of (steps (sched b)))" using current_key [OF wf cur] by simp
    then have "k \<in> set (release_order b) \<union> set (parked b)"
      using accountedD [OF acc] full by (simp add: keys_of_member)
    moreover have "k \<notin> set (parked b)" using st cur unfolding settled_def by blast
    ultimately show False using release_next(2) [OF wf cur] ro by simp
  qed
  then have rel: "release_order b = keys_of (steps (sched b))"
    using ro by (simp add: is_complete_def)
  have "k \<notin> set (parked b)" for k
  proof
    assume k: "k \<in> set (parked b)"
    then have "k \<in> set (release_order b)"
      using core_arrived [OF core, of k] full by (simp add: rel keys_of_member)
    with k core show False unfolding core_inv_def by blast
  qed
  then have "parked b = []" by (metis list.set_intros(1) neq_Nil_conv)
  with fin rel show ?thesis by simp
qed

section \<open>Properties\<close>

lemma run_core: "core_inv (barrier_run sid ss xs)" and run_settled: "settled (barrier_run sid ss xs)"
  using barrier_run_inv [of sid ss xs] by (simp_all add: barrier_inv_def)

text \<open>
  C9. Order safety. Whatever the interleaving of arrivals, timeouts, heartbeats, reaps and
  aborts, the barrier has released exactly the first \<open>pointer\<close> declared keys, each once
  and in declaration order.
\<close>

theorem barrier_releases_declared_prefix:
  "release_order (barrier_run sid ss xs) =
     take (pointer (sched (barrier_run sid ss xs))) (expected_release_order ss)
   \<and> distinct (release_order (barrier_run sid ss xs))
   \<and> pointer (sched (barrier_run sid ss xs)) \<le> length ss"
  using run_core [of sid ss xs]
  by (simp add: core_inv_def expected_keys wf_schedule_def distinct_keys_of)

text \<open>
  C24. Determinism and liveness. If the arrivals are the declared steps in any order at all,
  with any lease and at any times, and nothing times out or aborts, then the barrier ends
  with the schedule complete, every key released in declaration order and nobody parked:
  the release order does not depend on the order of arrival.
\<close>

theorem barrier_completes_in_declared_order:
  assumes "mset (map fst ars) = mset ss"
  shows "let b = barrier_run sid ss (map wait_op ars) in
     is_complete (sched b) \<and> release_order b = expected_release_order ss \<and>
     parked b = [] \<and> aborted b = None"
proof -
  let ?b = "barrier_run sid ss (map wait_op ars)"
  have cnt: "count_list (map fst ars) st = count_list ss st" for st
    using assms by (metis count_mset)
  have "aborted ?b = None \<and> accounted ?b \<and> arrivals (sched ?b) = (\<lambda>st. count_list ss st)"
    using arrivals_run [OF barrier_inv_make [of sid ss], of ars] cnt
    by (simp add: barrier_run_def)
  with all_arrived_complete [OF barrier_run_inv, of sid ss "map wait_op ars"]
  show ?thesis by (simp add: Let_def expected_keys)
qed

theorem barrier_completes_in_declared_order_witness:
  "let b = barrier_run ''P3'' [(''A'', ''r''), (''B'', ''r''), (''A'', ''r'')]
       (map wait_op [((''B'', ''r''), 0, Some 10), ((''A'', ''r''), 1, Some 10), ((''A'', ''r''), 2, None)]) in
     is_complete (sched b) \<and>
     release_order b = expected_release_order [(''A'', ''r''), (''B'', ''r''), (''A'', ''r'')] \<and>
     parked b = [] \<and> aborted b = None"
  by (rule barrier_completes_in_declared_order) simp

text \<open>
  C25. Fail closed. Once a run is aborted, no later operation releases anybody: the release
  order is frozen, every later \<open>wait\<close> raises with the reason of the first abort, and a
  waiter woken by the abort raises it too instead of returning.
\<close>

theorem aborted_barrier_never_releases:
  assumes "aborted (barrier_run sid ss xs) = Some reason"
  shows "release_order (barrier_run sid ss (xs @ ys)) = release_order (barrier_run sid ss xs)
    \<and> wait_enter now ttl a c (barrier_run sid ss (xs @ ys))
        = (Wait_Aborted reason, barrier_run sid ss (xs @ ys))
    \<and> wait_woken k (barrier_run sid ss (xs @ ys)) = Inl reason"
proof -
  have "same_run (barrier_run sid ss xs) (barrier_run sid ss (xs @ ys))"
    using barrier_run_same [OF barrier_run_inv, of sid ss xs ys] by (simp add: barrier_run_def)
  then show ?thesis using assms by (simp add: same_run_def wait_enter_def wait_woken_def)
qed

theorem aborted_barrier_never_releases_witness:
  "\<exists>xs. aborted (barrier_run ''P2'' [(''A'', ''r'')] xs) = Some Missing_Actor_Id \<and>
     fst (wait_enter 0 None ''A'' ''r'' (barrier_run ''P2'' [(''A'', ''r'')] (xs @ [])))
       = Wait_Aborted Missing_Actor_Id"
proof (intro exI conjI)
  show *: "aborted (barrier_run ''P2'' [(''A'', ''r'')] [Abort_Op Missing_Actor_Id])
      = Some Missing_Actor_Id"
    by (simp add: barrier_run_def abort_def)
  show "fst (wait_enter 0 None ''A'' ''r''
      (barrier_run ''P2'' [(''A'', ''r'')] ([Abort_Op Missing_Actor_Id] @ [])))
    = Wait_Aborted Missing_Actor_Id"
    using aborted_barrier_never_releases [OF *, of "[]" 0 None "''A''" "''r''"] by simp
qed

text \<open>
  A waiter that returns was released. In any interleaving, if the event of a waiter has
  been set and the waiter returns an occurrence rather than raising, then its key is in the
  release order and it is no longer parked; so a wake-up by an abort is never mistaken for
  a release.
\<close>

lemma woken_waiter_was_released:
  assumes "k \<in> set (signalled (barrier_run sid ss xs))"
    and "wait_woken k (barrier_run sid ss xs) = Inr n"
  shows "n = occ_of k \<and> k \<in> set (release_order (barrier_run sid ss xs))
    \<and> k \<notin> set (parked (barrier_run sid ss xs))"
  using assms run_core [of sid ss xs] unfolding core_inv_def wait_woken_def
  by (auto split: option.splits)

text \<open>
  Leases belong to waiters. In any interleaving a lease is held by a parked waiter and by
  nobody else, no parked waiter stands at the pointer (a missed wake-up), and a heartbeat
  never raises the \<open>KeyError\<close> that a lease without a recorded time-to-live would give.
\<close>

lemma leases_belong_to_parked_waiters:
  "fst ` set (leases (barrier_run sid ss xs)) \<subseteq> set (parked (barrier_run sid ss xs))
   \<and> settled (barrier_run sid ss xs)
   \<and> \<not> isl (heartbeat now a c n (barrier_run sid ss xs))"
  using run_core [of sid ss xs] run_settled heartbeat_no_key_error [OF barrier_run_inv]
  unfolding core_inv_def lease_inv_def by (metis list.set_map)

text \<open>
  Reaping. The reaper names exactly the leases whose expiry has passed; it aborts the
  run if there is one and leaves the barrier alone otherwise.
\<close>

lemma reap_exactly_the_expired:
  "set (fst (reap now b)) = {k. \<exists>e. (k, e) \<in> set (leases b) \<and> e \<le> now}
   \<and> (snd (reap now b) = (if \<exists>(k, e)\<in>set (leases b). e \<le> now
        then abort (Lease_Expired (expired_leases now b)) b else b))"
proof -
  have set_eq: "set (expired_leases now b) = {k. \<exists>e. (k, e) \<in> set (leases b) \<and> e \<le> now}"
    by (force simp: expired_leases_def)
  then have "expired_leases now b \<noteq> [] \<longleftrightarrow> (\<exists>(k, e)\<in>set (leases b). e \<le> now)"
    by (auto simp flip: set_empty)
  with set_eq show ?thesis by (simp add: reap_def Let_def)
qed

text \<open>
  A heartbeat keeps its waiter alive: after a heartbeat at time \<open>t\<close> that refreshed the
  lease, the reaper does not count the waiter as dead before \<open>t\<close> plus the time-to-live
  that the lease was granted with.
\<close>

lemma heartbeat_defers_reaping:
  assumes hb: "heartbeat t a c n (barrier_run sid ss xs) = Inr (True, b')"
    and ttl: "map_of (lease_ttls (barrier_run sid ss xs)) (a, c, n) = Some ttl"
    and now: "now < t + ttl"
  shows "(a, c, n) \<notin> set (fst (reap now b'))"
proof
  let ?b = "barrier_run sid ss xs"
  assume "(a, c, n) \<in> set (fst (reap now b'))"
  then obtain e where e: "((a, c, n), e) \<in> set (leases b')" "e \<le> now"
    by (force simp: reap_def expired_leases_def Let_def)
  have ls: "leases b' = AList.update (a, c, n) (t + ttl) (leases ?b)"
    using hb ttl by (auto simp: heartbeat_def Let_def split: if_splits)
  have "distinct (map fst (leases ?b))"
    using run_core [of sid ss xs] by (auto simp: core_inv_def lease_inv_def)
  then have "distinct (map fst (leases b'))" unfolding ls by (rule distinct_update)
  with e(1) have "map_of (leases b') (a, c, n) = Some e" by simp
  moreover have "map_of (leases b') (a, c, n) = Some (t + ttl)" by (simp add: ls update_conv')
  ultimately show False using e(2) now by simp
qed

lemmas barrier_eval = barrier_run_def make_barrier_def make_schedule_def wait_enter_def
  arrive_def matches_pointer_def is_complete_def advance_locked_def advance_def cascade.simps
  current_step_def release_parked_def Let_def

text \<open>
  The window between being woken and taking the lock. \<open>event.wait\<close> may give up just
  before the pointer reaches the waiter; the waiter then raises \<open>BarrierTimeout\<close>, whose
  message says it was never released, although its key is in the release order and the
  schedule is complete. The error is on the safe side (a finished run is reported as failed),
  but the message is wrong.
\<close>

lemma timeout_of_a_released_waiter:
  "let b = barrier_run ''S'' [(''A'', ''r''), (''B'', ''w'')]
        [Wait_Op ''B'' ''w'' 0 None, Wait_Op ''A'' ''r'' 1 None] in
     is_complete (sched b) \<and> (''B'', ''w'', 0) \<in> set (release_order b) \<and>
     fst (wait_timeout (''B'', ''w'', 0) b) = BarrierTimeout ''S'' (''B'', ''w'', 0) None []"
  by (simp add: barrier_eval wait_timeout_def waiters_locked_def)

text \<open>
  The window inside \<open>reap\<close>. The expired leases are collected under the lock and the
  abort happens after the lock has been given up. A waiter that is released in between still
  aborts the run: here the schedule is complete, no lease exists any more, and the run is
  aborted for the lease of a waiter that is in the release order.
\<close>

lemma reap_aborts_a_completed_run:
  "let b1 = barrier_run ''S'' [(''A'', ''r''), (''B'', ''w'')] [Wait_Op ''B'' ''w'' 0 (Some 10)];
       ks = expired_leases 10 b1;
       b2 = barrier_step (Wait_Op ''A'' ''r'' 10 (Some 10)) b1;
       b3 = barrier_step (Abort_Op (Lease_Expired ks)) b2 in
     is_complete (sched b2) \<and> leases b2 = [] \<and>
     aborted b3 = Some (Lease_Expired [(''B'', ''w'', 0)]) \<and>
     (''B'', ''w'', 0) \<in> set (release_order b3)"
  by (simp add: barrier_eval expired_leases_def abort_def)

end
