(* ===== verification/Coordinators.thy ===== *)
theory Coordinators
  imports Barriers
begin

text \<open>
  The HTTP surface of the coordinator, \<^verbatim>\<open>apps/coordinator/main.py\<close>. The module globals
  are the record \<open>coordinator\<close>. A \<open>Barrier\<close> is an object that outlives the global that
  names it (a request handler blocked in \<open>event.wait\<close> keeps using it after a new
  \<^verbatim>\<open>/declare\<close>), so the barriers live in an explicit store \<open>heap\<close> and \<open>current\<close> is the
  reference held by the globals \<open>_barrier\<close> and \<open>_schedule\<close>; the schedule is the one the
  barrier owns, which is the same object in the code. \<open>pending\<close> lists the handlers that are
  blocked in \<open>event.wait\<close>, each with its barrier, its key and the reply it will compute.

  The handler of \<^verbatim>\<open>/await\<close> is cut where it blocks: \<open>await_enter\<close> up to the wait,
  \<open>await_woken\<close> and \<open>await_timed_out\<close> after it. \<open>cstep\<close> is the step relation of the whole
  process, in which requests, wake-ups, timeouts and reaper passes interleave freely.
\<close>

section \<open>State\<close>

datatype await_detail =
    No_Schedule_Declared
  | Run_Aborted abort_reason
  | Missing_Header string
  | Mismatch string string
  | Unknown_Actor_Detail string
  | Undeclared_Detail undeclared_occurrence
  | Timeout_Detail barrier_timeout
  | Fault_Injected string nat

type_synonym await_error = "await_detail http_error"

text \<open>The body of a 200 reply: occurrence and checkpoint.\<close>

type_synonym await_body = "nat \<times> string"

record coordinator =
  heap :: "barrier list"
  current :: "nat option"
  timeout_s :: rat
  lease_ttl_s :: rat
  faults :: "key set"
  reaper :: "(nat \<times> rat) option"
  pending :: "(nat \<times> key) list"

definition init_coordinator :: coordinator where
  "init_coordinator = \<lparr>heap = [], current = None, timeout_s = 30, lease_ttl_s = 30,
     faults = {}, reaper = None, pending = []\<rparr>"

record declare_request =
  req_schedule_id :: string
  req_steps :: "step list"
  req_timeout_seconds :: rat
  req_lease_ttl_seconds :: rat
  req_faults :: "key list"

section \<open>Handlers\<close>

definition reset_state :: "coordinator \<Rightarrow> coordinator" where
  "reset_state c = c\<lparr>reaper := None, current := None, timeout_s := 30, lease_ttl_s := 30,
     faults := {}\<rparr>"

definition abort_current :: "abort_reason \<Rightarrow> coordinator \<Rightarrow> coordinator" where
  "abort_current reason c = (case current c of None \<Rightarrow> c
     | Some i \<Rightarrow> c\<lparr>heap := (heap c)[i := abort reason (heap c ! i)]\<rparr>)"

definition declare_schedule ::
  "declare_request \<Rightarrow> coordinator \<Rightarrow> (string \<times> nat \<times> rat \<times> rat) \<times> coordinator" where
  "declare_schedule req c =
     (let c = reset_state c; i = length (heap c);
          b = make_barrier (make_schedule (req_schedule_id req) (req_steps req))
      in ((req_schedule_id req, length (req_steps req), req_timeout_seconds req,
           req_lease_ttl_seconds req),
          c\<lparr>heap := heap c @ [b], current := Some i, timeout_s := req_timeout_seconds req,
            lease_ttl_s := req_lease_ttl_seconds req, faults := set (req_faults req),
            reaper := Some (i, min 1 (req_lease_ttl_seconds req / 3))\<rparr>))"

text \<open>\<open>not x\<close> for an optional header: absent or the empty string.\<close>

fun falsy :: "string option \<Rightarrow> bool" where
  "falsy None = True"
| "falsy (Some s) = (s = '''')"

definition heartbeat_endpoint ::
  "time \<Rightarrow> string \<Rightarrow> nat \<Rightarrow> string option \<Rightarrow> coordinator \<Rightarrow> key_error + bool \<times> coordinator" where
  "heartbeat_endpoint now checkpoint occurrence x_actor c =
     (case current c of None \<Rightarrow> Inr (False, c)
      | Some i \<Rightarrow> if falsy x_actor then Inr (False, c)
          else case heartbeat now (the x_actor) checkpoint occurrence (heap c ! i) of
              Inl e \<Rightarrow> Inl e
            | Inr (refreshed, b) \<Rightarrow> Inr (refreshed, c\<lparr>heap := (heap c)[i := b]\<rparr>))"

datatype await_reply =
    Replied "await_error + await_body"
  | Blocked nat key

text \<open>The end of the handler: the injected fault withholds the acknowledgement only.\<close>

definition acknowledge :: "key \<Rightarrow> coordinator \<Rightarrow> await_error + await_body" where
  "acknowledge k c = (case k of (actor, checkpoint, occurrence) \<Rightarrow>
     if k \<in> faults c then Inl (HTTPException 500 (Fault_Injected checkpoint occurrence))
     else Inr (occurrence, checkpoint))"

definition await_enter ::
  "time \<Rightarrow> string \<Rightarrow> string option \<Rightarrow> string option \<Rightarrow> coordinator \<Rightarrow> await_reply \<times> coordinator" where
  "await_enter now checkpoint x_actor x_schedule c =
     (case current c of
       None \<Rightarrow> (Replied (Inl (HTTPException 409 No_Schedule_Declared)), c)
     | Some i \<Rightarrow>
       (let b = heap c ! i in
        case aborted b of
          Some reason \<Rightarrow> (Replied (Inl (HTTPException 409 (Run_Aborted reason))), c)
        | None \<Rightarrow>
          if falsy x_actor then
            (Replied (Inl (HTTPException 400 (Missing_Header ''X-Actor-Id''))),
             abort_current Missing_Actor_Id c)
          else if falsy x_schedule then
            (Replied (Inl (HTTPException 400 (Missing_Header ''X-Schedule-Id''))),
             abort_current Missing_Schedule_Id c)
          else if the x_schedule \<noteq> schedule_id (sched b) then
            (Replied (Inl (HTTPException 409
               (Mismatch (schedule_id (sched b)) (the x_schedule)))),
             abort_current (Schedule_Mismatch (the x_schedule)) c)
          else if the x_actor \<notin> known_actors (sched b) then
            (Replied (Inl (HTTPException 400 (Unknown_Actor_Detail (the x_actor)))),
             abort_current (Unknown_Actor (the x_actor)) c)
          else
            (case wait_enter now (Some (lease_ttl_s c)) (the x_actor) checkpoint b of
              (Wait_Undeclared e, b') \<Rightarrow>
                (Replied (Inl (HTTPException 409 (Undeclared_Detail e))),
                 abort_current (Undeclared e) (c\<lparr>heap := (heap c)[i := b']\<rparr>))
            | (Wait_Aborted reason, b') \<Rightarrow>
                (Replied (Inl (HTTPException 409 (Run_Aborted reason))),
                 c\<lparr>heap := (heap c)[i := b']\<rparr>)
            | (Wait_Released n, b') \<Rightarrow>
                (let c' = c\<lparr>heap := (heap c)[i := b']\<rparr>
                 in (Replied (acknowledge (the x_actor, checkpoint, n) c'), c'))
            | (Wait_Parked k, b') \<Rightarrow>
                (Blocked i k,
                 c\<lparr>heap := (heap c)[i := b'], pending := pending c @ [(i, k)]\<rparr>))))"

definition await_woken :: "nat \<Rightarrow> key \<Rightarrow> coordinator \<Rightarrow> (await_error + await_body) \<times> coordinator" where
  "await_woken i k c =
     (let c = c\<lparr>pending := remove1 (i, k) (pending c)\<rparr> in
      case wait_woken k (heap c ! i) of
        Inl reason \<Rightarrow> (Inl (HTTPException 409 (Run_Aborted reason)), c)
      | Inr _ \<Rightarrow> (acknowledge k c, c))"

definition await_timed_out :: "nat \<Rightarrow> key \<Rightarrow> coordinator \<Rightarrow> (await_error + await_body) \<times> coordinator" where
  "await_timed_out i k c =
     (let c = c\<lparr>pending := remove1 (i, k) (pending c)\<rparr>;
          (exc, b) = wait_timeout k (heap c ! i);
          c = c\<lparr>heap := (heap c)[i := b]\<rparr>
      in (Inl (HTTPException 504 (Timeout_Detail exc)), abort_current (Timed_Out exc) c))"

record waiters_view =
  view_schedule_id :: "string option"
  view_aborted :: bool
  view_abort_reason :: "abort_reason option"
  view_waiters :: "key list"
  view_release_order :: "key list"
  view_expects :: "key option"

definition waiters :: "coordinator \<Rightarrow> waiters_view" where
  "waiters c = (case current c of
     None \<Rightarrow> \<lparr>view_schedule_id = None, view_aborted = False, view_abort_reason = None,
               view_waiters = [], view_release_order = [], view_expects = None\<rparr>
   | Some i \<Rightarrow> (let b = heap c ! i in
       \<lparr>view_schedule_id = Some (schedule_id (sched b)), view_aborted = (aborted b \<noteq> None),
        view_abort_reason = aborted b, view_waiters = waiters_locked b,
        view_release_order = release_order b, view_expects = current_step (sched b)\<rparr>))"

definition reset_endpoint :: "coordinator \<Rightarrow> coordinator" where
  "reset_endpoint c = reset_state (abort_current Reset_Requested c)"

text \<open>A pass of the reaper thread, on the barrier it was started with.\<close>

definition reaper_tick :: "time \<Rightarrow> coordinator \<Rightarrow> coordinator" where
  "reaper_tick now c = (case reaper c of None \<Rightarrow> c
     | Some (i, interval) \<Rightarrow> (case reaper_pass now (heap c ! i) of
         (alive, b) \<Rightarrow> c\<lparr>heap := (heap c)[i := b],
           reaper := (if alive then reaper c else None)\<rparr>))"

section \<open>The process as a step relation\<close>

datatype label =
    Declare declare_request
  | Heartbeat time string nat "string option"
  | Await time string "string option" "string option" await_reply
  | Wake nat key "await_error + await_body"
  | Expire nat key "await_error + await_body"
  | Reset
  | Reap time

inductive cstep :: "coordinator \<Rightarrow> label \<Rightarrow> coordinator \<Rightarrow> bool" where
  declared: "cstep c (Declare req) (snd (declare_schedule req c))"
| heartbeat: "heartbeat_endpoint now cp n a c = Inr (r, c') \<Longrightarrow> cstep c (Heartbeat now cp n a) c'"
| await: "await_enter now cp a s c = (r, c') \<Longrightarrow> cstep c (Await now cp a s r) c'"
| wake: "(i, k) \<in> set (pending c) \<Longrightarrow> k \<in> set (signalled (heap c ! i)) \<Longrightarrow>
    await_woken i k c = (r, c') \<Longrightarrow> cstep c (Wake i k r) c'"
| expire: "(i, k) \<in> set (pending c) \<Longrightarrow> await_timed_out i k c = (r, c') \<Longrightarrow>
    cstep c (Expire i k r) c'"
| reset: "cstep c Reset (reset_endpoint c)"
| reap: "cstep c (Reap now) (reaper_tick now c)"

inductive_cases cstep_expireE: "cstep c (Expire i k r) c'"
inductive_simps cstep_reset_iff: "cstep c Reset c'"
inductive_simps cstep_declare_iff: "cstep c (Declare req) c'"

inductive reachable :: "coordinator \<Rightarrow> bool" where
  start: "reachable init_coordinator"
| step: "reachable c \<Longrightarrow> cstep c l c' \<Longrightarrow> reachable c'"

section \<open>The invariant\<close>

definition coord_inv :: "coordinator \<Rightarrow> bool" where
  "coord_inv c \<longleftrightarrow>
     (\<forall>b\<in>set (heap c). barrier_inv b) \<and>
     (\<forall>i. current c = Some i \<longrightarrow> i < length (heap c)) \<and>
     (\<forall>ik\<in>set (pending c). fst ik < length (heap c)) \<and>
     (\<forall>i d. reaper c = Some (i, d) \<longrightarrow> i < length (heap c))"

lemma coord_inv_init [simp]: "coord_inv init_coordinator"
  by (simp add: coord_inv_def init_coordinator_def)

text \<open>The two shapes of every state change: a new barrier, or one barrier replaced.\<close>

lemma coord_inv_store:
  "coord_inv c \<Longrightarrow> barrier_inv b \<Longrightarrow> coord_inv (c\<lparr>heap := (heap c)[i := b]\<rparr>)"
  using set_update_subset_insert [of "heap c" i b] by (auto simp: coord_inv_def)

lemma coord_inv_barrier: "coord_inv c \<Longrightarrow> i < length (heap c) \<Longrightarrow> barrier_inv (heap c ! i)"
  by (simp add: coord_inv_def)

lemma coord_inv_current: "coord_inv c \<Longrightarrow> current c = Some i \<Longrightarrow> i < length (heap c)"
  by (simp add: coord_inv_def)

lemma coord_inv_pending:
  "coord_inv c \<Longrightarrow> (i, k) \<in> set (pending c) \<Longrightarrow> i < length (heap c)"
  unfolding coord_inv_def by fastforce

lemma coord_inv_unpend: "coord_inv c \<Longrightarrow> coord_inv (c\<lparr>pending := remove1 x (pending c)\<rparr>)"
  using set_remove1_subset [of x "pending c"] unfolding coord_inv_def by auto

lemma coord_inv_abort:
  assumes inv: "coord_inv c" shows "coord_inv (abort_current r c)"
proof (cases "current c")
  case (Some i)
  have "barrier_inv (abort r (heap c ! i))"
    using abort_inv coord_inv_barrier [OF inv coord_inv_current [OF inv Some]] by blast
  from coord_inv_store [OF inv this] Some show ?thesis by (simp add: abort_current_def)
qed (use inv in \<open>simp add: abort_current_def\<close>)

lemma coord_inv_reset_state: "coord_inv c \<Longrightarrow> coord_inv (reset_state c)"
  by (simp add: coord_inv_def reset_state_def)

lemma await_enter_inv:
  assumes inv: "coord_inv c" and aw: "await_enter now cp a s c = (r, c')"
  shows "coord_inv c'"
proof (cases "current c")
  case None
  then show ?thesis using inv aw by (simp add: await_enter_def)
next
  case (Some i)
  have b: "barrier_inv (heap c ! i)"
    using coord_inv_barrier [OF inv] coord_inv_current [OF inv Some] by blast
  obtain w b' where w: "wait_enter now (Some (lease_ttl_s c)) (the a) cp (heap c ! i) = (w, b')"
    by (cases "wait_enter now (Some (lease_ttl_s c)) (the a) cp (heap c ! i)")
  have b': "barrier_inv b'" using wait_enter_inv [OF b w] by simp
  have st: "coord_inv (c\<lparr>heap := (heap c)[i := b']\<rparr>)" by (rule coord_inv_store [OF inv b'])
  have pend: "coord_inv (c\<lparr>heap := (heap c)[i := b'], pending := pending c @ [(i, k)]\<rparr>)" for k
    using st coord_inv_current [OF inv Some] by (simp add: coord_inv_def)
  show ?thesis
    using aw inv Some w st pend coord_inv_abort
    by (auto simp: await_enter_def Let_def split: option.splits if_splits wait_result.splits)
qed

lemma declare_inv: "coord_inv c \<Longrightarrow> coord_inv (snd (declare_schedule req c))"
  by (auto simp: declare_schedule_def reset_state_def coord_inv_def Let_def less_Suc_eq)

lemma reaper_pass_inv: "barrier_inv b \<Longrightarrow> barrier_inv (snd (reaper_pass now b))"
  by (simp add: reaper_pass_def reap_inv)

lemma reaper_tick_inv: "coord_inv c \<Longrightarrow> coord_inv (reaper_tick now c)"
proof -
  assume inv: "coord_inv c"
  show ?thesis
  proof (cases "reaper c")
    case (Some r)
    obtain i d where r: "reaper c = Some (i, d)" using Some by (cases r) simp
    obtain alive b where p: "reaper_pass now (heap c ! i) = (alive, b)"
      by (cases "reaper_pass now (heap c ! i)")
    have "i < length (heap c)" using inv r by (simp add: coord_inv_def)
    then have "barrier_inv b"
      using reaper_pass_inv [OF coord_inv_barrier [OF inv], of i now] p by simp
    from coord_inv_store [OF inv this, of i] r p show ?thesis
      by (auto simp: reaper_tick_def coord_inv_def)
  qed (use inv in \<open>simp add: reaper_tick_def\<close>)
qed

lemma heartbeat_endpoint_inv:
  assumes inv: "coord_inv c" and hb: "heartbeat_endpoint now cp n a c = Inr (r, c')"
  shows "coord_inv c'"
proof (cases "current c")
  case (Some i)
  have b: "barrier_inv (heap c ! i)"
    using coord_inv_barrier [OF inv] coord_inv_current [OF inv Some] by blast
  show ?thesis
    using hb inv Some heartbeat_inv [OF b] coord_inv_store [OF inv]
    by (auto simp: heartbeat_endpoint_def split: if_splits sum.splits prod.splits)
qed (use inv hb in \<open>simp add: heartbeat_endpoint_def\<close>)

lemma await_timed_out_inv:
  assumes inv: "coord_inv c" and p: "(i, k) \<in> set (pending c)"
    and to: "await_timed_out i k c = (r, c')"
  shows "coord_inv c'"
proof -
  have u: "coord_inv (c\<lparr>pending := remove1 (i, k) (pending c)\<rparr>)"
    by (rule coord_inv_unpend [OF inv])
  obtain exc b where w: "wait_timeout k (heap c ! i) = (exc, b)"
    by (cases "wait_timeout k (heap c ! i)")
  have "barrier_inv b"
    using wait_timeout_inv [OF coord_inv_barrier [OF inv coord_inv_pending [OF inv p]], of k] w
    by simp
  from coord_inv_abort [OF coord_inv_store [OF u this, of i], of "Timed_Out exc"] to w
  show ?thesis by (auto simp: await_timed_out_def Let_def)
qed

lemma await_woken_state: "snd (await_woken i k c) = c\<lparr>pending := remove1 (i, k) (pending c)\<rparr>"
  by (simp add: await_woken_def Let_def split: sum.split)

lemma cstep_inv [inv_intros]: "cstep c l c' \<Longrightarrow> coord_inv c \<Longrightarrow> coord_inv c'"
proof (induction rule: cstep.induct)
  case (wake i k c r c')
  then show ?case using await_woken_state [of i k c] coord_inv_unpend by simp
qed (auto intro: declare_inv heartbeat_endpoint_inv await_enter_inv await_timed_out_inv
    reaper_tick_inv coord_inv_reset_state coord_inv_abort simp: reset_endpoint_def)

lemma reachable_inv: "reachable c \<Longrightarrow> coord_inv c"
  by (induction rule: reachable.induct) (auto intro: cstep_inv)

section \<open>Properties\<close>

lemma advance_locked_releases: "k \<in> set (release_order (advance_locked k b))"
  using advance_locked_frame(6) [of k b] by auto

lemma heap_current:
  "coord_inv c \<Longrightarrow> current c = Some i \<Longrightarrow> (heap c)[i := b] ! i = b"
  by (simp add: coord_inv_current)

text \<open>The run an acknowledgement belongs to has really passed the checkpoint.\<close>

definition released :: "nat \<Rightarrow> key \<Rightarrow> coordinator \<Rightarrow> bool" where
  "released i k c \<longleftrightarrow> i < length (heap c) \<and> k \<in> set (release_order (heap c ! i)) \<and>
     aborted (heap c ! i) = None"




lemma reachable_declared:
  "reachable (snd (declare_schedule req init_coordinator))"
  by (rule reachable.step [OF reachable.start cstep.declared])


text \<open>
  The coordinator fails closed. Whatever \<^verbatim>\<open>/await\<close> answers at once with an error,
  afterwards there is no run, or the run is aborted, or the error is the injected fault,
  whose checkpoint has been released; an error never leaves a live run with a waiter that was
  neither parked nor released.
\<close>

lemma await_error_aborts_the_run:
  assumes reach: "reachable c"
    and aw: "await_enter now cp a s c = (Replied (Inl (HTTPException st d)), c')"
  shows "current c' = None
    \<or> (\<exists>i. current c' = Some i \<and> aborted (heap c' ! i) \<noteq> None)
    \<or> (\<exists>i n. current c' = Some i \<and> d = Fault_Injected cp n \<and> st = 500 \<and>
          (the a, cp, n) \<in> faults c' \<and> released i (the a, cp, n) c')"
proof (cases "current c")
  case None
  then show ?thesis using aw by (auto simp: await_enter_def)
next
  case (Some i)
  note i = coord_inv_current [OF reachable_inv [OF reach] Some]
  have ab: "current (abort_current r e) = Some i \<and> aborted (heap (abort_current r e) ! i) \<noteq> None"
    if "current e = Some i" "i < length (heap e)" for r e
    using that by (simp add: abort_current_def abort_def)
  obtain w b' where w: "wait_enter now (Some (lease_ttl_s c)) (the a) cp (heap c ! i) = (w, b')"
    by (cases "wait_enter now (Some (lease_ttl_s c)) (the a) cp (heap c ! i)")
  show ?thesis
    using w
  proof (cases rule: wait_enter_cases)
    case (released n s')
    then have "released i (the a, cp, n) (c\<lparr>heap := (heap c)[i := b']\<rparr>)"
      using i by (simp add: released_def advance_locked_releases advance_locked_frame)
    then show ?thesis
      using aw Some i w released(3) ab
      by (auto simp: await_enter_def acknowledge_def Let_def split: option.splits if_splits)
  qed (use aw Some i w ab in \<open>auto simp: await_enter_def Let_def split: option.splits if_splits\<close>)
qed

abbreviation one_step_run :: declare_request where
  "one_step_run \<equiv> \<lparr>req_schedule_id = ''S'', req_steps = [(''A'', ''r''), (''B'', ''w'')],
     req_timeout_seconds = 30, req_lease_ttl_seconds = 30, req_faults = []\<rparr>"

lemmas coordinator_eval = declare_schedule_def init_coordinator_def reset_state_def
  await_enter_def barrier_eval known_actors_def acknowledge_def abort_current_def abort_def

text \<open>
  A heartbeat is an observation. It changes no barrier's schedule, parked waiters, release
  order or abort state, keeps the current run and the blocked handlers, and never fails: a
  stray or unlabelled heartbeat cannot kill a run.
\<close>

lemma heartbeat_cannot_kill_a_run:
  assumes reach: "reachable c"
  shows "\<exists>r c'. heartbeat_endpoint now cp n a c = Inr (r, c') \<and> current c' = current c \<and>
     pending c' = pending c \<and>
     map (\<lambda>b. (sched b, parked b, release_order b, aborted b)) (heap c')
       = map (\<lambda>b. (sched b, parked b, release_order b, aborted b)) (heap c)"
proof (cases "current c")
  case None
  then show ?thesis by (auto simp: heartbeat_endpoint_def)
next
  case (Some i)
  have inv: "coord_inv c" by (rule reachable_inv [OF reach])
  have i: "i < length (heap c)" by (rule coord_inv_current [OF inv Some])
  have b: "barrier_inv (heap c ! i)" by (rule coord_inv_barrier [OF inv i])
  have upd: "map f ((heap c)[i := b']) = map f (heap c)" if "f b' = f (heap c ! i)" for f b'
    using that i by (simp add: map_update) (metis length_map list_update_id nth_map)
  show ?thesis
  proof (cases "falsy a")
    case True
    with Some show ?thesis by (auto simp: heartbeat_endpoint_def)
  next
    case False
    show ?thesis
      by (rule heartbeat_cases [OF b, of now "the a" cp n])
         (auto simp: heartbeat_endpoint_def Some False upd)
  qed
qed

text \<open>
  A reset ends a run for everybody in it: after \<^verbatim>\<open>/reset\<close> every handler that was parked at
  the current barrier has its event set, and when it wakes up it answers 409.
\<close>

lemma reset_wakes_parked_waiters:
  assumes reach: "reachable c" and cur: "current c = Some i"
    and k: "(i, k) \<in> set (pending c)" "k \<in> set (parked (heap c ! i))"
    and st: "cstep c Reset c'"
  shows "current c' = None \<and> (\<exists>reason. cstep c'
     (Wake i k (Inl (HTTPException 409 (Run_Aborted reason)))) (c'\<lparr>pending := remove1 (i, k) (pending c')\<rparr>))"
proof -
  have i: "i < length (heap c)" by (rule coord_inv_current [OF reachable_inv [OF reach] cur])
  let ?b = "abort Reset_Requested (heap c ! i)"
  have c': "c' = reset_state (c\<lparr>heap := (heap c)[i := ?b]\<rparr>)"
    using st cur by (simp add: cstep_reset_iff reset_endpoint_def abort_current_def)
  then have b: "heap c' ! i = ?b" "pending c' = pending c" "current c' = None"
    using i by (simp_all add: reset_state_def)
  obtain reason where r: "aborted ?b = Some reason"
    by (cases "aborted (heap c ! i)") (auto simp: abort_def)
  have w: "await_woken i k c' = (Inl (HTTPException 409 (Run_Aborted reason)),
      c'\<lparr>pending := remove1 (i, k) (pending c')\<rparr>)"
    using r by (simp add: await_woken_def wait_woken_def b(1) Let_def)
  have sig: "k \<in> set (signalled (heap c' ! i))" using k(2) by (simp add: b(1) abort_def)
  from cstep.wake [OF _ sig w] k(1) b(2,3) show ?thesis by auto
qed

abbreviation parked_run :: coordinator where
  "parked_run \<equiv> snd (await_enter 0 ''w'' (Some ''B'') (Some ''S'')
     (snd (declare_schedule one_step_run init_coordinator)))"

lemma reachable_parked_run: "reachable parked_run"
  by (rule reachable.step [OF reachable_declared], rule cstep.await, rule surjective_pairing)

lemma parked_run_state:
  "current parked_run = Some 0" "(0, (''B'', ''w'', 0)) \<in> set (pending parked_run)"
  "(''B'', ''w'', 0) \<in> set (parked (heap parked_run ! 0))"
  by (simp_all add: coordinator_eval)

text \<open>
  A waiter of an earlier run can abort a later one. \<^verbatim>\<open>/declare\<close> drops the old barrier
  without aborting it, so a handler that is still parked there stays parked; when it times
  out, the handler aborts the barrier that the global names by then, which is the new run's.
  The new run \<open>N\<close> is aborted with a message about schedule \<open>S\<close>, although nothing in it
  went wrong.
\<close>

lemma stale_waiter_aborts_the_next_run:
  "let next_run = \<lparr>req_schedule_id = ''N'', req_steps = [(''C'', ''r'')], req_timeout_seconds = 30,
         req_lease_ttl_seconds = 30, req_faults = []\<rparr>;
       c1 = snd (declare_schedule next_run parked_run);
       (reply, c2) = await_timed_out 0 (''B'', ''w'', 0) c1 in
     reachable c2 \<and> current c2 = Some 1 \<and> schedule_id (sched (heap c2 ! 1)) = ''N'' \<and>
     aborted (heap c1 ! 1) = None \<and> aborted (heap c1 ! 0) = None \<and>
     aborted (heap c2 ! 1) = Some (Timed_Out
       (BarrierTimeout ''S'' (''B'', ''w'', 0) (Some (''A'', ''r'', 0)) []))"
proof -
  let ?n = "\<lparr>req_schedule_id = ''N'', req_steps = [(''C'', ''r'')], req_timeout_seconds = 30,
         req_lease_ttl_seconds = 30, req_faults = []\<rparr>"
  let ?c1 = "snd (declare_schedule ?n parked_run)"
  have r1: "reachable ?c1" by (rule reachable.step [OF reachable_parked_run cstep.declared])
  have p: "(0, (''B'', ''w'', 0)) \<in> set (pending ?c1)" by (simp add: coordinator_eval)
  have "reachable (snd (await_timed_out 0 (''B'', ''w'', 0) ?c1))"
    by (rule reachable.step [OF r1], rule cstep.expire [OF p], rule surjective_pairing)
  then show ?thesis
    by (simp add: coordinator_eval await_timed_out_def wait_timeout_def waiters_locked_def)
qed

end
