(* ===== verification/Wire.thy ===== *)
theory Wire
  imports Coordinators
begin

text \<open>
  How identity travels and how a service takes part in a schedule:
  \<^verbatim>\<open>libs/barrier/middleware.py\<close>, \<^verbatim>\<open>libs/barrier/client.py\<close>, \<^verbatim>\<open>libs/request_log.py\<close> and the
  barrier half of \<^verbatim>\<open>libs/service_common.py\<close>. The two context variables are the record
  \<open>identity\<close>; the application a middleware wraps is a function on it. \<open>post_await\<close> stands
  for the HTTP call to the coordinator, whose replies are those of theory Coordinators. The
  lemmas: an unlabelled request never reaches a handler, identity never leaks out of a
  request, a checkpoint only succeeds on a 200 of the coordinator, and the request log never
  changes a reply.
\<close>

section \<open>Identity context\<close>

record identity =
  ctx_actor :: "string option"
  ctx_schedule :: "string option"

datatype wire_error =
    MissingActorIdentity
  | CheckpointError nat
  | BarrierUrlUnset

type_synonym header_list = "(string \<times> string) list"

text \<open>\<open>traceparent\<close> is what the tracing library reports: absent, or a string.\<close>

definition outbound_headers :: "identity \<Rightarrow> string option \<Rightarrow> wire_error + header_list" where
  "outbound_headers ctx traceparent =
     (case (ctx_actor ctx, ctx_schedule ctx) of
        (Some a, Some s) \<Rightarrow> Inr ([(''X-Actor-Id'', a), (''X-Schedule-Id'', s)] @
          (if falsy traceparent then [] else [(''traceparent'', the traceparent)]))
      | _ \<Rightarrow> Inl MissingActorIdentity)"

text \<open>The context manager: bind, run, restore what was bound before, whatever the body did.\<close>

definition actor_identity ::
  "string \<Rightarrow> string \<Rightarrow> (identity \<Rightarrow> 'r \<times> identity) \<Rightarrow> identity \<Rightarrow> 'r \<times> identity" where
  "actor_identity actor schedule body ctx =
     (let (r, c) = body (ctx\<lparr>ctx_actor := Some actor, ctx_schedule := Some schedule\<rparr>)
      in (r, c\<lparr>ctx_actor := ctx_actor ctx, ctx_schedule := ctx_schedule ctx\<rparr>))"

datatype 'r middleware_reply = Rejected nat string | Passed 'r

definition actor_context ::
  "bool \<Rightarrow> bool \<Rightarrow> (string \<Rightarrow> string option) \<Rightarrow> (identity \<Rightarrow> 'r \<times> identity) \<Rightarrow> identity \<Rightarrow>
     'r middleware_reply \<times> identity" where
  "actor_context is_http strict headers app ctx =
     (if \<not> is_http then (let (r, c) = app ctx in (Passed r, c))
      else let actor = headers ''x-actor-id''; schedule = headers ''x-schedule-id'' in
        if strict \<and> falsy actor then (Rejected 400 ''missing X-Actor-Id header'', ctx)
        else if strict \<and> falsy schedule then (Rejected 400 ''missing X-Schedule-Id header'', ctx)
        else let (r, c) = app (ctx\<lparr>ctx_actor := actor, ctx_schedule := schedule\<rparr>)
             in (Passed r, c\<lparr>ctx_actor := ctx_actor ctx, ctx_schedule := ctx_schedule ctx\<rparr>))"

section \<open>Checkpoints\<close>

text \<open>\<open>BarrierClient.checkpoint\<close>.\<close>

definition client_checkpoint ::
  "(header_list \<Rightarrow> string \<Rightarrow> await_error + await_body) \<Rightarrow> identity \<Rightarrow> string option \<Rightarrow> string \<Rightarrow>
     wire_error + nat" where
  "client_checkpoint post_await ctx traceparent name =
     (case outbound_headers ctx traceparent of Inl e \<Rightarrow> Inl e
      | Inr hs \<Rightarrow> (case post_await hs name of
            Inl e \<Rightarrow> Inl (CheckpointError (status e))
          | Inr (occurrence, _) \<Rightarrow> Inr occurrence))"

text \<open>\<open>BarrierClient.heartbeat\<close>: the \<open>refreshed\<close> field of the reply, read as a truth value.\<close>

definition client_heartbeat ::
  "(header_list \<Rightarrow> string \<Rightarrow> nat \<Rightarrow> bool) \<Rightarrow> identity \<Rightarrow> string option \<Rightarrow> string \<Rightarrow> nat \<Rightarrow>
     wire_error + bool" where
  "client_heartbeat post_heartbeat ctx traceparent name occurrence =
     (case outbound_headers ctx traceparent of Inl e \<Rightarrow> Inl e
      | Inr hs \<Rightarrow> Inr (post_heartbeat hs name occurrence))"

definition barrier_client :: "string option \<Rightarrow> string option \<Rightarrow> wire_error + string option" where
  "barrier_client barrier_enabled barrier_url =
     (if (case barrier_enabled of None \<Rightarrow> ''0'' | Some v \<Rightarrow> v) \<noteq> ''1'' then Inr None
      else if falsy barrier_url then Inl BarrierUrlUnset
      else Inr barrier_url)"

text \<open>\<open>checkpoint\<close> of \<open>service_common\<close>: \<open>None\<close> is a normal return.\<close>

definition service_checkpoint ::
  "string option \<Rightarrow> string option \<Rightarrow> (header_list \<Rightarrow> string \<Rightarrow> await_error + await_body) \<Rightarrow>
     identity \<Rightarrow> string option \<Rightarrow> string \<Rightarrow> wire_error option" where
  "service_checkpoint barrier_enabled barrier_url post_await ctx traceparent name =
     (case barrier_client barrier_enabled barrier_url of
        Inl e \<Rightarrow> Some e
      | Inr None \<Rightarrow> None
      | Inr (Some _) \<Rightarrow> (case client_checkpoint post_await ctx traceparent name of
            Inl e \<Rightarrow> Some e | Inr _ \<Rightarrow> None))"

section \<open>Request log\<close>

record request_row =
  rl_id :: int
  rl_actor :: "string option"
  rl_schedule :: "string option"
  rl_method :: string
  rl_path :: string
  rl_pid :: int
  rl_started_at :: datetime
  rl_ended_at :: "datetime option"

text \<open>\<open>ok\<close> says whether the database accepted the statement; a failure is printed and dropped.\<close>

definition log_insert ::
  "bool \<Rightarrow> string option \<Rightarrow> string option \<Rightarrow> string \<Rightarrow> string \<Rightarrow> int \<Rightarrow> datetime \<Rightarrow> request_row list \<Rightarrow>
     int option \<times> request_row list" where
  "log_insert ok actor schedule method path pid started rows =
     (if ok then (let i = int (length rows) + 1 in
        (Some i, rows @ [\<lparr>rl_id = i, rl_actor = actor, rl_schedule = schedule, rl_method = method,
           rl_path = path, rl_pid = pid, rl_started_at = started, rl_ended_at = None\<rparr>]))
      else (None, rows))"

definition log_finish :: "bool \<Rightarrow> int option \<Rightarrow> datetime \<Rightarrow> request_row list \<Rightarrow> request_row list" where
  "log_finish ok row_id ended rows =
     (case row_id of None \<Rightarrow> rows
      | Some i \<Rightarrow> if ok then update_where (\<lambda>r. rl_id r = i) (\<lambda>r. r\<lparr>rl_ended_at := Some ended\<rparr>) rows
          else rows)"

definition request_log ::
  "bool \<Rightarrow> bool \<Rightarrow> (string \<Rightarrow> string option) \<Rightarrow> string \<Rightarrow> string \<Rightarrow> int \<Rightarrow> datetime \<Rightarrow> datetime \<Rightarrow>
     ('s \<Rightarrow> 'r \<times> 's) \<Rightarrow> request_row list \<times> 's \<Rightarrow> 'r \<times> request_row list \<times> 's" where
  "request_log insert_ok finish_ok headers method path pid started ended app = (\<lambda>(rows, s).
     let (row_id, rows) = log_insert insert_ok (headers ''x-actor-id'') (headers ''x-schedule-id'')
           method path pid started rows;
         (r, s) = app s
     in (r, log_finish finish_ok row_id ended rows, s))"

section \<open>Properties\<close>

text \<open>
  Identity is bound from the wire and never leaks. Behind the strict middleware the
  application runs exactly when both headers are present and non-empty, with exactly those
  values bound; otherwise the request is rejected with 400 and the application is not run.
  Either way the context of the server task afterwards is the one it had before.
\<close>

lemma identity_is_bound_and_restored:
  "actor_context True True headers app ctx =
     (if falsy (headers ''x-actor-id'') then (Rejected 400 ''missing X-Actor-Id header'', ctx)
      else if falsy (headers ''x-schedule-id'') then (Rejected 400 ''missing X-Schedule-Id header'', ctx)
      else (Passed (fst (app \<lparr>ctx_actor = headers ''x-actor-id'', ctx_schedule = headers ''x-schedule-id''\<rparr>)), ctx))
   \<and> snd (actor_identity a s app ctx) = ctx"
  by (cases ctx) (auto simp: actor_context_def actor_identity_def Let_def split: prod.splits)

text \<open>
  A checkpoint never passes silently. With the barrier enabled, \<open>checkpoint\<close> returns
  normally only if a URL is configured, an identity is bound and the coordinator answered
  200 to a request carrying that very identity; every other outcome raises.
\<close>

lemma checkpoint_passes_only_on_200:
  "service_checkpoint (Some ''1'') url post ctx tp name = None \<longleftrightarrow>
     \<not> falsy url \<and> (\<exists>a s hs n cp. ctx_actor ctx = Some a \<and> ctx_schedule ctx = Some s \<and>
        outbound_headers ctx tp = Inr hs \<and> map_of hs ''X-Actor-Id'' = Some a \<and>
        map_of hs ''X-Schedule-Id'' = Some s \<and> post hs name = Inr (n, cp))"
proof (cases "falsy url")
  case True
  then show ?thesis by (simp add: service_checkpoint_def barrier_client_def)
next
  case False
  then obtain u where "url = Some u" by (cases url) auto
  with False show ?thesis
    by (auto simp: service_checkpoint_def barrier_client_def client_checkpoint_def
        outbound_headers_def split: option.splits sum.splits)
qed

text \<open>
  Instrumentation does not change the system it measures: with the request log in front,
  the reply and the state are those of the bare application, whether or not the two
  statements of the log succeed; and when they do, the request leaves exactly one row.
\<close>

lemma request_log_is_transparent:
  "(case request_log iok fok headers m p pid t0 t1 app (rows, s) of (r, rows', s') \<Rightarrow>
      (r, s') = app s \<and>
      length rows' = length rows + (if iok then 1 else 0))"
  by (auto simp: request_log_def log_insert_def log_finish_def Let_def split: prod.splits)

end
