(* ===== verification/Authorization.thy ===== *)
theory Authorization
  imports Lab_Prelude
begin

text \<open>
  Who may do what: \<^verbatim>\<open>libs/clock.py\<close>, \<^verbatim>\<open>libs/identity.py\<close>, \<^verbatim>\<open>libs/policy.py\<close>,
  \<^verbatim>\<open>libs/enforcement.py\<close> and \<^verbatim>\<open>libs/approvals.py\<close>. The JWT library is not part of the
  repository: \<open>actor_claims\<close> and \<open>authorize\<close> take its \<open>decode\<close> (with the secret, the
  algorithm and the required claims already applied) as an argument that returns the
  exception's message or the payload. The lemmas characterise the policy and the approval
  check on every branch, and show that enforcement lets an action through only for a decoded
  token with the right tenant and scopes.
\<close>

section \<open>Clock\<close>

record frozen_clock = at_time :: datetime

definition EPOCH :: datetime where "EPOCH = 63902865600000000"

datatype clock_error = ValueError | OverflowError

definition make_frozen_clock :: "datetime option \<Rightarrow> frozen_clock" where
  "make_frozen_clock t = \<lparr>at_time = (case t of None \<Rightarrow> EPOCH | Some t \<Rightarrow> t)\<rparr>"

text \<open>
  \<open>timedelta(seconds=s)\<close> for a possibly fractional \<open>s\<close>: rounded to the nearest microsecond,
  ties to even.
\<close>

definition timedelta_us :: "rat \<Rightarrow> int" where
  "timedelta_us s = (let x = s * 1000000; f = \<lfloor>x\<rfloor>; r = x - of_int f in
     if r < 1/2 \<or> r = 1/2 \<and> even f then f else f + 1)"

definition frozen_advance :: "rat \<Rightarrow> frozen_clock \<Rightarrow> clock_error + frozen_clock" where
  "frozen_advance seconds c =
     (if seconds < 0 then Inl ValueError
      else case add_microseconds (at_time c) (timedelta_us seconds) of
          None \<Rightarrow> Inl OverflowError | Some t \<Rightarrow> Inr (c\<lparr>at_time := t\<rparr>))"

lemma timedelta_us_nonneg: "0 \<le> s \<Longrightarrow> 0 \<le> timedelta_us s"
  by (simp add: timedelta_us_def Let_def)

section \<open>Identity\<close>

text \<open>The claims of a decoded token; \<open>tenant\<close> and \<open>scopes\<close> may be missing. Scopes
  are a list of strings, as \<open>issue_token\<close> writes them; a token signed elsewhere with other JSON there is
  not modelled.\<close>

record jwt_payload =
  jp_sub :: string
  jp_tenant :: "string option"
  jp_scopes :: "string list option"
  jp_iat :: datetime
  jp_exp :: datetime

record actor_claims =
  actor_id :: string
  tenant :: string
  scopes :: "string list"

datatype claims_error = InvalidToken string | ClaimKeyError string

definition DEFAULT_TTL_SECONDS :: int where "DEFAULT_TTL_SECONDS = 3600"

text \<open>What \<open>issue_token\<close> hands to \<open>jwt.encode\<close>.\<close>

definition issue_payload ::
  "string \<Rightarrow> string list \<Rightarrow> string \<Rightarrow> int \<Rightarrow> datetime \<Rightarrow> clock_error + jwt_payload" where
  "issue_payload actor scs ten ttl_seconds now =
     (case add_seconds now ttl_seconds of None \<Rightarrow> Inl OverflowError
      | Some e \<Rightarrow> Inr \<lparr>jp_sub = actor, jp_tenant = Some ten, jp_scopes = Some scs,
          jp_iat = now, jp_exp = e\<rparr>)"

definition actor_claims_of :: "(string \<Rightarrow> string + jwt_payload) \<Rightarrow> string \<Rightarrow> claims_error + actor_claims" where
  "actor_claims_of decode token =
     (case decode token of
        Inl msg \<Rightarrow> Inl (InvalidToken msg)
      | Inr p \<Rightarrow> (case jp_tenant p of
            None \<Rightarrow> Inl (ClaimKeyError ''tenant'')
          | Some t \<Rightarrow> Inr \<lparr>actor_id = jp_sub p, tenant = t,
              scopes = (case jp_scopes p of None \<Rightarrow> [] | Some ss \<Rightarrow> ss)\<rparr>))"

section \<open>Policy\<close>

definition APPROVAL_THRESHOLD :: decimal where "APPROVAL_THRESHOLD = 500"

definition REQUIRED_SCOPE :: "string \<Rightarrow> string option" where
  "REQUIRED_SCOPE = [''refund'' \<mapsto> ''refund:create'', ''credit'' \<mapsto> ''credit:create'']"

definition APPROVED_SCOPE :: "string \<Rightarrow> string option" where
  "APPROVED_SCOPE = [''refund'' \<mapsto> ''refund:approved'', ''credit'' \<mapsto> ''credit:approved'']"

datatype decision = ALLOW | DENY | REQUIRE_APPROVAL

datatype policy_reason =
    Tenant_Mismatch string string
  | Unknown_Action string
  | Missing_Scope string
  | Above_Threshold_Approved
  | Exceeds_Threshold decimal
  | Within_Authority

record policy_decision =
  outcome :: decision
  reason :: policy_reason

text \<open>\<open>APPROVED_SCOPE[action]\<close> cannot raise: both tables have the same keys.\<close>

definition evaluate_action :: "actor_claims \<Rightarrow> string \<Rightarrow> decimal \<Rightarrow> string \<Rightarrow> policy_decision" where
  "evaluate_action claims action amount ten =
     (if tenant claims \<noteq> ten then \<lparr>outcome = DENY, reason = Tenant_Mismatch (tenant claims) ten\<rparr>
      else case REQUIRED_SCOPE action of
        None \<Rightarrow> \<lparr>outcome = DENY, reason = Unknown_Action action\<rparr>
      | Some required \<Rightarrow>
          if required \<notin> set (scopes claims) then \<lparr>outcome = DENY, reason = Missing_Scope required\<rparr>
          else if amount > APPROVAL_THRESHOLD then
            (if the (APPROVED_SCOPE action) \<in> set (scopes claims)
             then \<lparr>outcome = ALLOW, reason = Above_Threshold_Approved\<rparr>
             else \<lparr>outcome = REQUIRE_APPROVAL, reason = Exceeds_Threshold amount\<rparr>)
          else \<lparr>outcome = ALLOW, reason = Within_Authority\<rparr>)"

lemma same_actions:
  "REQUIRED_SCOPE action = Some r \<Longrightarrow> \<exists>a. APPROVED_SCOPE action = Some a"
  by (auto simp: REQUIRED_SCOPE_def APPROVED_SCOPE_def split: if_splits)

lemma evaluate_ALLOW:
  "outcome (evaluate_action claims action amount ten) = ALLOW \<longleftrightarrow>
     tenant claims = ten \<and>
     (\<exists>required approved. REQUIRED_SCOPE action = Some required \<and>
        APPROVED_SCOPE action = Some approved \<and> required \<in> set (scopes claims) \<and>
        (amount \<le> APPROVAL_THRESHOLD \<or> approved \<in> set (scopes claims)))"
  by (auto simp: evaluate_action_def split: option.splits dest: same_actions)

section \<open>Enforcement\<close>

definition lower_char :: "char \<Rightarrow> char" where
  "lower_char c = (if 65 \<le> (of_char c :: nat) \<and> (of_char c :: nat) \<le> 90
     then char_of ((of_char c :: nat) + 32) else c)"

lemma lower_char_B [simp]: "lower_char CHR ''B'' = CHR ''b''"
  by code_simp

lemma lower_char_lower [simp]: "97 \<le> (of_char c :: nat) \<Longrightarrow> lower_char c = c"
  by (simp add: lower_char_def)

definition starts_with :: "string \<Rightarrow> string \<Rightarrow> bool" where
  "starts_with p s \<longleftrightarrow> take (length p) s = p"

text \<open>Headers by lower-case name, as Starlette presents them.\<close>

type_synonym headers = "string \<Rightarrow> string option"

datatype auth_detail =
    Missing_Bearer
  | Invalid_Token_Detail string
  | Approval_Required policy_reason
  | Denied policy_reason
  | Uncaught_Key_Error string

definition authorize ::
  "bool \<Rightarrow> (string \<Rightarrow> string + jwt_payload) \<Rightarrow> headers \<Rightarrow> string \<Rightarrow> decimal \<Rightarrow>
     auth_detail http_error option" where
  "authorize enabled decode hs action amount =
     (if \<not> enabled then None
      else let header = (case hs ''authorization'' of None \<Rightarrow> '''' | Some h \<Rightarrow> h) in
        if \<not> starts_with ''bearer '' (map lower_char header)
        then Some (HTTPException 401 Missing_Bearer)
        else case actor_claims_of decode (tl (dropWhile (\<lambda>c. c \<noteq> CHR '' '') header)) of
          Inl (InvalidToken msg) \<Rightarrow> Some (HTTPException 401 (Invalid_Token_Detail msg))
        | Inl (ClaimKeyError k) \<Rightarrow> Some (HTTPException 500 (Uncaught_Key_Error k))
        | Inr claims \<Rightarrow>
            (let ten = (case hs ''x-tenant-id'' of None \<Rightarrow> tenant claims | Some t \<Rightarrow> t);
                 d = evaluate_action claims action amount ten in
             case outcome d of
               ALLOW \<Rightarrow> None
             | REQUIRE_APPROVAL \<Rightarrow> Some (HTTPException 403 (Approval_Required (reason d)))
             | DENY \<Rightarrow> Some (HTTPException 403 (Denied (reason d)))))"

section \<open>Approvals\<close>

record approval_grant =
  g_case_id :: string
  g_action :: string
  g_max_amount :: decimal
  g_granted_at :: datetime
  g_expires_at :: "datetime option"

datatype approval_error =
    ApprovalExpired "datetime option"
  | Wrong_Case string string
  | Wrong_Action string string
  | Over_Amount decimal decimal

definition issue_approval ::
  "string \<Rightarrow> string \<Rightarrow> decimal \<Rightarrow> int \<Rightarrow> datetime \<Rightarrow> clock_error + approval_grant" where
  "issue_approval cid action max_amount valid_for_seconds now =
     (case add_seconds now valid_for_seconds of None \<Rightarrow> Inl OverflowError
      | Some e \<Rightarrow> Inr \<lparr>g_case_id = cid, g_action = action, g_max_amount = max_amount,
          g_granted_at = now, g_expires_at = Some e\<rparr>)"

text \<open>\<open>None\<close> is a normal return; \<open>Some\<close> the exception raised.\<close>

definition check_approval ::
  "approval_grant \<Rightarrow> string \<Rightarrow> string \<Rightarrow> decimal \<Rightarrow> datetime \<Rightarrow> approval_error option" where
  "check_approval g cid action amount now =
     (case g_expires_at g of
        None \<Rightarrow> Some (ApprovalExpired None)
      | Some e \<Rightarrow>
          if now > e then Some (ApprovalExpired (Some e))
          else if g_case_id g \<noteq> cid then Some (Wrong_Case (g_case_id g) cid)
          else if g_action g \<noteq> action then Some (Wrong_Action (g_action g) action)
          else if amount > g_max_amount g then Some (Over_Amount (g_max_amount g) amount)
          else None)"

section \<open>Properties\<close>

text \<open>
  C29. Enforcement lets through only what a token authorises. With enforcement on, an action
  passes exactly when the header carries a bearer token that decodes, the token names a
  tenant that is the one asked for, it has the scope of the action, and it has the approval
  scope too when the amount is above the threshold of 500.
\<close>

theorem authorize_passes_iff_token_authorises:
  "authorize True decode hs action amount = None \<longleftrightarrow>
     (\<exists>h p t required approved.
        hs ''authorization'' = Some h \<and> starts_with ''bearer '' (map lower_char h) \<and>
        decode (tl (dropWhile (\<lambda>c. c \<noteq> CHR '' '') h)) = Inr p \<and> jp_tenant p = Some t \<and>
        (hs ''x-tenant-id'' = None \<or> hs ''x-tenant-id'' = Some t) \<and>
        REQUIRED_SCOPE action = Some required \<and> APPROVED_SCOPE action = Some approved \<and>
        (\<exists>ss. jp_scopes p = Some ss \<and> required \<in> set ss \<and>
           (amount \<le> 500 \<or> approved \<in> set ss)))"
  (is "?lhs \<longleftrightarrow> ?rhs")
proof -
  have allow: "(case outcome d of ALLOW \<Rightarrow> None | REQUIRE_APPROVAL \<Rightarrow> Some x | DENY \<Rightarrow> Some y) = None
      \<longleftrightarrow> outcome d = ALLOW" for d :: policy_decision and x y :: "auth_detail http_error"
    by (cases "outcome d") auto
  have no_bearer: "\<not> starts_with ''bearer '' []" by (simp add: starts_with_def)
  show ?thesis
    by (cases "hs ''authorization''")
       (auto simp: authorize_def actor_claims_of_def Let_def allow evaluate_ALLOW no_bearer
         APPROVAL_THRESHOLD_def split: sum.splits option.splits if_splits)
qed

text \<open>
  An approval authorises one action, bounded in time and amount: a grant issued at
  \<open>t\<close> for \<open>s\<close> seconds passes the check exactly for its own case and action, for an amount up
  to its maximum, and up to and including the instant \<open>t + s\<close>; a grant without a deadline is
  never accepted.
\<close>

lemma approval_is_bound_and_bounded:
  "(issue_approval cid act mx s t = Inr g \<longrightarrow>
      (check_approval g cid' act' amount now = None \<longleftrightarrow>
         now \<le> t + s * 1000000 \<and> cid' = cid \<and> act' = act \<and> amount \<le> mx))
   \<and> check_approval (g\<lparr>g_expires_at := None\<rparr>) cid' act' amount now \<noteq> None"
  by (auto simp: issue_approval_def check_approval_def dest: add_seconds_Some split: option.splits)

text \<open>
  A token without a tenant is a server error. The JWT library is asked to require
  \<open>exp\<close>, \<open>iat\<close> and \<open>sub\<close> only, and \<open>payload["tenant"]\<close> is read outside the \<open>try\<close>, so a
  correctly signed token that carries no tenant is answered with 500 and not with the 401
  that every other unusable token gets.
\<close>

lemma token_without_tenant_is_a_500:
  assumes "hs ''authorization'' = Some (''Bearer '' @ token)"
    and "decode token = Inr p" and "jp_tenant p = None"
  shows "authorize True decode hs action amount = Some (HTTPException 500 (Uncaught_Key_Error ''tenant''))"
  using assms by (simp add: authorize_def actor_claims_of_def starts_with_def Let_def
      lower_char_def [of "CHR '' ''"])

end
