(* ===== verification/Effects.thy ===== *)
theory Effects
  imports Lab_Prelude
begin

text \<open>
  What Billing and Ledger share: the tables of their two databases (\<^verbatim>\<open>refunds\<close> and
  \<^verbatim>\<open>credits\<close> have the same columns), the transactional outbox of \<^verbatim>\<open>libs/outbox.py\<close> and the
  decision log of \<^verbatim>\<open>libs/service_common.py\<close>. A handler's transaction is one function from
  the database to either the exception that rolls it back or a result with the new database.
  Sequence gaps left by rolled-back inserts are not modelled; no code depends on them.

  \<open>effect_inv\<close> is the invariant of such a database: unique idempotency keys, one outbox event
  per effect with its amount, a gapless decision log per case. The locale \<open>effect_store\<close> is
  the contract of an idempotent effect store, which the agent and the oracle rely on.
\<close>

section \<open>Tables\<close>

datatype effect_state = PENDING | COMMITTED | SETTLED | VOIDED

record effect_row =
  ef_id :: int
  ef_case :: string
  ef_actor :: string
  ef_key :: string
  ef_amount :: decimal
  ef_state :: effect_state

record outbox_row =
  ob_id :: int
  ob_case :: string
  ob_actor :: string
  ob_service :: string
  ob_type :: string
  ob_entity :: int
  ob_amount :: decimal
  ob_applied_at :: "datetime option"

record decision_row =
  dl_case :: string
  dl_sequence :: int
  dl_actor :: string
  dl_service :: string
  dl_entity :: int
  dl_from :: "effect_state option"
  dl_to :: effect_state
  dl_amount :: decimal

record effect_db =
  effects :: "effect_row list"
  effect_seq :: int
  outbox :: "outbox_row list"
  outbox_seq :: int
  decisions :: "decision_row list"

datatype db_error = NumericOverflow | CheckViolation string | UniqueViolation string

definition empty_effect_db :: effect_db where
  "empty_effect_db = \<lparr>effects = [], effect_seq = 0, outbox = [], outbox_seq = 0, decisions = []\<rparr>"

section \<open>Decision log\<close>

definition next_sequence :: "string \<Rightarrow> decision_row list \<Rightarrow> int" where
  "next_sequence cid ds =
     (case map dl_sequence (filter (\<lambda>d. dl_case d = cid) ds) of
        [] \<Rightarrow> 0 | s # ss \<Rightarrow> fold max ss s) + 1"

definition append_decision ::
  "string \<Rightarrow> string \<Rightarrow> string \<Rightarrow> int \<Rightarrow> effect_state option \<Rightarrow> effect_state \<Rightarrow> decimal \<Rightarrow>
     'a effect_db_scheme \<Rightarrow> db_error + 'a effect_db_scheme" where
  "append_decision cid actor service entity from_state to_state amount db =
     (let n = next_sequence cid (decisions db) in
      case numeric_12_2 amount of None \<Rightarrow> Inl NumericOverflow
      | Some a \<Rightarrow>
        if \<exists>d\<in>set (decisions db). dl_case d = cid \<and> dl_sequence d = n
        then Inl (UniqueViolation ''decision_log'')
        else Inr (db\<lparr>decisions := decisions db @
          [\<lparr>dl_case = cid, dl_sequence = n, dl_actor = actor, dl_service = service,
            dl_entity = entity, dl_from = from_state, dl_to = to_state, dl_amount = a\<rparr>]\<rparr>))"

section \<open>Outbox\<close>

definition publish ::
  "string \<Rightarrow> string \<Rightarrow> string \<Rightarrow> string \<Rightarrow> int \<Rightarrow> decimal \<Rightarrow>
     'a effect_db_scheme \<Rightarrow> db_error + 'a effect_db_scheme" where
  "publish cid actor service event_type entity amount db =
     (case numeric_12_2 amount of None \<Rightarrow> Inl NumericOverflow
      | Some a \<Rightarrow> Inr (db\<lparr>outbox_seq := outbox_seq db + 1, outbox := outbox db @
          [\<lparr>ob_id = outbox_seq db + 1, ob_case = cid, ob_actor = actor, ob_service = service,
            ob_type = event_type, ob_entity = entity, ob_amount = a, ob_applied_at = None\<rparr>]\<rparr>))"

definition claim_unapplied :: "nat \<Rightarrow> 'a effect_db_scheme \<Rightarrow> outbox_row list" where
  "claim_unapplied limit db =
     take limit (sort_key ob_id (filter (\<lambda>e. ob_applied_at e = None) (outbox db)))"

definition mark_applied :: "datetime \<Rightarrow> int list \<Rightarrow> 'a effect_db_scheme \<Rightarrow> 'a effect_db_scheme" where
  "mark_applied now ids db =
     (if ids = [] then db
      else db\<lparr>outbox := update_where (\<lambda>e. ob_id e \<in> set ids)
        (\<lambda>e. e\<lparr>ob_applied_at := Some now\<rparr>) (outbox db)\<rparr>)"

definition pending_count :: "'a effect_db_scheme \<Rightarrow> nat" where
  "pending_count db = length (filter (\<lambda>e. ob_applied_at e = None) (outbox db))"

section \<open>The statements of the two effect handlers\<close>

text \<open>\<open>INSERT INTO refunds/credits .. 'COMMITTED' RETURNING ..\<close> with the table's constraints.\<close>

definition insert_effect ::
  "string \<Rightarrow> string \<Rightarrow> string \<Rightarrow> decimal \<Rightarrow> 'a effect_db_scheme \<Rightarrow>
     db_error + effect_row \<times> 'a effect_db_scheme" where
  "insert_effect cid actor key amount db =
     (case numeric_12_2 amount of None \<Rightarrow> Inl NumericOverflow
      | Some a \<Rightarrow>
        if \<not> 0 < a then Inl (CheckViolation ''amount'')
        else if \<exists>r\<in>set (effects db). ef_key r = key then Inl (UniqueViolation ''idempotency_key'')
        else (let row = \<lparr>ef_id = effect_seq db + 1, ef_case = cid, ef_actor = actor, ef_key = key,
                ef_amount = a, ef_state = COMMITTED\<rparr>
              in Inr (row, db\<lparr>effect_seq := effect_seq db + 1, effects := effects db @ [row]\<rparr>)))"

definition committed_state :: "effect_state \<Rightarrow> bool" where
  "committed_state s \<longleftrightarrow> s = COMMITTED \<or> s = SETTLED"

definition total_committed :: "string \<Rightarrow> 'a effect_db_scheme \<Rightarrow> decimal" where
  "total_committed cid db =
     sum_where (\<lambda>r. ef_case r = cid \<and> committed_state (ef_state r)) ef_amount (effects db)"

definition key_row :: "string \<Rightarrow> 'a effect_db_scheme \<Rightarrow> effect_row option" where
  "key_row key db = row_where (\<lambda>r. ef_key r = key) (effects db)"

text \<open>
  The transaction that both create handlers run, with the service's name and the type of its
  event as parameters: the replay check, the insert, the decision and the event.
\<close>

definition effect_tx ::
  "string \<Rightarrow> string \<Rightarrow> string \<Rightarrow> string \<Rightarrow> string \<Rightarrow> decimal \<Rightarrow> 'a effect_db_scheme \<Rightarrow>
     db_error + (bool \<times> effect_row) \<times> 'a effect_db_scheme" where
  "effect_tx service event cid actor key amount db =
     (case key_row key db of Some row \<Rightarrow> Inr ((True, row), db)
      | None \<Rightarrow> (case insert_effect cid actor key amount db of Inl e \<Rightarrow> Inl e
        | Inr (row, db) \<Rightarrow>
          (case append_decision cid actor service (ef_id row) None COMMITTED amount db of
             Inl e \<Rightarrow> Inl e
           | Inr db \<Rightarrow> (case publish cid actor service event (ef_id row) amount db of
               Inl e \<Rightarrow> Inl e | Inr db \<Rightarrow> Inr ((False, row), db)))))"

definition void_tx ::
  "string \<Rightarrow> string \<Rightarrow> int \<Rightarrow> 'a effect_db_scheme \<Rightarrow>
     db_error + (effect_row \<times> 'a effect_db_scheme) option" where
  "void_tx service actor eid db =
     (let db = db\<lparr>effects := update_where (\<lambda>r. ef_id r = eid) (\<lambda>r. r\<lparr>ef_state := VOIDED\<rparr>) (effects db)\<rparr> in
      case row_where (\<lambda>r. ef_id r = eid) (effects db) of None \<Rightarrow> Inr None
      | Some row \<Rightarrow> (case append_decision (ef_case row) actor service (ef_id row)
            (Some COMMITTED) VOIDED (ef_amount row) db of
          Inl e \<Rightarrow> Inl e | Inr db \<Rightarrow> Inr (Some (row, db))))"

definition redeliver :: "string \<Rightarrow> 'a effect_db_scheme \<Rightarrow> int list \<times> 'a effect_db_scheme" where
  "redeliver cid db =
     (let due = (\<lambda>e. ob_case e = cid \<and> ob_applied_at e \<noteq> None) in
      (map ob_id (filter due (outbox db)),
       db\<lparr>outbox := update_where due (\<lambda>e. e\<lparr>ob_applied_at := None\<rparr>) (outbox db)\<rparr>))"

definition mark_one :: "datetime \<Rightarrow> int \<Rightarrow> 'a effect_db_scheme \<Rightarrow> (int \<times> 'a effect_db_scheme) option" where
  "mark_one now eid db =
     (let ev = (\<lambda>e. ob_id e = eid) in
      case row_where ev (outbox db) of None \<Rightarrow> None
      | Some e \<Rightarrow> Some (ob_id e,
          db\<lparr>outbox := update_where ev (\<lambda>e. e\<lparr>ob_applied_at := Some now\<rparr>) (outbox db)\<rparr>))"

definition events_where :: "bool \<Rightarrow> string option \<Rightarrow> 'a effect_db_scheme \<Rightarrow> outbox_row list" where
  "events_where unapplied_only cid db =
     sort_key ob_id (filter (\<lambda>e. (unapplied_only \<longrightarrow> ob_applied_at e = None) \<and>
       (case cid of None \<Rightarrow> True | Some c \<Rightarrow> ob_case e = c)) (outbox db))"

section \<open>The invariant\<close>

definition event_of :: "outbox_row \<Rightarrow> int \<times> string \<times> decimal" where
  "event_of e = (ob_entity e, ob_case e, ob_amount e)"

definition effect_of :: "effect_row \<Rightarrow> int \<times> string \<times> decimal" where
  "effect_of r = (ef_id r, ef_case r, ef_amount r)"

definition case_log :: "string \<Rightarrow> decision_row list \<Rightarrow> int list" where
  "case_log cid ds = map dl_sequence (filter (\<lambda>d. dl_case d = cid) ds)"

definition effect_inv :: "'a effect_db_scheme \<Rightarrow> bool" where
  "effect_inv db \<longleftrightarrow>
     distinct (map ef_key (effects db)) \<and>
     sorted_wrt (<) (map ef_id (effects db)) \<and>
     (\<forall>r\<in>set (effects db). ef_id r \<le> effect_seq db \<and> 0 < ef_amount r \<and> in_cents (ef_amount r) \<and>
        ef_amount r < 10000000000 \<and> ef_state r \<in> {COMMITTED, VOIDED}) \<and>
     map event_of (outbox db) = map effect_of (effects db) \<and>
     sorted_wrt (<) (map ob_id (outbox db)) \<and>
     (\<forall>e\<in>set (outbox db). ob_id e \<le> outbox_seq db) \<and>
     (\<forall>cid. case_log cid (decisions db) = [1..int (length (case_log cid (decisions db)))])"

lemma effect_inv_empty: "effect_inv empty_effect_db"
  by (simp add: effect_inv_def empty_effect_db_def case_log_def)

lemma fold_max_upto: "0 \<le> n \<Longrightarrow> fold max [m + 1..m + n] m = (m + n :: int)"
proof (induction n rule: int_ge_induct)
  case base
  then show ?case by simp
next
  case (step n)
  then show ?case by (simp add: upto_rec2 add.assoc [symmetric])
qed

lemma next_sequence_gapless:
  assumes "case_log cid ds = [1..int n]"
  shows "next_sequence cid ds = int n + 1"
proof (cases "n = 0")
  case True
  with assms show ?thesis by (simp add: next_sequence_def case_log_def)
next
  case False
  then have "[1..int n] = 1 # [1 + 1..1 + int (n - 1)]" by (simp add: upto_rec1)
  with assms fold_max_upto [of "int (n - 1)" 1] False show ?thesis
    by (simp add: next_sequence_def case_log_def)
qed

lemma append_decision_gapless:
  assumes log: "\<forall>c. case_log c (decisions db) = [1..int (length (case_log c (decisions db)))]"
    and a: "numeric_12_2 amount = Some a"
  shows "\<exists>d. append_decision cid actor service entity f t amount db = Inr (db\<lparr>decisions := decisions db @ [d]\<rparr>)
    \<and> dl_case d = cid \<and> dl_to d = t \<and> dl_from d = f \<and> dl_entity d = entity
    \<and> (\<forall>c. case_log c (decisions db @ [d]) = [1..int (length (case_log c (decisions db @ [d])))])"
proof -
  let ?n = "length (case_log cid (decisions db))"
  have lg: "case_log cid (decisions db) = [1..int ?n]" using log by blast
  have n: "next_sequence cid (decisions db) = int ?n + 1" by (rule next_sequence_gapless [OF lg])
  have "int ?n + 1 \<notin> set (case_log cid (decisions db))" by (subst lg) simp
  then have fresh: "\<not> (\<exists>d\<in>set (decisions db). dl_case d = cid \<and> dl_sequence d = int ?n + 1)"
    by (force simp: case_log_def)
  let ?d = "\<lparr>dl_case = cid, dl_sequence = int ?n + 1, dl_actor = actor, dl_service = service,
     dl_entity = entity, dl_from = f, dl_to = t, dl_amount = a\<rparr>"
  have "case_log c (decisions db @ [?d]) = [1..int (length (case_log c (decisions db @ [?d])))]" for c
  proof (cases "c = cid")
    case True
    then have "case_log c (decisions db @ [?d]) = [1..int ?n] @ [int ?n + 1]"
      using lg by (simp add: case_log_def)
    also have "\<dots> = [1..int ?n + 1]" by (simp add: upto_rec2)
    finally show ?thesis by simp
  next
    case False
    then show ?thesis using log by (simp add: case_log_def)
  qed
  then show ?thesis using a n fresh
    by (intro exI [of _ ?d]) (auto simp: append_decision_def Let_def)
qed

section \<open>The transactions keep the invariant\<close>

lemma key_row_None: "key_row key db = None \<longleftrightarrow> key \<notin> ef_key ` set (effects db)"
  by (auto simp: key_row_def row_where_None)

lemma key_row_Some: "key_row key db = Some r \<Longrightarrow> r \<in> set (effects db) \<and> ef_key r = key"
  by (auto simp: key_row_def dest: row_where_Some)

text \<open>
  The only ways in which the create transaction ends: a replay that changes nothing, a new
  row with its event and its decision, or an exception from the amount's type or check.
\<close>

lemma effect_tx_cases:
  assumes inv: "effect_inv db"
  obtains (replay) r where "key_row key db = Some r"
      "effect_tx service event cid actor key amount db = Inr ((True, r), db)"
  | (overflow) "key_row key db = None" "numeric_12_2 amount = None"
      "effect_tx service event cid actor key amount db = Inl NumericOverflow"
  | (check) a where "key_row key db = None" "numeric_12_2 amount = Some a" "a \<le> 0"
      "effect_tx service event cid actor key amount db = Inl (CheckViolation ''amount'')"
  | (created) a row d e where "key_row key db = None" "numeric_12_2 amount = Some a" "0 < a"
      "row = \<lparr>ef_id = effect_seq db + 1, ef_case = cid, ef_actor = actor, ef_key = key,
         ef_amount = a, ef_state = COMMITTED\<rparr>"
      "effect_tx service event cid actor key amount db = Inr ((False, row),
         db\<lparr>effect_seq := effect_seq db + 1, effects := effects db @ [row],
            outbox_seq := outbox_seq db + 1, outbox := outbox db @ [e], decisions := decisions db @ [d]\<rparr>)"
      "event_of e = effect_of row" "ob_id e = outbox_seq db + 1" "ob_applied_at e = None"
      "ob_service e = service" "ob_type e = event"
      "\<forall>c. case_log c (decisions db @ [d]) = [1..int (length (case_log c (decisions db @ [d])))]"
proof (cases "key_row key db")
  case (Some r)
  then show thesis by (intro replay) (auto simp: effect_tx_def)
next
  case None
  then have nokey: "\<not> (\<exists>r\<in>set (effects db). ef_key r = key)" by (auto simp: key_row_None)
  show thesis
  proof (cases "numeric_12_2 amount")
    case None
    with \<open>key_row key db = None\<close> show thesis
      by (intro overflow) (auto simp: effect_tx_def insert_effect_def)
  next
    case (Some a)
    show thesis
    proof (cases "0 < a")
      case False
      with None Some show thesis by (intro check) (auto simp: effect_tx_def insert_effect_def)
    next
      case True
      let ?row = "\<lparr>ef_id = effect_seq db + 1, ef_case = cid, ef_actor = actor, ef_key = key,
         ef_amount = a, ef_state = COMMITTED\<rparr>"
      let ?db = "db\<lparr>effect_seq := effect_seq db + 1, effects := effects db @ [?row]\<rparr>"
      let ?e = "\<lparr>ob_id = outbox_seq db + 1, ob_case = cid, ob_actor = actor, ob_service = service,
         ob_type = event, ob_entity = effect_seq db + 1, ob_amount = a, ob_applied_at = None\<rparr>"
      have log: "\<forall>c. case_log c (decisions ?db) = [1..int (length (case_log c (decisions ?db)))]"
        using inv by (simp add: effect_inv_def)
      from append_decision_gapless [OF log Some, of cid actor service "effect_seq db + 1" None COMMITTED]
      obtain d where ad: "append_decision cid actor service (effect_seq db + 1) None COMMITTED amount ?db
          = Inr (?db\<lparr>decisions := decisions db @ [d]\<rparr>)"
        and lg: "\<forall>c. case_log c (decisions db @ [d]) = [1..int (length (case_log c (decisions db @ [d])))]"
        by auto
      have ins: "insert_effect cid actor key amount db = Inr (?row, ?db)"
        using Some True nokey by (simp add: insert_effect_def Let_def)
      have "effect_tx service event cid actor key amount db = Inr ((False, ?row),
         db\<lparr>effect_seq := effect_seq db + 1, effects := effects db @ [?row],
            outbox_seq := outbox_seq db + 1, outbox := outbox db @ [?e], decisions := decisions db @ [d]\<rparr>)"
        using None ins ad Some by (simp add: effect_tx_def publish_def)
      then show thesis
        using None Some True lg by (intro created [of a ?row d ?e]) (simp_all add: event_of_def effect_of_def)
    qed
  qed
qed

lemma effect_tx_inv:
  assumes inv: "effect_inv db" and tx: "effect_tx service event cid actor key amount db = Inr (r, db')"
  shows "effect_inv db'"
proof (rule effect_tx_cases [OF inv, of key service event cid actor amount])
  fix a row d e
  assume new: "key_row key db = None" and a: "numeric_12_2 amount = Some a" "0 < a"
    and row: "row = \<lparr>ef_id = effect_seq db + 1, ef_case = cid, ef_actor = actor, ef_key = key,
         ef_amount = a, ef_state = COMMITTED\<rparr>"
    and eq: "effect_tx service event cid actor key amount db = Inr ((False, row),
         db\<lparr>effect_seq := effect_seq db + 1, effects := effects db @ [row],
            outbox_seq := outbox_seq db + 1, outbox := outbox db @ [e], decisions := decisions db @ [d]\<rparr>)"
    and e: "event_of e = effect_of row" "ob_id e = outbox_seq db + 1"
    and lg: "\<forall>c. case_log c (decisions db @ [d]) = [1..int (length (case_log c (decisions db @ [d])))]"
  have "in_cents a" "a < 10000000000"
    using numeric_12_2_cents [OF a(1)] a by (auto simp: numeric_12_2_def split: if_splits)
  moreover have db': "db' = db\<lparr>effect_seq := effect_seq db + 1, effects := effects db @ [row],
            outbox_seq := outbox_seq db + 1, outbox := outbox db @ [e], decisions := decisions db @ [d]\<rparr>"
    using tx eq by simp
  ultimately show "effect_inv db'"
    using inv new a(2) row e lg unfolding effect_inv_def db'
    by (auto simp: sorted_wrt_append key_row_None)
qed (use tx inv in auto)

lemma void_tx_cases:
  assumes inv: "effect_inv db"
  obtains (absent) "eid \<notin> ef_id ` set (effects db)" "void_tx service actor eid db = Inr None"
  | (voided) r d where "r \<in> set (effects db)" "ef_id r = eid"
      "void_tx service actor eid db = Inr (Some (r\<lparr>ef_state := VOIDED\<rparr>,
         db\<lparr>effects := update_where (\<lambda>r. ef_id r = eid) (\<lambda>r. r\<lparr>ef_state := VOIDED\<rparr>) (effects db),
            decisions := decisions db @ [d]\<rparr>))"
      "\<forall>c. case_log c (decisions db @ [d]) = [1..int (length (case_log c (decisions db @ [d])))]"
      "dl_from d = Some COMMITTED" "dl_to d = VOIDED" "dl_entity d = eid"
proof (cases "row_where (\<lambda>r. ef_id r = eid) (effects db)")
  case None
  have "row_where (\<lambda>r. ef_id r = eid)
      (update_where (\<lambda>r. ef_id r = eid) (\<lambda>r. r\<lparr>ef_state := VOIDED\<rparr>) (effects db)) = None"
    using None by (auto simp: row_where_None set_update_where)
  then have "void_tx service actor eid db = Inr None" by (simp add: void_tx_def)
  then show thesis using None by (intro absent) (auto simp: row_where_None)
next
  case (Some r)
  let ?u = "update_where (\<lambda>r. ef_id r = eid) (\<lambda>r. r\<lparr>ef_state := VOIDED\<rparr>) (effects db)"
  have r: "r \<in> set (effects db)" "ef_id r = eid" using row_where_Some [OF Some] by auto
  have upd: "row_where (\<lambda>r. ef_id r = eid) ?u
      = map_option (\<lambda>r. r\<lparr>ef_state := VOIDED\<rparr>) (row_where (\<lambda>r. ef_id r = eid) (effects db))"
    by (rule row_where_update) simp
  have log: "\<forall>c. case_log c (decisions (db\<lparr>effects := ?u\<rparr>))
      = [1..int (length (case_log c (decisions (db\<lparr>effects := ?u\<rparr>))))]"
    using inv by (simp add: effect_inv_def)
  have "numeric_12_2 (ef_amount r) = Some (ef_amount r)"
    using inv r(1) by (auto simp: effect_inv_def intro!: numeric_12_2_exact)
  from append_decision_gapless [OF log this, of "ef_case r" actor service eid "Some COMMITTED" VOIDED]
  obtain d where "append_decision (ef_case r) actor service eid (Some COMMITTED) VOIDED (ef_amount r)
        (db\<lparr>effects := ?u\<rparr>) = Inr (db\<lparr>effects := ?u, decisions := decisions db @ [d]\<rparr>)"
    and "\<forall>c. case_log c (decisions db @ [d]) = [1..int (length (case_log c (decisions db @ [d])))]"
    and "dl_from d = Some COMMITTED" "dl_to d = VOIDED" "dl_entity d = eid"
    by auto
  then show thesis using r Some upd
    by (intro voided [of r d]) (auto simp: void_tx_def Let_def)
qed

lemma void_tx_inv:
  assumes inv: "effect_inv db" and tx: "void_tx service actor eid db = Inr (Some (row, db'))"
  shows "effect_inv db'"
proof (rule void_tx_cases [OF inv, of eid service actor])
  fix r d
  assume eq: "void_tx service actor eid db = Inr (Some (r\<lparr>ef_state := VOIDED\<rparr>,
         db\<lparr>effects := update_where (\<lambda>r. ef_id r = eid) (\<lambda>r. r\<lparr>ef_state := VOIDED\<rparr>) (effects db),
            decisions := decisions db @ [d]\<rparr>))"
    and lg: "\<forall>c. case_log c (decisions db @ [d]) = [1..int (length (case_log c (decisions db @ [d])))]"
  have db': "db' = db\<lparr>effects := update_where (\<lambda>r. ef_id r = eid) (\<lambda>r. r\<lparr>ef_state := VOIDED\<rparr>) (effects db),
            decisions := decisions db @ [d]\<rparr>"
    using tx eq by simp
  have "map effect_of (update_where (\<lambda>r. ef_id r = eid) (\<lambda>r. r\<lparr>ef_state := VOIDED\<rparr>) (effects db))
      = map effect_of (effects db)"
    by (rule map_update_where) (simp add: effect_of_def)
  then show "effect_inv db'"
    using inv lg unfolding effect_inv_def db' by (auto simp: set_update_where)
qed (use tx in simp)

lemma outbox_update_inv:
  assumes "effect_inv db" and "\<And>e. event_of (f e) = event_of e" and "\<And>e. ob_id (f e) = ob_id e"
  shows "effect_inv (db\<lparr>outbox := update_where P f (outbox db)\<rparr>)"
  using assms by (auto simp: effect_inv_def set_update_where)

lemma event_of_applied [simp]: "event_of (e\<lparr>ob_applied_at := t\<rparr>) = event_of e"
  by (simp add: event_of_def)

lemma redeliver_inv: "effect_inv db \<Longrightarrow> effect_inv (snd (redeliver cid db))"
  by (simp add: redeliver_def Let_def outbox_update_inv)

lemma mark_one_inv: "effect_inv db \<Longrightarrow> mark_one now eid db = Some (i, db') \<Longrightarrow> effect_inv db'"
  by (auto simp: mark_one_def Let_def outbox_update_inv split: option.splits)

lemma mark_applied_inv: "effect_inv db \<Longrightarrow> effect_inv (mark_applied now ids db)"
  by (simp add: mark_applied_def outbox_update_inv)

section \<open>Totals\<close>

lemma total_new_effect:
  "effects db' = effects db @ [row] \<Longrightarrow> ef_state row = COMMITTED \<Longrightarrow>
     total_committed c db' = total_committed c db + (if ef_case row = c then ef_amount row else 0)"
  by (simp add: total_committed_def committed_state_def)

lemma total_nonneg: "effect_inv db \<Longrightarrow> 0 \<le> total_committed c db"
  unfolding total_committed_def effect_inv_def by (intro sum_where_nonneg) auto

lemma total_cents: "effect_inv db \<Longrightarrow> in_cents (total_committed c db)"
  unfolding total_committed_def effect_inv_def by (intro sum_where_cents) auto

lemma key_row_new:
  "effects db' = effects db @ [row] \<Longrightarrow> key_row (ef_key row) db = None \<Longrightarrow>
     key_row k db' = (if k = ef_key row then Some row else key_row k db)"
  by (auto simp: key_row_def split: option.split)

section \<open>The contract of an idempotent effect store\<close>

text \<open>
  \<open>create\<close> answers with a flag (replayed or new) and the row, or raises and leaves the
  store as it was; \<open>total\<close> is the committed total of a case and \<open>find\<close> looks a key up.
\<close>

locale effect_store =
  fixes create :: "string \<Rightarrow> string \<Rightarrow> string \<Rightarrow> decimal \<Rightarrow> 'db \<Rightarrow> db_error + (bool \<times> effect_row) \<times> 'db"
    and total :: "string \<Rightarrow> 'db \<Rightarrow> decimal"
    and find :: "string \<Rightarrow> 'db \<Rightarrow> effect_row option"
    and good :: "'db \<Rightarrow> bool"
  assumes create_replay:
      "good db \<Longrightarrow> find key db = Some r \<Longrightarrow> create cid actor key amount db = Inr ((True, r), db)"
    and create_new:
      "good db \<Longrightarrow> find key db = None \<Longrightarrow> create cid actor key amount db = Inr ((w, r), db') \<Longrightarrow>
         \<not> w \<and> ef_key r = key \<and> ef_case r = cid \<and> numeric_12_2 amount = Some (ef_amount r) \<and>
         0 < ef_amount r \<and> ef_state r = COMMITTED \<and>
         (\<forall>c. total c db' = total c db + (if c = cid then ef_amount r else 0)) \<and>
         (\<forall>k. find k db' = (if k = key then Some r else find k db))"
    and create_good: "good db \<Longrightarrow> create cid actor key amount db = Inr (x, db') \<Longrightarrow> good db'"
    and create_total_fails:
      "good db \<Longrightarrow> find key db = None \<Longrightarrow> create cid actor key amount db = Inl e \<Longrightarrow>
         numeric_12_2 amount = None \<or> (\<exists>a. numeric_12_2 amount = Some a \<and> a \<le> 0)"
begin

text \<open>Running a request, an exception leaving the store alone.\<close>

lemma create_find:
  assumes g: "good db" and c: "create cid actor key amount db = Inr ((w, r), db')"
  shows "find key db' = Some r"
proof (cases "find key db")
  case None
  then show ?thesis using create_new [OF g None c] by simp
next
  case (Some r')
  then show ?thesis using create_replay [OF g Some, of cid actor amount] c by simp
qed

lemma retry_returns_same:
  assumes "good db" and "create cid actor key amount db = Inr ((w, r), db')"
  shows "create cid' actor' key amount' db' = Inr ((True, r), db')"
  using create_replay [OF create_good [OF assms] create_find [OF assms]] .

lemma total_grows:
  assumes "good db" and "create cid actor key amount db = Inr ((w, r), db')"
  shows "total c db' = total c db + (if w \<or> c \<noteq> cid then 0 else ef_amount r)"
proof (cases "find key db")
  case None
  then show ?thesis using create_new [OF assms(1) None assms(2)] by auto
next
  case (Some r')
  then show ?thesis using create_replay [OF assms(1) Some, of cid actor amount] assms(2) by simp
qed

text \<open>A positive amount that fits the column is always accepted.\<close>

lemma create_succeeds:
  assumes g: "good db" and a: "numeric_12_2 amount = Some a" "0 < a"
  shows "\<exists>w r db'. create cid actor key amount db = Inr ((w, r), db')"
proof (cases "find key db")
  case (Some r)
  then show ?thesis using create_replay [OF g Some, of cid actor amount] by blast
next
  case None
  show ?thesis
  proof (cases "create cid actor key amount db")
    case (Inl e)
    then show ?thesis using create_total_fails [OF g None Inl] a by auto
  next
    case (Inr x)
    then show ?thesis by (cases x; cases "fst x") auto
  qed
qed

end

text \<open>The shared transaction meets the contract.\<close>

lemma effect_tx_contract:
  "effect_store (effect_tx service event) total_committed key_row effect_inv"
proof
  fix db :: "'a effect_db_scheme" and key r cid actor amount
  assume "effect_inv db" "key_row key db = Some r"
  then show "effect_tx service event cid actor key amount db = Inr ((True, r), db)"
    by (simp add: effect_tx_def)
next
  fix db db' :: "'a effect_db_scheme" and key cid actor amount w r
  assume inv: "effect_inv db" and none: "key_row key db = None"
    and tx: "effect_tx service event cid actor key amount db = Inr ((w, r), db')"
  show "\<not> w \<and> ef_key r = key \<and> ef_case r = cid \<and> numeric_12_2 amount = Some (ef_amount r) \<and>
         0 < ef_amount r \<and> ef_state r = COMMITTED \<and>
         (\<forall>c. total_committed c db' = total_committed c db + (if c = cid then ef_amount r else 0)) \<and>
         (\<forall>k. key_row k db' = (if k = key then Some r else key_row k db))"
  proof (rule effect_tx_cases [OF inv, of key service event cid actor amount])
    fix a row d e
    assume row: "row = \<lparr>ef_id = effect_seq db + 1, ef_case = cid, ef_actor = actor, ef_key = key,
         ef_amount = a, ef_state = COMMITTED\<rparr>"
      and a: "numeric_12_2 amount = Some a" "0 < a"
      and eq: "effect_tx service event cid actor key amount db = Inr ((False, row),
         db\<lparr>effect_seq := effect_seq db + 1, effects := effects db @ [row],
            outbox_seq := outbox_seq db + 1, outbox := outbox db @ [e], decisions := decisions db @ [d]\<rparr>)"
    have r: "r = row" "\<not> w" and eff: "effects db' = effects db @ [row]" using tx eq by auto
    show ?thesis
      using total_new_effect [OF eff] key_row_new [OF eff] none row a r by auto
  qed (use none tx in auto)
next
  fix db db' :: "'a effect_db_scheme" and key cid actor amount x
  assume "effect_inv db" "effect_tx service event cid actor key amount db = Inr (x, db')"
  then show "effect_inv db'" by (rule effect_tx_inv)
next
  fix db :: "'a effect_db_scheme" and key cid actor amount e
  assume inv: "effect_inv db" and none: "key_row key db = None"
    and tx: "effect_tx service event cid actor key amount db = Inl e"
  show "numeric_12_2 amount = None \<or> (\<exists>a. numeric_12_2 amount = Some a \<and> a \<le> 0)"
    by (rule effect_tx_cases [OF inv, of key service event cid actor amount]) (use none tx in auto)
qed

end
