(* ===== verification/Services.thy ===== *)
theory Services
  imports Wire Authorization Effects
begin

text \<open>
  What a request to a service carries and what it is answered, for theories Billing, Ledger
  and Entitlements. \<open>cp\<close> below is \<open>service_checkpoint\<close> with the process's configuration and
  the request's identity applied: the outcome of each named checkpoint of this request.
\<close>

datatype service_detail =
    Amount_Not_Positive
  | Auth_Failed auth_detail
  | Checkpoint_Failed wire_error
  | Db_Failed db_error
  | Not_Found string

text \<open>An error, or a status code with the body.\<close>

type_synonym 'r reply = "service_detail http_error + nat \<times> 'r"

type_synonym checkpoints = "string \<Rightarrow> wire_error option"

record service_env =
  env_enforce :: bool
  env_decode :: "string \<Rightarrow> string + jwt_payload"
  env_headers :: headers
  env_actor :: string

record effect_request =
  r_case_id :: string
  r_amount :: decimal
  r_idempotency_key :: string

datatype effect_op =
    Create service_env checkpoints effect_request
  | Void string int
  | Mark datetime int
  | Redeliver string
  | Truncate

end
