(* ===== verification/Billing.thy ===== *)
theory Billing
  imports Services
begin

text \<open>
  The Billing service, \<^verbatim>\<open>apps/billing/main.py\<close> and \<^verbatim>\<open>apps/billing/db.py\<close>: refunds, plan
  changes and the outbox endpoints over Billing's own database. A handler maps the request
  and the database to the reply and the new database; nothing is read or written before the
  transaction, so the database argument is the one the transaction starts from.
\<close>

section \<open>State\<close>

record plan_row =
  pl_id :: int
  pl_case :: string
  pl_actor :: string
  pl_key :: string
  pl_plan :: string

record billing_db = effect_db +
  plan_changes :: "plan_row list"
  plan_seq :: int

definition empty_billing :: billing_db where
  "empty_billing = \<lparr>effects = [], effect_seq = 0, outbox = [], outbox_seq = 0, decisions = [],
     plan_changes = [], plan_seq = 0\<rparr>"

section \<open>Refunds\<close>

definition create_refund_tx ::
  "string \<Rightarrow> string \<Rightarrow> string \<Rightarrow> decimal \<Rightarrow> billing_db \<Rightarrow> db_error + (bool \<times> effect_row) \<times> billing_db" where
  "create_refund_tx cid actor key amount db =
     (case key_row key db of Some row \<Rightarrow> Inr ((True, row), db)
      | None \<Rightarrow> (case insert_effect cid actor key amount db of Inl e \<Rightarrow> Inl e
        | Inr (row, db) \<Rightarrow>
          (case append_decision cid actor ''billing'' (ef_id row) None COMMITTED amount db of
             Inl e \<Rightarrow> Inl e
           | Inr db \<Rightarrow> (case publish cid actor ''billing'' ''RefundCommitted'' (ef_id row) amount db of
               Inl e \<Rightarrow> Inl e | Inr db \<Rightarrow> Inr ((False, row), db)))))"

definition create_refund ::
  "service_env \<Rightarrow> checkpoints \<Rightarrow> effect_request \<Rightarrow> billing_db \<Rightarrow> effect_row reply \<times> billing_db" where
  "create_refund env cp req db =
     (if r_amount req \<le> 0 then (Inl (HTTPException 422 Amount_Not_Positive), db)
      else case authorize (env_enforce env) (env_decode env) (env_headers env) ''refund'' (r_amount req) of
        Some e \<Rightarrow> (Inl (HTTPException (status e) (Auth_Failed (detail e))), db)
      | None \<Rightarrow>
        (case cp ''billing.after_read_before_decide'' of
           Some e \<Rightarrow> (Inl (HTTPException 500 (Checkpoint_Failed e)), db)
         | None \<Rightarrow>
           (case create_refund_tx (r_case_id req) (env_actor env) (r_idempotency_key req) (r_amount req) db of
              Inl e \<Rightarrow> (Inl (HTTPException 500 (Db_Failed e)), db)
            | Inr ((replayed, row), db') \<Rightarrow>
              if replayed then (Inr (200, row), db')
              else (case cp ''billing.after_commit_before_ack'' of
                  Some e \<Rightarrow> (Inl (HTTPException 500 (Checkpoint_Failed e)), db')
                | None \<Rightarrow> (Inr (201, row), db')))))"

definition void_refund :: "string \<Rightarrow> int \<Rightarrow> billing_db \<Rightarrow> effect_row reply \<times> billing_db" where
  "void_refund actor refund_id db =
     (case void_tx ''billing'' actor refund_id db of
        Inl e \<Rightarrow> (Inl (HTTPException 500 (Db_Failed e)), db)
      | Inr None \<Rightarrow> (Inl (HTTPException 404 (Not_Found ''refund not found'')), db)
      | Inr (Some (row, db')) \<Rightarrow> (Inr (200, row), db'))"

definition list_refunds :: "string \<Rightarrow> billing_db \<Rightarrow> effect_row list \<times> decimal" where
  "list_refunds cid db =
     (sort_key ef_id (filter (\<lambda>r. ef_case r = cid) (effects db)), total_committed cid db)"

section \<open>Plans\<close>

definition change_plan ::
  "string \<Rightarrow> checkpoints \<Rightarrow> string \<Rightarrow> string \<Rightarrow> string \<Rightarrow> billing_db \<Rightarrow> plan_row reply \<times> billing_db" where
  "change_plan actor cp cid plan key db =
     (case cp ''billing.plan.after_read_before_decide'' of
        Some e \<Rightarrow> (Inl (HTTPException 500 (Checkpoint_Failed e)), db)
      | None \<Rightarrow> (case row_where (\<lambda>p. pl_key p = key) (plan_changes db) of
          Some p \<Rightarrow> (Inr (200, p), db)
        | None \<Rightarrow>
          if plan \<notin> {''BASIC'', ''PRO''}
          then (Inl (HTTPException 500 (Db_Failed (CheckViolation ''plan''))), db)
          else (let p = \<lparr>pl_id = plan_seq db + 1, pl_case = cid, pl_actor = actor, pl_key = key,
                  pl_plan = plan\<rparr>;
                  db' = db\<lparr>plan_changes := plan_changes db @ [p], plan_seq := plan_seq db + 1\<rparr>
                in case cp ''billing.plan.after_commit_before_ack'' of
                  Some e \<Rightarrow> (Inl (HTTPException 500 (Checkpoint_Failed e)), db')
                | None \<Rightarrow> (Inr (201, p), db'))))"

definition current_plan :: "string \<Rightarrow> billing_db \<Rightarrow> string option" where
  "current_plan cid db =
     (case rev (sort_key pl_id (filter (\<lambda>p. pl_case p = cid) (plan_changes db))) of
        [] \<Rightarrow> None | p # _ \<Rightarrow> Some (pl_plan p))"

section \<open>Outbox endpoints\<close>

definition list_events :: "bool \<Rightarrow> string option \<Rightarrow> billing_db \<Rightarrow> outbox_row list \<times> nat option" where
  "list_events unapplied_only cid db =
     (let events = events_where unapplied_only cid db
      in (events, if unapplied_only then Some (length events) else None))"

definition mark_event_applied :: "datetime \<Rightarrow> int \<Rightarrow> billing_db \<Rightarrow> int reply \<times> billing_db" where
  "mark_event_applied now event_id db =
     (case mark_one now event_id db of
        None \<Rightarrow> (Inl (HTTPException 404 (Not_Found ''event not found'')), db)
      | Some (i, db') \<Rightarrow> (Inr (200, i), db'))"

definition redeliver_events :: "string \<Rightarrow> billing_db \<Rightarrow> int list \<times> billing_db" where
  "redeliver_events cid db = redeliver cid db"

definition truncate_billing :: "billing_db \<Rightarrow> billing_db" where
  "truncate_billing db = empty_billing"

datatype billing_op = Effect effect_op | Change_Plan string checkpoints string string string

fun billing_step :: "billing_op \<Rightarrow> billing_db \<Rightarrow> billing_db" where
  "billing_step (Effect (Create env cp req)) db = snd (create_refund env cp req db)"
| "billing_step (Effect (Void actor i)) db = snd (void_refund actor i db)"
| "billing_step (Effect (Mark now i)) db = snd (mark_event_applied now i db)"
| "billing_step (Effect (Redeliver cid)) db = snd (redeliver_events cid db)"
| "billing_step (Effect Truncate) db = truncate_billing db"
| "billing_step (Change_Plan actor cp cid plan key) db = snd (change_plan actor cp cid plan key db)"

section \<open>Invariant and contract\<close>

lemma create_refund_tx_eq: "create_refund_tx = effect_tx ''billing'' ''RefundCommitted''"
  by (intro ext) (simp add: create_refund_tx_def effect_tx_def)

interpretation billing: effect_store create_refund_tx total_committed key_row effect_inv
  unfolding create_refund_tx_eq by (rule effect_tx_contract)

definition plan_inv :: "billing_db \<Rightarrow> bool" where
  "plan_inv db \<longleftrightarrow> distinct (map pl_key (plan_changes db)) \<and>
     sorted_wrt (<) (map pl_id (plan_changes db)) \<and>
     (\<forall>p\<in>set (plan_changes db). pl_id p \<le> plan_seq db \<and> pl_plan p \<in> {''BASIC'', ''PRO''})"

definition billing_inv :: "billing_db \<Rightarrow> bool" where
  "billing_inv db \<longleftrightarrow> effect_inv db \<and> plan_inv db"

lemma billing_inv_empty [simp]: "billing_inv empty_billing"
  by (simp add: billing_inv_def effect_inv_def plan_inv_def empty_billing_def case_log_def)

lemma plan_inv_frame:
  "plan_changes db' = plan_changes db \<Longrightarrow> plan_seq db' = plan_seq db \<Longrightarrow> plan_inv db' = plan_inv db"
  by (simp add: plan_inv_def)

lemma effect_inv_plans [simp]:
  "effect_inv (db\<lparr>plan_changes := ps, plan_seq := n\<rparr>) = effect_inv db"
  by (simp add: effect_inv_def)

lemma create_refund_plans:
  assumes "effect_inv db" "create_refund_tx cid actor key amount db = Inr (r, db')"
  shows "plan_changes db' = plan_changes db \<and> plan_seq db' = plan_seq db"
  by (rule effect_tx_cases [OF assms(1), of key "''billing''" "''RefundCommitted''" cid actor amount])
     (use assms(2) in \<open>auto simp: create_refund_tx_eq\<close>)

text \<open>
  The ways a create request ends: refused with the database untouched, committed with the
  acknowledgement lost, or answered with the row of the transaction.
\<close>

lemma create_refund_cases:
  obtains (refused) e where "create_refund env cp req db = (Inl e, db)"
  | (lost_ack) e row db' where "cp ''billing.after_commit_before_ack'' = Some e"
      "create_refund_tx (r_case_id req) (env_actor env) (r_idempotency_key req) (r_amount req) db
         = Inr ((False, row), db')"
      "create_refund env cp req db = (Inl (HTTPException 500 (Checkpoint_Failed e)), db')"
  | (answered) w row db' where
      "create_refund_tx (r_case_id req) (env_actor env) (r_idempotency_key req) (r_amount req) db
         = Inr ((w, row), db')"
      "create_refund env cp req db = (Inr (if w then 200 else 201, row), db')"
      "w \<or> cp ''billing.after_commit_before_ack'' = None" "0 < r_amount req"
proof (cases "0 < r_amount req \<and>
    authorize (env_enforce env) (env_decode env) (env_headers env) ''refund'' (r_amount req) = None \<and>
    cp ''billing.after_read_before_decide'' = None")
  case False
  then have "\<exists>e. create_refund env cp req db = (Inl e, db)"
    by (auto simp: create_refund_def split: option.split)
  then show thesis by (blast intro: refused)
next
  case go: True
  show thesis
  proof (cases "create_refund_tx (r_case_id req) (env_actor env) (r_idempotency_key req) (r_amount req) db")
    case (Inl e)
    with go show thesis by (intro refused) (auto simp: create_refund_def)
  next
    case (Inr x)
    then obtain w row db' where tx: "create_refund_tx (r_case_id req) (env_actor env)
        (r_idempotency_key req) (r_amount req) db = Inr ((w, row), db')"
      by (cases x) auto
    with go show thesis
      by (cases w; cases "cp ''billing.after_commit_before_ack''")
         (auto simp: create_refund_def intro: lost_ack answered)
  qed
qed

text \<open>What a create request leaves behind: nothing, or what its transaction committed.\<close>

lemma create_refund_state:
  "snd (create_refund env cp req db) = db \<or>
   (\<exists>r. create_refund_tx (r_case_id req) (env_actor env) (r_idempotency_key req) (r_amount req) db
        = Inr (r, snd (create_refund env cp req db)))"
  by (rule create_refund_cases [of env cp req db]) auto

lemma create_refund_inv: "billing_inv db \<Longrightarrow> billing_inv (snd (create_refund env cp req db))"
  using create_refund_state [of env cp req db]
  by (auto simp: billing_inv_def dest: billing.create_good create_refund_plans plan_inv_frame)

lemma void_refund_inv: "billing_inv db \<Longrightarrow> billing_inv (snd (void_refund actor i db))"
proof -
  assume inv: "billing_inv db"
  then have e: "effect_inv db" by (simp add: billing_inv_def)
  show ?thesis
    by (rule void_tx_cases [OF e, of i "''billing''" actor])
       (use inv void_tx_inv [OF e, of "''billing''" actor i] in
         \<open>auto simp: void_refund_def billing_inv_def plan_inv_def\<close>)
qed

lemma mark_event_inv: "billing_inv db \<Longrightarrow> billing_inv (snd (mark_event_applied now i db))"
  by (auto simp: mark_event_applied_def billing_inv_def mark_one_def Let_def plan_inv_def
      outbox_update_inv split: option.splits)

lemma redeliver_events_inv: "billing_inv db \<Longrightarrow> billing_inv (snd (redeliver_events cid db))"
  by (auto simp: redeliver_events_def billing_inv_def redeliver_inv)
     (simp add: redeliver_def plan_inv_def Let_def)

lemma change_plan_inv: "billing_inv db \<Longrightarrow> billing_inv (snd (change_plan actor cp cid plan key db))"
  by (auto simp: change_plan_def billing_inv_def Let_def plan_inv_def sorted_wrt_append row_where_None
      split: option.splits if_splits)

lemma billing_step_inv: "billing_inv db \<Longrightarrow> billing_inv (billing_step x db)"
proof (induction x db rule: billing_step.induct)
  case (1 env cp req db)
  then show ?case by (simp add: create_refund_inv)
next
  case (2 actor i db)
  then show ?case by (simp add: void_refund_inv)
next
  case (3 now i db)
  then show ?case by (simp add: mark_event_inv)
next
  case (4 cid db)
  then show ?case by (simp add: redeliver_events_inv)
next
  case (5 db)
  then show ?case by (simp add: truncate_billing_def)
next
  case (6 actor cp cid plan key db)
  then show ?case by (simp add: change_plan_inv)
qed

interpretation bl: stateful billing_step billing_inv
  by unfold_locales (rule billing_step_inv)

end
