(* ===== verification/Ledger.thy ===== *)
theory Ledger
  imports Services
begin

text \<open>
  The Ledger service, \<^verbatim>\<open>apps/ledger/main.py\<close> and \<^verbatim>\<open>apps/ledger/db.py\<close>: credits and the
  outbox endpoints over the Ledger's own database.
\<close>

section \<open>Credits\<close>

type_synonym ledger_db = effect_db

definition create_credit_tx ::
  "string \<Rightarrow> string \<Rightarrow> string \<Rightarrow> decimal \<Rightarrow> ledger_db \<Rightarrow> db_error + (bool \<times> effect_row) \<times> ledger_db" where
  "create_credit_tx cid actor key amount db =
     (case key_row key db of Some row \<Rightarrow> Inr ((True, row), db)
      | None \<Rightarrow> (case insert_effect cid actor key amount db of Inl e \<Rightarrow> Inl e
        | Inr (row, db) \<Rightarrow>
          (case append_decision cid actor ''ledger'' (ef_id row) None COMMITTED amount db of
             Inl e \<Rightarrow> Inl e
           | Inr db \<Rightarrow> (case publish cid actor ''ledger'' ''CreditCommitted'' (ef_id row) amount db of
               Inl e \<Rightarrow> Inl e | Inr db \<Rightarrow> Inr ((False, row), db)))))"

definition create_credit ::
  "service_env \<Rightarrow> checkpoints \<Rightarrow> effect_request \<Rightarrow> ledger_db \<Rightarrow> effect_row reply \<times> ledger_db" where
  "create_credit env cp req db =
     (if r_amount req \<le> 0 then (Inl (HTTPException 422 Amount_Not_Positive), db)
      else case authorize (env_enforce env) (env_decode env) (env_headers env) ''credit'' (r_amount req) of
        Some e \<Rightarrow> (Inl (HTTPException (status e) (Auth_Failed (detail e))), db)
      | None \<Rightarrow>
        (case cp ''ledger.after_read_before_decide'' of
           Some e \<Rightarrow> (Inl (HTTPException 500 (Checkpoint_Failed e)), db)
         | None \<Rightarrow>
           (case create_credit_tx (r_case_id req) (env_actor env) (r_idempotency_key req) (r_amount req) db of
              Inl e \<Rightarrow> (Inl (HTTPException 500 (Db_Failed e)), db)
            | Inr ((replayed, row), db') \<Rightarrow>
              if replayed then (Inr (200, row), db')
              else (case cp ''ledger.after_commit_before_ack'' of
                  Some e \<Rightarrow> (Inl (HTTPException 500 (Checkpoint_Failed e)), db')
                | None \<Rightarrow> (Inr (201, row), db')))))"

definition void_credit :: "string \<Rightarrow> int \<Rightarrow> ledger_db \<Rightarrow> effect_row reply \<times> ledger_db" where
  "void_credit actor credit_id db =
     (case void_tx ''ledger'' actor credit_id db of
        Inl e \<Rightarrow> (Inl (HTTPException 500 (Db_Failed e)), db)
      | Inr None \<Rightarrow> (Inl (HTTPException 404 (Not_Found ''credit not found'')), db)
      | Inr (Some (row, db')) \<Rightarrow> (Inr (200, row), db'))"

definition list_credits :: "string \<Rightarrow> ledger_db \<Rightarrow> effect_row list \<times> decimal" where
  "list_credits cid db =
     (sort_key ef_id (filter (\<lambda>r. ef_case r = cid) (effects db)), total_committed cid db)"

section \<open>Outbox endpoints\<close>

definition list_credit_events :: "bool \<Rightarrow> string option \<Rightarrow> ledger_db \<Rightarrow> outbox_row list \<times> nat option" where
  "list_credit_events unapplied_only cid db =
     (let events = events_where unapplied_only cid db
      in (events, if unapplied_only then Some (length events) else None))"

definition mark_credit_event_applied :: "datetime \<Rightarrow> int \<Rightarrow> ledger_db \<Rightarrow> int reply \<times> ledger_db" where
  "mark_credit_event_applied now event_id db =
     (case mark_one now event_id db of
        None \<Rightarrow> (Inl (HTTPException 404 (Not_Found ''event not found'')), db)
      | Some (i, db') \<Rightarrow> (Inr (200, i), db'))"

definition redeliver_credit_events :: "string \<Rightarrow> ledger_db \<Rightarrow> int list \<times> ledger_db" where
  "redeliver_credit_events cid db = redeliver cid db"

definition truncate_ledger :: "ledger_db \<Rightarrow> ledger_db" where
  "truncate_ledger db = empty_effect_db"

fun ledger_step :: "effect_op \<Rightarrow> ledger_db \<Rightarrow> ledger_db" where
  "ledger_step (Create env cp req) db = snd (create_credit env cp req db)"
| "ledger_step (Void actor i) db = snd (void_credit actor i db)"
| "ledger_step (Mark now i) db = snd (mark_credit_event_applied now i db)"
| "ledger_step (Redeliver cid) db = snd (redeliver_credit_events cid db)"
| "ledger_step Truncate db = truncate_ledger db"

section \<open>Invariant and contract\<close>

lemma create_credit_tx_eq: "create_credit_tx = effect_tx ''ledger'' ''CreditCommitted''"
  by (intro ext) (simp add: create_credit_tx_def effect_tx_def)

interpretation ledger: effect_store create_credit_tx total_committed key_row effect_inv
  unfolding create_credit_tx_eq by (rule effect_tx_contract)

text \<open>
  The ways a create request ends: refused with the database untouched, committed with the
  acknowledgement lost, or answered with the row of the transaction.
\<close>

lemma create_credit_cases:
  obtains (refused) e where "create_credit env cp req db = (Inl e, db)"
  | (lost_ack) e row db' where "cp ''ledger.after_commit_before_ack'' = Some e"
      "create_credit_tx (r_case_id req) (env_actor env) (r_idempotency_key req) (r_amount req) db
         = Inr ((False, row), db')"
      "create_credit env cp req db = (Inl (HTTPException 500 (Checkpoint_Failed e)), db')"
  | (answered) w row db' where
      "create_credit_tx (r_case_id req) (env_actor env) (r_idempotency_key req) (r_amount req) db
         = Inr ((w, row), db')"
      "create_credit env cp req db = (Inr (if w then 200 else 201, row), db')"
      "w \<or> cp ''ledger.after_commit_before_ack'' = None" "0 < r_amount req"
proof (cases "0 < r_amount req \<and>
    authorize (env_enforce env) (env_decode env) (env_headers env) ''credit'' (r_amount req) = None \<and>
    cp ''ledger.after_read_before_decide'' = None")
  case False
  then have "\<exists>e. create_credit env cp req db = (Inl e, db)"
    by (auto simp: create_credit_def split: option.split)
  then show thesis by (blast intro: refused)
next
  case go: True
  show thesis
  proof (cases "create_credit_tx (r_case_id req) (env_actor env) (r_idempotency_key req) (r_amount req) db")
    case (Inl e)
    with go show thesis by (intro refused) (auto simp: create_credit_def)
  next
    case (Inr x)
    then obtain w row db' where tx: "create_credit_tx (r_case_id req) (env_actor env)
        (r_idempotency_key req) (r_amount req) db = Inr ((w, row), db')"
      by (cases x) auto
    with go show thesis
      by (cases w; cases "cp ''ledger.after_commit_before_ack''")
         (auto simp: create_credit_def intro: lost_ack answered)
  qed
qed

lemma create_credit_state:
  "snd (create_credit env cp req db) = db \<or>
   (\<exists>r. create_credit_tx (r_case_id req) (env_actor env) (r_idempotency_key req) (r_amount req) db
        = Inr (r, snd (create_credit env cp req db)))"
  by (rule create_credit_cases [of env cp req db]) auto

lemma void_credit_inv: "effect_inv db \<Longrightarrow> effect_inv (snd (void_credit actor i db))"
  by (rule void_tx_cases [of db i "''ledger''" actor])
     (use void_tx_inv [of db "''ledger''" actor i] in \<open>auto simp: void_credit_def\<close>)

lemma ledger_step_inv: "effect_inv db \<Longrightarrow> effect_inv (ledger_step x db)"
proof (cases x)
  case (Create env cp req)
  assume "effect_inv db"
  with Create create_credit_state [of env cp req db] show ?thesis
    by (auto dest: ledger.create_good)
next
  case (Mark now i)
  assume "effect_inv db"
  with Mark show ?thesis
    by (auto simp: mark_credit_event_applied_def dest: mark_one_inv split: option.split)
qed (simp_all add: void_credit_inv redeliver_credit_events_def redeliver_inv truncate_ledger_def
    effect_inv_empty)

interpretation ld: stateful ledger_step effect_inv
  by unfold_locales (rule ledger_step_inv)

end
