(* ===== verification/Effect_Services.thy ===== *)
theory Effect_Services
  imports Billing Ledger
begin

text \<open>
  The properties of the two effect services: one key has one effect, what a failed request
  leaves behind, the one-to-one outbox, the gapless decision log, and what a void does not do.
\<close>

definition billing_run :: "billing_op list \<Rightarrow> billing_db" where
  "billing_run xs = fold billing_step xs empty_billing"

definition ledger_run :: "effect_op list \<Rightarrow> ledger_db" where
  "ledger_run xs = fold ledger_step xs empty_effect_db"

lemma billing_run_inv: "billing_inv (billing_run xs)"
  unfolding billing_run_def by (rule bl.run_inv [OF billing_inv_empty])

lemma billing_run_effects: "effect_inv (billing_run xs)"
  using billing_run_inv [of xs] by (simp only: billing_inv_def)

lemma ledger_run_inv: "effect_inv (ledger_run xs)"
  unfolding ledger_run_def by (rule ld.run_inv [OF effect_inv_empty])

text \<open>
  An error leaves nothing behind, with one exception. When a create request is answered
  with an error, the database is as it was, unless the error is the refusal of the checkpoint
  after the commit: then the effect is durable and only the acknowledgement is lost.
\<close>

lemma failed_create_leaves_nothing:
  assumes "fst (create_refund env cp req b) = Inl err" "snd (create_refund env cp req b) \<noteq> b"
    and "fst (create_credit env' cp' req' l) = Inl err'" "snd (create_credit env' cp' req' l) \<noteq> l"
  shows "(\<exists>e row. cp ''billing.after_commit_before_ack'' = Some e \<and>
         err = HTTPException 500 (Checkpoint_Failed e) \<and>
         create_refund_tx (r_case_id req) (env_actor env) (r_idempotency_key req) (r_amount req) b
           = Inr ((False, row), snd (create_refund env cp req b)))
   \<and> (\<exists>e row. cp' ''ledger.after_commit_before_ack'' = Some e \<and>
         err' = HTTPException 500 (Checkpoint_Failed e) \<and>
         create_credit_tx (r_case_id req') (env_actor env') (r_idempotency_key req') (r_amount req') l
           = Inr ((False, row), snd (create_credit env' cp' req' l)))"
  by (intro conjI; rule create_refund_cases [of env cp req b] create_credit_cases [of env' cp' req' l])
     (use assms in auto)

text \<open>A process without enforcement, a run whose acknowledgement checkpoints are refused.\<close>

definition open_env :: "string \<Rightarrow> service_env" where
  "open_env actor = \<lparr>env_enforce = False, env_decode = (\<lambda>t. Inl t), env_headers = (\<lambda>h. None),
     env_actor = actor\<rparr>"

definition only_fails :: "string \<Rightarrow> checkpoints" where
  "only_fails name = (\<lambda>n. if n = name then Some (CheckpointError 410) else None)"

definition request :: "string \<Rightarrow> decimal \<Rightarrow> string \<Rightarrow> effect_request" where
  "request cid amount key = \<lparr>r_case_id = cid, r_amount = amount, r_idempotency_key = key\<rparr>"

lemmas services_eval = billing_run_def ledger_run_def open_env_def only_fails_def request_def
  create_refund_def create_refund_tx_def create_credit_def create_credit_tx_def
  authorize_def insert_effect_def append_decision_def publish_def next_sequence_def key_row_def
  empty_billing_def empty_effect_db_def total_committed_def committed_state_def Let_def

text \<open>
  C14. A retry after a lost acknowledgement is safe. Whatever ran before, if a create request
  changed the database but was answered with an error, any authorised retry with the same
  idempotency key is answered 200 with the row that was committed, for the case and the
  rounded amount of the first request, and changes nothing, even if the retry names another
  amount or another case.
\<close>

theorem lost_ack_retry_is_safe:
  assumes first: "create_refund env cp req (billing_run xs) = (Inl err, db)"
    and committed: "db \<noteq> billing_run xs"
    and key: "r_idempotency_key req' = r_idempotency_key req"
    and valid: "0 < r_amount req'" "cp' ''billing.after_read_before_decide'' = None"
      "authorize (env_enforce env') (env_decode env') (env_headers env') ''refund'' (r_amount req') = None"
  shows "\<exists>row. create_refund env' cp' req' db = (Inr (200, row), db) \<and>
    key_row (r_idempotency_key req) db = Some row \<and>
    ef_case row = r_case_id req \<and> numeric_12_2 (r_amount req) = Some (ef_amount row)"
proof (rule create_refund_cases [of env cp req "billing_run xs"])
  fix e row db'
  assume tx: "create_refund_tx (r_case_id req) (env_actor env) (r_idempotency_key req) (r_amount req)
      (billing_run xs) = Inr ((False, row), db')"
    and eq: "create_refund env cp req (billing_run xs) = (Inl (HTTPException 500 (Checkpoint_Failed e)), db')"
  have db': "db' = db" using eq first by simp
  note tx' = tx [unfolded db']
  have none: "key_row (r_idempotency_key req) (billing_run xs) = None"
    using billing.create_replay [OF billing_run_effects] tx' committed
    by (metis Inr_inject prod.inject not_None_eq)
  show ?thesis
    using billing.create_new [OF billing_run_effects none tx'] billing.create_find [OF billing_run_effects tx']
      billing.retry_returns_same [OF billing_run_effects tx', of "r_case_id req'" "env_actor env'" "r_amount req'"]
      valid key
    by (simp add: create_refund_def)
qed (use first committed in auto)

theorem lost_ack_retry_is_safe_witness:
  "\<exists>row. create_refund (open_env ''B'') (\<lambda>_. None) (request ''other'' 7 ''k'')
      (snd (create_refund (open_env ''A'') (only_fails ''billing.after_commit_before_ack'')
        (request ''c'' 300 ''k'') empty_billing))
      = (Inr (200, row), snd (create_refund (open_env ''A'')
          (only_fails ''billing.after_commit_before_ack'') (request ''c'' 300 ''k'') empty_billing))
    \<and> ef_case row = ''c'' \<and> ef_amount row = 300"
  using lost_ack_retry_is_safe [of "open_env ''A''" "only_fails ''billing.after_commit_before_ack''"
      "request ''c'' 300 ''k''" "[]" "HTTPException 500 (Checkpoint_Failed (CheckpointError 410))"
      "snd (create_refund (open_env ''A'') (only_fails ''billing.after_commit_before_ack'')
        (request ''c'' 300 ''k'') empty_billing)"
      "request ''other'' 7 ''k''" "\<lambda>_. None" "open_env ''B''"]
  by (simp add: services_eval)

text \<open>Sums over rows that agree on what the sum reads are equal.\<close>

lemma sum_where_map_eq:
  assumes "map f xs = map g ys"
    and "\<And>x y. f x = g y \<Longrightarrow> P x = Q y \<and> u x = v y"
  shows "sum_where P u xs = sum_where Q v ys"
  using assms(1)
proof (induction xs arbitrary: ys)
  case Nil
  then show ?case by simp
next
  case (Cons x xs)
  then obtain y ys' where "ys = y # ys'" "f x = g y" "map f xs = map g ys'" by auto
  with Cons.IH [of ys'] assms(2) [of x y] show ?case by simp
qed

lemma events_total:
  assumes "effect_inv db"
  shows "sum_where (\<lambda>e. ob_case e = cid) ob_amount (outbox db)
       = total_committed cid db + sum_where (\<lambda>r. ef_case r = cid \<and> ef_state r = VOIDED) ef_amount (effects db)"
proof -
  have "sum_where (\<lambda>e. ob_case e = cid) ob_amount (outbox db)
      = sum_where (\<lambda>r. ef_case r = cid) ef_amount (effects db)"
    using assms unfolding effect_inv_def
    by (intro sum_where_map_eq [of event_of _ effect_of]) (auto simp: event_of_def effect_of_def)
  moreover have "sum_where (\<lambda>r. ef_case r = cid) ef_amount rs
      = sum_where (\<lambda>r. ef_case r = cid \<and> committed_state (ef_state r)) ef_amount rs
      + sum_where (\<lambda>r. ef_case r = cid \<and> ef_state r = VOIDED) ef_amount rs"
    if "\<forall>r\<in>set rs. ef_state r \<in> {COMMITTED, VOIDED}" for rs
    using that by (induction rs) (auto simp: committed_state_def)
  moreover have "\<forall>r\<in>set (effects db). ef_state r \<in> {COMMITTED, VOIDED}"
    using assms unfolding effect_inv_def by blast
  ultimately show ?thesis by (simp only: total_committed_def)
qed

text \<open>
  C26. The outbox tells exactly what happened, voids excepted. After every run of each
  service the events are the effects, one for one and in order, each with its case and its
  committed amount, and no idempotency key has two effects. So what a reader adds up from the
  events of a case is its committed total plus everything that was voided: a void publishes
  no event and is never seen downstream.
\<close>

theorem outbox_mirrors_effects:
  "distinct (map ef_key (effects (billing_run xs))) \<and>
   map event_of (outbox (billing_run xs)) = map effect_of (effects (billing_run xs)) \<and>
   sum_where (\<lambda>e. ob_case e = cid) ob_amount (outbox (billing_run xs)) =
     total_committed cid (billing_run xs) +
     sum_where (\<lambda>r. ef_case r = cid \<and> ef_state r = VOIDED) ef_amount (effects (billing_run xs)) \<and>
   distinct (map ef_key (effects (ledger_run ys))) \<and>
   map event_of (outbox (ledger_run ys)) = map effect_of (effects (ledger_run ys)) \<and>
   sum_where (\<lambda>e. ob_case e = cid) ob_amount (outbox (ledger_run ys)) =
     total_committed cid (ledger_run ys) +
     sum_where (\<lambda>r. ef_case r = cid \<and> ef_state r = VOIDED) ef_amount (effects (ledger_run ys))"
  using billing_run_effects [of xs] ledger_run_inv [of ys]
    events_total [OF billing_run_effects [of xs], of cid] events_total [OF ledger_run_inv [of ys], of cid]
  unfolding effect_inv_def by blast

text \<open>
  The decision log is gapless: after every run the entries of a case, in the order they
  were written, are numbered 1, 2, 3 and so on, in both services.
\<close>

lemma decision_log_is_gapless:
  "case_log cid (decisions (billing_run xs)) = [1..int (length (case_log cid (decisions (billing_run xs))))]
   \<and> case_log cid (decisions (ledger_run ys)) = [1..int (length (case_log cid (decisions (ledger_run ys))))]"
  using billing_run_effects [of xs] ledger_run_inv [of ys] unfolding effect_inv_def by blast

text \<open>
  Voiding is not idempotent in the log. The handler never looks at the state it voids:
  voiding a voided refund answers 200 and appends a second entry saying the refund went from
  COMMITTED to VOIDED, although it was VOIDED already.
\<close>

lemma void_twice_logs_twice:
  assumes r: "r \<in> set (effects (billing_run xs))" "ef_state r = VOIDED"
  shows "\<exists>db d. void_refund actor (ef_id r) (billing_run xs) = (Inr (200, r), db) \<and>
     decisions db = decisions (billing_run xs) @ [d] \<and> dl_from d = Some COMMITTED \<and>
     dl_to d = VOIDED \<and> dl_entity d = ef_id r"
proof (rule void_tx_cases [OF billing_run_effects [of xs], of "ef_id r" "''billing''" actor])
  fix r' d
  assume r': "r' \<in> set (effects (billing_run xs))" "ef_id r' = ef_id r"
    and tx: "void_tx ''billing'' actor (ef_id r) (billing_run xs) = Inr (Some (r'\<lparr>ef_state := VOIDED\<rparr>,
       (billing_run xs)\<lparr>effects := update_where (\<lambda>x. ef_id x = ef_id r) (\<lambda>r. r\<lparr>ef_state := VOIDED\<rparr>)
         (effects (billing_run xs)), decisions := decisions (billing_run xs) @ [d]\<rparr>))"
    and d: "dl_from d = Some COMMITTED" "dl_to d = VOIDED" "dl_entity d = ef_id r"
  have "distinct (map ef_id (effects (billing_run xs)))"
    using billing_run_effects [of xs] unfolding effect_inv_def by (simp add: strict_sorted_iff)
  then have "r' = r" using r r' by (meson distinct_map inj_onD)
  then have "r'\<lparr>ef_state := VOIDED\<rparr> = r" using r(2) by simp
  then show ?thesis using tx d by (auto simp: void_refund_def)
qed (use r(1) in auto)

text \<open>
  A positive amount below half a cent is not rejected at the boundary. The validator
  compares the amount with 0 before it is rounded, so such an amount passes it, is rounded to
  0.00 by the column type and fails the CHECK constraint as a server error, and likewise for
  credits.
\<close>

lemma sub_cent_amount_is_a_server_error:
  assumes amount: "0 < r_amount req" "r_amount req < 1 / 200"
    and new: "key_row (r_idempotency_key req) b = None" "key_row (r_idempotency_key req) l = None"
    and auth: "authorize (env_enforce env) (env_decode env) (env_headers env) ''refund'' (r_amount req) = None"
      "authorize (env_enforce env) (env_decode env) (env_headers env) ''credit'' (r_amount req) = None"
    and cp: "cp ''billing.after_read_before_decide'' = None" "cp ''ledger.after_read_before_decide'' = None"
  shows "create_refund env cp req b = (Inl (HTTPException 500 (Db_Failed (CheckViolation ''amount''))), b)
    \<and> create_credit env cp req l = (Inl (HTTPException 500 (Db_Failed (CheckViolation ''amount''))), l)"
proof -
  have "\<lfloor>100 * r_amount req + 1 / 2\<rfloor> = 0" using amount by linarith
  then have "numeric_12_2 (r_amount req) = Some 0"
    using amount by (simp add: numeric_12_2_def round2_def round_half_away_def)
  then show ?thesis using amount(1) new auth cp
    by (simp add: create_refund_def create_credit_def create_refund_tx_def create_credit_tx_def
        insert_effect_def)
qed

lemma current_plan_eq:
  assumes "plan_inv db"
  shows "current_plan c db = (case rev (filter (\<lambda>p. pl_case p = c) (plan_changes db)) of
     [] \<Rightarrow> None | p # _ \<Rightarrow> Some (pl_plan p))"
proof -
  have "sorted (map pl_id (plan_changes db))" using assms by (simp add: plan_inv_def strict_sorted_iff)
  then have "sort_key pl_id (filter (\<lambda>p. pl_case p = c) (plan_changes db))
      = filter (\<lambda>p. pl_case p = c) (plan_changes db)"
    by (intro sort_key_id_if_sorted sorted_filter)
  then show ?thesis by (simp add: current_plan_def)
qed

text \<open>
  The plan in force is the last one that was accepted: after a plan change with a new key
  the current plan of its case is the requested one, even if the acknowledgement is lost, and
  the plans of other cases are as they were.
\<close>

lemma change_plan_sets_the_plan:
  assumes new: "row_where (\<lambda>p. pl_key p = key) (plan_changes (billing_run xs)) = None"
    and ok: "plan \<in> {''BASIC'', ''PRO''}" "cp ''billing.plan.after_read_before_decide'' = None"
  shows "current_plan c (snd (change_plan actor cp cid plan key (billing_run xs))) =
      (if c = cid then Some plan else current_plan c (billing_run xs))"
proof -
  let ?db = "billing_run xs"
  have inv: "plan_inv ?db" "plan_inv (snd (change_plan actor cp cid plan key ?db))"
    using change_plan_inv [OF billing_run_inv, of actor cp cid plan key xs] billing_run_inv [of xs]
    by (simp_all add: billing_inv_def)
  have "\<exists>p. pl_case p = cid \<and> pl_plan p = plan \<and>
      plan_changes (snd (change_plan actor cp cid plan key ?db)) = plan_changes ?db @ [p]"
    using new ok by (auto simp: change_plan_def Let_def split: option.split)
  then show ?thesis using inv by (auto simp: current_plan_eq)
qed

end
