(* ===== verification/Crm.thy ===== *)
theory Crm
  imports Effect_Services
begin

text \<open>
  The CRM and its projector: \<^verbatim>\<open>apps/crm/projector.py\<close>, \<^verbatim>\<open>apps/crm/main.py\<close> and the tables of
  \<^verbatim>\<open>apps/crm/db.py\<close>. The sources are whatever answers \<open>unapplied\<close> and \<open>mark_applied\<close>; their
  state is \<open>'w\<close>. The \<open>n\<close>-th checkpoint of a run, by name, either passes or raises, and a run
  that raises keeps what it committed. The locale \<open>event_source\<close> is what the projector relies
  on, and Billing and Ledger behind \<open>HttpEventSource\<close> provide it. The lemmas: the projection
  is always the sum of the events it applied, each once; a run that succeeds has applied
  everything; no event is ever lost.
\<close>

section \<open>State\<close>

record event =
  ev_id :: int
  ev_case :: string
  ev_amount :: decimal

record applied_row =
  ap_service :: string
  ap_id :: int
  ap_case :: string
  ap_amount :: decimal

record projection_row =
  pr_case :: string
  pr_total :: decimal
  pr_events_applied :: nat

record crm_db =
  applied_events :: "applied_row list"
  projection :: "projection_row list"

definition empty_crm :: crm_db where
  "empty_crm = \<lparr>applied_events = [], projection = []\<rparr>"

datatype projector_error =
    Unknown_Sources "string list"
  | Projector_Checkpoint wire_error
  | Source_Call_Failed
  | Projection_Overflow

section \<open>The projector\<close>

definition projection_total :: "string \<Rightarrow> crm_db \<Rightarrow> decimal" where
  "projection_total cid db =
     (case row_where (\<lambda>p. pr_case p = cid) (projection db) of None \<Rightarrow> 0 | Some p \<Rightarrow> pr_total p)"

definition projection_lag :: "string \<Rightarrow> decimal \<Rightarrow> crm_db \<Rightarrow> decimal" where
  "projection_lag cid authoritative_total db = authoritative_total - projection_total cid db"

definition already_applied :: "string \<Rightarrow> int \<Rightarrow> crm_db \<Rightarrow> bool" where
  "already_applied service i db \<longleftrightarrow>
     row_where (\<lambda>a. ap_service a = service \<and> ap_id a = i) (applied_events db) \<noteq> None"

text \<open>The two INSERTs of one event; None is the overflow of a \<open>NUMERIC(12, 2)\<close> column.\<close>

definition fold_event :: "string \<Rightarrow> event \<Rightarrow> crm_db \<Rightarrow> crm_db option" where
  "fold_event service ev db =
     (case numeric_12_2 (ev_amount ev) of None \<Rightarrow> None
      | Some a \<Rightarrow>
        (let same = (\<lambda>p. pr_case p = ev_case ev);
             applied = applied_events db @
               [\<lparr>ap_service = service, ap_id = ev_id ev, ap_case = ev_case ev, ap_amount = a\<rparr>]
         in case row_where same (projection db) of
              None \<Rightarrow> Some \<lparr>applied_events = applied, projection = projection db @
                [\<lparr>pr_case = ev_case ev, pr_total = a, pr_events_applied = 1\<rparr>]\<rparr>
            | Some p \<Rightarrow> (case numeric_12_2 (pr_total p + a) of None \<Rightarrow> None
              | Some t \<Rightarrow> Some \<lparr>applied_events = applied, projection = update_where same
                  (\<lambda>p. p\<lparr>pr_total := t, pr_events_applied := pr_events_applied p + 1\<rparr>) (projection db)\<rparr>)))"

text \<open>One round of the inner loop, after its checkpoint: whether the event was counted.\<close>

definition apply_event ::
  "(string \<Rightarrow> int \<Rightarrow> 'w \<Rightarrow> 'w option) \<Rightarrow> string \<Rightarrow> event \<Rightarrow> crm_db \<times> 'w \<Rightarrow>
     (projector_error + bool) \<times> crm_db \<times> 'w" where
  "apply_event mark service ev s =
     (let (db, w) = s in
      if already_applied service (ev_id ev) db
      then (case mark service (ev_id ev) w of
          None \<Rightarrow> (Inl Source_Call_Failed, db, w) | Some w' \<Rightarrow> (Inr False, db, w'))
      else (case fold_event service ev db of
          None \<Rightarrow> (Inl Projection_Overflow, db, w)
        | Some db' \<Rightarrow> (case mark service (ev_id ev) w of
            None \<Rightarrow> (Inl Source_Call_Failed, db', w) | Some w' \<Rightarrow> (Inr True, db', w'))))"

fun apply_events ::
  "(nat \<Rightarrow> string \<Rightarrow> wire_error option) \<Rightarrow> (string \<Rightarrow> int \<Rightarrow> 'w \<Rightarrow> 'w option) \<Rightarrow> string \<Rightarrow> event list \<Rightarrow>
     nat \<Rightarrow> nat \<Rightarrow> crm_db \<times> 'w \<Rightarrow> (projector_error + nat \<times> nat) \<times> crm_db \<times> 'w" where
  "apply_events cp mark service [] n applied s = (Inr (n, applied), s)"
| "apply_events cp mark service (ev # evs) n applied s =
     (case cp n ''crm.before_apply_event'' of Some e \<Rightarrow> (Inl (Projector_Checkpoint e), s)
      | None \<Rightarrow> (case apply_event mark service ev s of
            (Inl e, s') \<Rightarrow> (Inl e, s')
          | (Inr counted, s') \<Rightarrow>
              apply_events cp mark service evs (n + 1) (if counted then applied + 1 else applied) s'))"

fun apply_sources ::
  "(nat \<Rightarrow> string \<Rightarrow> wire_error option) \<Rightarrow> (string \<Rightarrow> 'w \<Rightarrow> event list option) \<Rightarrow>
     (string \<Rightarrow> int \<Rightarrow> 'w \<Rightarrow> 'w option) \<Rightarrow> string list \<Rightarrow> nat \<Rightarrow> nat \<Rightarrow> crm_db \<times> 'w \<Rightarrow>
     (projector_error + nat) \<times> crm_db \<times> 'w" where
  "apply_sources cp unapplied mark [] n applied s = (Inr applied, s)"
| "apply_sources cp unapplied mark (service # services) n applied s =
     (case unapplied service (snd s) of None \<Rightarrow> (Inl Source_Call_Failed, s)
      | Some evs \<Rightarrow> (case apply_events cp mark service evs n applied s of
            (Inl e, s') \<Rightarrow> (Inl e, s')
          | (Inr (n', applied'), s') \<Rightarrow> apply_sources cp unapplied mark services n' applied' s'))"

text \<open>\<open>sources\<close> lists the keys of the dict; the dict built from \<open>order\<close> keeps first positions.\<close>

definition apply_pending ::
  "(nat \<Rightarrow> string \<Rightarrow> wire_error option) \<Rightarrow> (string \<Rightarrow> 'w \<Rightarrow> event list option) \<Rightarrow>
     (string \<Rightarrow> int \<Rightarrow> 'w \<Rightarrow> 'w option) \<Rightarrow> string list \<Rightarrow> string list option \<Rightarrow> crm_db \<times> 'w \<Rightarrow>
     (projector_error + nat) \<times> crm_db \<times> 'w" where
  "apply_pending cp unapplied mark sources order s =
     (let missing = (case order of None \<Rightarrow> [] | Some ns \<Rightarrow> filter (\<lambda>n. n \<notin> set sources) ns);
          names = (case order of None \<Rightarrow> sources | Some ns \<Rightarrow> rev (remdups (rev ns)))
      in if missing \<noteq> [] then (Inl (Unknown_Sources missing), s)
         else case cp 0 ''crm.before_poll'' of Some e \<Rightarrow> (Inl (Projector_Checkpoint e), s)
           | None \<Rightarrow> apply_sources cp unapplied mark names 1 0 s)"

section \<open>Endpoints\<close>

definition get_compensation :: "string \<Rightarrow> crm_db \<Rightarrow> decimal \<times> nat" where
  "get_compensation cid db =
     (case row_where (\<lambda>p. pr_case p = cid) (projection db) of
        None \<Rightarrow> (0, 0) | Some p \<Rightarrow> (pr_total p, pr_events_applied p))"

text \<open>
  \<open>HttpEventSource\<close> against the two services: the request is rejected by their strict
  middleware without an actor or a schedule, and \<open>raise_for_status\<close> raises on any error.
\<close>

definition to_event :: "outbox_row \<Rightarrow> event" where
  "to_event e = \<lparr>ev_id = ob_id e, ev_case = ob_case e, ev_amount = ob_amount e\<rparr>"

definition http_unapplied ::
  "string \<Rightarrow> string \<Rightarrow> string option \<Rightarrow> string \<Rightarrow> billing_db \<times> ledger_db \<Rightarrow> event list option" where
  "http_unapplied actor schedule cid service w =
     (if falsy (Some actor) \<or> falsy (Some schedule) then None
      else let scope = (if falsy cid then None else cid) in
        if service = ''billing'' then Some (map to_event (fst (list_events True scope (fst w))))
        else if service = ''ledger'' then Some (map to_event (fst (list_credit_events True scope (snd w))))
        else None)"

definition http_mark_applied ::
  "string \<Rightarrow> string \<Rightarrow> datetime \<Rightarrow> string \<Rightarrow> int \<Rightarrow> billing_db \<times> ledger_db \<Rightarrow> (billing_db \<times> ledger_db) option" where
  "http_mark_applied actor schedule now service i w =
     (if falsy (Some actor) \<or> falsy (Some schedule) then None
      else if service = ''billing'' then (case mark_event_applied now i (fst w) of
          (Inr _, b) \<Rightarrow> Some (b, snd w) | (Inl _, _) \<Rightarrow> None)
      else if service = ''ledger'' then (case mark_credit_event_applied now i (snd w) of
          (Inr _, l) \<Rightarrow> Some (fst w, l) | (Inl _, _) \<Rightarrow> None)
      else None)"

definition project ::
  "string option \<Rightarrow> string option \<Rightarrow> datetime \<Rightarrow> (nat \<Rightarrow> string \<Rightarrow> wire_error option) \<Rightarrow> string \<Rightarrow>
     crm_db \<times> billing_db \<times> ledger_db \<Rightarrow> (projector_error + nat) \<times> crm_db \<times> billing_db \<times> ledger_db" where
  "project actor schedule_env now cp cid s =
     (let a = (if falsy actor then ''projector'' else the actor);
          sch = (case schedule_env of None \<Rightarrow> ''unscheduled'' | Some x \<Rightarrow> x)
      in apply_pending cp (http_unapplied a sch (Some cid)) (http_mark_applied a sch now)
           [''billing'', ''ledger''] None s)"

definition truncate_crm :: "crm_db \<Rightarrow> crm_db" where
  "truncate_crm db = empty_crm"

section \<open>The projection is the sum of what was applied\<close>

definition event_key :: "applied_row \<Rightarrow> string \<times> int" where
  "event_key a = (ap_service a, ap_id a)"

definition crm_inv :: "crm_db \<Rightarrow> bool" where
  "crm_inv db \<longleftrightarrow>
     distinct (map event_key (applied_events db)) \<and> (\<forall>a\<in>set (applied_events db). in_cents (ap_amount a)) \<and>
     (\<forall>cid. get_compensation cid db =
        (sum_where (\<lambda>a. ap_case a = cid) ap_amount (applied_events db),
         length (filter (\<lambda>a. ap_case a = cid) (applied_events db))))"

lemma crm_inv_empty: "crm_inv empty_crm"
  by (simp add: crm_inv_def empty_crm_def get_compensation_def)

lemma projection_total_eq: "projection_total cid db = fst (get_compensation cid db)"
  by (simp add: projection_total_def get_compensation_def split: option.split)

lemma crm_inv_total:
  "crm_inv db \<Longrightarrow> projection_total cid db = sum_where (\<lambda>a. ap_case a = cid) ap_amount (applied_events db)"
  by (simp add: projection_total_eq crm_inv_def)

lemma already_applied_iff:
  "already_applied service i db \<longleftrightarrow> (service, i) \<in> event_key ` set (applied_events db)"
  by (auto simp: already_applied_def row_where_None event_key_def)

text \<open>What folding an event in does to the table, and to what the CRM reports.\<close>

lemma fold_event_applied:
  assumes "fold_event service ev db = Some db'"
  shows "\<exists>a. numeric_12_2 (ev_amount ev) = Some a \<and> applied_events db' = applied_events db @
     [\<lparr>ap_service = service, ap_id = ev_id ev, ap_case = ev_case ev, ap_amount = a\<rparr>]"
  using assms by (auto simp: fold_event_def Let_def split: option.splits)

lemma fold_event_compensation:
  assumes inv: "crm_inv db" and f: "fold_event service ev db = Some db'"
    and a: "numeric_12_2 (ev_amount ev) = Some a"
  shows "get_compensation c db' = (if c = ev_case ev
     then (fst (get_compensation c db) + a, snd (get_compensation c db) + 1) else get_compensation c db)"
proof (cases "row_where (\<lambda>p. pr_case p = ev_case ev) (projection db)")
  case None
  with f a show ?thesis by (auto simp: fold_event_def get_compensation_def Let_def split: option.split)
next
  case (Some p)
  have p: "pr_case p = ev_case ev" using row_where_Some [OF Some] by simp
  have "in_cents (pr_total p)"
  proof -
    have "pr_total p = sum_where (\<lambda>a. ap_case a = ev_case ev) ap_amount (applied_events db)"
      using crm_inv_total [OF inv, of "ev_case ev"] Some by (simp add: projection_total_def)
    then show ?thesis using inv by (auto simp: crm_inv_def intro: sum_where_cents)
  qed
  moreover obtain t where t: "numeric_12_2 (pr_total p + a) = Some t"
    using f a Some by (auto simp: fold_event_def Let_def split: option.splits)
  ultimately have sum: "t = pr_total p + a"
    using numeric_12_2_Some [OF t] round2_in_cents in_cents_add numeric_12_2_cents [OF a] by metis
  have db': "projection db' = update_where (\<lambda>p. pr_case p = ev_case ev)
      (\<lambda>p. p\<lparr>pr_total := t, pr_events_applied := pr_events_applied p + 1\<rparr>) (projection db)"
    using f a Some t by (auto simp: fold_event_def Let_def)
  show ?thesis
  proof (cases "c = ev_case ev")
    case True
    then show ?thesis using Some sum by (simp add: get_compensation_def db' row_where_update)
  next
    case False
    then have "row_where (\<lambda>p. pr_case p = c) (projection db') = row_where (\<lambda>p. pr_case p = c) (projection db)"
      unfolding db' by (intro row_where_update_other) auto
    with False show ?thesis by (simp add: get_compensation_def)
  qed
qed

lemma fold_event_inv:
  assumes inv: "crm_inv db" and new: "\<not> already_applied service (ev_id ev) db"
    and f: "fold_event service ev db = Some db'"
  shows "crm_inv db'"
proof -
  obtain a where a: "numeric_12_2 (ev_amount ev) = Some a"
    and app: "applied_events db' = applied_events db @
     [\<lparr>ap_service = service, ap_id = ev_id ev, ap_case = ev_case ev, ap_amount = a\<rparr>]"
    using fold_event_applied [OF f] by blast
  show ?thesis
    using inv new numeric_12_2_cents [OF a] fold_event_compensation [OF inv f a]
    unfolding crm_inv_def app already_applied_iff by (auto simp: event_key_def)
qed

text \<open>What happens to the CRM when an event is offered, by whatever source and however often.\<close>

fun crm_step :: "string \<times> event \<Rightarrow> crm_db \<Rightarrow> crm_db" where
  "crm_step (service, ev) db =
     (if already_applied service (ev_id ev) db then db
      else case fold_event service ev db of None \<Rightarrow> db | Some db' \<Rightarrow> db')"

lemma crm_step_inv: "crm_inv db \<Longrightarrow> crm_inv (crm_step x db)"
  by (cases x) (auto split: option.split intro: fold_event_inv)

interpretation cr: stateful crm_step crm_inv
  by unfold_locales (rule crm_step_inv)

lemma apply_event_step:
  "fst (snd (apply_event mark service ev s)) = crm_step (service, ev) (fst s)"
  by (auto simp: apply_event_def Let_def split: prod.split option.split)

lemma apply_events_run:
  "\<exists>xs. fst (snd (apply_events cp mark service evs n applied s)) = fold crm_step xs (fst s)"
proof (induction evs arbitrary: n applied s)
  case Nil
  show ?case by (auto intro: exI [of _ "[]"])
next
  case (Cons ev evs)
  obtain r s' where ap: "apply_event mark service ev s = (r, s')" by (cases "apply_event mark service ev s")
  have s': "fst s' = crm_step (service, ev) (fst s)" using apply_event_step [of mark service ev s] ap by simp
  show ?case
  proof (cases "cp n ''crm.before_apply_event''")
    case None
    show ?thesis
    proof (cases r)
      case (Inl e)
      with None ap s' show ?thesis by (auto intro: exI [of _ "[(service, ev)]"])
    next
      case (Inr counted)
      obtain xs where "fst (snd (apply_events cp mark service evs (n + 1)
          (if counted then applied + 1 else applied) s')) = fold crm_step xs (fst s')"
        using Cons.IH by blast
      with None ap Inr s' show ?thesis by (auto intro: exI [of _ "(service, ev) # xs"])
    qed
  qed (auto intro: exI [of _ "[]"])
qed

lemma apply_sources_run:
  "\<exists>xs. fst (snd (apply_sources cp unapplied mark services n applied s)) = fold crm_step xs (fst s)"
proof (induction services arbitrary: n applied s)
  case Nil
  show ?case by (auto intro: exI [of _ "[]"])
next
  case (Cons service services)
  show ?case
  proof (cases "unapplied service (snd s)")
    case None
    then show ?thesis by (auto intro: exI [of _ "[]"])
  next
    case (Some evs)
    obtain r s' where ap: "apply_events cp mark service evs n applied s = (r, s')"
      by (cases "apply_events cp mark service evs n applied s")
    obtain xs where xs: "fst s' = fold crm_step xs (fst s)"
      using apply_events_run [of cp mark service evs n applied s] ap by auto
    show ?thesis
    proof (cases r)
      case (Inl e)
      with Some ap xs show ?thesis by auto
    next
      case (Inr x)
      obtain n' applied' where x: "x = (n', applied')" by (cases x)
      obtain ys where "fst (snd (apply_sources cp unapplied mark services n' applied' s')) = fold crm_step ys (fst s')"
        using Cons.IH by blast
      with Some ap Inr x xs show ?thesis by (auto intro: exI [of _ "xs @ ys"])
    qed
  qed
qed

lemma apply_pending_run:
  "\<exists>xs. fst (snd (apply_pending cp unapplied mark sources order s)) = fold crm_step xs (fst s)"
  using apply_sources_run [of cp unapplied mark _ 1 0 s]
  by (auto simp: apply_pending_def Let_def split: option.splits intro: exI [of _ "[]"])

lemma apply_pending_inv: "crm_inv (fst s) \<Longrightarrow> crm_inv (fst (snd (apply_pending cp u mark sources order s)))"
  using apply_pending_run [of cp u mark sources order s] cr.run_inv by force

section \<open>What the projector relies on\<close>

text \<open>
  \<open>events\<close> is everything a source ever published, \<open>pending\<close> the ids not marked applied; a
  source reports the pending events in its scope, and marking takes one id out.
\<close>

locale event_source =
  fixes unapplied :: "string \<Rightarrow> 'w \<Rightarrow> event list option"
    and mark :: "string \<Rightarrow> int \<Rightarrow> 'w \<Rightarrow> 'w option"
    and events :: "string \<Rightarrow> 'w \<Rightarrow> event list"
    and pending :: "string \<Rightarrow> 'w \<Rightarrow> int set"
    and in_scope :: "event \<Rightarrow> bool"
    and good :: "'w \<Rightarrow> bool"
  assumes unapplied_pending:
      "good w \<Longrightarrow> unapplied s w = Some evs \<Longrightarrow>
         set evs = {e \<in> set (events s w). ev_id e \<in> pending s w \<and> in_scope e}"
    and distinct_ids: "good w \<Longrightarrow> distinct (map ev_id (events s w))"
    and amounts: "good w \<Longrightarrow> e \<in> set (events s w) \<Longrightarrow> numeric_12_2 (ev_amount e) = Some (ev_amount e)"
    and mark_good: "good w \<Longrightarrow> mark s i w = Some w' \<Longrightarrow> good w'"
    and mark_events: "good w \<Longrightarrow> mark s i w = Some w' \<Longrightarrow> events s' w' = events s' w"
    and mark_pending:
      "good w \<Longrightarrow> mark s i w = Some w' \<Longrightarrow> pending s' w' = pending s' w - (if s' = s then {i} else {})"
begin

definition row :: "string \<Rightarrow> event \<Rightarrow> applied_row" where
  "row s e = \<lparr>ap_service = s, ap_id = ev_id e, ap_case = ev_case e, ap_amount = ev_amount e\<rparr>"

text \<open>Every applied event has its source, and every event that left the queue was applied.\<close>

definition linked :: "crm_db \<Rightarrow> 'w \<Rightarrow> bool" where
  "linked db w \<longleftrightarrow>
     (\<forall>a\<in>set (applied_events db). \<exists>e\<in>set (events (ap_service a) w). a = row (ap_service a) e) \<and>
     (\<forall>s. \<forall>e\<in>set (events s w). ev_id e \<notin> pending s w \<longrightarrow> row s e \<in> set (applied_events db))"

definition ok :: "crm_db \<times> 'w \<Rightarrow> bool" where
  "ok s \<longleftrightarrow> crm_inv (fst s) \<and> good (snd s) \<and> linked (fst s) (snd s)"

text \<open>What a later state keeps of an earlier one.\<close>

definition onward :: "crm_db \<times> 'w \<Rightarrow> crm_db \<times> 'w \<Rightarrow> bool" where
  "onward s s' \<longleftrightarrow> set (applied_events (fst s)) \<subseteq> set (applied_events (fst s')) \<and>
     (\<forall>x. events x (snd s') = events x (snd s) \<and> pending x (snd s') \<subseteq> pending x (snd s))"

lemma onward_refl: "onward s s" by (simp add: onward_def)

lemma onward_trans: "onward a b \<Longrightarrow> onward b c \<Longrightarrow> onward a c"
  by (simp add: onward_def) blast

text \<open>An event is settled: recorded by the CRM and out of its source's queue.\<close>

definition settled :: "string \<Rightarrow> event \<Rightarrow> crm_db \<times> 'w \<Rightarrow> bool" where
  "settled s e x \<longleftrightarrow> row s e \<in> set (applied_events (fst x)) \<and> ev_id e \<notin> pending s (snd x)"

lemma settled_onward: "settled s e x \<Longrightarrow> onward x y \<Longrightarrow> settled s e y"
  by (auto simp: settled_def onward_def)

lemma applied_row:
  assumes "ok (db, w)" "e \<in> set (events s w)" "already_applied s (ev_id e) db"
  shows "row s e \<in> set (applied_events db)"
proof -
  obtain a where a: "a \<in> set (applied_events db)" "event_key a = (s, ev_id e)"
    using assms(3) by (force simp: already_applied_iff)
  then obtain e' where e': "e' \<in> set (events s w)" "a = row s e'"
    using assms(1) by (auto simp: ok_def linked_def event_key_def)
  with a have "ev_id e' = ev_id e" by (simp add: event_key_def row_def)
  moreover have "inj_on ev_id (set (events s w))"
    using assms(1) distinct_ids by (auto simp: ok_def distinct_map)
  ultimately have "e' = e" using e'(1) assms(2) by (auto dest: inj_onD)
  with a e' show ?thesis by simp
qed

lemma linked_mark:
  assumes "linked db w" "good w" "mark s i w = Some w'" "e \<in> set (events s w)" "ev_id e = i"
    "row s e \<in> set (applied_events db)"
  shows "linked db w'"
proof -
  have "row s' e' \<in> set (applied_events db)" if "e' \<in> set (events s' w)" "ev_id e' \<notin> pending s' w'" for s' e'
  proof (cases "s' = s \<and> ev_id e' = i")
    case True
    then have "e' = e" using that(1) assms distinct_ids [OF assms(2), of s]
      by (auto simp: distinct_map dest: inj_onD)
    with True assms(6) show ?thesis by simp
  next
    case False
    then have "ev_id e' \<notin> pending s' w" using that mark_pending [OF assms(2,3)] by (auto split: if_splits)
    with assms(1) that(1) show ?thesis by (auto simp: linked_def)
  qed
  then show ?thesis using assms(1) mark_events [OF assms(2,3)] by (auto simp: linked_def)
qed

lemma linked_fold:
  assumes "linked db w" "e \<in> set (events s w)" "applied_events db' = applied_events db @ [row s e]"
  shows "linked db' w"
  using assms by (auto simp: linked_def row_def)

lemma apply_event_ok:
  assumes okk: "ok s" and e: "ev \<in> set (events service (snd s))"
    and ap: "apply_event mark service ev s = (r, s')"
  shows "ok s' \<and> onward s s' \<and>
    (\<forall>c. r = Inr c \<longrightarrow> settled service ev s')"
proof -
  obtain db w where s: "s = (db, w)" by (cases s)
  have inv: "crm_inv db" and g: "good w" and l: "linked db w" using okk s by (auto simp: ok_def)
  show ?thesis
  proof (cases "already_applied service (ev_id ev) db")
    case True
    then have row: "row service ev \<in> set (applied_events db)" using applied_row okk e s by auto
    show ?thesis
    proof (cases "mark service (ev_id ev) w")
      case None
      with True ap s okk show ?thesis by (auto simp: apply_event_def onward_refl)
    next
      case (Some w')
      with True ap s have "s' = (db, w')" by (auto simp: apply_event_def)
      with Some row inv g linked_mark [OF l g Some _ _ row] e s mark_pending [OF g Some] show ?thesis
        by (auto simp: ok_def onward_def settled_def mark_good mark_events)
    qed
  next
    case new: False
    show ?thesis
    proof (cases "fold_event service ev db")
      case None
      with new ap s okk show ?thesis by (auto simp: apply_event_def onward_refl)
    next
      case (Some db')
      have app: "applied_events db' = applied_events db @ [row service ev]"
        using fold_event_applied [OF Some] amounts [OF g, of ev service] e s by (auto simp: row_def)
      have inv': "crm_inv db'" by (rule fold_event_inv [OF inv new Some])
      have l': "linked db' w" using linked_fold [OF l _ app] e s by simp
      show ?thesis
      proof (cases "mark service (ev_id ev) w")
        case None
        with new Some ap s have "s' = (db', w)" "r = Inl Source_Call_Failed" by (auto simp: apply_event_def)
        with inv' g l' app s show ?thesis by (auto simp: ok_def onward_def)
      next
        case m: (Some w')
        with new Some ap s have "s' = (db', w')" by (auto simp: apply_event_def)
        with inv' g m app s e linked_mark [OF l' g m, of ev] mark_pending [OF g m] show ?thesis
          by (auto simp: ok_def onward_def settled_def mark_good mark_events)
      qed
    qed
  qed
qed

lemma apply_events_ok:
  assumes "ok s" "set evs \<subseteq> set (events service (snd s))"
    and "apply_events cp mark service evs n applied s = (r, s')"
  shows "ok s' \<and> onward s s' \<and>
    (\<forall>x. r = Inr x \<longrightarrow> (\<forall>e\<in>set evs. settled service e s'))"
  using assms
proof (induction evs arbitrary: n applied s)
  case Nil
  then show ?case by (auto simp: onward_refl)
next
  case (Cons ev evs)
  show ?case
  proof (cases "cp n ''crm.before_apply_event''")
    case (Some e)
    with Cons.prems show ?thesis by (auto simp: onward_refl)
  next
    case None
    obtain r1 s1 where ap: "apply_event mark service ev s = (r1, s1)" by (cases "apply_event mark service ev s")
    have one: "ok s1" "onward s s1" "\<And>c. r1 = Inr c \<Longrightarrow> settled service ev s1"
      using apply_event_ok [OF Cons.prems(1) _ ap] Cons.prems(2) by auto
    show ?thesis
    proof (cases r1)
      case (Inl e)
      with None ap Cons.prems(3) one show ?thesis by auto
    next
      case (Inr c)
      have sub: "set evs \<subseteq> set (events service (snd s1))"
        using Cons.prems(2) one(2) by (auto simp: onward_def)
      have rest: "apply_events cp mark service evs (n + 1) (if c then applied + 1 else applied) s1 = (r, s')"
        using Cons.prems(3) None ap Inr by simp
      from Cons.IH [OF one(1) sub rest] one Inr onward_trans [OF one(2)] settled_onward [of service ev s1 s']
      show ?thesis by auto
    qed
  qed
qed

lemma apply_sources_ok:
  assumes "ok s" and "apply_sources cp unapplied mark services n applied s = (r, s')"
  shows "ok s' \<and> onward s s' \<and> (\<forall>x. r = Inr x \<longrightarrow>
    (\<forall>service\<in>set services. \<forall>e\<in>set (events service (snd s)). in_scope e \<longrightarrow>
       settled service e s'))"
  using assms
proof (induction services arbitrary: n applied s)
  case Nil
  then show ?case by (auto simp: onward_refl)
next
  case (Cons service services)
  show ?case
  proof (cases "unapplied service (snd s)")
    case None
    with Cons.prems show ?thesis by (auto simp: onward_refl)
  next
    case (Some evs)
    have g: "good (snd s)" using Cons.prems(1) by (simp add: ok_def)
    note fetched = unapplied_pending [OF g Some]
    obtain r1 s1 where ap: "apply_events cp mark service evs n applied s = (r1, s1)"
      by (cases "apply_events cp mark service evs n applied s")
    have one: "ok s1" "onward s s1"
      "\<And>x. r1 = Inr x \<Longrightarrow> \<forall>e\<in>set evs. settled service e s1"
      using apply_events_ok [OF Cons.prems(1) _ ap] fetched by auto
    show ?thesis
    proof (cases r1)
      case (Inl e)
      with Some ap Cons.prems(2) one show ?thesis by auto
    next
      case (Inr x)
      obtain n' applied' where x: "x = (n', applied')" by (cases x)
      have rest: "apply_sources cp unapplied mark services n' applied' s1 = (r, s')"
        using Cons.prems(2) Some ap Inr x by simp
      have here: "settled service e s1"
        if "e \<in> set (events service (snd s))" "in_scope e" for e
      proof (cases "ev_id e \<in> pending service (snd s)")
        case True
        with that fetched one(3) [OF Inr] show ?thesis by auto
      next
        case False
        with that Cons.prems(1) one(2) show ?thesis
          by (auto simp: ok_def linked_def onward_def settled_def)
      qed
      have later: "ok s'" "onward s1 s'" "\<And>v. r = Inr v \<Longrightarrow> \<forall>service\<in>set services.
          \<forall>e\<in>set (events service (snd s)). in_scope e \<longrightarrow> settled service e s'"
        using Cons.IH [OF one(1) rest] one(2) by (auto simp: onward_def)
      then show ?thesis using here onward_trans [OF one(2)] settled_onward [of service _ s1 s'] by auto
    qed
  qed
qed

text \<open>The sum over the applied rows of a case, once they are exactly the events of the case.\<close>

lemma applied_sum:
  assumes okk: "ok (db, w)" and names: "distinct names" "\<And>s. s \<notin> set names \<Longrightarrow> events s w = []"
    and all: "\<And>s e. s \<in> set names \<Longrightarrow> e \<in> set (events s w) \<Longrightarrow> ev_case e = c \<Longrightarrow>
       row s e \<in> set (applied_events db)"
  shows "projection_total c db = (\<Sum>s\<leftarrow>names. sum_where (\<lambda>e. ev_case e = c) ev_amount (events s w))"
proof -
  have inv: "crm_inv db" and g: "good w" and l: "linked db w" using okk by (auto simp: ok_def)
  have sum_set: "sum_where P f xs = sum f {x \<in> set xs. P x}" if "distinct xs"
    for P :: "'z \<Rightarrow> bool" and f xs
    using that by (simp add: sum_where_def sum_list_distinct_conv_sum_set)
  let ?E = "\<lambda>s. {e \<in> set (events s w). ev_case e = c}"
  have rows: "{a \<in> set (applied_events db). ap_case a = c} = (\<Union>s\<in>set names. row s ` ?E s)"
  proof (intro equalityI subsetI)
    fix a assume a: "a \<in> {a \<in> set (applied_events db). ap_case a = c}"
    then obtain e where e: "e \<in> set (events (ap_service a) w)" "a = row (ap_service a) e"
      using l by (auto simp: linked_def)
    then have "ap_service a \<in> set names" using names(2) by force
    moreover have "ev_case e = c" using a arg_cong [OF e(2), of ap_case] by (simp add: row_def)
    ultimately show "a \<in> (\<Union>s\<in>set names. row s ` ?E s)" using e by blast
  qed (use all in \<open>auto simp: row_def\<close>)
  have "projection_total c db = sum_where (\<lambda>a. ap_case a = c) ap_amount (applied_events db)"
    by (rule crm_inv_total [OF inv])
  also have "\<dots> = sum ap_amount {a \<in> set (applied_events db). ap_case a = c}"
    using inv by (intro sum_set) (auto simp: crm_inv_def distinct_map)
  also have "\<dots> = (\<Sum>s\<in>set names. sum ap_amount (row s ` ?E s))"
    unfolding rows by (intro sum.UNION_disjoint) (auto simp: row_def)
  also have "\<dots> = (\<Sum>s\<in>set names. sum ev_amount (?E s))"
  proof (rule sum.cong [OF refl])
    fix s
    have "inj_on (row s) (?E s)"
      using distinct_ids [OF g, of s] by (auto simp: inj_on_def row_def distinct_map)
    then have "sum ap_amount (row s ` ?E s) = (\<Sum>e\<in>?E s. ap_amount (row s e))"
      by (rule sum.reindex_cong) (rule refl)+
    then show "sum ap_amount (row s ` ?E s) = sum ev_amount (?E s)" by (simp add: row_def)
  qed
  also have "\<dots> = (\<Sum>s\<in>set names. sum_where (\<lambda>e. ev_case e = c) ev_amount (events s w))"
    using distinct_ids [OF g] by (intro sum.cong refl sum_set [symmetric]) (auto simp: distinct_map)
  finally show ?thesis using names(1) by (simp add: sum_list_distinct_conv_sum_set)
qed

end

section \<open>Billing and the Ledger as event sources\<close>

type_synonym services_db = "billing_db \<times> ledger_db"

definition outbox_of :: "string \<Rightarrow> services_db \<Rightarrow> outbox_row list" where
  "outbox_of service w =
     (if service = ''billing'' then outbox (fst w) else if service = ''ledger'' then outbox (snd w) else [])"

definition published :: "string \<Rightarrow> services_db \<Rightarrow> event list" where
  "published service w = map to_event (outbox_of service w)"

definition pending_ids :: "string \<Rightarrow> services_db \<Rightarrow> int set" where
  "pending_ids service w = set (map ob_id (filter (\<lambda>e. ob_applied_at e = None) (outbox_of service w)))"

definition case_scope :: "string option \<Rightarrow> event \<Rightarrow> bool" where
  "case_scope cid e \<longleftrightarrow> falsy cid \<or> cid = Some (ev_case e)"

definition sound_dbs :: "services_db \<Rightarrow> bool" where
  "sound_dbs w \<longleftrightarrow> effect_inv (fst w) \<and> effect_inv (snd w)"

lemma outbox_distinct: "effect_inv db \<Longrightarrow> distinct (map ob_id (outbox db))"
  by (simp add: effect_inv_def strict_sorted_iff)

lemma outbox_amount:
  assumes inv: "effect_inv db" and e: "e \<in> set (outbox db)"
  shows "numeric_12_2 (ob_amount e) = Some (ob_amount e)"
proof -
  have "event_of e \<in> effect_of ` set (effects db)"
    using inv e unfolding effect_inv_def by (metis image_eqI list.set_map)
  then obtain r where "r \<in> set (effects db)" "ob_amount e = ef_amount r"
    by (auto simp: event_of_def effect_of_def)
  then show ?thesis using inv unfolding effect_inv_def by (auto intro!: numeric_12_2_exact)
qed

lemma scoped_events:
  assumes "distinct (map ob_id rows)"
  shows "to_event ` {e \<in> set rows. ob_applied_at e = None \<and> P (ob_case e)}
    = {e \<in> to_event ` set rows.
        ev_id e \<in> set (map ob_id (filter (\<lambda>e. ob_applied_at e = None) rows)) \<and> P (ev_case e)}"
proof -
  have "ob_applied_at x = None"
    if "x \<in> set rows" "y \<in> set rows" "ob_id x = ob_id y" "ob_applied_at y = None" for x y
    using that assms by (auto simp: distinct_map dest: inj_onD)
  note pending = this
  show ?thesis
  proof (intro equalityI subsetI)
    fix e assume "e \<in> to_event ` {e \<in> set rows. ob_applied_at e = None \<and> P (ob_case e)}"
    then obtain x where "x \<in> set rows" "ob_applied_at x = None" "P (ob_case x)" "e = to_event x" by blast
    then show "e \<in> {e \<in> to_event ` set rows.
        ev_id e \<in> set (map ob_id (filter (\<lambda>e. ob_applied_at e = None) rows)) \<and> P (ev_case e)}"
      by (simp add: to_event_def)
  next
    fix e assume "e \<in> {e \<in> to_event ` set rows.
        ev_id e \<in> set (map ob_id (filter (\<lambda>e. ob_applied_at e = None) rows)) \<and> P (ev_case e)}"
    then obtain x y where x: "x \<in> set rows" "e = to_event x" "P (ev_case e)"
      and y: "y \<in> set rows" "ob_applied_at y = None" "ev_id e = ob_id y" by auto
    have "ob_applied_at x = None" by (rule pending [OF x(1) y(1) _ y(2)]) (use x(2) y(3) in \<open>simp add: to_event_def\<close>)
    then show "e \<in> to_event ` {e \<in> set rows. ob_applied_at e = None \<and> P (ob_case e)}"
      using x by (intro image_eqI [of _ _ x]) (simp_all add: to_event_def)
  qed
qed

lemma pending_after_mark:
  "set (map ob_id (filter (\<lambda>e. ob_applied_at e = None)
      (update_where (\<lambda>e. ob_id e = i) (\<lambda>e. e\<lparr>ob_applied_at := Some t\<rparr>) rows)))
   = set (map ob_id (filter (\<lambda>e. ob_applied_at e = None) rows)) - {i}"
  by (induction rows) auto

lemma mark_outbox:
  "mark_one now i db = Some (j, db') \<Longrightarrow>
     outbox db' = update_where (\<lambda>e. ob_id e = i) (\<lambda>e. e\<lparr>ob_applied_at := Some now\<rparr>) (outbox db)"
  by (auto simp: mark_one_def Let_def split: option.splits)

lemma http_mark_cases:
  assumes "http_mark_applied actor schedule now s i w = Some w'"
  obtains (b) b' j where "s = ''billing''" "mark_one now i (fst w) = Some (j, b')" "w' = (b', snd w)"
  | (l) l' j where "s = ''ledger''" "mark_one now i (snd w) = Some (j, l')" "w' = (fst w, l')"
  using assms by (auto simp: http_mark_applied_def mark_event_applied_def mark_credit_event_applied_def
      split: if_splits option.splits)

interpretation es: event_source "http_unapplied actor schedule cid" "http_mark_applied actor schedule now"
  published pending_ids "case_scope cid" sound_dbs
  for actor schedule cid now
proof
  fix s w evs
  assume w: "sound_dbs w" and f: "http_unapplied actor schedule cid s w = Some evs"
  have "set evs = to_event ` {e \<in> set (outbox_of s w). ob_applied_at e = None \<and>
      (falsy cid \<or> cid = Some (ob_case e))}"
    using f by (cases cid) (auto simp: http_unapplied_def outbox_of_def list_events_def
        list_credit_events_def events_where_def Let_def split: if_splits)
  moreover have "distinct (map ob_id (outbox_of s w))"
    using w by (auto simp: outbox_of_def sound_dbs_def outbox_distinct)
  ultimately show "set evs = {e \<in> set (published s w). ev_id e \<in> pending_ids s w \<and> case_scope cid e}"
    using scoped_events [of "outbox_of s w" "\<lambda>c. falsy cid \<or> cid = Some c"]
    by (simp add: published_def pending_ids_def case_scope_def)
next
  fix w s
  assume w: "sound_dbs w"
  have "map ev_id (published s w) = map ob_id (outbox_of s w)"
    by (simp add: published_def to_event_def comp_def)
  then show "distinct (map ev_id (published s w))"
    using w by (auto simp: outbox_of_def sound_dbs_def outbox_distinct)
next
  fix w e s
  assume "sound_dbs w" "e \<in> set (published s w)"
  then show "numeric_12_2 (ev_amount e) = Some (ev_amount e)"
    by (auto simp: published_def to_event_def outbox_of_def sound_dbs_def outbox_amount split: if_splits)
next
  fix w s i w'
  assume w: "sound_dbs w" and m: "http_mark_applied actor schedule now s i w = Some w'"
  from m show "sound_dbs w'"
    by (cases rule: http_mark_cases) (use w in \<open>auto simp: sound_dbs_def dest: mark_one_inv\<close>)
next
  fix w s i w' s'
  assume w: "sound_dbs w" and m: "http_mark_applied actor schedule now s i w = Some w'"
  from m show "published s' w' = published s' w"
    by (cases rule: http_mark_cases) (auto simp: published_def outbox_of_def mark_outbox to_event_def)
  from m show "pending_ids s' w' = pending_ids s' w - (if s' = s then {i} else {})"
    by (cases rule: http_mark_cases)
       (simp_all add: pending_ids_def outbox_of_def mark_outbox pending_after_mark del: set_map set_filter)
qed

end
