(* ===== verification/Projection.thy ===== *)
theory Projection
  imports Crm
begin

text \<open>
  The services and the CRM together: any sequence of client requests and of projector runs,
  the projector failing wherever it likes. The invariant is the one of the locale
  \<open>event_source\<close>; the theorems say what the projection is worth at any time, and that a run
  that succeeds has caught up.
\<close>

text \<open>
  The projection never counts an event twice. Whatever events are offered to it, in
  whatever order, by whatever source and however often, the total of every case is the sum of
  the amounts of the events recorded as applied for it, their number is reported with it, and
  no service and event id is recorded twice. So the reconciler's drift check is never
  triggered by redelivery.
\<close>

lemma projection_counts_each_event_once:
  "distinct (map event_key (applied_events (fold crm_step offers empty_crm)))
   \<and> get_compensation cid (fold crm_step offers empty_crm) =
      (sum_where (\<lambda>a. ap_case a = cid) ap_amount (applied_events (fold crm_step offers empty_crm)),
       length (filter (\<lambda>a. ap_case a = cid) (applied_events (fold crm_step offers empty_crm))))"
proof -
  have "crm_inv (fold crm_step offers empty_crm)" by (rule cr.run_inv [OF crm_inv_empty])
  then show ?thesis unfolding crm_inv_def by blast
qed

section \<open>Services, projector and CRM together\<close>

datatype pipeline_op =
    Billing_Request billing_op
  | Ledger_Request effect_op
  | Project "string option" "string option" datetime "nat \<Rightarrow> string \<Rightarrow> wire_error option" string

text \<open>What clients do: everything but marking events applied, which is the projector's, and truncating.\<close>

fun client_effect :: "effect_op \<Rightarrow> bool" where
  "client_effect (Mark now i) = False"
| "client_effect Truncate = False"
| "client_effect x = True"

fun client_op :: "pipeline_op \<Rightarrow> bool" where
  "client_op (Billing_Request (Effect x)) = client_effect x"
| "client_op (Billing_Request (Change_Plan actor cp cid plan key)) = True"
| "client_op (Ledger_Request x) = client_effect x"
| "client_op (Project actor schedule now cp cid) = True"

fun pipeline_step :: "pipeline_op \<Rightarrow> crm_db \<times> services_db \<Rightarrow> crm_db \<times> services_db" where
  "pipeline_step (Billing_Request x) (c, b, l) = (c, billing_step x b, l)"
| "pipeline_step (Ledger_Request x) (c, b, l) = (c, b, ledger_step x l)"
| "pipeline_step (Project actor schedule now cp cid) s = snd (project actor schedule now cp cid s)"

definition pipeline_run :: "pipeline_op list \<Rightarrow> crm_db \<times> services_db" where
  "pipeline_run xs = fold pipeline_step xs (empty_crm, empty_billing, empty_effect_db)"

text \<open>A client's request adds unapplied events to an outbox, or makes applied ones unapplied.\<close>

definition outbox_grows :: "outbox_row list \<Rightarrow> outbox_row list \<Rightarrow> bool" where
  "outbox_grows rows rows' \<longleftrightarrow> (\<exists>new. map to_event rows' = map to_event rows @ map to_event new) \<and>
     (\<forall>e\<in>set rows'. ob_applied_at e \<noteq> None \<longrightarrow> e \<in> set rows)"

lemma outbox_grows_refl [simp]: "outbox_grows rows rows"
  by (auto simp: outbox_grows_def intro: exI [of _ "[]"])

lemma outbox_grows_append: "ob_applied_at e = None \<Longrightarrow> outbox_grows rows (rows @ [e])"
  by (auto simp: outbox_grows_def intro: exI [of _ "[e]"])

lemma outbox_grows_redeliver: "outbox_grows (outbox db) (outbox (snd (redeliver cid db)))"
proof -
  have "map to_event (update_where P (\<lambda>e. e\<lparr>ob_applied_at := None\<rparr>) rows) = map to_event rows" for P rows
    by (rule map_update_where) (simp add: to_event_def)
  then show ?thesis
    by (auto simp: outbox_grows_def redeliver_def Let_def set_update_where intro!: exI [of _ "[]"])
qed

lemma effect_tx_outbox:
  assumes "effect_inv db" "effect_tx service ev cid actor key amount db = Inr (r, db')"
  shows "outbox_grows (outbox db) (outbox db')"
  by (rule effect_tx_cases [OF assms(1), of key service ev cid actor amount])
     (use assms(2) in \<open>auto simp: outbox_grows_append\<close>)

lemma void_tx_outbox:
  assumes "effect_inv db" "void_tx service actor i db = Inr (Some (r, db'))"
  shows "outbox db' = outbox db"
  by (rule void_tx_cases [OF assms(1), of i service actor]) (use assms(2) in auto)

lemma billing_step_outbox:
  assumes inv: "effect_inv b" and op: "client_op (Billing_Request x)"
  shows "outbox_grows (outbox b) (outbox (billing_step x b))"
proof (cases x)
  case (Change_Plan actor cp cid plan key)
  then show ?thesis by (auto simp: change_plan_def Let_def split: option.split)
next
  case (Effect y)
  show ?thesis
  proof (cases y)
    case (Create env cp req)
    then show ?thesis using Effect create_refund_state [of env cp req b] effect_tx_outbox [OF inv]
      by (auto simp: create_refund_tx_eq)
  next
    case (Void actor i)
    then show ?thesis using Effect void_tx_outbox [OF inv]
      by (auto simp: void_refund_def split: sum.split option.split)
  next
    case (Redeliver cid)
    then show ?thesis using Effect by (simp add: redeliver_events_def outbox_grows_redeliver)
  qed (use op Effect in auto)
qed

lemma ledger_step_outbox:
  assumes inv: "effect_inv l" and op: "client_effect x"
  shows "outbox_grows (outbox l) (outbox (ledger_step x l))"
proof (cases x)
  case (Create env cp req)
  then show ?thesis using create_credit_state [of env cp req l] effect_tx_outbox [OF inv]
    by (auto simp: create_credit_tx_eq)
next
  case (Void actor i)
  then show ?thesis using void_tx_outbox [OF inv]
    by (auto simp: void_credit_def split: sum.split option.split)
next
  case (Redeliver cid)
  then show ?thesis by (simp add: redeliver_credit_events_def outbox_grows_redeliver)
qed (use op in auto)

text \<open>Growing outboxes keep the link between the CRM and its sources.\<close>

lemma linked_grows:
  assumes l: "es.linked db w" and d: "sound_dbs w"
    and g: "\<And>s. outbox_grows (outbox_of s w) (outbox_of s w')"
  shows "es.linked db w'"
proof -
  have sub: "set (published s w) \<subseteq> set (published s w')" for s
  proof -
    obtain new where "map to_event (outbox_of s w') = map to_event (outbox_of s w) @ map to_event new"
      using g [of s] unfolding outbox_grows_def by blast
    then show ?thesis unfolding published_def by (metis Un_upper1 set_append)
  qed
  have "es.row s e \<in> set (applied_events db)"
    if e: "e \<in> set (published s w')" "ev_id e \<notin> pending_ids s w'" for s e
  proof -
    obtain ev where ev: "ev \<in> set (outbox_of s w')" "e = to_event ev" using e(1) by (auto simp: published_def)
    then have appl: "ob_applied_at ev \<noteq> None" using e(2) by (auto simp: pending_ids_def to_event_def)
    then have ev': "ev \<in> set (outbox_of s w)" using g [of s] ev(1) by (auto simp: outbox_grows_def)
    have "distinct (map ob_id (outbox_of s w))"
      using d by (auto simp: outbox_of_def sound_dbs_def outbox_distinct)
    then have inj: "inj_on ob_id (set (outbox_of s w))" by (simp add: distinct_map)
    have "ev_id e \<notin> pending_ids s w"
    proof
      assume "ev_id e \<in> pending_ids s w"
      then obtain ev2 where "ev2 \<in> set (outbox_of s w)" "ob_applied_at ev2 = None" "ob_id ev2 = ob_id ev"
        using ev(2) by (auto simp: pending_ids_def to_event_def)
      then show False using inj ev' appl inj_onD [OF inj, of ev2 ev] by simp
    qed
    then show ?thesis using l ev ev' by (auto simp: es.linked_def published_def)
  qed
  then show ?thesis using l sub unfolding es.linked_def by blast
qed

lemma ok_client:
  assumes okk: "es.ok (c, w)" and d: "sound_dbs w'"
    and g: "\<And>s. outbox_grows (outbox_of s w) (outbox_of s w')"
  shows "es.ok (c, w')"
  using okk d linked_grows [of c w w', OF _ _ g] by (auto simp: es.ok_def)

lemma apply_pending_all:
  "apply_pending cp unapplied mark sources None s =
     (case cp 0 ''crm.before_poll'' of Some e \<Rightarrow> (Inl (Projector_Checkpoint e), s)
      | None \<Rightarrow> apply_sources cp unapplied mark sources 1 0 s)"
  by (simp add: apply_pending_def)

lemma project_eq:
  "\<exists>a sch. project actor schedule now cp cid s =
     (case cp 0 ''crm.before_poll'' of Some e \<Rightarrow> (Inl (Projector_Checkpoint e), s)
      | None \<Rightarrow> apply_sources cp (http_unapplied a sch (Some cid)) (http_mark_applied a sch now)
          [''billing'', ''ledger''] 1 0 s)"
  unfolding project_def Let_def by (intro exI) (rule apply_pending_all)

lemma project_ok:
  assumes okk: "es.ok s" and run: "project actor schedule now cp cid s = (r, s')"
  shows "es.ok s' \<and> es.onward s s' \<and> (\<forall>n. r = Inr n \<longrightarrow>
     (\<forall>service\<in>{''billing'', ''ledger''}. \<forall>e\<in>set (published service (snd s)).
        case_scope (Some cid) e \<longrightarrow> es.settled service e s'))"
proof (cases "cp 0 ''crm.before_poll''")
  case (Some e)
  then show ?thesis using project_eq [of actor schedule now cp cid s] okk run es.onward_refl by auto
next
  case None
  then obtain a sch where "apply_sources cp (http_unapplied a sch (Some cid)) (http_mark_applied a sch now)
      [''billing'', ''ledger''] 1 0 s = (r, s')"
    using project_eq [of actor schedule now cp cid s] run by auto
  from es.apply_sources_ok [OF okk this] show ?thesis by auto
qed

lemma billing_step_effect_inv:
  assumes inv: "effect_inv b"
  shows "effect_inv (billing_step x b)"
proof (cases x)
  case (Change_Plan actor cp cid plan key)
  then show ?thesis using inv by (auto simp: change_plan_def Let_def split: option.split)
next
  case (Effect y)
  show ?thesis
  proof (cases y)
    case (Create env cp req)
    then show ?thesis using Effect inv create_refund_state [of env cp req b] by (auto dest: billing.create_good)
  next
    case (Void actor i)
    then show ?thesis using Effect inv void_tx_inv [OF inv]
      by (auto simp: void_refund_def split: sum.split option.split)
  next
    case (Mark now i)
    then show ?thesis using Effect inv
      by (auto simp: mark_event_applied_def dest: mark_one_inv split: option.split)
  next
    case Truncate
    then show ?thesis using Effect billing_inv_empty by (simp add: truncate_billing_def billing_inv_def)
  qed (use Effect inv in \<open>simp_all add: redeliver_events_def redeliver_inv\<close>)
qed

lemma pipeline_step_ok:
  assumes okk: "es.ok s" and op: "client_op x"
  shows "es.ok (pipeline_step x s)"
proof -
  obtain c b l where s: "s = (c, b, l)" by (cases s) auto
  have d: "effect_inv b" "effect_inv l" using okk s by (auto simp: es.ok_def sound_dbs_def)
  show ?thesis
  proof (cases x)
    case (Billing_Request y)
    have "effect_inv (billing_step y b)" by (rule billing_step_effect_inv [OF d(1)])
    then show ?thesis using Billing_Request s d op billing_step_outbox [OF d(1), of y] okk
      by (auto intro!: ok_client [of c "(b, l)"] simp: outbox_of_def sound_dbs_def)
  next
    case (Ledger_Request y)
    then show ?thesis using s d op ledger_step_outbox [OF d(2), of y] okk ledger_step_inv [OF d(2), of y]
      by (auto intro!: ok_client [of c "(b, l)"] simp: outbox_of_def sound_dbs_def)
  next
    case (Project actor schedule now cp cid)
    then show ?thesis using project_ok [OF okk, of actor schedule now cp cid]
      by (cases "project actor schedule now cp cid s") simp
  qed
qed

lemma ok_empty: "es.ok (empty_crm, empty_billing, empty_effect_db)"
proof -
  have "sound_dbs (empty_billing, empty_effect_db)"
    using billing_inv_empty effect_inv_empty by (simp add: sound_dbs_def billing_inv_def)
  moreover have "published s (empty_billing, empty_effect_db) = []" for s
    by (simp add: published_def outbox_of_def empty_billing_def empty_effect_db_def)
  moreover have "applied_events empty_crm = []" by (simp add: empty_crm_def)
  ultimately show ?thesis using crm_inv_empty by (simp add: es.ok_def es.linked_def)
qed

lemma pipeline_run_ok:
  assumes "list_all client_op xs"
  shows "es.ok (pipeline_run xs)"
proof -
  have "es.ok (fold pipeline_step xs s)" if "es.ok s" "list_all client_op xs" for s
    using that by (induction xs arbitrary: s) (simp_all add: pipeline_step_ok)
  then show ?thesis using assms ok_empty by (simp add: pipeline_run_def)
qed

section \<open>Properties\<close>

text \<open>What has been voided in a case, over both services.\<close>

definition voided :: "string \<Rightarrow> services_db \<Rightarrow> decimal" where
  "voided cid w =
     sum_where (\<lambda>r. ef_case r = cid \<and> ef_state r = VOIDED) ef_amount (effects (fst w)) +
     sum_where (\<lambda>r. ef_case r = cid \<and> ef_state r = VOIDED) ef_amount (effects (snd w))"

definition authoritative_total :: "string \<Rightarrow> services_db \<Rightarrow> decimal" where
  "authoritative_total cid w = total_committed cid (fst w) + total_committed cid (snd w)"

lemma published_total:
  assumes "sound_dbs w"
  shows "(\<Sum>s\<leftarrow>[''billing'', ''ledger'']. sum_where (\<lambda>e. ev_case e = c) ev_amount (published s w))
    = authoritative_total c w + voided c w"
proof -
  have "sum_where (\<lambda>e. ev_case e = c) ev_amount (map to_event rows)
      = sum_where (\<lambda>e. ob_case e = c) ob_amount rows" for rows
    by (induction rows) (simp_all add: to_event_def)
  then show ?thesis using assms events_total [of "fst w" c] events_total [of "snd w" c]
    by (simp add: published_def outbox_of_def sound_dbs_def authoritative_total_def voided_def)
qed

text \<open>
  C19. A projector run that succeeds has caught up. After any client requests to the two
  services and any earlier projector runs, some of which may have died at any checkpoint or
  call, a run for a case that returns leaves the projection of that case at everything the
  two services ever committed for it: the lag it reports is minus the amount that was voided,
  and zero when nothing was. No event was lost, and none counted twice.
\<close>

theorem successful_projection_has_caught_up:
  assumes clients: "list_all client_op xs" and cid: "cid \<noteq> ''''"
    and run: "project actor schedule now cp cid (pipeline_run xs) = (Inr n, c', w')"
  shows "projection_total cid c' = authoritative_total cid w' + voided cid w'
    \<and> projection_lag cid (authoritative_total cid w') c' = - voided cid w'"
proof -
  from project_ok [OF pipeline_run_ok [OF clients] run]
  have okk: "es.ok (c', w')" and on: "es.onward (pipeline_run xs) (c', w')"
    and app: "\<And>service e. service \<in> {''billing'', ''ledger''} \<Longrightarrow>
      e \<in> set (published service (snd (pipeline_run xs))) \<Longrightarrow>
      case_scope (Some cid) e \<Longrightarrow> es.row service e \<in> set (applied_events c')"
    by (auto simp: es.settled_def)
  have "projection_total cid c' = (\<Sum>s\<leftarrow>[''billing'', ''ledger''].
      sum_where (\<lambda>e. ev_case e = cid) ev_amount (published s w'))"
  proof (rule es.applied_sum [OF okk])
    show "distinct [''billing'', ''ledger'']" by simp
    show "published s w' = []" if "s \<notin> set [''billing'', ''ledger'']" for s
      using that by (simp add: published_def outbox_of_def)
    fix s e
    assume s: "s \<in> set [''billing'', ''ledger'']" and e: "e \<in> set (published s w')" "ev_case e = cid"
    then have "e \<in> set (published s (snd (pipeline_run xs)))" using on by (simp add: es.onward_def)
    with app [of s e] s e(2) show "es.row s e \<in> set (applied_events c')"
      by (simp add: case_scope_def)
  qed
  moreover have "sound_dbs w'" using okk by (simp add: es.ok_def)
  ultimately show ?thesis using published_total [of w' cid] by (simp add: projection_lag_def)
qed

definition refund_then_credit :: "pipeline_op list" where
  "refund_then_credit =
     [Billing_Request (Effect (Create (open_env ''A'') (only_fails ''billing.after_commit_before_ack'')
        (request ''c'' 600 ''a''))),
      Project None None 5 (\<lambda>n name. if n = 1 then Some (CheckpointError 410) else None) ''c'',
      Ledger_Request (Create (open_env ''B'') (\<lambda>_. None) (request ''c'' 500 ''b''))]"

lemmas projection_eval = pipeline_run_def project_def apply_pending_def apply_event_def
  http_unapplied_def http_mark_applied_def list_events_def list_credit_events_def events_where_def
  mark_event_applied_def mark_credit_event_applied_def mark_one_def already_applied_def
  fold_event_def empty_crm_def to_event_def projection_total_def

lemma refund_then_credit_run:
  "pipeline_run refund_then_credit = (empty_crm,
     snd (create_refund (open_env ''A'') (\<lambda>_. None) (request ''c'' 600 ''a'') empty_billing),
     snd (create_credit (open_env ''B'') (\<lambda>_. None) (request ''c'' 500 ''b'') empty_effect_db))"
  by (simp add: refund_then_credit_def projection_eval services_eval)

theorem successful_projection_has_caught_up_witness:
  "\<exists>n c' w'. project None None 7 (\<lambda>n name. None) ''c'' (pipeline_run refund_then_credit) = (Inr n, c', w')
     \<and> projection_total ''c'' c' = authoritative_total ''c'' w' + voided ''c'' w'"
proof -
  obtain r c' w' where run: "project None None 7 (\<lambda>n name. None) ''c'' (pipeline_run refund_then_credit)
      = (r, c', w')" by (metis surj_pair)
  have "r = Inr 2"
    using run unfolding refund_then_credit_run
    by (auto simp: projection_eval services_eval)
  moreover have "list_all client_op refund_then_credit" by (simp add: refund_then_credit_def)
  ultimately show ?thesis
    using successful_projection_has_caught_up [of refund_then_credit "''c''" None None 7 "\<lambda>n name. None"] run
    by auto
qed

end
