(* ===== verification/Oracle.thy ===== *)
theory Oracle
  imports Projection
begin

text \<open>
  The judge: \<^verbatim>\<open>oracle/sql.py\<close>, \<^verbatim>\<open>oracle/invariants.py\<close>, \<^verbatim>\<open>oracle/quiescence.py\<close>,
  \<^verbatim>\<open>oracle/calibration.py\<close>, \<^verbatim>\<open>oracle/divergence.py\<close>, \<^verbatim>\<open>oracle/transitions.py\<close> and the topology
  check of \<^verbatim>\<open>oracle/manifest.py\<close>. It reads the tables of the two services directly; its
  filters are its own definitions, as in the code. The lemmas: when each verdict is given,
  that the oracle and the services' own accounts agree, that calibration accepts this oracle
  and rejects constant ones and leaves nothing behind.
\<close>

section \<open>The oracle's SQL\<close>

definition VERDICT_STATES :: "effect_state list" where
  "VERDICT_STATES = [COMMITTED, SETTLED]"

definition OBLIGATED_STATES :: "effect_state list" where
  "OBLIGATED_STATES = [PENDING, COMMITTED, SETTLED]"

definition table_of :: "string \<Rightarrow> services_db \<Rightarrow> effect_row list" where
  "table_of service w = (if service = ''billing'' then effects (fst w) else effects (snd w))"

definition TABLES :: "string list" where
  "TABLES = [''billing'', ''ledger'']"

definition sum_states :: "string \<Rightarrow> string \<Rightarrow> effect_state list \<Rightarrow> services_db \<Rightarrow> decimal" where
  "sum_states service cid states w =
     sum_where (\<lambda>r. ef_case r = cid \<and> ef_state r \<in> set states) ef_amount (table_of service w)"

definition sql_committed_total :: "string \<Rightarrow> services_db \<Rightarrow> decimal" where
  "sql_committed_total cid w = (\<Sum>s\<leftarrow>TABLES. sum_states s cid VERDICT_STATES w)"

definition sql_obligated_total :: "string \<Rightarrow> services_db \<Rightarrow> decimal" where
  "sql_obligated_total cid w = (\<Sum>s\<leftarrow>TABLES. sum_states s cid OBLIGATED_STATES w)"

definition sql_settled_total :: "string \<Rightarrow> services_db \<Rightarrow> decimal" where
  "sql_settled_total cid w = (\<Sum>s\<leftarrow>TABLES. sum_states s cid [SETTLED] w)"

text \<open>A dict from keys to rows, as an association list in insertion order.\<close>

type_synonym key_rows = "(string \<times> (string \<times> string \<times> decimal \<times> effect_state) list) list"

fun append_to :: "string \<Rightarrow> 'r \<Rightarrow> (string \<times> 'r list) list \<Rightarrow> (string \<times> 'r list) list" where
  "append_to key r [] = [(key, [r])]"
| "append_to key r ((k, rs) # grouped) =
     (if k = key then (k, rs @ [r]) # grouped else (k, rs) # append_to key r grouped)"

definition rows_by_idempotency_key :: "string \<Rightarrow> services_db \<Rightarrow> key_rows" where
  "rows_by_idempotency_key cid w =
     fold (\<lambda>service. fold (\<lambda>r. append_to (ef_key r) (service, ef_actor r, ef_amount r, ef_state r))
         (filter (\<lambda>r. ef_case r = cid) (table_of service w))) TABLES []"

section \<open>The verdict\<close>

datatype verdict = CLEAN | VIOLATION | INCONCLUSIVE

record result =
  re_verdict :: verdict
  re_case :: string
  re_authorized :: decimal
  re_committed :: decimal
  re_obligated :: decimal
  re_settled :: decimal
  re_overage :: decimal
  re_reason :: "string list option"

definition duplicated_effect_keys :: "string \<Rightarrow> services_db \<Rightarrow> string list" where
  "duplicated_effect_keys cid w =
     sort (map fst (filter (\<lambda>(key, rows). 1 < length (filter (\<lambda>(_, _, _, s). s \<in> set VERDICT_STATES) rows))
       (rows_by_idempotency_key cid w)))"

text \<open>The reason of an inconclusive verdict is the list of keys it names.\<close>

definition evaluate :: "string \<Rightarrow> decimal \<Rightarrow> services_db \<Rightarrow> result" where
  "evaluate cid authorized w =
     (let committed = sql_committed_total cid w;
          obligated = sql_obligated_total cid w;
          settled = sql_settled_total cid w;
          overage = max 0 (committed - authorized);
          duplicated = duplicated_effect_keys cid w
      in if duplicated \<noteq> [] then
           \<lparr>re_verdict = INCONCLUSIVE, re_case = cid, re_authorized = authorized,
             re_committed = committed, re_obligated = obligated, re_settled = settled,
             re_overage = overage, re_reason = Some duplicated\<rparr>
         else
           \<lparr>re_verdict = (if committed > authorized then VIOLATION else CLEAN), re_case = cid,
             re_authorized = authorized, re_committed = committed, re_obligated = obligated,
             re_settled = settled, re_overage = overage, re_reason = None\<rparr>)"

text \<open>None is a normal return; otherwise the number of waiters in the exception.\<close>

definition ensure_quiescent :: "key list \<Rightarrow> nat option" where
  "ensure_quiescent ws = (if ws \<noteq> [] then Some (length ws) else None)"

section \<open>Two views\<close>

record view_comparison =
  vc_case :: string
  vc_sql_total :: decimal
  vc_api_total :: decimal

definition vc_delta :: "view_comparison \<Rightarrow> decimal" where
  "vc_delta v = \<bar>vc_sql_total v - vc_api_total v\<bar>"

definition vc_diverged :: "view_comparison \<Rightarrow> bool" where
  "vc_diverged v \<longleftrightarrow> vc_sql_total v \<noteq> vc_api_total v"

definition default_api_reader :: "string \<Rightarrow> services_db \<Rightarrow> decimal" where
  "default_api_reader cid w = 0 + snd (list_refunds cid (fst w)) + snd (list_credits cid (snd w))"

definition capture_views ::
  "string \<Rightarrow> (string \<Rightarrow> services_db \<Rightarrow> decimal) option \<Rightarrow> services_db \<Rightarrow> view_comparison" where
  "capture_views cid api_reader w =
     \<lparr>vc_case = cid, vc_sql_total = sql_committed_total cid w,
       vc_api_total = (case api_reader of None \<Rightarrow> default_api_reader | Some f \<Rightarrow> f) cid w\<rparr>"

section \<open>Calibration\<close>

definition CEILING :: decimal where
  "CEILING = 1000"

type_synonym planted = "string \<times> string \<times> (decimal \<times> effect_state) list \<times> (decimal \<times> effect_state) list \<times> verdict"

definition PLANTED :: "planted list" where
  "PLANTED =
     [(''planted_violation'', ''calib-violation'', [(600, COMMITTED)], [(500, COMMITTED)], VIOLATION),
      (''planted_safe'', ''calib-safe'', [(600, COMMITTED)], [(300, COMMITTED)], CLEAN),
      (''planted_voided_is_safe'', ''calib-voided'', [(600, COMMITTED)], [(500, VOIDED)], CLEAN)]"

text \<open>\<open>str\<close> of a row's index; no planted case has more than ten rows.\<close>

definition str_digit :: "nat \<Rightarrow> string" where
  "str_digit n = [''0123456789'' ! n]"

fun plant_rows ::
  "string \<Rightarrow> string \<Rightarrow> nat \<Rightarrow> (decimal \<times> effect_state) list \<Rightarrow> 'a effect_db_scheme \<Rightarrow>
     db_error + 'a effect_db_scheme" where
  "plant_rows service cid i [] db = Inr db"
| "plant_rows service cid i ((amount, s) # rows) db =
     (case numeric_12_2 amount of None \<Rightarrow> Inl NumericOverflow
      | Some a \<Rightarrow>
        let key = cid @ ''-'' @ service @ ''-'' @ str_digit i in
        if \<not> 0 < a then Inl (CheckViolation ''amount'')
        else if \<exists>r\<in>set (effects db). ef_key r = key then Inl (UniqueViolation ''idempotency_key'')
        else plant_rows service cid (i + 1) rows (db\<lparr>effect_seq := effect_seq db + 1,
          effects := effects db @ [\<lparr>ef_id = effect_seq db + 1, ef_case = cid, ef_actor = ''CALIB'',
            ef_key = key, ef_amount = a, ef_state = s\<rparr>]\<rparr>))"

definition clear_case :: "string \<Rightarrow> services_db \<Rightarrow> services_db" where
  "clear_case cid w =
     ((fst w)\<lparr>effects := filter (\<lambda>r. ef_case r \<noteq> cid) (effects (fst w))\<rparr>,
      (snd w)\<lparr>effects := filter (\<lambda>r. ef_case r \<noteq> cid) (effects (snd w))\<rparr>)"

datatype calibration_error = Calibration_Failed "string list" | Plant_Failed db_error

text \<open>One case: clear, plant in both services, judge, clear. A failed INSERT is rolled
  back. The evaluator is a function that returns a report; one that raises would have its case cleared
  all the same by the \<^verbatim>\<open>finally\<close>, and is not modelled.\<close>

definition calibrate_case ::
  "(string \<Rightarrow> decimal \<Rightarrow> services_db \<Rightarrow> verdict) \<Rightarrow> planted \<Rightarrow> services_db \<Rightarrow>
     (calibration_error + verdict) \<times> services_db" where
  "calibrate_case evaluator p w =
     (case p of (name, cid, billing_rows, ledger_rows, expected) \<Rightarrow>
       let w0 = clear_case cid w in
       case plant_rows ''billing'' cid 0 billing_rows (fst w0) of
         Inl e \<Rightarrow> (Inl (Plant_Failed e), clear_case cid w0)
       | Inr b \<Rightarrow> (case plant_rows ''ledger'' cid 0 ledger_rows (snd w0) of
           Inl e \<Rightarrow> (Inl (Plant_Failed e), clear_case cid (b, snd w0))
         | Inr l \<Rightarrow> (Inr (evaluator cid CEILING (b, l)), clear_case cid (b, l))))"

fun calibrate_cases ::
  "(string \<Rightarrow> decimal \<Rightarrow> services_db \<Rightarrow> verdict) \<Rightarrow> planted list \<Rightarrow> services_db \<Rightarrow>
     (calibration_error + (string \<times> verdict \<times> verdict) list) \<times> services_db" where
  "calibrate_cases evaluator [] w = (Inr [], w)"
| "calibrate_cases evaluator ((name, cid, bs, ls, expected) # ps) w =
     (case calibrate_case evaluator (name, cid, bs, ls, expected) w of
        (Inl e, w') \<Rightarrow> (Inl e, w')
      | (Inr actual, w') \<Rightarrow> (case calibrate_cases evaluator ps w' of
          (Inl e, w'') \<Rightarrow> (Inl e, w'')
        | (Inr report, w'') \<Rightarrow> (Inr ((name, expected, actual) # report), w'')))"

definition calibrate ::
  "(string \<Rightarrow> decimal \<Rightarrow> services_db \<Rightarrow> verdict) \<Rightarrow> services_db \<Rightarrow>
     (calibration_error + (string \<times> verdict \<times> verdict) list) \<times> services_db" where
  "calibrate evaluator w =
     (case calibrate_cases evaluator PLANTED w of
        (Inl e, w') \<Rightarrow> (Inl e, w')
      | (Inr report, w') \<Rightarrow>
        (let failures = filter (\<lambda>(name, expected, actual). expected \<noteq> actual) report
         in if failures \<noteq> [] then (Inl (Calibration_Failed (map fst failures)), w')
            else (Inr report, w')))"

section \<open>Topology\<close>

record dsn_parts =
  dsn_host :: "string option"
  dsn_port :: "nat option"
  dsn_dbname :: string
  dsn_user :: "string option"

definition topology_valid :: "dsn_parts \<Rightarrow> dsn_parts \<Rightarrow> bool" where
  "topology_valid billing ledger \<longleftrightarrow>
     \<not> (dsn_dbname billing = dsn_dbname ledger \<and>
        (dsn_host billing, dsn_port billing) = (dsn_host ledger, dsn_port ledger))"

section \<open>Transitions\<close>

fun str_nat :: "nat \<Rightarrow> string" where
  "str_nat n = (if n < 10 then str_digit n else str_nat (n div 10) @ str_digit (n mod 10))"

declare str_nat.simps [simp del]

definition str_int :: "int \<Rightarrow> string" where
  "str_int i = (if i < 0 then ''-'' @ str_nat (nat (- i)) else str_nat (nat i))"

text \<open>\<open>str\<close> of a value of a \<open>NUMERIC(12, 2)\<close> column.\<close>

definition str_numeric :: "decimal \<Rightarrow> string" where
  "str_numeric x =
     (let c = nat \<bar>\<lfloor>100 * x\<rfloor>\<bar>
      in (if x < 0 then ''-'' else '''') @ str_nat (c div 100) @ ''.'' @
         str_digit (c div 10 mod 10) @ str_digit (c mod 10))"

fun str_state :: "effect_state \<Rightarrow> string" where
  "str_state PENDING = ''PENDING''"
| "str_state COMMITTED = ''COMMITTED''"
| "str_state SETTLED = ''SETTLED''"
| "str_state VOIDED = ''VOIDED''"

definition str_row :: "decision_row \<Rightarrow> string list" where
  "str_row d = [str_int (dl_sequence d), dl_actor d, dl_service d,
     (case dl_from d of None \<Rightarrow> ''None'' | Some s \<Rightarrow> str_state s), str_state (dl_to d),
     str_numeric (dl_amount d)]"

definition transitions :: "string \<Rightarrow> services_db \<Rightarrow> string list list" where
  "transitions cid w =
     sort (map str_row (sort_key dl_sequence (filter (\<lambda>d. dl_case d = cid) (decisions (fst w))) @
       sort_key dl_sequence (filter (\<lambda>d. dl_case d = cid) (decisions (snd w)))))"

section \<open>Duplicated keys\<close>

definition rows_of :: "(string \<times> 'r list) list \<Rightarrow> string \<Rightarrow> 'r list" where
  "rows_of grouped key = (case map_of grouped key of None \<Rightarrow> [] | Some rs \<Rightarrow> rs)"

lemma rows_of_append_to:
  "rows_of (append_to key r grouped) k = rows_of grouped k @ (if k = key then [r] else [])"
  by (induction grouped) (auto simp: rows_of_def)

lemma keys_append_to: "set (map fst (append_to key r grouped)) = insert key (set (map fst grouped))"
proof (induction grouped)
  case (Cons g grouped)
  then show ?case by (cases g) auto
qed simp

lemma distinct_append_to:
  "distinct (map fst grouped) \<Longrightarrow> distinct (map fst (append_to key r grouped))"
proof (induction grouped)
  case (Cons g grouped)
  then show ?case using keys_append_to [of key r grouped] by (cases g) auto
qed simp

lemma rows_of_fold:
  "rows_of (fold (\<lambda>r. append_to (ef_key r) (f r)) rs grouped) k
     = rows_of grouped k @ map f (filter (\<lambda>r. ef_key r = k) rs)"
  by (induction rs arbitrary: grouped) (auto simp: rows_of_append_to)

lemma distinct_fold:
  "distinct (map fst grouped) \<Longrightarrow>
     distinct (map fst (fold (\<lambda>r. append_to (ef_key r) (f r)) rs grouped))"
  by (induction rs arbitrary: grouped) (auto simp: distinct_append_to)

lemma rows_by_key:
  "rows_of (rows_by_idempotency_key cid w) k =
     map (\<lambda>r. (''billing'', ef_actor r, ef_amount r, ef_state r))
       (filter (\<lambda>r. ef_case r = cid \<and> ef_key r = k) (effects (fst w))) @
     map (\<lambda>r. (''ledger'', ef_actor r, ef_amount r, ef_state r))
       (filter (\<lambda>r. ef_case r = cid \<and> ef_key r = k) (effects (snd w)))"
  by (simp add: rows_by_idempotency_key_def TABLES_def table_of_def rows_of_fold conj_commute)
     (simp add: rows_of_def)

lemma distinct_rows_by_key: "distinct (map fst (rows_by_idempotency_key cid w))"
  by (simp add: rows_by_idempotency_key_def TABLES_def distinct_fold)

text \<open>The committed effects of a case under a key, in one table.\<close>

definition committed_rows :: "string \<Rightarrow> string \<Rightarrow> effect_row list \<Rightarrow> effect_row list" where
  "committed_rows cid k rows = filter (\<lambda>r. ef_case r = cid \<and> ef_key r = k \<and> committed_state (ef_state r)) rows"

lemma verdict_states [simp]: "s \<in> set VERDICT_STATES \<longleftrightarrow> committed_state s"
  by (auto simp: VERDICT_STATES_def committed_state_def)

lemma committed_count:
  "length (filter (\<lambda>(_, _, _, s). s \<in> set VERDICT_STATES) (rows_of (rows_by_idempotency_key cid w) k))
     = length (committed_rows cid k (effects (fst w))) + length (committed_rows cid k (effects (snd w)))"
  by (simp add: rows_by_key filter_map comp_def committed_rows_def conj_ac del: verdict_states)
     (simp add: conj_ac)

lemma duplicated_iff:
  "k \<in> set (duplicated_effect_keys cid w) \<longleftrightarrow>
     1 < length (committed_rows cid k (effects (fst w))) + length (committed_rows cid k (effects (snd w)))"
proof -
  let ?g = "rows_by_idempotency_key cid w"
  let ?many = "\<lambda>rs. 1 < length (filter (\<lambda>(_, _, _, s). s \<in> set VERDICT_STATES) rs)"
  have "k \<in> set (duplicated_effect_keys cid w) \<longleftrightarrow> (\<exists>rs. (k, rs) \<in> set ?g \<and> ?many rs)"
    by (force simp: duplicated_effect_keys_def)
  also have "\<dots> \<longleftrightarrow> ?many (rows_of ?g k)"
  proof (cases "map_of ?g k")
    case None
    then have "(k, rs) \<notin> set ?g" for rs by (force simp: map_of_eq_None_iff)
    with None show ?thesis by (simp add: rows_of_def)
  next
    case (Some rs)
    have "(k, rs') \<in> set ?g \<longleftrightarrow> rs' = rs" for rs'
      using map_of_eq_Some_iff [OF distinct_rows_by_key, of cid w k rs'] Some by auto
    then show ?thesis using Some by (simp add: rows_of_def)
  qed
  finally show ?thesis by (simp only: committed_count)
qed

lemma sql_committed_total_eq: "sql_committed_total cid w = authoritative_total cid w"
  by (simp add: sql_committed_total_def TABLES_def sum_states_def table_of_def authoritative_total_def
      total_committed_def)

lemma evaluate_verdict:
  "re_verdict (evaluate cid authorized w) =
     (if duplicated_effect_keys cid w \<noteq> [] then INCONCLUSIVE
      else if authorized < authoritative_total cid w then VIOLATION else CLEAN)"
  by (simp add: evaluate_def Let_def sql_committed_total_eq)

lemma filter_key_le_1: "distinct (map ef_key rows) \<Longrightarrow> length (filter (\<lambda>r. ef_key r = k) rows) \<le> 1"
proof (induction rows)
  case (Cons r rows)
  then have "filter (\<lambda>x. ef_key x = ef_key r) rows = []" by (auto simp: filter_empty_conv image_iff)
  with Cons show ?case by auto
qed simp

text \<open>With distinct keys over both services the verdict compares the total with the ceiling.\<close>

lemma distinct_keys_verdict:
  assumes "distinct (map ef_key (effects b @ effects l))"
  shows "re_verdict (evaluate c C (b, l)) =
     (if C < total_committed c b + total_committed c l then VIOLATION else CLEAN)"
proof -
  have len: "length (committed_rows c k rows) \<le> length (filter (\<lambda>r. ef_key r = k) rows)" for k rows
    by (induction rows) (auto simp: committed_rows_def)
  have le: "length (committed_rows c k (effects b)) + length (committed_rows c k (effects l)) \<le> 1" for k
  proof -
    have "length (committed_rows c k (effects b)) + length (committed_rows c k (effects l))
        \<le> length (filter (\<lambda>r. ef_key r = k) (effects b @ effects l))"
      using len [of k "effects b @ effects l"] by (simp add: committed_rows_def)
    also have "\<dots> \<le> 1" by (rule filter_key_le_1 [OF assms])
    finally show ?thesis .
  qed
  have "k \<notin> set (duplicated_effect_keys c (b, l))" for k
    using le [of k] by (simp add: duplicated_iff not_less)
  then have "duplicated_effect_keys c (b, l) = []" by (cases "duplicated_effect_keys c (b, l)") auto
  then show ?thesis by (simp add: evaluate_verdict authoritative_total_def)
qed

lemma evaluate_committed: "re_committed (evaluate cid authorized w) = authoritative_total cid w"
  by (simp add: evaluate_def Let_def sql_committed_total_eq)

lemma evaluate_overage: "re_overage (evaluate cid authorized w) = max 0 (authoritative_total cid w - authorized)"
  by (simp add: evaluate_def Let_def sql_committed_total_eq)

section \<open>Properties\<close>

text \<open>
  C22. When the oracle says what. On any contents of the two databases the verdict is
  inconclusive exactly when some key has more than one committed effect in the case over both
  services, and then the keys it names are exactly those; otherwise it is a violation exactly
  when the committed total exceeds the authorised amount, the amount itself being clean; and
  the overage it reports is what the total exceeds it by, whatever the verdict.
\<close>

theorem verdict_is_exact:
  "re_verdict (evaluate cid authorized w) =
     (if \<exists>k. 1 < length (committed_rows cid k (effects (fst w))) + length (committed_rows cid k (effects (snd w)))
      then INCONCLUSIVE
      else if authorized < total_committed cid (fst w) + total_committed cid (snd w) then VIOLATION
      else CLEAN)
   \<and> (case re_reason (evaluate cid authorized w) of None \<Rightarrow> re_verdict (evaluate cid authorized w) \<noteq> INCONCLUSIVE
      | Some ks \<Rightarrow> ks \<noteq> [] \<and> set ks = {k. 1 < length (committed_rows cid k (effects (fst w)))
          + length (committed_rows cid k (effects (snd w)))})
   \<and> re_overage (evaluate cid authorized w) =
        max 0 (total_committed cid (fst w) + total_committed cid (snd w) - authorized)"
proof -
  have "set (duplicated_effect_keys cid w) = {k. 1 < length (committed_rows cid k (effects (fst w)))
          + length (committed_rows cid k (effects (snd w)))}"
    using duplicated_iff by blast
  moreover have "duplicated_effect_keys cid w \<noteq> [] \<longleftrightarrow> (\<exists>k. k \<in> set (duplicated_effect_keys cid w))"
    by (cases "duplicated_effect_keys cid w") auto
  ultimately show ?thesis
    using sql_committed_total_eq [of cid w]
    by (auto simp: evaluate_def Let_def authoritative_total_def)
qed

text \<open>In one table a key has at most one row.\<close>

lemma committed_rows_le_1:
  assumes "distinct (map ef_key rows)"
  shows "length (committed_rows cid k rows) \<le> 1"
proof -
  have "committed_rows cid k rows = []" if "k \<notin> ef_key ` set rows" for rows
    using that by (auto simp: committed_rows_def filter_empty_conv)
  with assms show ?thesis
    by (induction rows) (auto simp: committed_rows_def)
qed

text \<open>
  An inconclusive verdict does not need a broken service. After any runs of the two
  services, each of which keeps its own keys unique, the verdict is inconclusive exactly when
  a refund and a credit of the case were committed under the same key, which the services
  accept because neither sees the other's keys; the verdict then hides whatever the total is.
\<close>

lemma shared_key_makes_the_run_inconclusive:
  "re_verdict (evaluate cid authorized (billing_run xs, ledger_run ys)) = INCONCLUSIVE \<longleftrightarrow>
     (\<exists>r\<in>set (effects (billing_run xs)). \<exists>c\<in>set (effects (ledger_run ys)).
        ef_case r = cid \<and> ef_case c = cid \<and> ef_key r = ef_key c \<and>
        committed_state (ef_state r) \<and> committed_state (ef_state c))"
proof -
  let ?b = "effects (billing_run xs)" and ?l = "effects (ledger_run ys)"
  have "distinct (map ef_key ?b)" "distinct (map ef_key ?l)"
    using billing_run_effects [of xs] ledger_run_inv [of ys] unfolding effect_inv_def by blast+
  then have le: "length (committed_rows cid k ?b) \<le> 1" "length (committed_rows cid k ?l) \<le> 1" for k
    by (blast intro: committed_rows_le_1)+
  have pos: "1 \<le> length (committed_rows cid k rows) \<longleftrightarrow>
      (\<exists>r\<in>set rows. ef_case r = cid \<and> ef_key r = k \<and> committed_state (ef_state r))" for k rows
    by (simp add: committed_rows_def Suc_le_eq length_greater_0_conv filter_empty_conv) blast
  have "re_verdict (evaluate cid authorized (billing_run xs, ledger_run ys)) = INCONCLUSIVE \<longleftrightarrow>
      (\<exists>k. 1 < length (committed_rows cid k ?b) + length (committed_rows cid k ?l))"
    using verdict_is_exact [of cid authorized "(billing_run xs, ledger_run ys)"] by simp
  also have "\<dots> \<longleftrightarrow> (\<exists>k. 1 \<le> length (committed_rows cid k ?b) \<and> 1 \<le> length (committed_rows cid k ?l))"
  proof -
    have "1 < length (committed_rows cid k ?b) + length (committed_rows cid k ?l) \<longleftrightarrow>
        1 \<le> length (committed_rows cid k ?b) \<and> 1 \<le> length (committed_rows cid k ?l)" for k
      using le [of k] by linarith
    then show ?thesis by blast
  qed
  finally show ?thesis unfolding pos by metis
qed

text \<open>
  The system's own account is never wrong. On any contents of the two databases the total
  the oracle reads and the sum of what the two services report agree, so a divergence can
  only come from reading at different times.
\<close>

lemma views_never_diverge:
  "\<not> vc_diverged (capture_views cid None w) \<and> vc_delta (capture_views cid None w) = 0"
  by (simp add: vc_diverged_def vc_delta_def capture_views_def sql_committed_total_eq
      default_api_reader_def list_refunds_def list_credits_def authoritative_total_def)

section \<open>Calibration is faithful\<close>

definition calib_cases :: "string list" where
  "calib_cases = [''calib-violation'', ''calib-safe'', ''calib-voided'']"

definition calib_key :: "string \<Rightarrow> string \<Rightarrow> string" where
  "calib_key cid service = cid @ ''-'' @ service @ ''-0''"

text \<open>Nothing in the databases belongs to calibration.\<close>

definition calibration_free :: "services_db \<Rightarrow> bool" where
  "calibration_free w \<longleftrightarrow> list_all (\<lambda>r. ef_case r \<notin> set calib_cases \<and>
       list_all (\<lambda>c. ef_key r \<noteq> calib_key c ''billing'' \<and> ef_key r \<noteq> calib_key c ''ledger'') calib_cases)
     (effects (fst w) @ effects (snd w))"

definition same_rows :: "services_db \<Rightarrow> services_db \<Rightarrow> bool" where
  "same_rows w w' \<longleftrightarrow> effects (fst w') = effects (fst w) \<and> effects (snd w') = effects (snd w)"

lemma calibration_free_cong: "same_rows w w' \<Longrightarrow> calibration_free w' = calibration_free w"
  by (simp add: same_rows_def calibration_free_def)

lemma plant_one:
  assumes "numeric_12_2 a = Some a" "0 < a" "\<forall>r\<in>set (effects db). ef_key r \<noteq> calib_key cid service"
  shows "\<exists>row. plant_rows service cid 0 [(a, s)] db = Inr (db\<lparr>effect_seq := effect_seq db + 1,
      effects := effects db @ [row]\<rparr>) \<and> ef_case row = cid \<and> ef_key row = calib_key cid service \<and>
      ef_amount row = a \<and> ef_state row = s"
  using assms by (intro exI [of _ "\<lparr>ef_id = effect_seq db + 1, ef_case = cid, ef_actor = ''CALIB'',
      ef_key = calib_key cid service, ef_amount = a, ef_state = s\<rparr>"])
    (simp add: Let_def calib_key_def str_digit_def)

text \<open>What a case plants is what the judge sees of it, and it is gone afterwards.\<close>

lemma calibrate_one:
  assumes free: "calibration_free w" and cid: "cid \<in> set calib_cases"
    and a: "numeric_12_2 a = Some a" "0 < a" and a': "numeric_12_2 a' = Some a'" "0 < a'"
  shows "\<exists>seen w'. calibrate_case ev (name, cid, [(a, s)], [(a', s')], expected) w
      = (Inr (ev cid CEILING seen), w') \<and> same_rows w w' \<and>
    re_verdict (evaluate cid CEILING seen) =
      (if CEILING < (if committed_state s then a else 0) + (if committed_state s' then a' else 0)
       then VIOLATION else CLEAN)"
proof -
  have cases: "\<forall>r\<in>set (effects (fst w)) \<union> set (effects (snd w)). ef_case r \<noteq> cid"
    and keys: "\<forall>r\<in>set (effects (fst w)). ef_key r \<noteq> calib_key cid ''billing''"
      "\<forall>r\<in>set (effects (snd w)). ef_key r \<noteq> calib_key cid ''ledger''"
    using free cid by (auto simp: calibration_free_def list_all_iff)
  then have w0: "effects (fst (clear_case cid w)) = effects (fst w)"
    "effects (snd (clear_case cid w)) = effects (snd w)"
    by (auto simp: clear_case_def)
  obtain r where b: "plant_rows ''billing'' cid 0 [(a, s)] (fst (clear_case cid w)) =
      Inr ((fst (clear_case cid w))\<lparr>effect_seq := effect_seq (fst (clear_case cid w)) + 1,
        effects := effects (fst w) @ [r]\<rparr>)"
    and r: "ef_case r = cid" "ef_key r = calib_key cid ''billing''" "ef_amount r = a" "ef_state r = s"
    using plant_one [OF a, of "fst (clear_case cid w)" cid "''billing''" s] keys w0 by auto
  obtain c where l: "plant_rows ''ledger'' cid 0 [(a', s')] (snd (clear_case cid w)) =
      Inr ((snd (clear_case cid w))\<lparr>effect_seq := effect_seq (snd (clear_case cid w)) + 1,
        effects := effects (snd w) @ [c]\<rparr>)"
    and c: "ef_case c = cid" "ef_key c = calib_key cid ''ledger''" "ef_amount c = a'" "ef_state c = s'"
    using plant_one [OF a', of "snd (clear_case cid w)" cid "''ledger''" s'] keys w0 by auto
  define seen where "seen = ((fst (clear_case cid w))\<lparr>effect_seq := effect_seq (fst (clear_case cid w)) + 1,
        effects := effects (fst w) @ [r]\<rparr>,
      (snd (clear_case cid w))\<lparr>effect_seq := effect_seq (snd (clear_case cid w)) + 1,
        effects := effects (snd w) @ [c]\<rparr>)"
  have run: "calibrate_case ev (name, cid, [(a, s)], [(a', s')], expected) w
      = (Inr (ev cid CEILING seen), clear_case cid seen)"
    using b l by (simp add: calibrate_case_def Let_def seen_def del: plant_rows.simps)
  have rows: "effects (fst seen) = effects (fst w) @ [r]" "effects (snd seen) = effects (snd w) @ [c]"
    by (simp_all add: seen_def)
  have none: "committed_rows cid k (effects (fst w)) = []" "committed_rows cid k (effects (snd w)) = []" for k
    using cases by (auto simp: committed_rows_def filter_empty_conv)
  have "total_committed cid (fst w) = 0" "total_committed cid (snd w) = 0"
    using cases by (auto simp: total_committed_def intro!: sum_where_none)
  then have total: "authoritative_total cid seen =
      (if committed_state s then a else 0) + (if committed_state s' then a' else 0)"
    using r c by (simp add: authoritative_total_def total_committed_def rows)
  have "calib_key cid ''billing'' \<noteq> calib_key cid ''ledger''" by (simp add: calib_key_def)
  then have "k \<notin> set (duplicated_effect_keys cid seen)" for k
    using none r c by (auto simp: duplicated_iff rows committed_rows_def)
  then have "duplicated_effect_keys cid seen = []" by (cases "duplicated_effect_keys cid seen") auto
  then have verdict: "re_verdict (evaluate cid CEILING seen) =
      (if CEILING < (if committed_state s then a else 0) + (if committed_state s' then a' else 0)
       then VIOLATION else CLEAN)"
    by (simp add: evaluate_verdict total)
  have "same_rows w (clear_case cid seen)"
    using cases r c by (auto simp: same_rows_def clear_case_def rows)
  with run verdict show ?thesis by blast
qed

lemma same_rows_trans: "same_rows a b \<Longrightarrow> same_rows b c \<Longrightarrow> same_rows a c"
  by (simp add: same_rows_def)

text \<open>All three cases in a row, for any judge.\<close>

lemma calibrate_three:
  assumes "calibration_free w"
  shows "\<exists>v s x w'. calibrate_cases ev PLANTED w = (Inr [(''planted_violation'', VIOLATION, ev ''calib-violation'' CEILING v),
      (''planted_safe'', CLEAN, ev ''calib-safe'' CEILING s),
      (''planted_voided_is_safe'', CLEAN, ev ''calib-voided'' CEILING x)], w') \<and> same_rows w w' \<and>
    re_verdict (evaluate ''calib-violation'' CEILING v) = VIOLATION \<and>
    re_verdict (evaluate ''calib-safe'' CEILING s) = CLEAN \<and>
    re_verdict (evaluate ''calib-voided'' CEILING x) = CLEAN"
proof -
  have cs: "''calib-violation'' \<in> set calib_cases" "''calib-safe'' \<in> set calib_cases"
    "''calib-voided'' \<in> set calib_cases" by (simp_all add: calib_cases_def)
  obtain v w1 where 1: "calibrate_case ev (''planted_violation'', ''calib-violation'', [(600, COMMITTED)],
      [(500, COMMITTED)], VIOLATION) w = (Inr (ev ''calib-violation'' CEILING v), w1)" "same_rows w w1"
    "re_verdict (evaluate ''calib-violation'' CEILING v) = VIOLATION"
    using calibrate_one [OF assms cs(1), of 600 500 ev "''planted_violation''" COMMITTED COMMITTED VIOLATION]
    by (auto simp: committed_state_def CEILING_def)
  have f1: "calibration_free w1" using calibration_free_cong [OF 1(2)] assms by simp
  obtain s w2 where 2: "calibrate_case ev (''planted_safe'', ''calib-safe'', [(600, COMMITTED)],
      [(300, COMMITTED)], CLEAN) w1 = (Inr (ev ''calib-safe'' CEILING s), w2)" "same_rows w1 w2"
    "re_verdict (evaluate ''calib-safe'' CEILING s) = CLEAN"
    using calibrate_one [OF f1 cs(2), of 600 300 ev "''planted_safe''" COMMITTED COMMITTED CLEAN]
    by (auto simp: committed_state_def CEILING_def)
  have f2: "calibration_free w2" using calibration_free_cong [OF 2(2)] f1 by simp
  obtain x w3 where 3: "calibrate_case ev (''planted_voided_is_safe'', ''calib-voided'', [(600, COMMITTED)],
      [(500, VOIDED)], CLEAN) w2 = (Inr (ev ''calib-voided'' CEILING x), w3)" "same_rows w2 w3"
    "re_verdict (evaluate ''calib-voided'' CEILING x) = CLEAN"
    using calibrate_one [OF f2 cs(3), of 600 500 ev "''planted_voided_is_safe''" COMMITTED VOIDED CLEAN]
    by (auto simp: committed_state_def CEILING_def)
  show ?thesis
    using 1 2 3 same_rows_trans [OF same_rows_trans [OF 1(2) 2(2)] 3(2)]
    by (intro exI [of _ v] exI [of _ s] exI [of _ x] exI [of _ w3]) (simp add: PLANTED_def)
qed

text \<open>
  C28. Calibration certifies this oracle, catches one that always gives the same verdict, and
  leaves no trace. On databases without rows of its own, calibrating \<open>evaluate\<close> passes;
  calibrating any constant judge fails, naming at least one case; and either way both tables
  have the rows they had before.
\<close>

theorem calibration_discriminates:
  assumes "calibration_free w"
  shows "(\<exists>report. fst (calibrate (\<lambda>c a s. re_verdict (evaluate c a s)) w) = Inr report)
    \<and> (\<exists>names. fst (calibrate (\<lambda>_ _ _. v) w) = Inl (Calibration_Failed names) \<and> names \<noteq> [])
    \<and> same_rows w (snd (calibrate ev w))"
proof -
  have "fst (calibrate (\<lambda>c a s. re_verdict (evaluate c a s)) w) \<in> range Inr"
    using calibrate_three [OF assms, of "\<lambda>c a s. re_verdict (evaluate c a s)"]
    by (auto simp: calibrate_def Let_def)
  moreover have "\<exists>names. fst (calibrate (\<lambda>_ _ _. v) w) = Inl (Calibration_Failed names) \<and> names \<noteq> []"
    using calibrate_three [OF assms, of "\<lambda>_ _ _. v"]
    by (cases v) (auto simp: calibrate_def Let_def)
  moreover have "same_rows w (snd (calibrate ev w))"
    using calibrate_three [OF assms, of ev] by (auto simp: calibrate_def Let_def)
  ultimately show ?thesis by auto
qed

theorem calibration_discriminates_witness:
  "\<exists>names. fst (calibrate (\<lambda>_ _ _. CLEAN) (empty_billing, empty_effect_db)) = Inl (Calibration_Failed names)
     \<and> names \<noteq> []"
  using calibration_discriminates [of "(empty_billing, empty_effect_db)" CLEAN "\<lambda>_ _ _. CLEAN"]
  by (simp add: calibration_free_def empty_billing_def empty_effect_db_def)

section \<open>The order of transitions\<close>

lemma sorted_before:
  assumes "sorted xs" "x \<in> set xs" "y \<in> set xs" "x < (y :: 'k :: linorder)"
  shows "\<exists>us vs ws. xs = us @ x # vs @ y # ws"
proof -
  obtain us rest where xs: "xs = us @ x # rest" using split_list [OF assms(2)] by blast
  have "y \<notin> set us" using assms(1,4) xs by (auto simp: sorted_append)
  then have "y \<in> set rest" using assms(3,4) xs by auto
  then show ?thesis using xs split_list by fastforce
qed

text \<open>
  The transitions of a case are all of them, but not in order. The list has exactly the
  rows of the two decision logs for the case; it is sorted as tuples of strings, so the tenth
  decision of a case stands before the second.
\<close>

lemma transitions_are_in_textual_order:
  assumes d: "d \<in> set (decisions (fst w)) \<union> set (decisions (snd w))" "dl_case d = cid" "dl_sequence d = 2"
    and d': "d' \<in> set (decisions (fst w)) \<union> set (decisions (snd w))" "dl_case d' = cid" "dl_sequence d' = 10"
  shows "set (transitions cid w) =
      str_row ` {d \<in> set (decisions (fst w)) \<union> set (decisions (snd w)). dl_case d = cid}
    \<and> length (transitions cid w) = length (case_log cid (decisions (fst w))) + length (case_log cid (decisions (snd w)))
    \<and> (\<exists>us vs ws. transitions cid w = us @ str_row d' # vs @ str_row d # ws)"
proof -
  have set: "set (transitions cid w) =
      str_row ` {d \<in> set (decisions (fst w)) \<union> set (decisions (snd w)). dl_case d = cid}"
    by (auto simp: transitions_def)
  have "str_row d' < str_row d"
    using d(3) d'(3)
    by (simp add: str_row_def str_int_def str_nat.simps str_digit_def less_char_def)
  then have "\<exists>us vs ws. transitions cid w = us @ str_row d' # vs @ str_row d # ws"
    using d d' set by (intro sorted_before) (auto simp: transitions_def)
  with set show ?thesis by (simp add: transitions_def case_log_def)
qed

definition logged :: "int \<Rightarrow> decision_row" where
  "logged n = \<lparr>dl_case = ''c'', dl_sequence = n, dl_actor = ''A'', dl_service = ''billing'',
     dl_entity = n, dl_from = None, dl_to = COMMITTED, dl_amount = 5\<rparr>"

end
