(* ===== verification/Control.thy ===== *)
theory Control
  imports Lab_Prelude
begin

text \<open>
  The control service: reservations against the compensation budget, \<^verbatim>\<open>apps/control/main.py\<close>,
  \<^verbatim>\<open>apps/control/expiry.py\<close> and the table of \<^verbatim>\<open>apps/control/db.py\<close>. Here requests
  follow one another: each operation is its handler with no statement of another request in
  between. For \<open>reserve\<close> the advisory lock comes close to that; nothing serialises the SELECT and
  the UPDATE of \<open>release\<close> and \<open>commit\<close>, so what they do when requests overlap is the subject of theory
  Holds, where they come apart. Clock readings are arguments. The lemmas, all of them about
  requests one after the other: the reservation transaction keeps the budget of a case within
  the ceiling, which changes of state a hold can undergo, and the ways around the ceiling that
  the code leaves open.
\<close>

section \<open>State\<close>

datatype hold_state = HELD | HOLD_COMMITTED | RELEASED | EXPIRED

record reservation =
  rv_id :: int
  rv_case :: string
  rv_actor :: string
  rv_key :: string
  rv_amount :: decimal
  rv_state :: hold_state
  rv_expires_at :: "datetime option"

record control_db =
  reservations :: "reservation list"
  reservation_seq :: int

definition empty_control :: control_db where
  "empty_control = \<lparr>reservations = [], reservation_seq = 0\<rparr>"

record reserve_request =
  rq_case :: string
  rq_amount :: decimal
  rq_key :: string
  rq_authorized :: decimal
  rq_ttl :: "int option"

datatype control_detail =
    Reservation_Refused decimal decimal decimal
  | Deadline_Overflow
  | Amount_Overflow
  | Amount_Check
  | Reservation_Not_Found
  | Cannot_Release_Committed
  | Cannot_Commit_Released

record grant =
  gr_id :: int
  gr_granted :: bool
  gr_amount :: decimal
  gr_replayed :: bool

section \<open>Operations\<close>

definition due :: "datetime \<Rightarrow> reservation \<Rightarrow> bool" where
  "due now r \<longleftrightarrow> rv_state r = HELD \<and>
     (case rv_expires_at r of None \<Rightarrow> False | Some t \<Rightarrow> t \<le> now)"

definition expire_due :: "datetime \<Rightarrow> control_db \<Rightarrow> nat \<times> control_db" where
  "expire_due now db =
     (length (filter (due now) (reservations db)),
      db\<lparr>reservations := update_where (due now) (\<lambda>r. r\<lparr>rv_state := EXPIRED\<rparr>) (reservations db)\<rparr>)"

definition total_held :: "string \<Rightarrow> control_db \<Rightarrow> decimal" where
  "total_held cid db =
     sum_where (\<lambda>r. rv_case r = cid \<and> (rv_state r = HELD \<or> rv_state r = HOLD_COMMITTED)) rv_amount
       (reservations db)"

text \<open>
  The handler's transaction. The clock is read when lapsed holds are reclaimed and again when
  the deadline of the new hold is computed. The refusal commits the reclaiming; an exception
  rolls it back.
\<close>

definition reserve ::
  "datetime \<Rightarrow> datetime \<Rightarrow> string \<Rightarrow> reserve_request \<Rightarrow> control_db \<Rightarrow>
     (control_detail http_error + grant) \<times> control_db" where
  "reserve now now' actor req db0 =
     (let db = snd (expire_due now db0) in
      case row_where (\<lambda>r. rv_key r = rq_key req) (reservations db) of
        Some r \<Rightarrow> (Inr \<lparr>gr_id = rv_id r, gr_granted = True, gr_amount = rv_amount r, gr_replayed = True\<rparr>, db)
      | None \<Rightarrow>
        (let held = total_held (rq_case req) db in
         if held + rq_amount req > rq_authorized req
         then (Inl (HTTPException 409 (Reservation_Refused held (rq_amount req) (rq_authorized req))), db)
         else case (case rq_ttl req of None \<Rightarrow> Some None
                    | Some s \<Rightarrow> map_option Some (add_seconds now' s)) of
           None \<Rightarrow> (Inl (HTTPException 500 Deadline_Overflow), db0)
         | Some expires_at \<Rightarrow>
           (case numeric_12_2 (rq_amount req) of
              None \<Rightarrow> (Inl (HTTPException 500 Amount_Overflow), db0)
            | Some a \<Rightarrow>
              if \<not> 0 < a then (Inl (HTTPException 500 Amount_Check), db0)
              else (let i = reservation_seq db + 1 in
                (Inr \<lparr>gr_id = i, gr_granted = True, gr_amount = rq_amount req, gr_replayed = False\<rparr>,
                 db\<lparr>reservation_seq := i, reservations := reservations db @
                   [\<lparr>rv_id = i, rv_case = rq_case req, rv_actor = actor, rv_key = rq_key req,
                     rv_amount = a, rv_state = HELD, rv_expires_at = expires_at\<rparr>]\<rparr>)))))"

text \<open>The SELECT of \<open>release\<close> and \<open>commit\<close>, their decision from it, and their UPDATE.\<close>

definition state_of :: "int \<Rightarrow> control_db \<Rightarrow> hold_state option" where
  "state_of i db = map_option rv_state (row_where (\<lambda>r. rv_id r = i) (reservations db))"

definition set_state :: "int \<Rightarrow> hold_state \<Rightarrow> control_db \<Rightarrow> control_db" where
  "set_state i s db = db\<lparr>reservations :=
     update_where (\<lambda>r. rv_id r = i) (\<lambda>r. r\<lparr>rv_state := s\<rparr>) (reservations db)\<rparr>"

text \<open>
  The reply (for a release: whether it was released already), and whether to update. The two
  handlers run their SELECT and their UPDATE without a lock between them: \<open>release\<close> and \<open>commit\<close> are
  the handlers when nothing comes in between.
\<close>

definition release_decision :: "hold_state option \<Rightarrow> (control_detail http_error + bool) \<times> bool" where
  "release_decision row =
     (case row of None \<Rightarrow> (Inl (HTTPException 404 Reservation_Not_Found), False)
      | Some s \<Rightarrow>
        if s = RELEASED then (Inr True, False)
        else if s = HOLD_COMMITTED then (Inl (HTTPException 409 Cannot_Release_Committed), False)
        else (Inr False, True))"

definition release :: "int \<Rightarrow> control_db \<Rightarrow> (control_detail http_error + bool) \<times> control_db" where
  "release i db =
     (let (reply, update) = release_decision (state_of i db)
      in (reply, if update then set_state i RELEASED db else db))"

definition commit_decision :: "hold_state option \<Rightarrow> (control_detail http_error + unit) \<times> bool" where
  "commit_decision row =
     (case row of None \<Rightarrow> (Inl (HTTPException 404 Reservation_Not_Found), False)
      | Some s \<Rightarrow>
        if s = RELEASED then (Inl (HTTPException 409 Cannot_Commit_Released), False)
        else (Inr (), True))"

definition commit :: "int \<Rightarrow> control_db \<Rightarrow> (control_detail http_error + unit) \<times> control_db" where
  "commit i db =
     (let (reply, update) = commit_decision (state_of i db)
      in (reply, if update then set_state i HOLD_COMMITTED db else db))"

definition list_reservations :: "string \<Rightarrow> control_db \<Rightarrow> decimal" where
  "list_reservations cid db = total_held cid db"

definition truncate_control :: "control_db \<Rightarrow> control_db" where
  "truncate_control db = empty_control"

datatype control_op =
    Reserve datetime datetime string reserve_request
  | Release int
  | Commit int

fun control_step :: "control_op \<Rightarrow> control_db \<Rightarrow> control_db" where
  "control_step (Reserve now now' actor req) db = snd (reserve now now' actor req db)"
| "control_step (Release i) db = snd (release i db)"
| "control_step (Commit i) db = snd (commit i db)"

definition control_run :: "control_op list \<Rightarrow> control_db" where
  "control_run xs = fold control_step xs empty_control"

section \<open>The ways an operation ends\<close>

lemma reserve_cases:
  obtains (replayed) r where
      "row_where (\<lambda>r. rv_key r = rq_key req) (reservations (snd (expire_due now db))) = Some r"
      "reserve now now' actor req db = (Inr \<lparr>gr_id = rv_id r, gr_granted = True, gr_amount = rv_amount r,
         gr_replayed = True\<rparr>, snd (expire_due now db))"
  | (refused) h where
      "row_where (\<lambda>r. rv_key r = rq_key req) (reservations (snd (expire_due now db))) = None"
      "h = total_held (rq_case req) (snd (expire_due now db))" "rq_authorized req < h + rq_amount req"
      "reserve now now' actor req db = (Inl (HTTPException 409
         (Reservation_Refused h (rq_amount req) (rq_authorized req))), snd (expire_due now db))"
  | (failed) e where "reserve now now' actor req db = (Inl (HTTPException 500 e), db)"
  | (granted) a row where
      "row_where (\<lambda>r. rv_key r = rq_key req) (reservations (snd (expire_due now db))) = None"
      "total_held (rq_case req) (snd (expire_due now db)) + rq_amount req \<le> rq_authorized req"
      "numeric_12_2 (rq_amount req) = Some a" "0 < a"
      "rv_id row = reservation_seq db + 1" "rv_case row = rq_case req" "rv_key row = rq_key req"
      "rv_amount row = a" "rv_state row = HELD" "rq_ttl req = None \<Longrightarrow> rv_expires_at row = None"
      "reserve now now' actor req db = (Inr \<lparr>gr_id = reservation_seq db + 1, gr_granted = True,
         gr_amount = rq_amount req, gr_replayed = False\<rparr>,
         \<lparr>reservations = reservations (snd (expire_due now db)) @ [row],
          reservation_seq = reservation_seq db + 1\<rparr>)"
proof -
  let ?db = "snd (expire_due now db)"
  have seq: "reservation_seq ?db = reservation_seq db" by (simp add: expire_due_def)
  show thesis
  proof (cases "row_where (\<lambda>r. rv_key r = rq_key req) (reservations ?db)")
    case (Some r)
    then show thesis by (intro replayed) (simp_all add: reserve_def Let_def)
  next
    case none: None
    show thesis
    proof (cases "rq_authorized req < total_held (rq_case req) ?db + rq_amount req")
      case True
      with none show thesis by (intro refused) (simp_all add: reserve_def Let_def)
    next
      case le: False
      let ?ttl = "case rq_ttl req of None \<Rightarrow> Some None | Some s \<Rightarrow> map_option Some (add_seconds now' s)"
      consider "?ttl = None" | t a where "?ttl = Some t" "numeric_12_2 (rq_amount req) = Some a" "0 < a"
        | t where "?ttl = Some t" "numeric_12_2 (rq_amount req) = None"
        | t a where "?ttl = Some t" "numeric_12_2 (rq_amount req) = Some a" "\<not> 0 < a"
        by (meson option.exhaust)
      then show thesis
      proof cases
        case (2 t a)
        then show thesis using none le
          by (intro granted [of a "\<lparr>rv_id = reservation_seq db + 1, rv_case = rq_case req, rv_actor = actor,
                rv_key = rq_key req, rv_amount = a, rv_state = HELD, rv_expires_at = t\<rparr>"])
             (simp_all add: reserve_def Let_def seq)
      qed (use none le in \<open>auto intro!: failed simp: reserve_def Let_def simp del: not_less\<close>)
    qed
  qed
qed

section \<open>Invariant\<close>

definition control_inv :: "control_db \<Rightarrow> bool" where
  "control_inv db \<longleftrightarrow>
     distinct (map rv_key (reservations db)) \<and>
     sorted_wrt (<) (map rv_id (reservations db)) \<and>
     (\<forall>r\<in>set (reservations db). rv_id r \<le> reservation_seq db \<and> 0 < rv_amount r \<and> in_cents (rv_amount r) \<and>
        rv_amount r < 10000000000)"

lemma numeric_12_2_bound: "numeric_12_2 x = Some y \<Longrightarrow> y < 10000000000"
  by (auto simp: numeric_12_2_def split: if_splits)

lemma control_inv_empty: "control_inv empty_control"
  by (simp add: control_inv_def empty_control_def)

lemma control_inv_update:
  assumes "control_inv db"
    and "\<And>r. rv_key (f r) = rv_key r \<and> rv_id (f r) = rv_id r \<and> rv_amount (f r) = rv_amount r"
  shows "control_inv (db\<lparr>reservations := update_where P f (reservations db)\<rparr>)"
  using assms by (auto simp: control_inv_def set_update_where)

lemma expire_due_inv: "control_inv db \<Longrightarrow> control_inv (snd (expire_due now db))"
  by (simp add: expire_due_def control_inv_update)

lemma set_state_inv: "control_inv db \<Longrightarrow> control_inv (set_state i s db)"
  by (simp add: set_state_def control_inv_update)

lemma reserve_inv:
  assumes inv: "control_inv db"
  shows "control_inv (snd (reserve now now' actor req db))"
proof (rule reserve_cases [of req now db now' actor])
  fix a row
  let ?db = "snd (expire_due now db)"
  assume "row_where (\<lambda>r. rv_key r = rq_key req) (reservations ?db) = None"
    and "numeric_12_2 (rq_amount req) = Some a" "0 < a"
    and "rv_id row = reservation_seq db + 1" "rv_key row = rq_key req" "rv_amount row = a"
    and "reserve now now' actor req db = (Inr \<lparr>gr_id = reservation_seq db + 1, gr_granted = True,
         gr_amount = rq_amount req, gr_replayed = False\<rparr>,
         \<lparr>reservations = reservations ?db @ [row], reservation_seq = reservation_seq db + 1\<rparr>)"
  moreover have "reservation_seq ?db = reservation_seq db" by (simp add: expire_due_def)
  ultimately show ?thesis
    using expire_due_inv [OF inv, of now] unfolding control_inv_def
    by (auto simp: sorted_wrt_append row_where_None dest: numeric_12_2_cents numeric_12_2_bound)
qed (use inv expire_due_inv [OF inv, of now] in auto)

lemma release_inv: "control_inv db \<Longrightarrow> control_inv (snd (release i db))"
  by (simp add: release_def set_state_inv split: prod.split)

lemma commit_inv: "control_inv db \<Longrightarrow> control_inv (snd (commit i db))"
  by (simp add: commit_def set_state_inv split: prod.split)

lemma control_step_inv: "control_inv db \<Longrightarrow> control_inv (control_step x db)"
  by (cases x) (simp_all add: reserve_inv release_inv commit_inv)

interpretation ct: stateful control_step control_inv
  by unfold_locales (rule control_step_inv)

lemma control_run_inv: "control_inv (control_run xs)"
  unfolding control_run_def by (rule ct.run_inv [OF control_inv_empty])

section \<open>The budget\<close>

definition live :: "string \<Rightarrow> reservation \<Rightarrow> bool" where
  "live cid r \<longleftrightarrow> rv_case r = cid \<and> (rv_state r = HELD \<or> rv_state r = HOLD_COMMITTED)"

lemma total_held_live: "total_held cid db = sum_where (live cid) rv_amount (reservations db)"
  unfolding total_held_def by (rule sum_where_cong) (auto simp: live_def)

lemma total_held_nonneg: "control_inv db \<Longrightarrow> 0 \<le> total_held cid db"
  unfolding total_held_live control_inv_def by (intro sum_where_nonneg) auto

lemma total_held_cents: "control_inv db \<Longrightarrow> in_cents (total_held cid db)"
  unfolding total_held_live control_inv_def by (intro sum_where_cents) auto

text \<open>Closing holds, by expiry or by release, only ever frees budget.\<close>

lemma total_held_close:
  assumes inv: "control_inv db" and s: "s = RELEASED \<or> s = EXPIRED"
  shows "total_held cid (db\<lparr>reservations := update_where P (\<lambda>r. r\<lparr>rv_state := s\<rparr>) (reservations db)\<rparr>)
    \<le> total_held cid db"
proof -
  have "sum_where (live cid) rv_amount (update_where P (\<lambda>r. r\<lparr>rv_state := s\<rparr>) (reservations db))
      = sum_where (\<lambda>r. \<not> P r \<and> live cid r) rv_amount (reservations db)"
    unfolding sum_where_update using s by (intro sum_where_cong) (auto simp: live_def)
  also have "\<dots> \<le> sum_where (live cid) rv_amount (reservations db)"
    using inv unfolding control_inv_def by (intro sum_where_mono) (auto simp: less_imp_le)
  finally show ?thesis by (simp add: total_held_live)
qed

lemma total_held_expire: "control_inv db \<Longrightarrow> total_held cid (snd (expire_due now db)) \<le> total_held cid db"
  by (simp add: expire_due_def total_held_close)

lemma release_total: "control_inv db \<Longrightarrow> total_held cid (snd (release i db)) \<le> total_held cid db"
  by (simp add: release_def set_state_def total_held_close split: prod.split)

lemma reserve_total:
  assumes inv: "control_inv db"
    and C: "rq_case req = cid \<Longrightarrow> rq_authorized req \<le> C" "in_cents C" "total_held cid db \<le> C"
  shows "total_held cid (snd (reserve now now' actor req db)) \<le> C"
proof -
  let ?db = "snd (expire_due now db)"
  have le: "total_held cid ?db \<le> C" using total_held_expire [OF inv, of cid now] C(3) by simp
  show ?thesis
  proof (rule reserve_cases [of req now db now' actor])
    fix a row
    assume fits: "total_held (rq_case req) ?db + rq_amount req \<le> rq_authorized req"
      and a: "numeric_12_2 (rq_amount req) = Some a"
      and row: "rv_case row = rq_case req" "rv_amount row = a" "rv_state row = HELD"
      and eq: "reserve now now' actor req db = (Inr \<lparr>gr_id = reservation_seq db + 1, gr_granted = True,
         gr_amount = rq_amount req, gr_replayed = False\<rparr>,
         \<lparr>reservations = reservations ?db @ [row], reservation_seq = reservation_seq db + 1\<rparr>)"
    have new: "total_held cid (snd (reserve now now' actor req db))
        = total_held cid ?db + (if rq_case req = cid then a else 0)"
      unfolding eq total_held_live using row by (simp add: live_def)
    show ?thesis
    proof (cases "rq_case req = cid")
      case True
      have "in_cents (C - total_held cid ?db)"
        by (intro in_cents_diff C total_held_cents expire_due_inv inv)
      moreover have "rq_amount req \<le> C - total_held cid ?db"
        using fits C(1) [OF True] True by (simp add: algebra_simps)
      ultimately have "a \<le> C - total_held cid ?db"
        using numeric_12_2_le [OF a] by blast
      then show ?thesis using new True by simp
    qed (use new le in simp)
  qed (use le C(3) in auto)
qed

text \<open>What a commit adds to the budget in use: the amount of the expired hold it brings back.\<close>

fun revived_by :: "string \<Rightarrow> control_op \<Rightarrow> control_db \<Rightarrow> decimal" where
  "revived_by cid (Commit i) db =
     sum_where (\<lambda>r. rv_id r = i \<and> rv_case r = cid \<and> rv_state r = EXPIRED) rv_amount (reservations db)"
| "revived_by cid x db = 0"

lemma revived_by_nonneg: "control_inv db \<Longrightarrow> 0 \<le> revived_by cid x db"
  unfolding control_inv_def by (cases x) (auto intro!: sum_where_nonneg simp: less_imp_le)

lemma sum_where_split:
  "(\<And>r. r \<in> set rows \<Longrightarrow> P r = (Q r \<or> R r) \<and> \<not> (Q r \<and> R r)) \<Longrightarrow>
   sum_where P f rows = sum_where Q f rows + sum_where R f rows"
  by (induction rows) auto

lemma ids_unique:
  assumes "control_inv db" "r \<in> set (reservations db)" "r' \<in> set (reservations db)" "rv_id r = rv_id r'"
  shows "r = r'"
proof -
  have "distinct (map rv_id (reservations db))"
    using assms(1) by (simp add: control_inv_def strict_sorted_iff)
  then show ?thesis using assms(2-) by (meson distinct_map inj_onD)
qed

lemma state_of_row:
  assumes "control_inv db" "r \<in> set (reservations db)"
  shows "state_of (rv_id r) db = Some (rv_state r)"
proof -
  have "distinct (map rv_id (reservations db))"
    using assms(1) by (simp add: control_inv_def strict_sorted_iff)
  from row_where_unique [OF this assms(2)] show ?thesis by (simp add: state_of_def)
qed

lemma commit_total:
  assumes inv: "control_inv db"
  shows "total_held cid (snd (commit i db)) = total_held cid db + revived_by cid (Commit i) db"
proof (cases "snd (commit_decision (state_of i db))")
  case False
  have "revived_by cid (Commit i) db = 0"
    using False state_of_row [OF inv]
    by (auto intro!: sum_where_none simp: commit_decision_def)
  with False show ?thesis by (auto simp: commit_def split: prod.split)
next
  case True
  have ok: "rv_state r \<noteq> RELEASED" if "r \<in> set (reservations db)" "rv_id r = i" for r
    using state_of_row [OF inv that(1)] that(2) True by (auto simp: commit_decision_def)
  have "total_held cid (set_state i HOLD_COMMITTED db)
      = sum_where (\<lambda>r. rv_id r = i \<and> rv_case r = cid \<or> live cid r) rv_amount (reservations db)"
    unfolding total_held_live set_state_def
    by (simp add: sum_where_update) (intro sum_where_cong; auto simp: live_def)
  also have "\<dots> = sum_where (live cid) rv_amount (reservations db) + revived_by cid (Commit i) db"
    using ok by (simp, intro sum_where_split) (auto simp: live_def, metis hold_state.exhaust)
  finally show ?thesis using True by (auto simp: commit_def total_held_live split: prod.split)
qed

fun revived :: "string \<Rightarrow> control_op list \<Rightarrow> control_db \<Rightarrow> decimal" where
  "revived cid [] db = 0"
| "revived cid (x # xs) db = revived_by cid x db + revived cid xs (control_step x db)"

lemma revived_by_cents: "control_inv db \<Longrightarrow> in_cents (revived_by cid x db)"
  unfolding control_inv_def by (cases x) (auto intro!: sum_where_cents)

text \<open>The requests of a run that name a case with a ceiling above \<open>C\<close>: there are none.\<close>

definition ceiling_honoured :: "string \<Rightarrow> decimal \<Rightarrow> control_op list \<Rightarrow> bool" where
  "ceiling_honoured cid C xs \<longleftrightarrow> list_all (\<lambda>x. case x of
     Reserve now now' actor req \<Rightarrow> rq_case req = cid \<longrightarrow> rq_authorized req \<le> C | _ \<Rightarrow> True) xs"

lemma ceiling_honoured_Cons:
  "ceiling_honoured cid C (x # xs) \<longleftrightarrow> ceiling_honoured cid C [x] \<and> ceiling_honoured cid C xs"
  by (simp add: ceiling_honoured_def)

lemma ceiling_honoured_mono: "ceiling_honoured cid C xs \<Longrightarrow> C \<le> C' \<Longrightarrow> ceiling_honoured cid C' xs"
  unfolding ceiling_honoured_def by (erule list.pred_mono_strong) (auto split: control_op.splits)

lemma step_total:
  assumes "control_inv db" "in_cents C" "total_held cid db \<le> C" "ceiling_honoured cid C [x]"
  shows "total_held cid (control_step x db) \<le> C + revived_by cid x db"
proof (cases x)
  case (Reserve now now' actor req)
  then have "rq_case req = cid \<Longrightarrow> rq_authorized req \<le> C"
    using assms(4) by (simp add: ceiling_honoured_def)
  from reserve_total [OF assms(1) this assms(2,3)] Reserve show ?thesis by simp
next
  case (Release i)
  then show ?thesis using release_total [OF assms(1), of cid i] assms(3) by simp
next
  case (Commit i)
  then show ?thesis using commit_total [OF assms(1), of cid i] assms(3) by simp
qed

lemma run_total:
  assumes "control_inv db" "in_cents C" "total_held cid db \<le> C" "ceiling_honoured cid C xs"
  shows "total_held cid (fold control_step xs db) \<le> C + revived cid xs db"
  using assms
proof (induction xs arbitrary: db C)
  case Nil
  then show ?case by simp
next
  case (Cons x xs)
  let ?C = "C + revived_by cid x db"
  have here: "ceiling_honoured cid C [x]" and rest: "ceiling_honoured cid C xs"
    using Cons.prems(4) unfolding ceiling_honoured_Cons [of cid C x xs] by blast+
  have "C \<le> ?C" using revived_by_nonneg [OF Cons.prems(1), of cid x] by simp
  have "total_held cid (fold control_step xs (control_step x db))
      \<le> ?C + revived cid xs (control_step x db)"
  proof (rule Cons.IH)
    show "control_inv (control_step x db)" by (rule control_step_inv [OF Cons.prems(1)])
    show "in_cents ?C" by (rule in_cents_add [OF Cons.prems(2) revived_by_cents [OF Cons.prems(1)]])
    show "total_held cid (control_step x db) \<le> ?C" by (rule step_total [OF Cons.prems(1-3) here])
    show "ceiling_honoured cid ?C xs" by (rule ceiling_honoured_mono [OF rest \<open>C \<le> ?C\<close>])
  qed
  then show ?case by (simp add: add.assoc)
qed

text \<open>
  One request after the other, the reservation authority keeps the ceiling, up to what commits of expired holds bring
  back. If every reservation of a case names a ceiling of at most \<open>C\<close> (a whole number of
  cents), then after every sequence of reservations with and without deadlines, releases and
  commits, in any order and by any number of agents, the budget in use exceeds \<open>C\<close> by at most
  the amounts of the expired holds that were committed.
\<close>

lemma reservations_respect_the_ceiling:
  assumes "0 \<le> C" "in_cents C" "ceiling_honoured cid C xs"
  shows "list_reservations cid (control_run xs) \<le> C + revived cid xs empty_control"
  using run_total [of empty_control C cid xs] assms control_inv_empty
  by (simp add: list_reservations_def control_run_def total_held_live empty_control_def)

definition hold_request :: "string \<Rightarrow> decimal \<Rightarrow> int option \<Rightarrow> reserve_request" where
  "hold_request key amount ttl = \<lparr>rq_case = ''c'', rq_amount = amount, rq_key = key,
     rq_authorized = 1000, rq_ttl = ttl\<rparr>"

lemmas control_eval = control_run_def hold_request_def reserve_def release_def commit_def
  release_decision_def commit_decision_def state_of_def set_state_def expire_due_def due_def
  total_held_def empty_control_def Let_def ceiling_honoured_def add_seconds_def add_microseconds_def
  datetime_limit_def

text \<open>
  A reservation is granted exactly when it fits. For a new key and a positive amount in
  cents without a deadline, let \<open>held\<close> be the budget in use once lapsed holds are reclaimed.
  If \<open>held\<close> plus the amount is within the ceiling the hold is granted and its amount is in use
  from then on, the ceiling itself included; otherwise the answer is the refusal, 409 with
  the three figures, and the reservations are as they were but for the reclaimed ones.
\<close>

lemma reserve_grants_exactly_what_fits:
  assumes new: "rq_key req \<notin> rv_key ` set (reservations db)"
    and amount: "0 < rq_amount req" "in_cents (rq_amount req)" "rq_amount req < 10000000000"
    and ttl: "rq_ttl req = None"
    and held: "held = total_held (rq_case req) (snd (expire_due now db))"
  shows "if held + rq_amount req \<le> rq_authorized req
    then fst (reserve now now' actor req db) = Inr \<lparr>gr_id = reservation_seq db + 1, gr_granted = True,
           gr_amount = rq_amount req, gr_replayed = False\<rparr> \<and>
         total_held (rq_case req) (snd (reserve now now' actor req db)) = held + rq_amount req
    else reserve now now' actor req db =
      (Inl (HTTPException 409 (Reservation_Refused held (rq_amount req) (rq_authorized req))),
       snd (expire_due now db))"
proof -
  have a: "numeric_12_2 (rq_amount req) = Some (rq_amount req)"
    using amount by (intro numeric_12_2_exact) auto
  have none: "row_where (\<lambda>r. rv_key r = rq_key req) (reservations (snd (expire_due now db))) = None"
    using new by (force simp: row_where_None expire_due_def set_update_where)
  have seq: "reservation_seq (snd (expire_due now db)) = reservation_seq db" by (simp add: expire_due_def)
  show ?thesis
    using none a ttl amount(1) held by (simp add: reserve_def Let_def seq total_held_live live_def)
qed

section \<open>The life of a hold\<close>

text \<open>What a hold may have become after any number of requests.\<close>

fun may_become :: "hold_state \<Rightarrow> hold_state \<Rightarrow> bool" where
  "may_become HELD s = True"
| "may_become EXPIRED s = (s \<noteq> HELD)"
| "may_become RELEASED s = (s = RELEASED)"
| "may_become HOLD_COMMITTED s = (s = HOLD_COMMITTED)"

lemma may_become_refl [simp]: "may_become s s" by (cases s) simp_all

lemma may_become_trans: "may_become a b \<Longrightarrow> may_become b c \<Longrightarrow> may_become a c"
  by (cases a; cases b; cases c) simp_all

definition evolved :: "control_db \<Rightarrow> control_db \<Rightarrow> bool" where
  "evolved db db' \<longleftrightarrow> (\<forall>r\<in>set (reservations db).
     \<exists>s. r\<lparr>rv_state := s\<rparr> \<in> set (reservations db') \<and> may_become (rv_state r) s)"

lemma evolved_subset: "set (reservations db) \<subseteq> set (reservations db') \<Longrightarrow> evolved db db'"
  unfolding evolved_def
proof
  fix r assume "set (reservations db) \<subseteq> set (reservations db')" "r \<in> set (reservations db)"
  then have "r\<lparr>rv_state := rv_state r\<rparr> \<in> set (reservations db')" by auto
  then show "\<exists>s. r\<lparr>rv_state := s\<rparr> \<in> set (reservations db') \<and> may_become (rv_state r) s"
    using may_become_refl by blast
qed

lemma evolved_refl: "evolved db db"
  by (rule evolved_subset) simp

lemma evolved_trans:
  assumes "evolved a b" "evolved b c"
  shows "evolved a c"
  unfolding evolved_def
proof
  fix r assume "r \<in> set (reservations a)"
  then obtain s where s: "r\<lparr>rv_state := s\<rparr> \<in> set (reservations b)" "may_become (rv_state r) s"
    using assms(1) by (auto simp: evolved_def)
  then obtain s' where "r\<lparr>rv_state := s'\<rparr> \<in> set (reservations c)" "may_become s s'"
    using assms(2) unfolding evolved_def by fastforce
  then show "\<exists>s. r\<lparr>rv_state := s\<rparr> \<in> set (reservations c) \<and> may_become (rv_state r) s"
    using s may_become_trans by blast
qed

lemma evolved_update:
  assumes "\<And>r. r \<in> set (reservations db) \<Longrightarrow> P r \<Longrightarrow> may_become (rv_state r) s"
    and sub: "set (update_where P (\<lambda>r. r\<lparr>rv_state := s\<rparr>) (reservations db)) \<subseteq> set (reservations db')"
  shows "evolved db db'"
  unfolding evolved_def
proof
  fix r assume r: "r \<in> set (reservations db)"
  have "(if P r then r\<lparr>rv_state := s\<rparr> else r) \<in> set (reservations db')"
    using sub r by (auto simp: set_update_where)
  then have "r\<lparr>rv_state := if P r then s else rv_state r\<rparr> \<in> set (reservations db')"
    by (cases "P r") auto
  then show "\<exists>s. r\<lparr>rv_state := s\<rparr> \<in> set (reservations db') \<and> may_become (rv_state r) s"
    using assms(1) [OF r] by (intro exI conjI) auto
qed

lemma evolved_expire: "evolved db (snd (expire_due now db))"
  by (rule evolved_update [of db "due now" EXPIRED]) (auto simp: expire_due_def due_def)

lemma evolved_reserve: "evolved db (snd (reserve now now' actor req db))"
  by (rule reserve_cases [of req now db now' actor])
     (auto simp: evolved_expire evolved_refl expire_due_def due_def
       intro!: evolved_update [of db "due now" EXPIRED])

lemma evolved_set_state:
  assumes "control_inv db" "\<And>s'. state_of i db = Some s' \<Longrightarrow> may_become s' s"
  shows "evolved db (set_state i s db)"
  using assms state_of_row [OF assms(1)]
  by (intro evolved_update [of db "\<lambda>r. rv_id r = i" s]) (auto simp: set_state_def)

lemma evolved_step: "control_inv db \<Longrightarrow> evolved db (control_step x db)"
proof (cases x)
  case (Reserve now now' actor req)
  then show ?thesis by (simp add: evolved_reserve)
next
  case (Release i)
  assume inv: "control_inv db"
  show ?thesis
  proof (cases "snd (release_decision (state_of i db))")
    case True
    then have "may_become s' RELEASED" if "state_of i db = Some s'" for s'
      using that by (cases s') (auto simp: release_decision_def)
    from evolved_set_state [OF inv this] True Release show ?thesis
      by (auto simp: release_def split: prod.split)
  qed (auto simp: Release release_def evolved_refl split: prod.split)
next
  case (Commit i)
  assume inv: "control_inv db"
  show ?thesis
  proof (cases "snd (commit_decision (state_of i db))")
    case True
    then have "may_become s' HOLD_COMMITTED" if "state_of i db = Some s'" for s'
      using that by (cases s') (auto simp: commit_decision_def)
    from evolved_set_state [OF inv this] True Commit show ?thesis
      by (auto simp: commit_def split: prod.split)
  qed (auto simp: Commit commit_def evolved_refl split: prod.split)
qed

text \<open>
  One request after the other, a hold only moves forward. Whatever requests follow, a hold is never lost, keeps its
  case, key, amount and deadline, and its state only changes from held to anything, or from
  expired to released or committed: a committed hold is never reaped or released, and a
  released one never comes back.
\<close>

lemma holds_only_move_forward:
  assumes "r \<in> set (reservations (control_run xs))"
  shows "\<exists>s. r\<lparr>rv_state := s\<rparr> \<in> set (reservations (control_run (xs @ ys))) \<and> may_become (rv_state r) s"
proof -
  have "evolved (control_run xs) (fold control_step ys (control_run xs))"
    by (rule ct.run_rel [OF evolved_refl evolved_trans evolved_step control_run_inv])
  then show ?thesis using assms by (auto simp: evolved_def control_run_def)
qed

section \<open>Ways around the ceiling\<close>

text \<open>
  Committing an expired hold spends budget that is no longer there. The handler only
  refuses released holds: a hold the reaper took back is committed without any check, and
  the budget in use grows by its amount, whatever was granted in the meantime.
\<close>

lemma expired_hold_is_committed_unchecked:
  assumes "r \<in> set (reservations (control_run xs))" "rv_state r = EXPIRED"
  shows "fst (commit (rv_id r) (control_run xs)) = Inr ()
    \<and> total_held (rv_case r) (snd (commit (rv_id r) (control_run xs)))
        = total_held (rv_case r) (control_run xs) + rv_amount r"
proof -
  note inv = control_run_inv [of xs]
  have "sum_where (\<lambda>r'. rv_id r' = rv_id r \<and> rv_case r' = rv_case r \<and> rv_state r' = EXPIRED) rv_amount rs
      = rv_amount r" if "r \<in> set rs" "sorted_wrt (<) (map rv_id rs)" for rs
    using that
  proof (induction rs)
    case (Cons x rs)
    then show ?case using assms(2) by (cases "r = x") (auto intro!: sum_where_none)
  qed simp
  then have "revived_by (rv_case r) (Commit (rv_id r)) (control_run xs) = rv_amount r"
    using assms(1) inv by (simp add: control_inv_def)
  then show ?thesis
    using commit_total [OF inv, of "rv_case r" "rv_id r"] state_of_row [OF inv assms(1)] assms(2)
    by (simp add: commit_def commit_decision_def)
qed

text \<open>
  A replayed reservation is answered as granted without a look at the hold. If the key
  belongs to a hold that was released or has expired, the answer is still 201 with
  \<open>granted\<close> true, although no budget is held for it.
\<close>

lemma replay_grants_a_dead_hold:
  assumes "r \<in> set (reservations (control_run xs))" "rv_state r = RELEASED \<or> rv_state r = EXPIRED"
    and "rv_key r = rq_key req"
  shows "fst (reserve now now' actor req (control_run xs))
      = Inr \<lparr>gr_id = rv_id r, gr_granted = True, gr_amount = rv_amount r, gr_replayed = True\<rparr>
    \<and> total_held cid (snd (reserve now now' actor req (control_run xs))) \<le> total_held cid (control_run xs)"
proof -
  let ?db = "snd (expire_due now (control_run xs))"
  have "\<not> due now r" using assms(2) by (auto simp: due_def)
  then have "r \<in> set (reservations ?db)"
    using assms(1) by (force simp: expire_due_def set_update_where)
  moreover have "distinct (map rv_key (reservations ?db))"
    using expire_due_inv [OF control_run_inv] by (simp add: control_inv_def)
  ultimately have "row_where (\<lambda>r'. rv_key r' = rv_key r) (reservations ?db) = Some r"
    by (rule row_where_unique [rotated])
  then show ?thesis
    using assms(3) total_held_expire [OF control_run_inv, of cid now xs] by (simp add: reserve_def Let_def)
qed

text \<open>
  Release and commit race. Each reads the state in one statement and writes in another,
  and neither locks the row. If both read the hold before either writes, both are answered
  with success, and when the release writes last the hold ends released: the budget of money
  that moved is free again.
\<close>

lemma release_races_commit:
  assumes "state_of i (control_run xs) = Some s" "s = HELD \<or> s = EXPIRED"
  shows "commit_decision (state_of i (control_run xs)) = (Inr (), True)
    \<and> release_decision (state_of i (control_run xs)) = (Inr False, True)
    \<and> state_of i (set_state i RELEASED (set_state i HOLD_COMMITTED (control_run xs))) = Some RELEASED"
proof -
  have "state_of i (set_state i t db) = map_option (\<lambda>_. t) (state_of i db)" for t db
    by (simp add: state_of_def set_state_def row_where_update option.map_comp comp_def)
  then show ?thesis using assms by (auto simp: commit_decision_def release_decision_def)
qed

end
