(* ===== verification/Reconciliation.thy ===== *)
theory Reconciliation
  imports Oracle Control
begin

text \<open>
  The reconciler, \<^verbatim>\<open>apps/reconciliation/worker.py\<close>, and what measures it,
  \<^verbatim>\<open>oracle/detection.py\<close>. A finding carries the figures its text is made of. GROUP BY has no
  order in SQL; here the groups come in order of first appearance. The theorems: on states the
  services and the projector can reach, three of its five checks never report anything, and
  the fourth is silent once the projector has caught up, whatever the ceiling; what the fifth
  reports, and how a late release silences it.
\<close>

section \<open>Checks\<close>

datatype finding =
    PROJECTION_LAG string nat
  | PROJECTION_DRIFT decimal nat decimal nat
  | DUPLICATE_IDEMPOTENCY_KEY string string nat
  | ORPHANED_APPLIED_EVENT string int
  | SPENT_EXPIRED_HOLD string string decimal

type_synonym lab_state = "crm_db \<times> services_db \<times> control_db"

definition SOURCES :: "string list" where
  "SOURCES = [''billing'', ''ledger'']"

definition check_lag :: "string \<Rightarrow> services_db \<Rightarrow> finding list" where
  "check_lag cid w = concat (map (\<lambda>service.
     let pending = length (filter (\<lambda>e. ob_case e = cid \<and> ob_applied_at e = None) (outbox_of service w))
     in if pending \<noteq> 0 then [PROJECTION_LAG service pending] else []) SOURCES)"

definition check_drift :: "string \<Rightarrow> crm_db \<Rightarrow> finding list" where
  "check_drift cid c =
     (case row_where (\<lambda>p. pr_case p = cid) (projection c) of None \<Rightarrow> []
      | Some p \<Rightarrow>
        let applied_sum = sum_where (\<lambda>a. ap_case a = cid) ap_amount (applied_events c);
            applied_count = length (filter (\<lambda>a. ap_case a = cid) (applied_events c))
        in if pr_total p \<noteq> applied_sum \<or> pr_events_applied p \<noteq> applied_count
           then [PROJECTION_DRIFT (pr_total p) (pr_events_applied p) applied_sum applied_count] else [])"

definition check_duplicate_keys :: "string \<Rightarrow> services_db \<Rightarrow> finding list" where
  "check_duplicate_keys cid w = concat (map (\<lambda>service.
     let keys = map ef_key (filter (\<lambda>r. ef_case r = cid) (table_of service w))
     in map (\<lambda>k. DUPLICATE_IDEMPOTENCY_KEY service k (count_list keys k))
          (filter (\<lambda>k. 1 < count_list keys k) (remdups keys))) SOURCES)"

definition check_orphans :: "string \<Rightarrow> crm_db \<Rightarrow> services_db \<Rightarrow> finding list" where
  "check_orphans cid c w = concat (map (\<lambda>a.
     if ap_service a \<notin> set SOURCES then []
     else if row_where (\<lambda>e. ob_id e = ap_id a) (outbox_of (ap_service a) w) = None
     then [ORPHANED_APPLIED_EVENT (ap_service a) (ap_id a)] else [])
     (filter (\<lambda>a. ap_case a = cid) (applied_events c)))"

definition check_spent_expired_holds :: "string \<Rightarrow> services_db \<Rightarrow> control_db \<Rightarrow> finding list" where
  "check_spent_expired_holds cid w k = concat (map (\<lambda>h. concat (map (\<lambda>service.
     if row_where (\<lambda>r. ef_key r = rv_key h \<and> committed_state (ef_state r)) (table_of service w) \<noteq> None
     then [SPENT_EXPIRED_HOLD service (rv_key h) (rv_amount h)] else []) SOURCES))
     (filter (\<lambda>h. rv_case h = cid \<and> rv_state h = EXPIRED) (reservations k)))"

definition reconcile :: "string \<Rightarrow> lab_state \<Rightarrow> finding list" where
  "reconcile cid s =
     (case s of (c, w, k) \<Rightarrow> check_lag cid w @ check_drift cid c @ check_duplicate_keys cid w @
        check_orphans cid c w @ check_spent_expired_holds cid w k)"

record detection_result =
  dr_detected :: bool
  dr_delay_us :: "int option"
  dr_findings :: "finding list"

definition measure_detection :: "string \<Rightarrow> datetime \<Rightarrow> datetime \<Rightarrow> lab_state \<Rightarrow> detection_result" where
  "measure_detection cid breach_at now s =
     (if reconcile cid s = [] then \<lparr>dr_detected = False, dr_delay_us = None, dr_findings = []\<rparr>
      else \<lparr>dr_detected = True, dr_delay_us = Some (now - breach_at), dr_findings = reconcile cid s\<rparr>)"

section \<open>The checks on reachable states\<close>

lemma no_drift: "crm_inv c \<Longrightarrow> check_drift cid c = []"
proof -
  assume inv: "crm_inv c"
  then have "get_compensation cid c = (sum_where (\<lambda>a. ap_case a = cid) ap_amount (applied_events c),
      length (filter (\<lambda>a. ap_case a = cid) (applied_events c)))"
    unfolding crm_inv_def by blast
  then show ?thesis by (auto simp: check_drift_def get_compensation_def Let_def split: option.splits)
qed

lemma count_list_distinct: "distinct xs \<Longrightarrow> count_list xs x \<le> 1"
  by (induction xs) (auto simp: count_list_0_iff)

lemma no_duplicates: "sound_dbs w \<Longrightarrow> check_duplicate_keys cid w = []"
proof -
  assume w: "sound_dbs w"
  have "count_list (map ef_key (filter (\<lambda>r. ef_case r = cid) (table_of service w))) k \<le> 1" for service k
  proof -
    have "distinct (map ef_key (table_of service w))"
      using w unfolding sound_dbs_def effect_inv_def table_of_def by auto
    then have "distinct (map ef_key (filter (\<lambda>r. ef_case r = cid) (table_of service w)))"
      by (rule distinct_map_filter)
    then show ?thesis by (rule count_list_distinct)
  qed
  then show ?thesis by (simp add: check_duplicate_keys_def Let_def not_less)
qed

lemma no_orphans: "es.ok (c, w) \<Longrightarrow> check_orphans cid c w = []"
proof -
  assume okk: "es.ok (c, w)"
  have "row_where (\<lambda>e. ob_id e = ap_id a) (outbox_of (ap_service a) w) \<noteq> None"
    if a: "a \<in> set (applied_events c)" for a
  proof -
    have "\<forall>a\<in>set (applied_events c). \<exists>e\<in>set (published (ap_service a) w). a = es.row (ap_service a) e"
      using okk unfolding es.ok_def es.linked_def fst_conv snd_conv by blast
    from bspec [OF this a]
    obtain e where e: "e \<in> set (published (ap_service a) w)" "a = es.row (ap_service a) e"
      by (rule bexE)
    from e(1) obtain ev where "ev \<in> set (outbox_of (ap_service a) w)" "ob_id ev = ev_id e"
      by (auto simp: published_def to_event_def)
    moreover from e(2) have "ap_id a = ap_id (es.row (ap_service a) e)" by (rule arg_cong)
    ultimately have "\<exists>ev\<in>set (outbox_of (ap_service a) w). ob_id ev = ap_id a"
      by (auto simp: es.row_def)
    then show ?thesis unfolding row_where_None by blast
  qed
  then show ?thesis by (fastforce simp: check_orphans_def)
qed

lemma no_lag:
  assumes "\<And>service e. service \<in> set SOURCES \<Longrightarrow> e \<in> set (published service w) \<Longrightarrow> ev_case e = cid \<Longrightarrow>
     ev_id e \<notin> pending_ids service w"
  shows "check_lag cid w = []"
proof -
  have "filter (\<lambda>e. ob_case e = cid \<and> ob_applied_at e = None) (outbox_of service w) = []"
    if "service \<in> set SOURCES" for service
    using assms [OF that] by (fastforce simp: filter_empty_conv published_def pending_ids_def to_event_def)
  then show ?thesis by (simp add: check_lag_def)
qed

text \<open>
  C21. The reconciler does not see the ceiling. After any client requests and projector runs,
  once a projector run for the case has succeeded and if no hold of the case has expired, the
  reconciler reports nothing and the detection result is never detected: whatever was
  authorised and however far the committed total is above it.
\<close>

theorem reconciler_is_blind_to_the_ceiling:
  assumes clients: "list_all client_op xs" and cid: "cid \<noteq> ''''"
    and run: "project actor schedule now cp cid (pipeline_run xs) = (Inr n, c, w)"
    and holds: "list_all (\<lambda>h. \<not> (rv_case h = cid \<and> rv_state h = EXPIRED)) (reservations k)"
  shows "reconcile cid (c, w, k) = []
    \<and> measure_detection cid breach_at t (c, w, k) = \<lparr>dr_detected = False, dr_delay_us = None, dr_findings = []\<rparr>"
proof -
  from project_ok [OF pipeline_run_ok [OF clients] run]
  have okk: "es.ok (c, w)" and on: "es.onward (pipeline_run xs) (c, w)"
    and settled: "\<And>service e. service \<in> {''billing'', ''ledger''} \<Longrightarrow>
      e \<in> set (published service (snd (pipeline_run xs))) \<Longrightarrow>
      case_scope (Some cid) e \<Longrightarrow> es.settled service e (c, w)"
    by auto
  have "check_lag cid w = []"
  proof (rule no_lag)
    fix service e
    assume s: "service \<in> set SOURCES" "e \<in> set (published service w)" "ev_case e = cid"
    then have "e \<in> set (published service (snd (pipeline_run xs)))" using on by (simp add: es.onward_def)
    with settled [of service e] s show "ev_id e \<notin> pending_ids service w"
      by (simp add: SOURCES_def case_scope_def es.settled_def)
  qed
  moreover have "crm_inv c" "sound_dbs w" using okk by (auto simp: es.ok_def)
  moreover have "check_spent_expired_holds cid w k = []"
    using holds by (auto simp: check_spent_expired_holds_def list_all_iff)
  ultimately have "reconcile cid (c, w, k) = []"
    using no_orphans [OF okk] by (simp add: reconcile_def no_drift no_duplicates)
  then show ?thesis by (simp add: measure_detection_def)
qed

theorem reconciler_is_blind_to_the_ceiling_witness:
  "\<exists>n c w. project None None 7 (\<lambda>n name. None) ''c'' (pipeline_run refund_then_credit) = (Inr n, c, w)
     \<and> re_verdict (evaluate ''c'' 1000 w) = VIOLATION \<and> reconcile ''c'' (c, w, empty_control) = []"
proof -
  obtain r c w where run: "project None None 7 (\<lambda>n name. None) ''c'' (pipeline_run refund_then_credit)
      = (r, c, w)" by (metis surj_pair)
  have "r = Inr 2" and v: "re_verdict (evaluate ''c'' 1000 w) = VIOLATION"
    using run unfolding refund_then_credit_run
    by (auto simp: projection_eval services_eval evaluate_verdict duplicated_effect_keys_def
        rows_by_idempotency_key_def TABLES_def table_of_def authoritative_total_def)
  moreover have "list_all client_op refund_then_credit" by (simp add: refund_then_credit_def)
  ultimately show ?thesis
    using reconciler_is_blind_to_the_ceiling [of refund_then_credit "''c''" None None 7 "\<lambda>n name. None" 2 c w
        empty_control] run
    by (auto simp: empty_control_def)
qed

text \<open>
  A late release erases the evidence. The reconciler reports an expired hold whose effect
  was committed; but a release of that hold, which is accepted and frees no budget, turns it
  into a released one, and no check mentions its key any more although the money moved.
\<close>

lemma late_release_erases_the_evidence:
  assumes h: "h \<in> set (reservations (control_run xs))" "rv_state h = EXPIRED"
    and spent: "r \<in> set (table_of service w)" "service \<in> set SOURCES" "ef_key r = rv_key h"
      "committed_state (ef_state r)"
  shows "SPENT_EXPIRED_HOLD service (rv_key h) (rv_amount h)
        \<in> set (check_spent_expired_holds (rv_case h) w (control_run xs))
    \<and> fst (release (rv_id h) (control_run xs)) = Inr False
    \<and> total_held cid (snd (release (rv_id h) (control_run xs))) = total_held cid (control_run xs)
    \<and> (\<forall>s a. SPENT_EXPIRED_HOLD s (rv_key h) a
        \<notin> set (check_spent_expired_holds (rv_case h) w (snd (release (rv_id h) (control_run xs)))))"
proof -
  let ?k = "control_run xs"
  note inv = control_run_inv [of xs]
  have st: "state_of (rv_id h) ?k = Some EXPIRED" using state_of_row [OF inv h(1)] h(2) by simp
  then have rel: "release (rv_id h) ?k = (Inr False, set_state (rv_id h) RELEASED ?k)"
    by (simp add: release_def release_decision_def)
  have reported: "SPENT_EXPIRED_HOLD service (rv_key h) (rv_amount h)
      \<in> set (check_spent_expired_holds (rv_case h) w ?k)"
    using h spent by (force simp: check_spent_expired_holds_def row_where_None)
  have "rv_state r = EXPIRED" if "r \<in> set (reservations ?k)" "rv_id r = rv_id h" for r
    using ids_unique [OF inv h(1) that(1)] that(2) h(2) by simp
  then have same: "total_held cid (set_state (rv_id h) RELEASED ?k) = total_held cid ?k"
    unfolding total_held_live set_state_def
    by (simp add: sum_where_update) (intro sum_where_cong; auto simp: live_def)
  have "rv_key h' \<noteq> rv_key h" if h': "h' \<in> set (reservations (set_state (rv_id h) RELEASED ?k))" "rv_state h' = EXPIRED" for h'
  proof
    assume key: "rv_key h' = rv_key h"
    obtain h0 where h0: "h0 \<in> set (reservations ?k)" "rv_id h0 \<noteq> rv_id h" "h' = h0"
      using h' by (auto simp: set_state_def set_update_where split: if_splits)
    moreover have "inj_on rv_key (set (reservations ?k))"
      using inv by (simp add: control_inv_def distinct_map)
    ultimately show False using key h(1) by (auto dest: inj_onD)
  qed
  then have "\<forall>s a. SPENT_EXPIRED_HOLD s (rv_key h) a
      \<notin> set (check_spent_expired_holds (rv_case h) w (set_state (rv_id h) RELEASED ?k))"
    by (fastforce simp: check_spent_expired_holds_def split: if_splits)
  with rel reported same show ?thesis by simp
qed

end
