(* ===== verification/Agents.thy ===== *)
theory Agents
  imports Reconciliation
begin

text \<open>
  Agents as programs, and the services behind their clients. A program is a tree whose nodes
  are the calls of \<^verbatim>\<open>agents/diligent/clients.py\<close> and the checkpoints, so that the calls of
  several agents can be interleaved in every way. \<open>perform\<close> runs one call against the modelled
  services, under conditions the environment chooses: whether the request arrives, whether the
  reply does, and what the service's own checkpoints do. \<open>lab_step\<close> lets one agent make its
  next call.
\<close>

section \<open>Calls and programs\<close>

datatype agent_exn =
    Unknown_Action string | Service_Call_Failed | Transport_Error
  | Model_Unavailable | Unknown_Tool string | Not_Callable | Index_Error

datatype service = Billing_Service | Ledger_Service | Crm_Service

datatype call =
    Checkpoint_Call string
  | Total_Call service string
  | Create_Call service string decimal string
  | Reserve_Call string decimal string decimal
  | Release_Call int
  | Commit_Call int

datatype answer =
    Raised agent_exn
  | Done_Answer
  | Total_Answer decimal
  | Grant_Answer "int option"

text \<open>What a model-driven agent reports of itself; the deterministic one reports nothing.\<close>

record transcript =
  tr_steps :: nat
  tr_tool_names :: "string list"
  tr_acted :: bool
  tr_declined :: bool
  tr_refused_by_control :: bool
  tr_hit_step_limit :: bool

type_synonym outcome = "agent_exn + transcript option"

datatype agent = Return outcome | Call call "answer \<Rightarrow> agent"

text \<open>A call whose exception propagates.\<close>

definition call_or_raise :: "call \<Rightarrow> (answer \<Rightarrow> agent) \<Rightarrow> agent" where
  "call_or_raise c k = Call c (\<lambda>a. case a of Raised e \<Rightarrow> Return (Inl e) | _ \<Rightarrow> k a)"

text \<open>Which of the optional clients the agent was given.\<close>

record clients =
  has_crm :: bool
  has_reserve :: bool
  has_release :: bool
  has_commit :: bool

record case_config =
  cf_case_id :: string
  cf_actor_id :: string
  cf_schedule_id :: string
  cf_action :: string
  cf_amount :: decimal
  cf_key :: string
  cf_authorized :: decimal
  cf_retry_on_failure :: bool
  cf_abandon_after_reserve :: bool

section \<open>The services behind the clients\<close>

record world =
  w_billing :: billing_db
  w_ledger :: ledger_db
  w_crm :: crm_db
  w_control :: control_db

definition empty_world :: world where
  "empty_world = \<lparr>w_billing = empty_billing, w_ledger = empty_effect_db, w_crm = empty_crm,
     w_control = empty_control\<rparr>"

text \<open>
  What happens to a call. A request is served when it is sent or never: that it lands after its
  client has timed out is not among the fates.
\<close>

datatype fate = Delivered | Request_Lost | Reply_Lost

record conditions =
  co_fate :: fate
  co_now :: datetime
  co_env :: service_env
  co_cp :: checkpoints

text \<open>What the client makes of the service's reply, and what the service did.\<close>

definition answer_of_reply :: "'r reply \<Rightarrow> answer" where
  "answer_of_reply r = (case r of Inl _ \<Rightarrow> Raised Service_Call_Failed | Inr _ \<Rightarrow> Done_Answer)"

definition answer_of_grant :: "control_detail http_error + grant \<Rightarrow> answer" where
  "answer_of_grant r = (case r of
     Inr g \<Rightarrow> Grant_Answer (Some (gr_id g))
   | Inl e \<Rightarrow> if status e = 409 then Grant_Answer None else Raised Service_Call_Failed)"

fun serve :: "conditions \<Rightarrow> call \<Rightarrow> world \<Rightarrow> answer \<times> world" where
  "serve co (Checkpoint_Call name) w = (Done_Answer, w)"
| "serve co (Total_Call Billing_Service cid) w = (Total_Answer (snd (list_refunds cid (w_billing w))), w)"
| "serve co (Total_Call Ledger_Service cid) w = (Total_Answer (snd (list_credits cid (w_ledger w))), w)"
| "serve co (Total_Call Crm_Service cid) w = (Total_Answer (fst (get_compensation cid (w_crm w))), w)"
| "serve co (Create_Call Billing_Service cid amount key) w =
     (let (r, db) = create_refund (co_env co) (co_cp co)
            \<lparr>r_case_id = cid, r_amount = amount, r_idempotency_key = key\<rparr> (w_billing w)
      in (answer_of_reply r, w\<lparr>w_billing := db\<rparr>))"
| "serve co (Create_Call Ledger_Service cid amount key) w =
     (let (r, db) = create_credit (co_env co) (co_cp co)
            \<lparr>r_case_id = cid, r_amount = amount, r_idempotency_key = key\<rparr> (w_ledger w)
      in (answer_of_reply r, w\<lparr>w_ledger := db\<rparr>))"
| "serve co (Create_Call Crm_Service cid amount key) w = (Raised Service_Call_Failed, w)"
| "serve co (Reserve_Call cid amount key authorized) w =
     (let (r, db) = reserve (co_now co) (co_now co) (env_actor (co_env co))
            \<lparr>rq_case = cid, rq_amount = amount, rq_key = key, rq_authorized = authorized, rq_ttl = None\<rparr>
            (w_control w)
      in (answer_of_grant r, w\<lparr>w_control := db\<rparr>))"
| "serve co (Release_Call i) w = (Done_Answer, w\<lparr>w_control := snd (release i (w_control w))\<rparr>)"
| "serve co (Commit_Call i) w = (Done_Answer, w\<lparr>w_control := snd (commit i (w_control w))\<rparr>)"

definition perform :: "conditions \<Rightarrow> call \<Rightarrow> world \<Rightarrow> answer \<times> world" where
  "perform co c w =
     (case co_fate co of Request_Lost \<Rightarrow> (Raised Transport_Error, w)
      | Reply_Lost \<Rightarrow> (Raised Transport_Error, snd (serve co c w))
      | Delivered \<Rightarrow> serve co c w)"

section \<open>Several agents\<close>

type_synonym lab = "agent list \<times> world"

definition lab_step :: "nat \<times> conditions \<Rightarrow> lab \<Rightarrow> lab" where
  "lab_step x s =
     (case (x, s) of ((i, co), (agents, w)) \<Rightarrow>
        if i < length agents then
          (case agents ! i of Return r \<Rightarrow> (agents, w)
           | Call c k \<Rightarrow> (let (a, w') = perform co c w in (agents[i := k a], w')))
        else (agents, w))"

definition lab_run :: "(nat \<times> conditions) list \<Rightarrow> lab \<Rightarrow> lab" where
  "lab_run xs s = fold lab_step xs s"

definition finished :: "agent \<Rightarrow> bool" where
  "finished P = (case P of Return _ \<Rightarrow> True | Call _ _ \<Rightarrow> False)"

end
