(* ===== verification/Diligent.thy ===== *)
theory Diligent
  imports Agents
begin

text \<open>
  The diligent agent: \<^verbatim>\<open>agents/diligent/policy.py\<close>. It reads every system it has access to,
  decides from the total, asks for a hold when it has a reservation client, acts, and settles or
  unwinds the hold.
\<close>

section \<open>The policy\<close>

fun total_of :: "answer \<Rightarrow> decimal" where
  "total_of (Total_Answer t) = t"
| "total_of _ = 0"

definition observed_compensation :: "string \<Rightarrow> clients \<Rightarrow> (decimal \<Rightarrow> agent) \<Rightarrow> agent" where
  "observed_compensation case_id cl k =
     (if has_crm cl then call_or_raise (Total_Call Crm_Service case_id) (\<lambda>a. k (total_of a))
      else call_or_raise (Total_Call Billing_Service case_id) (\<lambda>a.
        call_or_raise (Total_Call Ledger_Service case_id) (\<lambda>b. k (total_of a + total_of b))))"

text \<open>The commit after the effect, and the release when it did not land.\<close>

definition settle_hold :: "clients \<Rightarrow> int option \<Rightarrow> agent" where
  "settle_hold cl rid =
     (case rid of Some i \<Rightarrow> if has_commit cl then call_or_raise (Commit_Call i) (\<lambda>_. Return (Inr None)) else Return (Inr None)
      | None \<Rightarrow> Return (Inr None))"

definition unwind_hold :: "clients \<Rightarrow> int option \<Rightarrow> agent_exn \<Rightarrow> agent" where
  "unwind_hold cl rid e =
     (case rid of Some i \<Rightarrow>
        if has_release cl then call_or_raise (Release_Call i) (\<lambda>_. Return (Inl e)) else Return (Inl e)
      | None \<Rightarrow> Return (Inl e))"

definition create_call :: "string \<Rightarrow> case_config \<Rightarrow> call" where
  "create_call case_id cfg =
     Create_Call (if cf_action cfg = ''refund'' then Billing_Service else Ledger_Service)
       case_id (cf_amount cfg) (cf_key cfg)"

definition second_try :: "string \<Rightarrow> case_config \<Rightarrow> clients \<Rightarrow> int option \<Rightarrow> agent" where
  "second_try case_id cfg cl rid =
     Call (create_call case_id cfg) (\<lambda>a. case a of
        Raised e \<Rightarrow> unwind_hold cl rid e
      | _ \<Rightarrow> settle_hold cl rid)"

definition act :: "string \<Rightarrow> case_config \<Rightarrow> clients \<Rightarrow> int option \<Rightarrow> agent" where
  "act case_id cfg cl rid =
     Call (create_call case_id cfg) (\<lambda>a. case a of
        Raised e \<Rightarrow> if \<not> cf_retry_on_failure cfg then unwind_hold cl rid e
                    else second_try case_id cfg cl rid
      | _ \<Rightarrow> settle_hold cl rid)"

definition ask_for_hold :: "string \<Rightarrow> case_config \<Rightarrow> clients \<Rightarrow> agent" where
  "ask_for_hold case_id cfg cl =
     call_or_raise (Reserve_Call case_id (cf_amount cfg) (cf_key cfg) (cf_authorized cfg)) (\<lambda>a.
       case a of Grant_Answer (Some i) \<Rightarrow>
           if cf_abandon_after_reserve cfg then Return (Inr None) else act case_id cfg cl (Some i)
         | _ \<Rightarrow> Return (Inr None))"

definition decide :: "string \<Rightarrow> case_config \<Rightarrow> clients \<Rightarrow> decimal \<Rightarrow> agent" where
  "decide case_id cfg cl observed =
     (if observed + cf_amount cfg > cf_authorized cfg then Return (Inr None)
      else if has_reserve cl then
        call_or_raise (Checkpoint_Call ''agent.before_reserve'') (\<lambda>_. ask_for_hold case_id cfg cl)
      else act case_id cfg cl None)"

definition run_case :: "string \<Rightarrow> case_config \<Rightarrow> clients \<Rightarrow> agent" where
  "run_case case_id cfg cl =
     (if cf_action cfg \<notin> {''refund'', ''credit''} then Return (Inl (Unknown_Action (cf_action cfg)))
      else call_or_raise (Checkpoint_Call ''agent.before_reads'') (\<lambda>_.
        observed_compensation case_id cl (\<lambda>observed.
          call_or_raise (Checkpoint_Call ''agent.after_reads_before_act'') (\<lambda>_.
            decide case_id cfg cl observed))))"

end
