(* ===== verification/Coordination.thy ===== *)
theory Coordination
  imports Diligent
begin

text \<open>
  What coordination buys. The locale \<open>budget_authority\<close> is the contract of the control service
  for holds without deadlines. \<open>follows\<close> is the protocol a program keeps with it: create only
  under a granted hold, release only while the effect cannot have landed. Any number of agents
  that follow it, interleaved call by call in any way, keep the invariant \<open>lab_inv\<close>, from which
  the bounds on the committed total are read off.
\<close>

section \<open>The contract of the reservation authority\<close>

text \<open>What a release and a commit make of the state of the hold they name.\<close>

definition after_release :: "hold_state \<Rightarrow> hold_state" where
  "after_release s = (if s = HOLD_COMMITTED then HOLD_COMMITTED else RELEASED)"

definition after_commit :: "hold_state \<Rightarrow> hold_state" where
  "after_commit s = (if s = RELEASED then RELEASED else HOLD_COMMITTED)"

locale budget_authority =
  fixes ask :: "datetime \<Rightarrow> datetime \<Rightarrow> string \<Rightarrow> reserve_request \<Rightarrow> 'k \<Rightarrow> (control_detail http_error + grant) \<times> 'k"
    and free :: "int \<Rightarrow> 'k \<Rightarrow> 'k" and spend :: "int \<Rightarrow> 'k \<Rightarrow> 'k"
    and hold :: "'k \<Rightarrow> string \<Rightarrow> reservation option"
    and used :: "string \<Rightarrow> 'k \<Rightarrow> decimal"
    and good :: "'k \<Rightarrow> bool"
  assumes ask_good: "good k \<Longrightarrow> rq_ttl req = None \<Longrightarrow> good (snd (ask t t' actor req k))"
    and ask_other: "good k \<Longrightarrow> rq_ttl req = None \<Longrightarrow> key \<noteq> rq_key req \<Longrightarrow>
      hold (snd (ask t t' actor req k)) key = hold k key"
    and ask_granted: "good k \<Longrightarrow> rq_ttl req = None \<Longrightarrow> hold k (rq_key req) = None \<Longrightarrow>
      fst (ask t t' actor req k) = Inr g \<Longrightarrow>
      \<exists>h. hold (snd (ask t t' actor req k)) (rq_key req) = Some h \<and> rv_id h = gr_id g \<and>
        rv_case h = rq_case req \<and> numeric_12_2 (rq_amount req) = Some (rv_amount h) \<and> rv_state h = HELD"
    and ask_refused: "good k \<Longrightarrow> rq_ttl req = None \<Longrightarrow> hold k (rq_key req) = None \<Longrightarrow>
      fst (ask t t' actor req k) = Inl e \<Longrightarrow> hold (snd (ask t t' actor req k)) (rq_key req) = None"
    and ask_replayed: "good k \<Longrightarrow> rq_ttl req = None \<Longrightarrow> hold k (rq_key req) = Some h \<Longrightarrow>
      hold (snd (ask t t' actor req k)) (rq_key req) = Some h \<and>
      (\<exists>g. fst (ask t t' actor req k) = Inr g \<and> gr_id g = rv_id h)"
    and ask_used: "good k \<Longrightarrow> (rq_case req = c \<Longrightarrow> rq_authorized req \<le> C) \<Longrightarrow> in_cents C \<Longrightarrow> used c k \<le> C \<Longrightarrow>
      used c (snd (ask t t' actor req k)) \<le> C"
    and free_hold: "good k \<Longrightarrow> hold k key = Some h \<Longrightarrow>
      good (free (rv_id h) k) \<and>
      hold (free (rv_id h) k) = (hold k)(key \<mapsto> h\<lparr>rv_state := after_release (rv_state h)\<rparr>) \<and>
      used c (free (rv_id h) k) \<le> used c k"
    and spend_hold: "good k \<Longrightarrow> hold k key = Some h \<Longrightarrow>
      good (spend (rv_id h) k) \<and>
      hold (spend (rv_id h) k) = (hold k)(key \<mapsto> h\<lparr>rv_state := after_commit (rv_state h)\<rparr>) \<and>
      used c (spend (rv_id h) k) \<le> used c k"
    and lasting: "good k \<Longrightarrow> hold k key = Some h \<Longrightarrow> rv_state h \<noteq> EXPIRED"
    and used_covers: "good k \<Longrightarrow> distinct keys \<Longrightarrow>
      (\<And>key. key \<in> set keys \<Longrightarrow> \<exists>h. hold k key = Some h \<and> live c h) \<Longrightarrow>
      (\<Sum>key\<leftarrow>keys. rv_amount (the (hold k key))) \<le> used c k"
begin

text \<open>Effects backed by live holds of their amount fit in the budget in use.\<close>

lemma backed_sum:
  assumes k: "good k" and keys: "distinct (map ef_key rows)"
    and backed: "\<And>r. r \<in> set rows \<Longrightarrow> P r \<Longrightarrow>
      \<exists>h. hold k (ef_key r) = Some h \<and> rv_amount h = ef_amount r \<and> live c h"
  shows "sum_where P ef_amount rows \<le> used c k"
proof -
  have "(\<Sum>key\<leftarrow>map ef_key (filter P rows). rv_amount (the (hold k key))) \<le> used c k"
  proof (rule used_covers [OF k])
    show "distinct (map ef_key (filter P rows))" using keys by (rule distinct_map_filter)
    show "\<exists>h. hold k key = Some h \<and> live c h" if "key \<in> set (map ef_key (filter P rows))" for key
      using that backed by auto
  qed
  moreover have "map (\<lambda>r. rv_amount (the (hold k (ef_key r)))) (filter P rows) = map ef_amount (filter P rows)"
    using backed by force
  ultimately show ?thesis by (simp add: sum_where_def comp_def)
qed

end

definition hold_of :: "control_db \<Rightarrow> string \<Rightarrow> reservation option" where
  "hold_of k key = row_where (\<lambda>r. rv_key r = key) (reservations k)"

definition no_deadlines :: "control_db \<Rightarrow> bool" where
  "no_deadlines k \<longleftrightarrow> control_inv k \<and>
     (\<forall>r\<in>set (reservations k). rv_expires_at r = None \<and> rv_state r \<noteq> EXPIRED)"

lemma expire_due_none: "no_deadlines k \<Longrightarrow> snd (expire_due t k) = k"
proof -
  assume k: "no_deadlines k"
  have "update_where (due t) (\<lambda>r. r\<lparr>rv_state := EXPIRED\<rparr>) (reservations k) = reservations k"
    using k by (intro update_where_none) (auto simp: no_deadlines_def due_def)
  then show ?thesis by (simp add: expire_due_def)
qed

lemma hold_of_Some: "hold_of k key = Some h \<Longrightarrow> h \<in> set (reservations k) \<and> rv_key h = key"
  by (auto simp: hold_of_def dest: row_where_Some)

lemma row_where_map:
  "(\<And>r. Q (f r) = Q r) \<Longrightarrow>
     row_where Q (update_where P f rows) = map_option (\<lambda>r. if P r then f r else r) (row_where Q rows)"
  by (induction rows) auto

lemma hold_of_set_state:
  assumes inv: "control_inv k" and h: "hold_of k key = Some h"
  shows "hold_of (set_state (rv_id h) s k) = (hold_of k)(key \<mapsto> h\<lparr>rv_state := s\<rparr>)"
proof
  fix key'
  note mem = hold_of_Some [OF h]
  have "hold_of (set_state (rv_id h) s k) key' =
      map_option (\<lambda>r. if rv_id r = rv_id h then r\<lparr>rv_state := s\<rparr> else r) (hold_of k key')"
    unfolding hold_of_def set_state_def by (simp add: row_where_map)
  also have "\<dots> = ((hold_of k)(key \<mapsto> h\<lparr>rv_state := s\<rparr>)) key'"
  proof (cases "hold_of k key'")
    case None
    with h show ?thesis by auto
  next
    case (Some h')
    have "rv_id h' = rv_id h \<longleftrightarrow> key' = key"
    proof
      assume "rv_id h' = rv_id h"
      then have "h' = h" using ids_unique [OF inv] hold_of_Some [OF Some] mem by blast
      then show "key' = key" using hold_of_Some [OF Some] mem by simp
    next
      assume "key' = key"
      with Some h show "rv_id h' = rv_id h" by simp
    qed
    with Some h show ?thesis by auto
  qed
  finally show "hold_of (set_state (rv_id h) s k) key' = ((hold_of k)(key \<mapsto> h\<lparr>rv_state := s\<rparr>)) key'" .
qed

lemma no_deadlines_set_state: "no_deadlines k \<Longrightarrow> s \<noteq> EXPIRED \<Longrightarrow> no_deadlines (set_state i s k)"
  by (auto simp: no_deadlines_def set_state_inv) (auto simp: set_state_def set_update_where)

text \<open>The update of a release or commit of a reservation.\<close>

lemma release_hold:
  assumes "control_inv k" "hold_of k key = Some h"
  shows "hold_of (snd (release (rv_id h) k)) = (hold_of k)(key \<mapsto> h\<lparr>rv_state := after_release (rv_state h)\<rparr>)"
proof -
  have "state_of (rv_id h) k = Some (rv_state h)"
    using state_of_row [OF assms(1)] hold_of_Some [OF assms(2)] by simp
  then have "snd (release (rv_id h) k) =
      (if rv_state h = RELEASED \<or> rv_state h = HOLD_COMMITTED then k else set_state (rv_id h) RELEASED k)"
    by (simp add: release_def release_decision_def)
  moreover have "(hold_of k)(key \<mapsto> h\<lparr>rv_state := rv_state h\<rparr>) = hold_of k"
    using assms(2) by (simp add: fun_upd_idem)
  ultimately show ?thesis
    using hold_of_set_state [OF assms, of RELEASED] by (cases "rv_state h") (simp_all add: after_release_def)
qed

lemma commit_hold:
  assumes "control_inv k" "hold_of k key = Some h"
  shows "hold_of (snd (commit (rv_id h) k)) = (hold_of k)(key \<mapsto> h\<lparr>rv_state := after_commit (rv_state h)\<rparr>)"
proof -
  have "state_of (rv_id h) k = Some (rv_state h)"
    using state_of_row [OF assms(1)] hold_of_Some [OF assms(2)] by simp
  then have "snd (commit (rv_id h) k) =
      (if rv_state h = RELEASED then k else set_state (rv_id h) HOLD_COMMITTED k)"
    by (simp add: commit_def commit_decision_def)
  moreover have "(hold_of k)(key \<mapsto> h\<lparr>rv_state := rv_state h\<rparr>) = hold_of k"
    using assms(2) by (simp add: fun_upd_idem)
  ultimately show ?thesis
    using hold_of_set_state [OF assms, of HOLD_COMMITTED] by (cases "rv_state h") (simp_all add: after_commit_def)
qed

lemma release_no_deadlines: "no_deadlines k \<Longrightarrow> no_deadlines (snd (release i k))"
  by (auto simp: release_def split: prod.split intro: no_deadlines_set_state)

lemma commit_no_deadlines: "no_deadlines k \<Longrightarrow> no_deadlines (snd (commit i k))"
  by (auto simp: commit_def split: prod.split intro: no_deadlines_set_state)

lemma commit_lasting_total:
  assumes "no_deadlines k"
  shows "total_held c (snd (commit i k)) \<le> total_held c k"
proof -
  have "revived_by c (Commit i) k = 0" using assms by (auto intro!: sum_where_none simp: no_deadlines_def)
  then show ?thesis using commit_total [of k c i] assms by (simp add: no_deadlines_def)
qed

lemma live_holds_sum:
  assumes "control_inv k" "distinct keys"
    and "\<And>key. key \<in> set keys \<Longrightarrow> \<exists>h. hold_of k key = Some h \<and> live c h"
  shows "(\<Sum>key\<leftarrow>keys. rv_amount (the (hold_of k key))) \<le> total_held c k"
proof -
  let ?h = "\<lambda>key. the (hold_of k key)"
  have inj: "inj_on ?h (set keys)"
    using assms(3) hold_of_Some by (intro inj_onI) (metis option.sel)
  have sub: "?h ` set keys \<subseteq> {r \<in> set (reservations k). live c r}"
    using assms(3) hold_of_Some by force
  have "distinct (reservations k)" using assms(1) by (simp add: control_inv_def distinct_map)
  then have "total_held c k = sum rv_amount {r \<in> set (reservations k). live c r}"
    by (simp add: total_held_live sum_where_def sum_list_distinct_conv_sum_set)
  moreover have "sum rv_amount (?h ` set keys) \<le> sum rv_amount {r \<in> set (reservations k). live c r}"
    using sub assms(1) by (intro sum_mono2) (auto simp: control_inv_def less_imp_le)
  moreover have "sum rv_amount (?h ` set keys) = (\<Sum>key\<leftarrow>keys. rv_amount (?h key))"
    using assms(2) by (simp add: sum.reindex [OF inj] sum_list_distinct_conv_sum_set)
  ultimately show ?thesis by simp
qed

interpretation authority: budget_authority reserve "\<lambda>i k. snd (release i k)" "\<lambda>i k. snd (commit i k)"
  hold_of total_held no_deadlines
proof
  fix k :: control_db and req :: reserve_request and t t' actor
  assume k: "no_deadlines k" and ttl: "rq_ttl req = None"
  show "no_deadlines (snd (reserve t t' actor req k))"
    using reserve_inv [of k t t' actor req] k
    by (rule_tac reserve_cases [of req t k t' actor]) (auto simp: no_deadlines_def ttl expire_due_none)
  show "hold_of (snd (reserve t t' actor req k)) key = hold_of k key" if "key \<noteq> rq_key req" for key
    by (rule reserve_cases [of req t k t' actor])
       (use that in \<open>auto simp: expire_due_none [OF k] hold_of_def split: option.split\<close>)
  show "\<exists>h. hold_of (snd (reserve t t' actor req k)) (rq_key req) = Some h \<and> rv_id h = gr_id g \<and>
        rv_case h = rq_case req \<and> numeric_12_2 (rq_amount req) = Some (rv_amount h) \<and> rv_state h = HELD"
    if "hold_of k (rq_key req) = None" "fst (reserve t t' actor req k) = Inr g" for g
    by (rule reserve_cases [of req t k t' actor])
       (use that in \<open>auto simp: expire_due_none [OF k] hold_of_def\<close>)
  show "hold_of (snd (reserve t t' actor req k)) (rq_key req) = None"
    if "hold_of k (rq_key req) = None" "fst (reserve t t' actor req k) = Inl e" for e
    by (rule reserve_cases [of req t k t' actor])
       (use that in \<open>auto simp: expire_due_none [OF k] hold_of_def\<close>)
  show "hold_of (snd (reserve t t' actor req k)) (rq_key req) = Some h \<and>
      (\<exists>g. fst (reserve t t' actor req k) = Inr g \<and> gr_id g = rv_id h)"
    if h: "hold_of k (rq_key req) = Some h" for h
    using h by (simp add: reserve_def Let_def expire_due_none [OF k] hold_of_def)
next
  fix k :: control_db and req :: reserve_request and c C t t' actor
  assume k: "no_deadlines k" and "rq_case req = c \<Longrightarrow> rq_authorized req \<le> C" "in_cents C" "total_held c k \<le> C"
  then show "total_held c (snd (reserve t t' actor req k)) \<le> C"
    by (intro reserve_total) (auto simp: no_deadlines_def)
next
  fix k :: control_db and key h c
  assume k: "no_deadlines k" and h: "hold_of k key = Some h"
  then have inv: "control_inv k" by (simp add: no_deadlines_def)
  show "no_deadlines (snd (release (rv_id h) k)) \<and>
      hold_of (snd (release (rv_id h) k)) = (hold_of k)(key \<mapsto> h\<lparr>rv_state := after_release (rv_state h)\<rparr>) \<and>
      total_held c (snd (release (rv_id h) k)) \<le> total_held c k"
    using release_total [OF inv] release_hold [OF inv h] release_no_deadlines [OF k] by metis
  show "no_deadlines (snd (commit (rv_id h) k)) \<and>
      hold_of (snd (commit (rv_id h) k)) = (hold_of k)(key \<mapsto> h\<lparr>rv_state := after_commit (rv_state h)\<rparr>) \<and>
      total_held c (snd (commit (rv_id h) k)) \<le> total_held c k"
    using commit_lasting_total [OF k] commit_hold [OF inv h] commit_no_deadlines [OF k] by metis
  show "rv_state h \<noteq> EXPIRED" using k hold_of_Some [OF h] by (auto simp: no_deadlines_def)
next
  fix k :: control_db and keys c
  assume "no_deadlines k" "distinct keys" "\<And>key. key \<in> set keys \<Longrightarrow> \<exists>h. hold_of k key = Some h \<and> live c h"
  then show "(\<Sum>key\<leftarrow>keys. rv_amount (the (hold_of k key))) \<le> total_held c k"
    by (intro live_holds_sum) (auto simp: no_deadlines_def)
qed

section \<open>What one call does\<close>

definition added :: "string \<Rightarrow> decimal \<Rightarrow> string \<Rightarrow> effect_row list \<Rightarrow> effect_row list \<Rightarrow> bool" where
  "added cid amount key rows rows' \<longleftrightarrow> (\<exists>r. rows' = rows @ [r] \<and> ef_key r = key \<and> ef_case r = cid \<and>
     numeric_12_2 amount = Some (ef_amount r) \<and> ef_state r = COMMITTED \<and> key \<notin> ef_key ` set rows)"

lemma effect_tx_added:
  assumes inv: "effect_inv db" and tx: "effect_tx service ev cid actor key amount db = Inr ((w, r), db')"
  shows "db' = db \<or> added cid amount key (effects db) (effects db')"
  by (rule effect_tx_cases [OF inv, of key service ev cid actor amount])
     (use tx in \<open>auto simp: added_def key_row_None\<close>)

lemma create_refund_added:
  assumes inv: "effect_inv db" and c: "create_refund env cp req db = (reply, db')"
  shows "effect_inv db' \<and>
    (db' = db \<or> added (r_case_id req) (r_amount req) (r_idempotency_key req) (effects db) (effects db')) \<and>
    (\<forall>e. reply = Inl e \<and> cp ''billing.after_commit_before_ack'' = None \<longrightarrow> db' = db)"
  by (rule create_refund_cases [of env cp req db])
     (use c inv billing.create_good [OF inv] effect_tx_added [OF inv] in \<open>auto simp: create_refund_tx_eq\<close>)

lemma create_credit_added:
  assumes inv: "effect_inv db" and c: "create_credit env cp req db = (reply, db')"
  shows "effect_inv db' \<and>
    (db' = db \<or> added (r_case_id req) (r_amount req) (r_idempotency_key req) (effects db) (effects db')) \<and>
    (\<forall>e. reply = Inl e \<and> cp ''ledger.after_commit_before_ack'' = None \<longrightarrow> db' = db)"
  by (rule create_credit_cases [of env cp req db])
     (use c inv ledger.create_good [OF inv] effect_tx_added [OF inv] in \<open>auto simp: create_credit_tx_eq\<close>)

text \<open>What an agent is asked to do, and the clients it is given.\<close>

record job =
  jb_config :: case_config
  jb_clients :: clients

abbreviation "jb_key j \<equiv> cf_key (jb_config j)"
abbreviation "jb_case j \<equiv> cf_case_id (jb_config j)"

definition sound_world :: "world \<Rightarrow> bool" where
  "sound_world w \<longleftrightarrow> effect_inv (w_billing w) \<and> effect_inv (w_ledger w) \<and> no_deadlines (w_control w)"

text \<open>Conditions under which an acknowledgement of a landed effect is not lost.\<close>

definition no_lost_ack :: "conditions \<Rightarrow> bool" where
  "no_lost_ack co \<longleftrightarrow> co_fate co \<noteq> Reply_Lost \<and>
     co_cp co ''billing.after_commit_before_ack'' = None \<and> co_cp co ''ledger.after_commit_before_ack'' = None"

text \<open>The rows of the service a job writes to, and of the other one.\<close>

definition own_rows :: "job \<Rightarrow> world \<Rightarrow> effect_row list" where
  "own_rows j w = (if cf_action (jb_config j) = ''refund'' then effects (w_billing w) else effects (w_ledger w))"

definition other_rows :: "job \<Rightarrow> world \<Rightarrow> effect_row list" where
  "other_rows j w = (if cf_action (jb_config j) = ''refund'' then effects (w_ledger w) else effects (w_billing w))"

lemma create_call_added:
  assumes w: "sound_world w" and p: "perform co (create_call (jb_case j) (jb_config j)) w = (a, w')"
  shows "sound_world w' \<and> w_control w' = w_control w \<and> other_rows j w' = other_rows j w \<and>
    (own_rows j w' = own_rows j w \<or>
     added (jb_case j) (cf_amount (jb_config j)) (jb_key j) (own_rows j w) (own_rows j w')) \<and>
    (\<forall>e. a = Raised e \<and> no_lost_ack co \<longrightarrow> own_rows j w' = own_rows j w)"
proof (cases "cf_action (jb_config j) = ''refund''")
  case True
  let ?req = "\<lparr>r_case_id = jb_case j, r_amount = cf_amount (jb_config j), r_idempotency_key = jb_key j\<rparr>"
  obtain reply db where c: "create_refund (co_env co) (co_cp co) ?req (w_billing w) = (reply, db)" by fastforce
  have "effect_inv (w_billing w)" using w by (simp add: sound_world_def)
  from create_refund_added [OF this c] True w p c show ?thesis
    by (cases reply; cases "co_fate co")
       (auto simp: perform_def create_call_def sound_world_def own_rows_def other_rows_def no_lost_ack_def
         answer_of_reply_def)
next
  case False
  let ?req = "\<lparr>r_case_id = jb_case j, r_amount = cf_amount (jb_config j), r_idempotency_key = jb_key j\<rparr>"
  obtain reply db where c: "create_credit (co_env co) (co_cp co) ?req (w_ledger w) = (reply, db)" by fastforce
  have "effect_inv (w_ledger w)" using w by (simp add: sound_world_def)
  from create_credit_added [OF this c] False w p c show ?thesis
    by (cases reply; cases "co_fate co")
       (auto simp: perform_def create_call_def sound_world_def own_rows_def other_rows_def no_lost_ack_def
         answer_of_reply_def)
qed

section \<open>The protocol\<close>

text \<open>
  How far a program is with the hold of its job: it has not asked; it has a hold and has not
  tried to create; it may have created; it has freed its hold; or it lost track before having
  one. The disciplines differ in when a hold may be released: only before the first attempt
  (Strict), also after a failed attempt (Trusting the failure), or at any time (Bounded).
\<close>

datatype discipline = Bounded | Trusting | Strict

datatype phase = Fresh | Holding int | Spent int | Freed int | Lost

definition holds_id :: "phase \<Rightarrow> int \<Rightarrow> bool" where
  "holds_id ph i \<longleftrightarrow> ph = Holding i \<or> ph = Spent i \<or> ph = Freed i"

fun allowed :: "discipline \<Rightarrow> job \<Rightarrow> phase \<Rightarrow> call \<Rightarrow> bool" where
  "allowed d j ph (Checkpoint_Call name) = True"
| "allowed d j ph (Total_Call service cid) = True"
| "allowed d j ph (Create_Call service cid amount key) =
     (Create_Call service cid amount key = create_call (jb_case j) (jb_config j) \<and>
      (\<exists>i. ph = Holding i \<or> ph = Spent i))"
| "allowed d j ph (Reserve_Call cid amount key authorized) =
     (cid = jb_case j \<and> amount = cf_amount (jb_config j) \<and> key = jb_key j \<and>
      authorized = cf_authorized (jb_config j))"
| "allowed d j ph (Release_Call i) = (if ph = Spent i then d = Bounded else holds_id ph i)"
| "allowed d j ph (Commit_Call i) = holds_id ph i"

text \<open>The answers the control service can give in a phase: a replay names the hold again.\<close>

fun possible :: "phase \<Rightarrow> call \<Rightarrow> answer \<Rightarrow> bool" where
  "possible ph (Reserve_Call cid amount key authorized) a =
     (case a of Raised e \<Rightarrow> True
      | Grant_Answer None \<Rightarrow> ph = Fresh \<or> ph = Lost
      | Grant_Answer (Some i) \<Rightarrow> ph = Fresh \<or> ph = Lost \<or> holds_id ph i
      | _ \<Rightarrow> False)"
| "possible ph c a = True"

fun after :: "discipline \<Rightarrow> phase \<Rightarrow> call \<Rightarrow> answer \<Rightarrow> phase" where
  "after d ph (Reserve_Call cid amount key authorized) a =
     (if ph = Fresh then (case a of Raised e \<Rightarrow> Lost
        | Grant_Answer (Some i) \<Rightarrow> if d = Bounded then Spent i else Holding i
        | _ \<Rightarrow> ph)
      else ph)"
| "after d ph (Create_Call service cid amount key) a =
     (case ph of Holding i \<Rightarrow> (case a of Raised e \<Rightarrow> if d = Strict then Spent i else Holding i | _ \<Rightarrow> Spent i)
      | _ \<Rightarrow> ph)"
| "after d ph (Release_Call i) a = (if ph = Holding i then Freed i else ph)"
| "after d ph (Commit_Call i) a = (if ph = Holding i then Spent i else ph)"
| "after d ph (Checkpoint_Call name) a = ph"
| "after d ph (Total_Call service cid) a = ph"

primrec follows :: "discipline \<Rightarrow> job \<Rightarrow> agent \<Rightarrow> phase \<Rightarrow> bool" where
  "follows d j (Return r) ph = True"
| "follows d j (Call c k) ph = (allowed d j ph c \<and>
     (\<forall>a. possible ph c a \<longrightarrow> follows d j (k a) (after d ph c a)))"

lemma follows_call_or_raise:
  assumes "allowed d j ph c" and "\<And>a. (\<And>e. a \<noteq> Raised e) \<Longrightarrow> possible ph c a \<Longrightarrow> follows d j (k a) (after d ph c a)"
  shows "follows d j (call_or_raise c k) ph"
  using assms by (auto simp: call_or_raise_def split: answer.split)

definition matches :: "job \<Rightarrow> reservation \<Rightarrow> bool" where
  "matches j h \<longleftrightarrow> rv_case h = jb_case j \<and> numeric_12_2 (cf_amount (jb_config j)) = Some (rv_amount h)"

definition landed :: "job \<Rightarrow> world \<Rightarrow> bool" where
  "landed j w \<longleftrightarrow> jb_key j \<in> ef_key ` set (own_rows j w)"

text \<open>A phase, the hold of the job's key, and whether its effect landed.\<close>

fun phase_ok :: "discipline \<Rightarrow> job \<Rightarrow> phase \<Rightarrow> reservation option \<Rightarrow> bool \<Rightarrow> bool" where
  "phase_ok d j Fresh ho ld = (ho = None \<and> \<not> ld)"
| "phase_ok d j (Holding i) ho ld =
     (d \<noteq> Bounded \<and> \<not> ld \<and> (\<exists>h. ho = Some h \<and> rv_id h = i \<and> matches j h \<and> rv_state h = HELD))"
| "phase_ok d j (Spent i) ho ld =
     (\<exists>h. ho = Some h \<and> rv_id h = i \<and> matches j h \<and> (rv_state h = RELEASED \<longrightarrow> d = Bounded))"
| "phase_ok d j (Freed i) ho ld = (\<not> ld \<and> (\<exists>h. ho = Some h \<and> rv_id h = i))"
| "phase_ok d j Lost ho ld = (\<not> ld)"

lemma phase_ok_landed:
  "phase_ok d j ph ho True \<Longrightarrow> \<exists>h. ho = Some h \<and> matches j h \<and> (rv_state h = RELEASED \<longrightarrow> d = Bounded)"
  by (cases ph) auto

lemma phase_ok_holds: "phase_ok d j ph ho ld \<Longrightarrow> holds_id ph i \<Longrightarrow> \<exists>h. ho = Some h \<and> rv_id h = i"
  by (auto simp: holds_id_def)

section \<open>What an allowed call does\<close>

text \<open>What a step of the agent of \<open>j\<close> may do to the world.\<close>

definition own_step :: "job \<Rightarrow> world \<Rightarrow> world \<Rightarrow> bool" where
  "own_step j w w' \<longleftrightarrow> sound_world w' \<and>
     (\<forall>key. key \<noteq> jb_key j \<longrightarrow> hold_of (w_control w') key = hold_of (w_control w) key) \<and>
     (\<forall>c C. (jb_case j = c \<longrightarrow> cf_authorized (jb_config j) \<le> C) \<and> in_cents C \<and>
        total_held c (w_control w) \<le> C \<longrightarrow> total_held c (w_control w') \<le> C) \<and>
     other_rows j w' = other_rows j w \<and>
     (own_rows j w' = own_rows j w \<or>
       added (jb_case j) (cf_amount (jb_config j)) (jb_key j) (own_rows j w) (own_rows j w'))"

lemma own_step_refl: "sound_world w \<Longrightarrow> own_step j w w"
  by (simp add: own_step_def)

text \<open>A step that only concerns the control service.\<close>

lemma own_step_control:
  assumes "sound_world w" "no_deadlines k"
    and "\<And>key. key \<noteq> jb_key j \<Longrightarrow> hold_of k key = hold_of (w_control w) key"
    and "\<And>c C. (jb_case j = c \<Longrightarrow> cf_authorized (jb_config j) \<le> C) \<Longrightarrow> in_cents C \<Longrightarrow>
      total_held c (w_control w) \<le> C \<Longrightarrow> total_held c k \<le> C"
  shows "own_step j w (w\<lparr>w_control := k\<rparr>) \<and> landed j (w\<lparr>w_control := k\<rparr>) = landed j w"
  using assms by (auto simp: own_step_def sound_world_def own_rows_def other_rows_def landed_def)

lemma harmless_perform: "perform co (Checkpoint_Call name) w = (a, w') \<Longrightarrow> w' = w"
  "perform co (Total_Call s cid) w = (a, w') \<Longrightarrow> w' = w"
  by (cases "co_fate co"; auto simp: perform_def) (cases s; cases "co_fate co"; auto simp: perform_def)

lemma create_step:
  assumes "sound_world w" "phase_ok d j ph (hold_of (w_control w) (jb_key j)) (landed j w)"
    and "d = Trusting \<Longrightarrow> no_lost_ack co" and ph: "ph = Holding i \<or> ph = Spent i"
    and c: "c = create_call (jb_case j) (jb_config j)" and p: "perform co c w = (a, w')"
  shows "own_step j w w' \<and> possible ph c a \<and>
    phase_ok d j (after d ph c a) (hold_of (w_control w') (jb_key j)) (landed j w')"
proof -
  note create = create_call_added [OF assms(1) p [unfolded c]]
  have own: "own_step j w w'" "w_control w' = w_control w" using create by (auto simp: own_step_def)
  have same: "landed j w' = landed j w" if "a = Raised e" "d = Trusting" for e
    using create that assms(3) by (auto simp: landed_def)
  from ph show ?thesis
  proof
    assume "ph = Holding i"
    then show ?thesis using own assms(2) same by (cases d; cases a) (auto simp: c create_call_def)
  next
    assume "ph = Spent i"
    then show ?thesis using own assms(2) by (auto simp: c create_call_def)
  qed
qed

lemma reserve_step:
  assumes w: "sound_world w" and ok: "phase_ok d j ph (hold_of (w_control w) (jb_key j)) (landed j w)"
    and c: "c = Reserve_Call (jb_case j) (cf_amount (jb_config j)) (jb_key j) (cf_authorized (jb_config j))"
    and p: "perform co c w = (a, w')"
  shows "own_step j w w' \<and> possible ph c a \<and>
    phase_ok d j (after d ph c a) (hold_of (w_control w') (jb_key j)) (landed j w')"
proof (cases "co_fate co = Request_Lost")
  case True
  then have "a = Raised Transport_Error" "w' = w" using p by (auto simp: perform_def)
  then show ?thesis using ok w by (cases ph) (auto simp: c own_step_refl)
next
  case False
  let ?req = "\<lparr>rq_case = jb_case j, rq_amount = cf_amount (jb_config j), rq_key = jb_key j,
     rq_authorized = cf_authorized (jb_config j), rq_ttl = None\<rparr>"
  let ?ask = "reserve (co_now co) (co_now co) (env_actor (co_env co)) ?req (w_control w)"
  obtain r k where r: "?ask = (r, k)" by fastforce
  have k: "no_deadlines (w_control w)" using w by (simp add: sound_world_def)
  have ttl: "rq_ttl ?req = None" by simp
  have w': "w' = w\<lparr>w_control := k\<rparr>" and a: "a = Raised Transport_Error \<or> a = answer_of_grant r"
    using p r False by (auto simp: c perform_def split: fate.splits)
  have step: "own_step j w w' \<and> landed j w' = landed j w"
    unfolding w'
  proof (rule own_step_control [OF w])
    show "no_deadlines k" using authority.ask_good [OF k ttl, of "co_now co" "co_now co"] r by (metis snd_conv)
    show "hold_of k key = hold_of (w_control w) key" if "key \<noteq> jb_key j" for key
      using authority.ask_other [OF k ttl, of key "co_now co" "co_now co" "env_actor (co_env co)"] r that by simp
    show "total_held c k \<le> C" if "jb_case j = c \<Longrightarrow> cf_authorized (jb_config j) \<le> C" "in_cents C"
        "total_held c (w_control w) \<le> C" for c C
      using authority.ask_used [OF k, of ?req c C "co_now co" "co_now co" "env_actor (co_env co)"] r that by simp
  qed
  have k': "hold_of (w_control w') = hold_of k" by (simp add: w')
  have "possible ph c a \<and> phase_ok d j (after d ph c a) (hold_of k (jb_key j)) (landed j w)"
  proof (cases "hold_of (w_control w) (jb_key j)")
    case (Some h)
    with authority.ask_replayed [OF k ttl, of h "co_now co" "co_now co" "env_actor (co_env co)"] r
    obtain g where "hold_of k (jb_key j) = Some h" "r = Inr g" "gr_id g = rv_id h" by auto
    with ok a Some show ?thesis by (cases ph) (auto simp: c answer_of_grant_def holds_id_def)
  next
    case None
    then have ph: "ph = Fresh \<or> ph = Lost" and ld: "\<not> landed j w" using ok by (cases ph; auto)+
    show ?thesis
    proof (cases r)
      case (Inl e)
      then have "hold_of k (jb_key j) = None"
        using authority.ask_refused [OF k ttl, of "co_now co" "co_now co" "env_actor (co_env co)" e] r None by simp
      with ld ph a Inl show ?thesis by (auto simp: c answer_of_grant_def)
    next
      case (Inr g)
      then obtain h where "hold_of k (jb_key j) = Some h" "rv_id h = gr_id g" "matches j h" "rv_state h = HELD"
        using authority.ask_granted [OF k ttl, of "co_now co" "co_now co" "env_actor (co_env co)" g] r None
        by (auto simp: matches_def)
      with ld ph a Inr show ?thesis by (auto simp: c answer_of_grant_def)
    qed
  qed
  then show ?thesis using step k' by simp
qed

lemma close_step:
  assumes w: "sound_world w" and ok: "phase_ok d j ph (hold_of (w_control w) (jb_key j)) (landed j w)"
    and c: "c = Release_Call i \<or> c = Commit_Call i" and al: "allowed d j ph c" and p: "perform co c w = (a, w')"
  shows "own_step j w w' \<and> possible ph c a \<and>
    phase_ok d j (after d ph c a) (hold_of (w_control w') (jb_key j)) (landed j w')"
proof -
  have "holds_id ph i" using c al by (auto simp: holds_id_def split: if_splits)
  from phase_ok_holds [OF ok this]
  obtain h where h: "hold_of (w_control w) (jb_key j) = Some h" "rv_id h = i" by blast
  have k: "no_deadlines (w_control w)" using w by (simp add: sound_world_def)
  define s where "s = (if c = Release_Call i then after_release (rv_state h) else after_commit (rv_state h))"
  define k' where "k' = (if c = Release_Call i then snd (release i (w_control w)) else snd (commit i (w_control w)))"
  have holds: "no_deadlines k'" "hold_of k' = (hold_of (w_control w))(jb_key j \<mapsto> h\<lparr>rv_state := s\<rparr>)"
    "total_held cid k' \<le> total_held cid (w_control w)" for cid
    using authority.free_hold [OF k h(1), of cid] authority.spend_hold [OF k h(1), of cid] h(2)
    by (auto simp: k'_def s_def)
  show ?thesis
  proof (cases "co_fate co = Request_Lost")
    case True
    then have "w' = w" using p by (auto simp: perform_def)
    then show ?thesis using c al ok w h
      by (cases ph) (auto simp: own_step_refl holds_id_def split: if_splits)
  next
    case False
    have w': "w' = w\<lparr>w_control := k'\<rparr>"
      using p c False by (auto simp: perform_def k'_def split: fate.splits)
    have "own_step j w w' \<and> landed j w' = landed j w"
      unfolding w'
    proof (rule own_step_control [OF w holds(1)])
      show "hold_of k' key = hold_of (w_control w) key" if "key \<noteq> jb_key j" for key
        using holds(2) that by simp
      show "total_held cid k' \<le> C" if "total_held cid (w_control w) \<le> C" for cid C
        using holds(3) [of cid] that by simp
    qed
    moreover have "possible ph c a \<and> phase_ok d j (after d ph c a) (Some (h\<lparr>rv_state := s\<rparr>)) (landed j w)"
      using c al ok h by (cases ph)
        (auto simp: s_def after_release_def after_commit_def matches_def holds_id_def split: if_splits)
    ultimately show ?thesis using holds(2) by (simp add: w')
  qed
qed

lemma allowed_step:
  assumes w: "sound_world w" and ok: "phase_ok d j ph (hold_of (w_control w) (jb_key j)) (landed j w)"
    and co: "d = Trusting \<Longrightarrow> no_lost_ack co" and al: "allowed d j ph c" and p: "perform co c w = (a, w')"
  shows "own_step j w w' \<and> possible ph c a \<and>
    phase_ok d j (after d ph c a) (hold_of (w_control w') (jb_key j)) (landed j w')"
proof (cases c)
  case (Create_Call s cid amount key)
  then obtain i where "ph = Holding i \<or> ph = Spent i" "c = create_call (jb_case j) (jb_config j)"
    using al by auto
  from create_step [OF w ok co this p] show ?thesis by simp
next
  case (Reserve_Call cid amount key authorized)
  then show ?thesis using reserve_step [OF w ok _ p] al by simp
next
  case (Release_Call i)
  then show ?thesis using close_step [OF w ok _ al p] by simp
next
  case (Commit_Call i)
  then show ?thesis using close_step [OF w ok _ al p] by simp
next
  case (Checkpoint_Call name)
  then show ?thesis using harmless_perform(1) [of co name w a w'] p ok w by (simp add: own_step_refl)
next
  case (Total_Call s cid)
  then show ?thesis using harmless_perform(2) [of co s cid w a w'] p ok w by (simp add: own_step_refl)
qed

section \<open>All agents together\<close>

text \<open>An agent of a team: its job, its program, and the discipline it follows.\<close>

record member =
  mb_job :: job
  mb_program :: agent
  mb_discipline :: discipline

abbreviation "mb_key m \<equiv> jb_key (mb_job m)"

text \<open>Keys are not shared and the case's ceiling is \<open>C\<close>.\<close>

definition team_ok :: "string \<Rightarrow> decimal \<Rightarrow> member list \<Rightarrow> bool" where
  "team_ok c C team \<longleftrightarrow> distinct (map mb_key team) \<and>
     (\<forall>m\<in>set team. follows (mb_discipline m) (mb_job m) (mb_program m) Fresh \<and>
        (jb_case (mb_job m) = c \<longrightarrow> cf_authorized (jb_config (mb_job m)) \<le> C))"

definition row_of_job :: "effect_row \<Rightarrow> job \<Rightarrow> bool" where
  "row_of_job r j \<longleftrightarrow> jb_key j = ef_key r \<and> jb_case j = ef_case r \<and>
     numeric_12_2 (cf_amount (jb_config j)) = Some (ef_amount r)"

definition rows_ok :: "member list \<Rightarrow> world \<Rightarrow> bool" where
  "rows_ok team w \<longleftrightarrow>
     (\<forall>r\<in>set (effects (w_billing w)). \<exists>m\<in>set team. cf_action (jb_config (mb_job m)) = ''refund'' \<and> row_of_job r (mb_job m)) \<and>
     (\<forall>r\<in>set (effects (w_ledger w)). \<exists>m\<in>set team. cf_action (jb_config (mb_job m)) \<noteq> ''refund'' \<and> row_of_job r (mb_job m))"

definition member_ok :: "world \<Rightarrow> member \<Rightarrow> agent \<Rightarrow> bool" where
  "member_ok w m P \<longleftrightarrow> (\<exists>ph. follows (mb_discipline m) (mb_job m) P ph \<and>
     phase_ok (mb_discipline m) (mb_job m) ph (hold_of (w_control w) (mb_key m)) (landed (mb_job m) w))"

definition lab_inv :: "string \<Rightarrow> decimal \<Rightarrow> member list \<Rightarrow> lab \<Rightarrow> bool" where
  "lab_inv c C team s \<longleftrightarrow> (case s of (agents, w) \<Rightarrow>
     sound_world w \<and> total_held c (w_control w) \<le> C \<and> rows_ok team w \<and> list_all2 (member_ok w) team agents)"

lemma own_step_rows:
  assumes own: "own_step (mb_job m) w w'" and rows: "rows_ok team w" and m: "m \<in> set team"
  shows "rows_ok team w'"
proof -
  let ?j = "mb_job m"
  have *: "(\<forall>r\<in>set rs'. \<exists>m\<in>set team. Q m \<and> row_of_job r (mb_job m))"
    if "\<forall>r\<in>set rs. \<exists>m\<in>set team. Q m \<and> row_of_job r (mb_job m)" "Q m"
      "rs' = rs \<or> added (jb_case ?j) (cf_amount (jb_config ?j)) (jb_key ?j) rs rs'" for Q rs rs'
  proof
    fix r assume r: "r \<in> set rs'"
    show "\<exists>m\<in>set team. Q m \<and> row_of_job r (mb_job m)"
    proof (cases "r \<in> set rs")
      case True
      with that(1) show ?thesis by blast
    next
      case False
      then have "row_of_job r ?j" using that(3) r by (auto simp: added_def row_of_job_def)
      with m that(2) show ?thesis by blast
    qed
  qed
  show ?thesis
  proof (cases "cf_action (jb_config ?j) = ''refund''")
    case True
    then show ?thesis
      using own rows *[of "effects (w_billing w)" "\<lambda>m. cf_action (jb_config (mb_job m)) = ''refund''" "effects (w_billing w')"]
      unfolding own_step_def rows_ok_def own_rows_def other_rows_def by simp
  next
    case False
    then show ?thesis
      using own rows *[of "effects (w_ledger w)" "\<lambda>m. cf_action (jb_config (mb_job m)) \<noteq> ''refund''" "effects (w_ledger w')"]
      unfolding own_step_def rows_ok_def own_rows_def other_rows_def by simp
  qed
qed

lemma own_step_landed:
  assumes "own_step j w w'" "jb_key j \<noteq> jb_key j'"
  shows "landed j' w' = landed j' w"
  using assms unfolding own_step_def landed_def own_rows_def other_rows_def added_def
  by (auto split: if_splits)

lemma own_step_member:
  assumes "own_step j w w'" "jb_key j \<noteq> mb_key m" "member_ok w m P"
  shows "member_ok w' m P"
  using assms own_step_landed [OF assms(1,2)] by (simp add: member_ok_def own_step_def)

definition calm_for :: "member list \<Rightarrow> nat \<times> conditions \<Rightarrow> bool" where
  "calm_for team x \<longleftrightarrow> fst x < length team \<and> mb_discipline (team ! fst x) = Trusting \<longrightarrow> no_lost_ack (snd x)"

lemma lab_step_inv:
  assumes team: "team_ok c C team" and C: "in_cents C" and inv: "lab_inv c C team s" and co: "calm_for team x"
  shows "lab_inv c C team (lab_step x s)"
proof -
  obtain i co where x: "x = (i, co)" by (cases x)
  obtain agents w where s: "s = (agents, w)" by (cases s)
  have w: "sound_world w" and used: "total_held c (w_control w) \<le> C" and rows: "rows_ok team w"
    and all: "list_all2 (member_ok w) team agents"
    using inv by (auto simp: lab_inv_def s)
  have len: "length agents = length team" using all by (simp add: list_all2_lengthD)
  show ?thesis
  proof (cases "i < length team \<and> (\<exists>cl k. agents ! i = Call cl k)")
    case False
    then have "lab_step x s = s" using len by (auto simp: lab_step_def x s split: agent.split)
    with inv show ?thesis by simp
  next
    case True
    then obtain cl k where i: "i < length team" and P: "agents ! i = Call cl k" by blast
    obtain a w' where p: "perform co cl w = (a, w')" by fastforce
    let ?m = "team ! i"
    have step: "lab_step x s = (agents[i := k a], w')" using i P p len by (simp add: lab_step_def x s)
    have "member_ok w ?m (Call cl k)" using list_all2_nthD [OF all i] P by simp
    then obtain ph where ph: "follows (mb_discipline ?m) (mb_job ?m) (Call cl k) ph"
      "phase_ok (mb_discipline ?m) (mb_job ?m) ph (hold_of (w_control w) (mb_key ?m)) (landed (mb_job ?m) w)"
      by (auto simp: member_ok_def)
    from allowed_step [OF w ph(2) _ _ p] ph(1) co i
    have own: "own_step (mb_job ?m) w w'" and me: "member_ok w' ?m (k a)"
      by (auto simp: member_ok_def calm_for_def x)
    have m: "?m \<in> set team" using i by simp
    have "member_ok w' (team ! n) (agents[i := k a] ! n)" if n: "n < length team" for n
    proof (cases "n = i")
      case True
      with me i len show ?thesis by simp
    next
      case False
      have "mb_key ?m \<noteq> mb_key (team ! n)"
        using team n i False by (simp add: team_ok_def distinct_conv_nth nth_map)
      from own_step_member [OF own this list_all2_nthD [OF all n]] False show ?thesis by simp
    qed
    then have "list_all2 (member_ok w') team (agents[i := k a])" using len by (simp add: list_all2_conv_all_nth)
    moreover have "total_held c (w_control w') \<le> C" using own used C team m by (simp add: own_step_def team_ok_def)
    moreover have "sound_world w'" using own by (simp add: own_step_def)
    ultimately show ?thesis
      unfolding step lab_inv_def using own_step_rows [OF own rows m] by simp
  qed
qed

lemma lab_run_inv:
  assumes "team_ok c C team" "in_cents C" "lab_inv c C team s" "list_all (calm_for team) xs"
  shows "lab_inv c C team (lab_run xs s)"
  using assms(3,4) unfolding lab_run_def
proof (induction xs arbitrary: s)
  case (Cons x xs)
  then have "lab_inv c C team (lab_step x s)" by (intro lab_step_inv [OF assms(1,2)]) auto
  with Cons show ?case by auto
qed simp

abbreviation start :: "member list \<Rightarrow> lab" where
  "start team \<equiv> (map mb_program team, empty_world)"

lemma lab_inv_start:
  assumes "team_ok c C team" "0 \<le> C"
  shows "lab_inv c C team (start team)"
proof -
  have "sound_world empty_world"
    using billing_inv_empty effect_inv_empty control_inv_empty
    by (simp add: sound_world_def empty_world_def billing_inv_def no_deadlines_def empty_control_def)
  moreover have empty: "hold_of (w_control empty_world) key = None" "\<not> landed j empty_world"
    "rows_ok team empty_world" "total_held c (w_control empty_world) = 0" for key j
    by (simp_all add: empty_world_def empty_control_def hold_of_def landed_def own_rows_def empty_billing_def
        empty_effect_db_def rows_ok_def total_held_def)
  moreover have "member_ok empty_world m (mb_program m)" if "m \<in> set team" for m
    using that assms(1) empty(1,2) unfolding member_ok_def team_ok_def by (intro exI [of _ Fresh]) auto
  ultimately show ?thesis
    using assms by (auto simp: lab_inv_def list_all2_conv_all_nth)
qed

section \<open>What the invariant says about the money\<close>

fun state_released :: "reservation option \<Rightarrow> bool" where
  "state_released None = False"
| "state_released (Some h) = (rv_state h = RELEASED)"

lemma state_released_Some: "state_released ho \<longleftrightarrow> (\<exists>h. ho = Some h \<and> rv_state h = RELEASED)"
  by (cases ho) auto

text \<open>The effects of a case whose hold has been released.\<close>

definition released_spend :: "string \<Rightarrow> world \<Rightarrow> decimal" where
  "released_spend c w =
     sum_where (\<lambda>r. ef_case r = c \<and> committed_state (ef_state r) \<and>
         state_released (hold_of (w_control w) (ef_key r))) ef_amount
       (effects (w_billing w) @ effects (w_ledger w))"

lemma lab_inv_distinct:
  assumes team: "team_ok c C team" and inv: "lab_inv c C team (agents, w)"
  shows "distinct (map ef_key (effects (w_billing w) @ effects (w_ledger w)))"
proof -
  have w: "sound_world w" and rows: "rows_ok team w" using inv by (auto simp: lab_inv_def)
  have same: "m = m'" if "m \<in> set team" "m' \<in> set team" "mb_key m = mb_key m'" for m m'
    using team that by (auto simp: team_ok_def distinct_map dest: inj_onD)
  have "ef_key r \<noteq> ef_key r'" if r: "r \<in> set (effects (w_billing w))" and r': "r' \<in> set (effects (w_ledger w))" for r r'
  proof
    assume eq: "ef_key r = ef_key r'"
    obtain m m' where "m \<in> set team" "cf_action (jb_config (mb_job m)) = ''refund''" "row_of_job r (mb_job m)"
      "m' \<in> set team" "cf_action (jb_config (mb_job m')) \<noteq> ''refund''" "row_of_job r' (mb_job m')"
      using rows r r' unfolding rows_ok_def by blast
    with same [of m m'] eq show False by (auto simp: row_of_job_def)
  qed
  then show ?thesis using w by (auto simp: sound_world_def effect_inv_def)
qed

text \<open>A landed effect is backed by a live hold of its amount, unless its hold was released.\<close>

lemma lab_inv_backed:
  assumes inv: "lab_inv c C team (agents, w)"
    and r: "r \<in> set (effects (w_billing w) @ effects (w_ledger w))"
  shows "\<exists>h m. hold_of (w_control w) (ef_key r) = Some h \<and> rv_amount h = ef_amount r \<and> rv_case h = ef_case r \<and>
    m \<in> set team \<and> (rv_state h = RELEASED \<longrightarrow> mb_discipline m = Bounded)"
proof -
  obtain m where m: "m \<in> set team" "row_of_job r (mb_job m)" "r \<in> set (own_rows (mb_job m) w)"
    using inv r unfolding lab_inv_def rows_ok_def own_rows_def by fastforce
  then have landed: "landed (mb_job m) w" by (auto simp: landed_def row_of_job_def)
  obtain i where i: "i < length team" "team ! i = m" using m(1) by (auto simp: in_set_conv_nth)
  then have "member_ok w m (agents ! i)" using inv list_all2_nthD by (fastforce simp: lab_inv_def)
  then obtain ph where "phase_ok (mb_discipline m) (mb_job m) ph (hold_of (w_control w) (mb_key m)) True"
    using landed by (auto simp: member_ok_def)
  from phase_ok_landed [OF this] m(1,2) show ?thesis by (auto simp: matches_def row_of_job_def)
qed

lemma lab_inv_total:
  assumes team: "team_ok c C team" and inv: "lab_inv c C team (agents, w)"
  shows "total_committed c (w_billing w) + total_committed c (w_ledger w) \<le> C + released_spend c w"
proof -
  let ?rows = "effects (w_billing w) @ effects (w_ledger w)"
  let ?own = "\<lambda>r. ef_case r = c \<and> committed_state (ef_state r)"
  let ?gone = "\<lambda>r. state_released (hold_of (w_control w) (ef_key r))"
  have k: "no_deadlines (w_control w)" and used: "total_held c (w_control w) \<le> C"
    using inv by (auto simp: lab_inv_def sound_world_def)
  have "sum_where (\<lambda>r. ?own r \<and> \<not> ?gone r) ef_amount ?rows \<le> total_held c (w_control w)"
  proof (rule authority.backed_sum [OF k lab_inv_distinct [OF team inv]])
    fix r assume r: "r \<in> set ?rows" "?own r \<and> \<not> ?gone r"
    obtain h where h: "hold_of (w_control w) (ef_key r) = Some h" "rv_amount h = ef_amount r" "rv_case h = ef_case r"
      using lab_inv_backed [OF inv r(1)] by blast
    with r(2) authority.lasting [OF k h(1)]
    show "\<exists>h. hold_of (w_control w) (ef_key r) = Some h \<and> rv_amount h = ef_amount r \<and> live c h"
      by (cases "rv_state h") (auto simp: live_def)
  qed
  moreover have "sum_where ?own ef_amount ?rows =
      sum_where (\<lambda>r. ?own r \<and> \<not> ?gone r) ef_amount ?rows + released_spend c w"
    unfolding released_spend_def by (intro sum_where_split) auto
  ultimately show ?thesis using used by (simp add: total_committed_def)
qed

lemma lab_inv_unreleased:
  assumes "lab_inv c C team (agents, w)" and "\<forall>m\<in>set team. mb_discipline m \<noteq> Bounded"
  shows "released_spend c w = 0"
  unfolding released_spend_def
proof (intro sum_where_none)
  fix r assume "r \<in> set (effects (w_billing w) @ effects (w_ledger w))"
  from lab_inv_backed [OF assms(1) this] assms(2)
  show "\<not> (ef_case r = c \<and> committed_state (ef_state r) \<and> state_released (hold_of (w_control w) (ef_key r)))"
    by (auto simp: state_released_Some)
qed

text \<open>The two conclusions, for any team that follows the protocol.\<close>

lemma team_bounded:
  assumes "team_ok c C team" "0 \<le> C" "in_cents C" "list_all (calm_for team) xs"
  shows "case lab_run xs (start team) of (agents, w) \<Rightarrow>
    total_committed c (w_billing w) + total_committed c (w_ledger w) \<le> C + released_spend c w"
  using lab_inv_total [OF assms(1)] lab_run_inv [OF assms(1,3) lab_inv_start [OF assms(1,2)] assms(4)]
  by (auto split: prod.split)

lemma team_clean:
  assumes team: "team_ok c C team" "0 \<le> C" "in_cents C" "list_all (calm_for team) xs"
    and careful: "\<forall>m\<in>set team. mb_discipline m \<noteq> Bounded"
  shows "case lab_run xs (start team) of (agents, w) \<Rightarrow>
    re_verdict (evaluate c C (w_billing w, w_ledger w)) = CLEAN \<and> released_spend c w = 0"
proof (cases "lab_run xs (start team)")
  case (Pair agents w)
  have inv: "lab_inv c C team (agents, w)"
    using lab_run_inv [OF team(1,3) lab_inv_start [OF team(1,2)] team(4)] by (simp add: Pair)
  show ?thesis
    using lab_inv_total [OF team(1) inv] lab_inv_unreleased [OF inv careful]
      distinct_keys_verdict [OF lab_inv_distinct [OF team(1) inv]] by (simp add: Pair)
qed

end
