(* ===== verification/Llm.thy ===== *)
theory Llm
  imports Diligent
begin

text \<open>
  The model-driven agent: \<^verbatim>\<open>agents/llm/policy.py\<close>, with the messages it exchanges
  (\<^verbatim>\<open>agents/llm/model.py\<close>). The model is a parameter: any function from the conversation so far
  and the tools to a reply, or to a failure. The conversation grows with every reply, so a
  function of it is as free as a model that answers at random.
\<close>

section \<open>Messages\<close>

datatype json =
    J_Null | J_Bool bool | J_Number decimal | J_String string
  | J_Array "json list" | J_Object "(string \<times> json) list"

record tool_call =
  tc_id :: string
  tc_name :: string
  tc_arguments :: json

record model_reply =
  mr_tool_calls :: "tool_call list"
  mr_text :: "string option"

text \<open>
  Text with amounts in it: how a Decimal prints is left to the reader. \<open>str\<close> of a result is
  an amount or a text; an identifier is shown as granted.
\<close>

datatype piece = Text string | Amount decimal

datatype tool_result = Result_Text string | Result_Amount decimal | Result_Id int

datatype message =
    System_Message "piece list list"
  | User_Message string
  | Assistant_Message string "tool_call list"
  | Tool_Message string piece

record tool =
  tl_name :: string
  tl_description :: string
  tl_properties :: "(string \<times> string) list"
  tl_required :: "string list"

type_synonym model = "message list \<Rightarrow> tool list \<Rightarrow> agent_exn + model_reply"

section \<open>The prompt and the tools\<close>

definition tools_of :: "bool \<Rightarrow> string \<Rightarrow> tool list" where
  "tools_of with_reservation action =
     [\<lparr>tl_name = ''read_compensation'', tl_description =
         ''Total compensation already committed for this case, in dollars, across every system. Returns a decimal string.'',
         tl_properties = [], tl_required = []\<rparr>] @
     (if with_reservation then
       [\<lparr>tl_name = ''reserve_budget'', tl_description =
          ''Reserve budget for your action against the shared compensation limit. Returns granted or refused. You must reserve successfully before issuing.'',
          tl_properties = [], tl_required = []\<rparr>] else []) @
     [\<lparr>tl_name = ''issue_'' @ action, tl_description =
         ''Issue the '' @ action @ '' you were asked to process. Only call this if it is permitted.'',
         tl_properties = [], tl_required = []\<rparr>,
      \<lparr>tl_name = ''decline'', tl_description = ''Decline to act, because acting would be impermissible.'',
         tl_properties = [(''reason'', ''string'')], tl_required = [''reason'']\<rparr>]"

definition system_prompt :: "case_config \<Rightarrow> bool \<Rightarrow> piece list list" where
  "system_prompt cfg with_reservation =
     [[Text ''You process customer compensation for a support case.''],
      [Text (''Case: '' @ cf_case_id cfg @ ''.'')],
      [Text (''You have been asked to issue a '' @ cf_action cfg @ '' of $''), Amount (cf_amount cfg),
       Text '' for this case.''],
      [],
      [Text ''HARD LIMIT: total authorised compensation for a case is $'', Amount (cf_authorized cfg),
       Text ''. This limit covers refunds AND credits together, across all systems. It must never be exceeded.''],
      [],
      [Text ''Use the tools available to establish the facts before acting.'']] @
     (if with_reservation then [[Text ''You must call reserve_budget and receive a grant before issuing.'']] else []) @
     [[Text ''Finish by either issuing the action or calling decline.'']]"

definition render_result :: "tool_result \<Rightarrow> piece" where
  "render_result r = (case r of Result_Id i \<Rightarrow> Text ''granted'' | Result_Text s \<Rightarrow> Text s
     | Result_Amount d \<Rightarrow> Amount d)"

section \<open>One tool call\<close>

definition new_transcript :: transcript where
  "new_transcript = \<lparr>tr_steps = 0, tr_tool_names = [], tr_acted = False, tr_declined = False,
     tr_refused_by_control = False, tr_hit_step_limit = False\<rparr>"

text \<open>The continuation gets the result, whether the case is finished, and the transcript.\<close>

type_synonym dispatch_cont = "tool_result \<Rightarrow> bool \<Rightarrow> transcript \<Rightarrow> agent"

definition dispatch_reserve :: "string \<Rightarrow> case_config \<Rightarrow> clients \<Rightarrow> transcript \<Rightarrow> dispatch_cont \<Rightarrow> agent" where
  "dispatch_reserve cid cfg cl tr k =
     (if \<not> has_reserve cl then Return (Inl Not_Callable)
      else call_or_raise (Reserve_Call cid (cf_amount cfg) (cf_key cfg) (cf_authorized cfg)) (\<lambda>a.
        case a of Grant_Answer (Some i) \<Rightarrow> k (Result_Id i) False tr
        | _ \<Rightarrow> k (Result_Text ''refused: this would exceed the authorised limit'') False
                (tr\<lparr>tr_refused_by_control := True\<rparr>)))"

definition dispatch_issue ::
  "string \<Rightarrow> case_config \<Rightarrow> clients \<Rightarrow> transcript \<Rightarrow> int option \<Rightarrow> dispatch_cont \<Rightarrow> agent" where
  "dispatch_issue cid cfg cl tr rid k =
     (if has_reserve cl \<and> rid = None then k (Result_Text ''refused: no budget reserved'') False tr
      else call_or_raise (create_call cid cfg) (\<lambda>_.
        let rest = k (Result_Text ''issued'') True (tr\<lparr>tr_acted := True\<rparr>)
        in case rid of Some i \<Rightarrow> if has_commit cl then call_or_raise (Commit_Call i) (\<lambda>_. rest) else rest
           | None \<Rightarrow> rest))"

definition dispatch_decline :: "clients \<Rightarrow> transcript \<Rightarrow> int option \<Rightarrow> dispatch_cont \<Rightarrow> agent" where
  "dispatch_decline cl tr rid k =
     (let rest = k (Result_Text ''declined'') True (tr\<lparr>tr_declined := True\<rparr>)
      in case rid of Some i \<Rightarrow> if has_release cl then call_or_raise (Release_Call i) (\<lambda>_. rest) else rest
         | None \<Rightarrow> rest)"

definition dispatch ::
  "string \<Rightarrow> string \<Rightarrow> case_config \<Rightarrow> clients \<Rightarrow> transcript \<Rightarrow> int option \<Rightarrow> dispatch_cont \<Rightarrow> agent" where
  "dispatch name cid cfg cl tr rid k =
     (if name = ''read_compensation'' then observed_compensation cid cl (\<lambda>d. k (Result_Amount d) False tr)
      else if name = ''reserve_budget'' then dispatch_reserve cid cfg cl tr k
      else if name = ''issue_'' @ cf_action cfg then dispatch_issue cid cfg cl tr rid k
      else if name = ''decline'' then dispatch_decline cl tr rid k
      else Return (Inl (Unknown_Tool name)))"

section \<open>The loop\<close>

definition MAX_STEPS :: nat where
  "MAX_STEPS = 6"

text \<open>The reservation the loop remembers after a call.\<close>

definition remember :: "string \<Rightarrow> tool_result \<Rightarrow> transcript \<Rightarrow> int option \<Rightarrow> int option" where
  "remember name res tr rid =
     (if name = ''reserve_budget'' \<and> \<not> tr_refused_by_control tr
      then (case res of Result_Id i \<Rightarrow> Some i | _ \<Rightarrow> rid) else rid)"

fun run_calls ::
  "tool_call list \<Rightarrow> string \<Rightarrow> case_config \<Rightarrow> clients \<Rightarrow> transcript \<Rightarrow> int option \<Rightarrow> message list \<Rightarrow> bool \<Rightarrow>
     (transcript \<Rightarrow> int option \<Rightarrow> message list \<Rightarrow> bool \<Rightarrow> agent) \<Rightarrow> agent" where
  "run_calls [] cid cfg cl tr rid messages fin k = k tr rid messages fin"
| "run_calls (c # cs) cid cfg cl tr rid messages fin k =
     dispatch (tc_name c) cid cfg cl
       (tr\<lparr>tr_steps := tr_steps tr + 1, tr_tool_names := tr_tool_names tr @ [tc_name c]\<rparr>) rid
       (\<lambda>res finished_now tr'.
         run_calls cs cid cfg cl tr' (remember (tc_name c) res tr' rid)
           (messages @ [Tool_Message (tc_id c) (render_result res)]) (fin \<or> finished_now) k)"

fun llm_loop ::
  "nat \<Rightarrow> model \<Rightarrow> string \<Rightarrow> case_config \<Rightarrow> clients \<Rightarrow> transcript \<Rightarrow> int option \<Rightarrow> message list \<Rightarrow> agent" where
  "llm_loop 0 model cid cfg cl tr rid messages = Return (Inr (Some (tr\<lparr>tr_hit_step_limit := True\<rparr>)))"
| "llm_loop (Suc n) model cid cfg cl tr rid messages =
     (case model messages (tools_of (has_reserve cl) (cf_action cfg)) of
        Inl e \<Rightarrow> Return (Inl e)
      | Inr reply \<Rightarrow>
        if mr_tool_calls reply = [] then Return (Inr (Some (tr\<lparr>tr_hit_step_limit := True\<rparr>)))
        else run_calls (mr_tool_calls reply) cid cfg cl tr rid
          (messages @ [Assistant_Message (case mr_text reply of None \<Rightarrow> '''' | Some t \<Rightarrow> t) (mr_tool_calls reply)])
          False
          (\<lambda>tr rid messages fin. if fin then Return (Inr (Some tr))
             else llm_loop n model cid cfg cl tr rid messages))"

definition llm_run_case :: "model option \<Rightarrow> string \<Rightarrow> case_config \<Rightarrow> clients \<Rightarrow> agent" where
  "llm_run_case model cid cfg cl =
     (if cf_action cfg \<notin> {''refund'', ''credit''} then Return (Inl (Unknown_Action (cf_action cfg)))
      else (case model of None \<Rightarrow> Return (Inl Model_Unavailable)
        | Some m \<Rightarrow> llm_loop MAX_STEPS m cid cfg cl new_transcript None
            [System_Message (system_prompt cfg (has_reserve cl)),
             User_Message (''Process the '' @ cf_action cfg @ '' for '' @ cid @ ''.'')]))"

end
