(* ===== verification/Teams.thy ===== *)
theory Teams
  imports Coordination Llm
begin

text \<open>
  The laboratory's two kinds of agents keep the protocol of \<open>Coordination\<close>: the deterministic one
  trusts that a failed call did nothing, the model-driven one never releases after an attempt to
  act, unless the model declines and issues in one reply. The theorems put any mixture of them
  in one team.
\<close>

section \<open>The deterministic agent\<close>

lemma follows_observed:
  assumes "\<And>t. follows d j (k t) ph"
  shows "follows d j (observed_compensation cid cl k) ph"
  unfolding observed_compensation_def by (auto intro!: follows_call_or_raise assms)

lemma follows_settle: "ph = Holding i \<or> ph = Spent i \<Longrightarrow> follows d j (settle_hold cl (Some i)) ph"
  unfolding settle_hold_def by (auto intro!: follows_call_or_raise simp: holds_id_def)

lemma follows_unwind:
  assumes "ph = Holding i \<or> ph = Spent i" "ph = Spent i \<Longrightarrow> d = Bounded \<or> \<not> has_release cl"
  shows "follows d j (unwind_hold cl (Some i) e) ph"
  unfolding unwind_hold_def using assms by (auto intro!: follows_call_or_raise simp: holds_id_def)

lemma follows_create:
  assumes ph: "ph = Holding i \<or> ph = Spent i"
    and ok: "\<And>a. (\<And>e. a \<noteq> Raised e) \<Longrightarrow> follows d j (k a) (Spent i)"
    and err: "\<And>e. follows d j (k (Raised e)) (if d = Strict then Spent i else ph)"
  shows "follows d j (Call (create_call (jb_case j) (jb_config j)) k) ph"
proof -
  have "follows d j (k a) (after d ph (create_call (jb_case j) (jb_config j)) a)" for a
    using ph ok [of a] err by (cases a) (auto simp: create_call_def)
  with ph show ?thesis by (auto simp: create_call_def)
qed

lemma follows_act:
  assumes ph: "if d = Bounded then ph = Spent i else ph = Holding i"
    and d: "d = Strict \<Longrightarrow> \<not> has_release (jb_clients j)"
  shows "follows d j (act (jb_case j) (jb_config j) (jb_clients j) (Some i)) ph"
proof -
  have ph': "ph = Holding i \<or> ph = Spent i" using ph by (auto split: if_splits)
  have unwind: "follows d j (unwind_hold (jb_clients j) (Some i) e) (if d = Strict then Spent i else ph)" for e
    using ph d by (intro follows_unwind) (auto split: if_splits)
  have settle: "follows d j (case a of Raised e \<Rightarrow> f e | _ \<Rightarrow> settle_hold (jb_clients j) (Some i)) (Spent i)"
    if "\<And>e. a \<noteq> Raised e" for a and f :: "agent_exn \<Rightarrow> agent"
    using that follows_settle [of "Spent i" i] by (auto split: answer.split)
  have second: "follows d j (second_try (jb_case j) (jb_config j) (jb_clients j) (Some i))
      (if d = Strict then Spent i else ph)"
    unfolding second_try_def
    by (rule follows_create) (use ph' settle unwind in \<open>auto split: if_splits\<close>)
  show ?thesis
    unfolding act_def
    by (rule follows_create) (use ph' settle unwind second in \<open>auto split: if_splits\<close>)
qed

lemma follows_run_case:
  assumes "has_reserve (jb_clients j)" and d: "d = Strict \<Longrightarrow> \<not> has_release (jb_clients j)"
  shows "follows d j (run_case (jb_case j) (jb_config j) (jb_clients j)) Fresh"
proof -
  have "follows d j (ask_for_hold (jb_case j) (jb_config j) (jb_clients j)) Fresh"
    unfolding ask_for_hold_def
  proof (rule follows_call_or_raise)
    fix a :: answer
    assume "\<And>e. a \<noteq> Raised e"
    with follows_act [of d _ _ j] d
    show "follows d j (case a of Grant_Answer (Some i) \<Rightarrow>
            if cf_abandon_after_reserve (jb_config j) then Return (Inr None)
            else act (jb_case j) (jb_config j) (jb_clients j) (Some i) | _ \<Rightarrow> Return (Inr None))
        (after d Fresh (Reserve_Call (jb_case j) (cf_amount (jb_config j)) (jb_key j) (cf_authorized (jb_config j))) a)"
      by (cases a) (auto split: option.split)
  qed simp
  then show ?thesis
    using assms(1) unfolding run_case_def decide_def
    by (auto intro!: follows_call_or_raise follows_observed)
qed

section \<open>The model-driven agent\<close>

definition issue_name :: "job \<Rightarrow> string" where
  "issue_name j = ''issue_'' @ cf_action (jb_config j)"

text \<open>No reply of the model both issues and declines.\<close>

definition single_minded :: "string list \<Rightarrow> string \<Rightarrow> bool" where
  "single_minded names issue \<longleftrightarrow> \<not> (issue \<in> set names \<and> ''decline'' \<in> set names)"

definition prudent :: "string \<Rightarrow> model \<Rightarrow> bool" where
  "prudent action m \<longleftrightarrow> (\<forall>messages tools. case m messages tools of Inl e \<Rightarrow> True
     | Inr reply \<Rightarrow> single_minded (map tc_name (mr_tool_calls reply)) (''issue_'' @ action))"

text \<open>Before it acted or declined; and in the rest of the reply in which it did.\<close>

definition undecided :: "discipline \<Rightarrow> phase \<Rightarrow> int option \<Rightarrow> bool" where
  "undecided d ph rid \<longleftrightarrow> ph = Fresh \<and> rid = None \<or>
     (\<exists>i. ph = (if d = Bounded then Spent i else Holding i) \<and> (rid = None \<or> rid = Some i))"

definition in_reply :: "discipline \<Rightarrow> job \<Rightarrow> string list \<Rightarrow> phase \<Rightarrow> int option \<Rightarrow> bool \<Rightarrow> bool" where
  "in_reply d j names ph rid fin \<longleftrightarrow> undecided d ph rid \<or>
     d \<noteq> Bounded \<and> fin \<and> (\<exists>i. rid = Some i \<and>
       (ph = Spent i \<and> ''decline'' \<notin> set names \<or> ph = Freed i \<and> issue_name j \<notin> set names))"

lemma in_reply_tail: "in_reply d j (n # names) ph rid fin \<Longrightarrow> in_reply d j names ph rid (fin \<or> b)"
  by (auto simp: in_reply_def)

lemma remember_other [simp]: "name \<noteq> ''reserve_budget'' \<Longrightarrow> remember name res tr rid = rid"
  by (simp add: remember_def)

lemma remember_text [simp]: "remember name (Result_Text s) tr rid = rid"
  by (simp add: remember_def)

lemma remember_id: "remember ''reserve_budget'' (Result_Id i) tr rid = (if tr_refused_by_control tr then rid else Some i)"
  by (simp add: remember_def)

lemma follows_dispatch_reserve:
  assumes "has_reserve (jb_clients j)" and st: "in_reply d j (''reserve_budget'' # names) ph rid fin"
    and k: "\<And>res tr' ph'. in_reply d j names ph' (remember ''reserve_budget'' res tr' rid) fin \<Longrightarrow>
      follows d j (k res False tr') ph'"
  shows "follows d j (dispatch_reserve (jb_case j) (jb_config j) (jb_clients j) tr k) ph"
proof -
  let ?c = "Reserve_Call (jb_case j) (cf_amount (jb_config j)) (jb_key j) (cf_authorized (jb_config j))"
  have "follows d j (case a of Grant_Answer (Some i) \<Rightarrow> k (Result_Id i) False tr
        | _ \<Rightarrow> k (Result_Text ''refused: this would exceed the authorised limit'') False
                (tr\<lparr>tr_refused_by_control := True\<rparr>)) (after d ph ?c a)"
    if a: "\<And>e. a \<noteq> Raised e" and p: "possible ph ?c a" for a
  proof (cases "\<exists>i. a = Grant_Answer (Some i)")
    case True
    then obtain i where i: "a = Grant_Answer (Some i)" by blast
    have "in_reply d j names (after d ph ?c a) (remember ''reserve_budget'' (Result_Id i) tr rid) fin"
      using st p by (cases "d = Bounded") (auto simp: i remember_id in_reply_def undecided_def holds_id_def)
    then show ?thesis using k by (simp add: i)
  next
    case False
    with a p have n: "a = Grant_Answer None" by (auto split: answer.splits option.splits)
    have "in_reply d j names (after d ph ?c a) rid fin"
      using st p by (cases "d = Bounded") (auto simp: n in_reply_def undecided_def)
    then show ?thesis using k by (simp add: n)
  qed
  then show ?thesis using assms(1) by (auto simp: dispatch_reserve_def intro!: follows_call_or_raise)
qed

lemma follows_dispatch_issue:
  assumes reserve: "has_reserve (jb_clients j)" and st: "in_reply d j (issue_name j # names) ph rid fin"
    and sm: "d \<noteq> Bounded \<Longrightarrow> single_minded (issue_name j # names) (issue_name j)"
    and k: "\<And>res fn tr' ph'. in_reply d j names ph' rid (fin \<or> fn) \<Longrightarrow> follows d j (k res fn tr') ph'"
  shows "follows d j (dispatch_issue (jb_case j) (jb_config j) (jb_clients j) tr rid k) ph"
proof (cases rid)
  case None
  then show ?thesis using reserve k in_reply_tail [OF st, of False] by (simp add: dispatch_issue_def)
next
  case (Some i)
  have ph: "ph = Holding i \<or> ph = Spent i" using st Some by (auto simp: in_reply_def undecided_def split: if_splits)
  have "in_reply d j names (Spent i) rid (fin \<or> True)"
    using sm Some by (cases "d = Bounded") (auto simp: in_reply_def undecided_def single_minded_def)
  then have rest: "follows d j (k (Result_Text ''issued'') True (tr\<lparr>tr_acted := True\<rparr>)) (Spent i)" by (rule k)
  have aft: "after d ph (create_call (jb_case j) (jb_config j)) a = Spent i" if "\<And>e. a \<noteq> Raised e" for a
    using that ph by (cases a) (auto simp: create_call_def)
  have "allowed d j ph (create_call (jb_case j) (jb_config j))" using ph by (auto simp: create_call_def)
  then show ?thesis
    unfolding dispatch_issue_def using rest aft
    by (auto simp: Some Let_def holds_id_def intro!: follows_call_or_raise)
qed

lemma follows_dispatch_decline:
  assumes st: "in_reply d j (''decline'' # names) ph rid fin"
    and sm: "d \<noteq> Bounded \<Longrightarrow> single_minded (''decline'' # names) (issue_name j)"
    and k: "\<And>res fn tr' ph'. in_reply d j names ph' rid (fin \<or> fn) \<Longrightarrow> follows d j (k res fn tr') ph'"
  shows "follows d j (dispatch_decline (jb_clients j) tr rid k) ph"
proof -
  have rest: "follows d j (k (Result_Text ''declined'') True (tr\<lparr>tr_declined := True\<rparr>)) ph'"
    if "in_reply d j names ph' rid (fin \<or> True)" for ph' using that by (rule k)
  show ?thesis
  proof (cases "rid \<noteq> None \<and> has_release (jb_clients j)")
    case False
    then show ?thesis
      using rest [OF in_reply_tail [OF st]] by (auto simp: dispatch_decline_def Let_def split: option.split)
  next
    case True
    then obtain i where i: "rid = Some i" by blast
    have "allowed d j ph (Release_Call i)"
      using st by (auto simp: i in_reply_def undecided_def holds_id_def split: if_splits)
    moreover have "in_reply d j names (after d ph (Release_Call i) a) rid (fin \<or> True)" for a
      using st sm i by (auto simp: in_reply_def undecided_def single_minded_def split: if_splits)
    ultimately show ?thesis
      using True i rest by (auto simp: dispatch_decline_def Let_def intro!: follows_call_or_raise)
  qed
qed

lemma issue_name_distinct [simp]:
  "issue_name j \<noteq> ''read_compensation''" "issue_name j \<noteq> ''reserve_budget''" "issue_name j \<noteq> ''decline''"
  by (simp_all add: issue_name_def)

lemma follows_dispatch:
  assumes "has_reserve (jb_clients j)" and st: "in_reply d j (name # names) ph rid fin"
    and sm: "d \<noteq> Bounded \<Longrightarrow> single_minded (name # names) (issue_name j)"
    and k: "\<And>res fn tr' ph'. in_reply d j names ph' (remember name res tr' rid) (fin \<or> fn) \<Longrightarrow>
      follows d j (k res fn tr') ph'"
  shows "follows d j (dispatch name (jb_case j) (jb_config j) (jb_clients j) tr rid k) ph"
proof -
  consider "name = ''read_compensation''" | "name = ''reserve_budget''" | "name = issue_name j"
    | "name = ''decline''" | "name \<notin> {''read_compensation'', ''reserve_budget'', issue_name j, ''decline''}" by blast
  then show ?thesis
  proof cases
    case 1
    then show ?thesis
      using k in_reply_tail [OF st, of False] by (auto simp: dispatch_def intro!: follows_observed)
  next
    case 2
    show ?thesis
      using follows_dispatch_reserve [OF assms(1) st [unfolded 2], of k tr] k [where fn = False] 2 by (simp add: dispatch_def)
  next
    case 3
    show ?thesis
      using follows_dispatch_issue [OF assms(1) st [unfolded 3] sm [unfolded 3], of k tr] k 3 issue_name_distinct [of j]
      by (simp add: dispatch_def issue_name_def)
  next
    case 4
    show ?thesis
      using follows_dispatch_decline [OF st [unfolded 4] sm [unfolded 4], of k tr] k 4 by (simp add: dispatch_def)
  next
    case 5
    then show ?thesis by (simp add: dispatch_def issue_name_def)
  qed
qed

lemma follows_run_calls:
  assumes "has_reserve (jb_clients j)"
    and "in_reply d j (map tc_name cs) ph rid fin"
    and "d \<noteq> Bounded \<Longrightarrow> single_minded (map tc_name cs) (issue_name j)"
    and k: "\<And>tr rid messages fin ph. fin \<or> undecided d ph rid \<Longrightarrow> follows d j (k tr rid messages fin) ph"
  shows "follows d j (run_calls cs (jb_case j) (jb_config j) (jb_clients j) tr rid messages fin k) ph"
  using assms(2,3)
proof (induction cs arbitrary: tr rid messages fin ph)
  case Nil
  then show ?case using k by (auto simp: in_reply_def)
next
  case (Cons c cs)
  have sm: "d \<noteq> Bounded \<Longrightarrow> single_minded (map tc_name cs) (issue_name j)"
    using Cons.prems(2) by (auto simp: single_minded_def)
  show ?case
    unfolding run_calls.simps
    by (rule follows_dispatch [OF assms(1)]) (use Cons.prems sm in \<open>auto intro!: Cons.IH\<close>)
qed

lemma follows_llm_loop:
  assumes "has_reserve (jb_clients j)" "d \<noteq> Bounded \<Longrightarrow> prudent (cf_action (jb_config j)) m"
    and "undecided d ph rid"
  shows "follows d j (llm_loop n m (jb_case j) (jb_config j) (jb_clients j) tr rid messages) ph"
  using assms(3)
proof (induction n arbitrary: tr rid messages ph)
  case (Suc n)
  show ?case
  proof (cases "m messages (tools_of (has_reserve (jb_clients j)) (cf_action (jb_config j)))")
    case (Inr reply)
    have "d \<noteq> Bounded \<Longrightarrow> single_minded (map tc_name (mr_tool_calls reply)) (issue_name j)"
      using assms(2) Inr by (fastforce simp: prudent_def issue_name_def split: sum.splits)
    then show ?thesis
      using Suc by (auto simp: Inr in_reply_def intro!: follows_run_calls [OF assms(1)])
  qed simp
qed simp

lemma follows_llm:
  assumes "has_reserve (jb_clients j)" "d \<noteq> Bounded \<Longrightarrow> \<forall>m. model = Some m \<longrightarrow> prudent (cf_action (jb_config j)) m"
  shows "follows d j (llm_run_case model (jb_case j) (jb_config j) (jb_clients j)) Fresh"
  using assms unfolding llm_run_case_def
  by (auto split: option.split intro!: follows_llm_loop simp: undecided_def)

section \<open>Teams\<close>

definition services_total :: "string \<Rightarrow> world \<Rightarrow> decimal" where
  "services_total c w = total_committed c (w_billing w) + total_committed c (w_ledger w)"

datatype seat = Diligent_Seat job | Llm_Seat "model option" job

fun seat_job :: "seat \<Rightarrow> job" where
  "seat_job (Diligent_Seat j) = j"
| "seat_job (Llm_Seat model j) = j"

fun seat_program :: "seat \<Rightarrow> agent" where
  "seat_program (Diligent_Seat j) = run_case (jb_case j) (jb_config j) (jb_clients j)"
| "seat_program (Llm_Seat model j) = llm_run_case model (jb_case j) (jb_config j) (jb_clients j)"

text \<open>Every agent has the reservation client, no two use the same key, and \<open>C\<close> is the ceiling of the case.\<close>

definition seats_ok :: "string \<Rightarrow> decimal \<Rightarrow> seat list \<Rightarrow> bool" where
  "seats_ok c C seats \<longleftrightarrow> distinct (map (\<lambda>x. jb_key (seat_job x)) seats) \<and> 0 \<le> C \<and> in_cents C \<and>
     list_all (\<lambda>x. has_reserve (jb_clients (seat_job x)) \<and>
       (jb_case (seat_job x) = c \<longrightarrow> cf_authorized (jb_config (seat_job x)) \<le> C)) seats"

text \<open>
  The seats that can release the hold of an effect that landed: a deterministic agent whose
  acknowledgement is lost, and a model that declines and issues in one reply.
\<close>

fun harmless_under :: "seat \<Rightarrow> conditions \<Rightarrow> bool" where
  "harmless_under (Diligent_Seat j) co \<longleftrightarrow> has_release (jb_clients j) \<longrightarrow> no_lost_ack co"
| "harmless_under (Llm_Seat model j) co \<longleftrightarrow> True"

fun prudent_seat :: "seat \<Rightarrow> bool" where
  "prudent_seat (Diligent_Seat j) = True"
| "prudent_seat (Llm_Seat None j) = True"
| "prudent_seat (Llm_Seat (Some m) j) = prudent (cf_action (jb_config j)) m"

definition run_seats :: "seat list \<Rightarrow> (nat \<times> conditions) list \<Rightarrow> world" where
  "run_seats seats xs = snd (lab_run xs (map seat_program seats, empty_world))"

definition member_of :: "(seat \<Rightarrow> discipline) \<Rightarrow> seat \<Rightarrow> member" where
  "member_of f x = \<lparr>mb_job = seat_job x, mb_program = seat_program x, mb_discipline = f x\<rparr>"

lemma member_of_simps [simp]:
  "mb_job (member_of f x) = seat_job x" "mb_program (member_of f x) = seat_program x"
  "mb_discipline (member_of f x) = f x"
  by (simp_all add: member_of_def)

definition careful_discipline :: "seat \<Rightarrow> discipline" where
  "careful_discipline x = (case x of Diligent_Seat j \<Rightarrow> if has_release (jb_clients j) then Trusting else Strict
     | Llm_Seat model j \<Rightarrow> Strict)"

lemma team_of_seats:
  assumes "seats_ok c C seats"
    and "\<And>x. x \<in> set seats \<Longrightarrow> follows (f x) (seat_job x) (seat_program x) Fresh"
  shows "team_ok c C (map (member_of f) seats)"
  using assms by (auto simp: team_ok_def seats_ok_def list_all_iff comp_def)

lemma follows_bounded: "has_reserve (jb_clients (seat_job x)) \<Longrightarrow> follows Bounded (seat_job x) (seat_program x) Fresh"
  by (cases x) (auto intro: follows_run_case follows_llm)

lemma follows_careful:
  assumes "has_reserve (jb_clients (seat_job x))" "prudent_seat x"
  shows "follows (careful_discipline x) (seat_job x) (seat_program x) Fresh"
proof (cases x)
  case (Diligent_Seat j)
  then show ?thesis using assms by (auto simp: careful_discipline_def intro!: follows_run_case)
next
  case (Llm_Seat model j)
  have "\<forall>m. model = Some m \<longrightarrow> prudent (cf_action (jb_config j)) m"
    using assms(2) by (cases model) (auto simp: Llm_Seat)
  then show ?thesis using assms by (auto simp: careful_discipline_def Llm_Seat intro!: follows_llm)
qed

end
