(* ===== verification/Races.thy ===== *)
theory Races
  imports Teams
begin

text \<open>
  Runs of two agents, one refunding through Billing and one crediting through Ledger, each within
  its authority: what happens without coordination, and what undoes it. With exact views
  agents that run one after the other are safe; that theorem is the other half of the
  comparison the laboratory makes.
\<close>

section \<open>Two agents\<close>

definition direct_clients :: clients where
  "direct_clients = \<lparr>has_crm = False, has_reserve = False, has_release = False, has_commit = False\<rparr>"

definition crm_clients :: clients where
  "crm_clients = direct_clients\<lparr>has_crm := True\<rparr>"

definition coordinated_clients :: clients where
  "coordinated_clients = \<lparr>has_crm = False, has_reserve = True, has_release = True, has_commit = True\<rparr>"

definition a_job :: "clients \<Rightarrow> string \<Rightarrow> string \<Rightarrow> bool \<Rightarrow> decimal \<Rightarrow> decimal \<Rightarrow> job" where
  "a_job cl actor action retry amount C = \<lparr>jb_config = \<lparr>cf_case_id = ''c'', cf_actor_id = actor,
     cf_schedule_id = ''S'', cf_action = action, cf_amount = amount, cf_key = actor, cf_authorized = C,
     cf_retry_on_failure = retry, cf_abandon_after_reserve = False\<rparr>, jb_clients = cl\<rparr>"

definition two_seats :: "clients \<Rightarrow> bool \<Rightarrow> decimal \<Rightarrow> decimal \<Rightarrow> decimal \<Rightarrow> seat list" where
  "two_seats cl retry a b C =
     [Diligent_Seat (a_job cl ''A'' ''refund'' retry a C), Diligent_Seat (a_job cl ''B'' ''credit'' retry b C)]"

definition calm :: "string \<Rightarrow> conditions" where
  "calm actor = \<lparr>co_fate = Delivered, co_now = 0, co_env = open_env actor, co_cp = (\<lambda>name. None)\<rparr>"

definition calm_steps :: "nat \<Rightarrow> nat \<Rightarrow> (nat \<times> conditions) list" where
  "calm_steps n i = replicate n (i, calm ''A'')"

text \<open>Conditions in which exactly the reply is lost.\<close>

definition reply_lost :: conditions where
  "reply_lost = (calm ''A'')\<lparr>co_fate := Reply_Lost\<rparr>"

definition verdict_of :: "decimal \<Rightarrow> world \<Rightarrow> verdict \<times> decimal" where
  "verdict_of C w = (re_verdict (evaluate ''c'' C (w_billing w, w_ledger w)),
     re_overage (evaluate ''c'' C (w_billing w, w_ledger w)))"

definition breaching :: "decimal \<Rightarrow> decimal \<Rightarrow> decimal \<Rightarrow> bool" where
  "breaching a b C \<longleftrightarrow> 0 < a \<and> 0 < b \<and> a \<le> C \<and> b \<le> C \<and> C < a + b \<and>
     numeric_12_2 a = Some a \<and> numeric_12_2 b = Some b"

lemma breaching_600_500: "breaching 600 500 1000"
  by (simp add: breaching_def numeric_12_2_def round2_in_cents)

lemmas race_eval = run_seats_def lab_run_def lab_step_def perform_def run_case_def call_or_raise_def
  observed_compensation_def decide_def act_def second_try_def settle_hold_def unwind_hold_def
  ask_for_hold_def create_call_def answer_of_reply_def answer_of_grant_def empty_world_def
  a_job_def two_seats_def direct_clients_def crm_clients_def coordinated_clients_def calm_def calm_steps_def
  numeral_eq_Suc list_refunds_def list_credits_def get_compensation_def empty_crm_def

lemmas race_verdict = verdict_of_def distinct_keys_verdict evaluate_overage authoritative_total_def
  breaching_def reply_lost_def race_eval services_eval

section \<open>Models\<close>

text \<open>A model that goes through a script of replies, a list of tool names per reply.\<close>

definition replies_so_far :: "message list \<Rightarrow> nat" where
  "replies_so_far messages =
     length (filter (\<lambda>m. case m of Assistant_Message t cs \<Rightarrow> True | _ \<Rightarrow> False) messages)"

definition scripted :: "string list list \<Rightarrow> model" where
  "scripted script messages tools =
     Inr \<lparr>mr_tool_calls = (if replies_so_far messages < length script
        then map (\<lambda>n. \<lparr>tc_id = n, tc_name = n, tc_arguments = J_Object []\<rparr>) (script ! replies_so_far messages) else []),
       mr_text = None\<rparr>"

lemma prudent_scripted:
  assumes "list_all (\<lambda>names. single_minded names (''issue_'' @ action)) script"
  shows "prudent action (scripted script)"
  using assms by (auto simp: prudent_def scripted_def list_all_length comp_def single_minded_def)

lemmas llm_eval = llm_run_case_def MAX_STEPS_def dispatch_def dispatch_reserve_def dispatch_issue_def
  dispatch_decline_def remember_def new_transcript_def render_result_def scripted_def replies_so_far_def Let_def

definition llm_seat :: "string list list \<Rightarrow> string \<Rightarrow> string \<Rightarrow> decimal \<Rightarrow> decimal \<Rightarrow> seat" where
  "llm_seat script actor action amount C =
     Llm_Seat (Some (scripted script)) (a_job coordinated_clients actor action False amount C)"

text \<open>
  A deterministic agent and a model; the model's acknowledgement is lost after its effect landed,
  and the deterministic agent asks last.
\<close>

definition mixed_seats :: "seat list" where
  "mixed_seats = [llm_seat [[''read_compensation'', ''reserve_budget''], [''issue_refund'']] ''A'' ''refund'' 600 1000,
     Diligent_Seat (a_job coordinated_clients ''B'' ''credit'' False 500 1000)]"

definition mixed_run :: "(nat \<times> conditions) list" where
  "mixed_run = calm_steps 4 1 @ calm_steps 3 0 @ [(0, reply_lost)] @ calm_steps 3 1"

lemma mixed_seats_ok: "seats_ok ''c'' 1000 mixed_seats"
  by (simp add: seats_ok_def mixed_seats_def llm_seat_def a_job_def coordinated_clients_def)

section \<open>Properties\<close>

lemma seats_bounded:
  assumes "seats_ok c C seats"
  shows "total_committed c (w_billing (run_seats seats xs)) + total_committed c (w_ledger (run_seats seats xs))
    \<le> C + released_spend c (run_seats seats xs)"
proof -
  let ?team = "map (member_of (\<lambda>_. Bounded)) seats"
  have "team_ok c C ?team"
    using assms by (intro team_of_seats) (auto simp: seats_ok_def list_all_iff intro!: follows_bounded)
  moreover have "list_all (calm_for ?team) xs" by (auto simp: list_all_iff calm_for_def)
  ultimately show ?thesis
    using assms team_bounded [of c C ?team xs]
    by (simp add: seats_ok_def run_seats_def comp_def split: prod.splits)
qed

text \<open>
  C11. Reservations bound the damage. Take any number of agents that all have the reservation
  client, deterministic or model-driven with any model at all, and assume that no two of them use
  the same idempotency key (under a shared key a second action of another kind replays the first one's hold), and
  that those working on the case name a ceiling of at most \<open>C\<close>, a non-negative whole number of
  cents. Then in whatever order their calls are interleaved, one call one step, whichever requests and replies
  are lost and wherever an agent stops, the committed total of the case over both services
  exceeds \<open>C\<close> by at most the effects whose own hold was released. A request that the client has
  given up does not land later.
\<close>

theorem reservations_bound_the_damage:
  assumes "seats_ok c C seats"
  shows "total_committed c (w_billing (run_seats seats xs)) + total_committed c (w_ledger (run_seats seats xs))
    \<le> C + released_spend c (run_seats seats xs)"
  by (rule seats_bounded [OF assms])

theorem reservations_bound_the_damage_witness:
  "total_committed ''c'' (w_billing (run_seats mixed_seats mixed_run)) +
     total_committed ''c'' (w_ledger (run_seats mixed_seats mixed_run))
   \<le> 1000 + released_spend ''c'' (run_seats mixed_seats mixed_run)"
  by (rule reservations_bound_the_damage [OF mixed_seats_ok])

lemma careful_seats_are_clean:
  assumes "seats_ok c C seats" and "\<forall>x\<in>set seats. prudent_seat x"
    and "\<forall>(i, co)\<in>set xs. i < length seats \<longrightarrow> harmless_under (seats ! i) co"
  shows "re_verdict (evaluate c C (w_billing (run_seats seats xs), w_ledger (run_seats seats xs))) = CLEAN
   \<and> released_spend c (run_seats seats xs) = 0"
proof -
  let ?team = "map (member_of careful_discipline) seats"
  have "team_ok c C ?team"
    using assms(1,2) by (intro team_of_seats) (auto simp: seats_ok_def list_all_iff intro!: follows_careful)
  moreover have "list_all (calm_for ?team) xs"
    using assms(3) by (fastforce simp: list_all_iff calm_for_def careful_discipline_def split: seat.splits if_splits)
  moreover have "\<forall>m\<in>set ?team. mb_discipline m \<noteq> Bounded"
    by (auto simp: careful_discipline_def split: seat.split)
  ultimately show ?thesis
    using assms(1) team_clean [of c C ?team xs]
    by (simp add: seats_ok_def run_seats_def comp_def split: prod.splits)
qed

text \<open>
  C10. The control is independent of who decides. Take any number of agents with the reservation
  client, no two with the same idempotency key, those working on the case with a ceiling of at
  most \<open>C\<close>, a non-negative whole number of cents. Assume that no model has a reply that both issues
  its effect and declines, and that a deterministic agent that can release its hold loses no
  reply, of whatever call, and no checkpoint of the services withholds the acknowledgement of its effect; its
  requests may get lost. For model-driven agents, and for deterministic ones without a release
  client, nothing is assumed about messages. Then after every prefix of every interleaving of
  their calls, one call one step, the oracle's verdict is CLEAN and no effect has outlived its
  hold.
\<close>

theorem coordinated_agents_are_clean:
  assumes "seats_ok c C seats" and "\<forall>x\<in>set seats. prudent_seat x"
    and "\<forall>(i, co)\<in>set xs. i < length seats \<longrightarrow> harmless_under (seats ! i) co"
  shows "re_verdict (evaluate c C (w_billing (run_seats seats xs), w_ledger (run_seats seats xs))) = CLEAN
   \<and> released_spend c (run_seats seats xs) = 0"
  by (rule careful_seats_are_clean [OF assms])

theorem coordinated_agents_are_clean_witness:
  "re_verdict (evaluate ''c'' 1000 (w_billing (run_seats mixed_seats mixed_run),
      w_ledger (run_seats mixed_seats mixed_run))) = CLEAN
   \<and> services_total ''c'' (run_seats mixed_seats mixed_run) = 600"
proof -
  have "re_verdict (evaluate ''c'' 1000 (w_billing (run_seats mixed_seats mixed_run),
      w_ledger (run_seats mixed_seats mixed_run))) = CLEAN
    \<and> released_spend ''c'' (run_seats mixed_seats mixed_run) = 0"
    by (rule coordinated_agents_are_clean [OF mixed_seats_ok])
       (simp_all add: mixed_seats_def mixed_run_def llm_seat_def a_job_def prudent_scripted single_minded_def
         calm_steps_def calm_def no_lost_ack_def reply_lost_def)
  moreover have "services_total ''c'' (run_seats mixed_seats mixed_run) = 600"
    by (simp add: mixed_seats_def mixed_run_def services_total_def race_verdict control_eval llm_eval llm_seat_def
        numeric_12_2_def round2_in_cents)
  ultimately show ?thesis by simp
qed

text \<open>
  The race. Two agents without reservations, each within its authority, read exact
  views before either acts: the oracle's verdict is a violation, by what the two amounts exceed
  the ceiling. With the projection as their only view it is the same even when the second agent
  starts after the first has finished, as long as the projector has not run in between.
  No request failed and none was lost.
\<close>

lemma races_without_coordination:
  assumes "breaching a b C"
  shows "verdict_of C (run_seats (two_seats direct_clients retry a b C)
      (calm_steps 4 0 @ calm_steps 4 1 @ calm_steps 1 0 @ calm_steps 1 1)) = (VIOLATION, a + b - C)
   \<and> verdict_of C (run_seats (two_seats crm_clients retry a b C) (calm_steps 4 0 @ calm_steps 4 1))
      = (VIOLATION, a + b - C)"
  using assms by (simp add: race_verdict)

text \<open>
  C23. A lost acknowledgement undoes the reservation, unless the agent tries again. Two agents
  with reservations ask for \<open>a\<close> and \<open>b\<close>, each within the ceiling \<open>C\<close> and together above it. The
  interleaving is fixed: the second reads first and acts last; the first reserves, and its refund lands but
  the acknowledgement is lost. Without a retry the agent raises and releases its hold although the effect is
  durable, the second agent is granted the budget and commits its hold, and the verdict is a
  violation by \<open>a + b - C\<close>. With the retry the second try finds the effect: both agents return
  normally, there is still one refund, the hold is committed, the second agent is refused and
  leaves neither a hold nor a credit, the budget in use is \<open>a\<close>, and the verdict is clean.
\<close>

theorem lost_ack_releases_a_spent_hold:
  assumes "breaching a b C"
  shows "case lab_run (calm_steps 4 1 @ calm_steps 6 0 @ [(0, reply_lost)] @ calm_steps 2 0 @ calm_steps 4 1)
      (map seat_program (two_seats coordinated_clients retry a b C), empty_world) of (agents, w) \<Rightarrow>
    agents = [Return (if retry then Inr None else Inl Transport_Error), Return (Inr None)] \<and>
    map ef_amount (effects (w_billing w)) = [a] \<and>
    map ef_amount (effects (w_ledger w)) = (if retry then [] else [b]) \<and>
    map (\<lambda>r. (rv_key r, rv_amount r, rv_state r)) (reservations (w_control w)) =
      (if retry then [(''A'', a, HOLD_COMMITTED)] else [(''A'', a, RELEASED), (''B'', b, HOLD_COMMITTED)]) \<and>
    list_reservations ''c'' (w_control w) = (if retry then a else b) \<and>
    verdict_of C w = (if retry then (CLEAN, 0) else (VIOLATION, a + b - C))"
  using assms by (cases retry) (simp_all add: race_verdict control_eval list_reservations_def)

theorem lost_ack_releases_a_spent_hold_witness:
  "verdict_of 1000 (run_seats (two_seats coordinated_clients False 600 500 1000)
      (calm_steps 4 1 @ calm_steps 6 0 @ [(0, reply_lost)] @ calm_steps 2 0 @ calm_steps 4 1)) = (VIOLATION, 100)
   \<and> list_reservations ''c'' (w_control (run_seats (two_seats coordinated_clients True 600 500 1000)
      (calm_steps 4 1 @ calm_steps 6 0 @ [(0, reply_lost)] @ calm_steps 2 0 @ calm_steps 4 1))) = 600"
  using lost_ack_releases_a_spent_hold [OF breaching_600_500, of False]
    lost_ack_releases_a_spent_hold [OF breaching_600_500, of True] by (simp add: run_seats_def split: prod.splits)

text \<open>
  A model that changes its mind within one reply gets past the control. It reserves, and in
  its next reply declines and issues: the decline releases the hold, the issue still carries
  its number, and the effect lands without a hold. A second, well-behaved agent then gets the
  budget, and the verdict is a violation although nothing failed and nothing was lost.
\<close>

lemma decline_then_issue_evades_the_control:
  assumes "breaching a b C"
  shows "verdict_of C (run_seats [llm_seat [[''reserve_budget''], [''decline'', ''issue_refund'']] ''A'' ''refund'' a C,
        llm_seat [[''reserve_budget''], [''issue_credit'']] ''B'' ''credit'' b C]
      (calm_steps 4 0 @ calm_steps 3 1)) = (VIOLATION, a + b - C)"
  using assms by (simp add: race_verdict control_eval llm_eval llm_seat_def)

text \<open>
  A model that was refused once can never act. Its first request is refused; the other agent
  declines and frees its budget; its second request is granted, and the model is told so. But
  the refusal is remembered and the grant is not: its issue is refused for want of a
  reservation, its decline releases nothing, and the hold it does not know of keeps the budget
  for ever, with nothing committed.
\<close>

lemma refused_once_is_refused_for_ever:
  assumes "breaching a b C"
  shows "case lab_run (calm_steps 1 0 @ calm_steps 1 1 @ calm_steps 1 0 @ calm_steps 1 1)
      (map seat_program
        [llm_seat [[''reserve_budget''], [''decline'']] ''A'' ''refund'' a C,
         llm_seat [[''reserve_budget''], [''reserve_budget''], [''issue_credit''], [''decline'']] ''B'' ''credit'' b C],
       empty_world) of (agents, w) \<Rightarrow>
    agents ! 1 = Return (Inr (Some \<lparr>tr_steps = 4,
      tr_tool_names = [''reserve_budget'', ''reserve_budget'', ''issue_credit'', ''decline''],
      tr_acted = False, tr_declined = True, tr_refused_by_control = True, tr_hit_step_limit = False\<rparr>))
    \<and> total_held ''c'' (w_control w) = b \<and> effects (w_ledger w) = []"
  using assms by (simp add: race_verdict control_eval llm_eval llm_seat_def)

end
