(* ===== verification/Serial.thy ===== *)
theory Serial
  imports Races
begin

text \<open>
  Agents one after the other. A serial schedule lets each agent make all its calls before the
  next one makes its first. With exact views no coordination is needed: the theorem of this
  theory is the control experiment to the races.
\<close>

section \<open>Running one agent alone\<close>

fun run_alone :: "conditions list \<Rightarrow> agent \<Rightarrow> world \<Rightarrow> agent \<times> world" where
  "run_alone (co # cs) (Call c k) w = (let (a, w') = perform co c w in run_alone cs (k a) w')"
| "run_alone cs P w = (P, w)"

definition serial :: "(nat \<times> conditions list) list \<Rightarrow> (nat \<times> conditions) list" where
  "serial xs = concat (map (\<lambda>(i, cs). map (Pair i) cs) xs)"

lemma lab_run_Return: "agents ! i = Return r \<Longrightarrow> lab_run (map (Pair i) cs) (agents, w) = (agents, w)"
  by (induction cs) (auto simp: lab_run_def lab_step_def)

text \<open>The steps of one agent in the laboratory are its run alone.\<close>

lemma lab_run_alone:
  assumes "i < length agents"
  shows "lab_run (map (Pair i) cs) (agents, w) =
    (agents[i := fst (run_alone cs (agents ! i) w)], snd (run_alone cs (agents ! i) w))"
  using assms
proof (induction cs arbitrary: agents w)
  case Nil
  then show ?case using list_update_id [of agents i] by (cases "agents ! i") (simp_all add: lab_run_def)
next
  case (Cons co cs)
  show ?case
  proof (cases "agents ! i")
    case (Return r)
    then show ?thesis using lab_run_Return [of agents i r "co # cs"] list_update_id [of agents i] by simp
  next
    case (Call c k)
    obtain a w' where p: "perform co c w = (a, w')" by fastforce
    have "lab_run (map (Pair i) (co # cs)) (agents, w) = lab_run (map (Pair i) cs) (agents[i := k a], w')"
      using Cons.prems Call p by (simp add: lab_run_def lab_step_def)
    then show ?thesis using Cons.IH [of "agents[i := k a]" w'] Cons.prems Call p by simp
  qed
qed

section \<open>What one agent alone does\<close>

definition sound_services :: "world \<Rightarrow> bool" where
  "sound_services w \<longleftrightarrow> effect_inv (w_billing w) \<and> effect_inv (w_ledger w)"

definition same_services :: "world \<Rightarrow> world \<Rightarrow> bool" where
  "same_services w w' \<longleftrightarrow> w_billing w' = w_billing w \<and> w_ledger w' = w_ledger w"

text \<open>At most the job's effect has been added, and only if there was room for it.\<close>

definition room :: "job \<Rightarrow> world \<Rightarrow> bool" where
  "room j w \<longleftrightarrow> services_total (jb_case j) w + cf_amount (jb_config j) \<le> cf_authorized (jb_config j)"

definition fitting :: "job \<Rightarrow> world \<Rightarrow> world \<Rightarrow> bool" where
  "fitting j w w' \<longleftrightarrow> sound_services w' \<and> other_rows j w' = other_rows j w \<and>
     (own_rows j w' = own_rows j w \<or>
       room j w \<and> added (jb_case j) (cf_amount (jb_config j)) (jb_key j) (own_rows j w) (own_rows j w'))"

lemma rows_services: "own_rows j w' = own_rows j w \<Longrightarrow> other_rows j w' = other_rows j w \<Longrightarrow>
    effects (w_billing w') = effects (w_billing w) \<and> effects (w_ledger w') = effects (w_ledger w)"
  by (auto simp: own_rows_def other_rows_def split: if_splits)

lemma services_total_rows:
  "services_total c w = sum_where (\<lambda>r. ef_case r = c \<and> committed_state (ef_state r)) ef_amount (own_rows j w) +
     sum_where (\<lambda>r. ef_case r = c \<and> committed_state (ef_state r)) ef_amount (other_rows j w)"
  by (simp add: services_total_def total_committed_def own_rows_def other_rows_def)

lemma services_total_cents: "sound_services w \<Longrightarrow> in_cents (services_total c w)"
  unfolding services_total_def total_committed_def sound_services_def effect_inv_def
  by (intro in_cents_add sum_where_cents) auto

lemma fitting_total:
  assumes "fitting j w w'" "sound_services w" "jb_case j = c \<Longrightarrow> cf_authorized (jb_config j) \<le> C" "in_cents C"
    and "services_total c w \<le> C"
  shows "services_total c w' \<le> C"
proof (cases "own_rows j w' = own_rows j w \<or> jb_case j \<noteq> c")
  case True
  then have "services_total c w' = services_total c w"
    using assms(1) by (auto simp: fitting_def services_total_rows [of _ _ j] added_def)
  with assms(5) show ?thesis by simp
next
  case False
  then obtain r where r: "own_rows j w' = own_rows j w @ [r]" "ef_case r = c"
    "numeric_12_2 (cf_amount (jb_config j)) = Some (ef_amount r)" "committed_state (ef_state r)"
    and room: "services_total c w + cf_amount (jb_config j) \<le> C"
    using assms(1,3) by (fastforce simp: fitting_def room_def added_def committed_state_def)
  have "cf_amount (jb_config j) \<le> C - services_total c w" using room by simp
  then have "round2 (cf_amount (jb_config j)) \<le> C - services_total c w"
    using assms(4) services_total_cents [OF assms(2)] by (intro round2_le in_cents_diff)
  then have "services_total c w + ef_amount r \<le> C" using numeric_12_2_Some [OF r(3)] by simp
  moreover have "services_total c w' = services_total c w + ef_amount r"
    using r assms(1) False by (simp add: services_total_rows [of _ _ j] fitting_def)
  ultimately show ?thesis by simp
qed

lemma fitting_refl: "sound_services w \<Longrightarrow> fitting j w w"
  by (simp add: fitting_def)

lemma fitting_same: "fitting j w w' \<Longrightarrow> same_services w' w'' \<Longrightarrow> fitting j w w''"
  by (cases "cf_action (jb_config j) = ''refund''")
     (simp_all add: fitting_def same_services_def sound_services_def own_rows_def other_rows_def)

lemma perform_services:
  "\<forall>s cid amount key. c \<noteq> Create_Call s cid amount key \<Longrightarrow> perform co c w = (a, w') \<Longrightarrow> same_services w w'"
  by (cases "(co, c, w)" rule: serve.cases; cases "co_fate co")
     (auto simp: perform_def same_services_def split: prod.splits)

lemma perform_create_services:
  assumes s: "sound_services w" and p: "perform co (create_call (jb_case j) (jb_config j)) w = (a, w')"
  shows "sound_services w' \<and> other_rows j w' = other_rows j w \<and> (own_rows j w' = own_rows j w \<or>
     added (jb_case j) (cf_amount (jb_config j)) (jb_key j) (own_rows j w) (own_rows j w'))"
proof -
  text \<open>The control service plays no part in it: it is replaced by an empty one.\<close>
  let ?e = "\<lambda>w. w\<lparr>w_control := empty_control\<rparr>"
  have "perform co (create_call (jb_case j) (jb_config j)) (?e w) = (a, ?e w')"
    using p by (cases "co_fate co")
      (auto simp: perform_def create_call_def split: prod.splits if_splits)
  moreover have "sound_world (?e w)"
    using s control_inv_empty by (simp add: sound_world_def sound_services_def no_deadlines_def empty_control_def)
  ultimately show ?thesis
    using create_call_added [of "?e w" co j a "?e w'"]
    by (cases "cf_action (jb_config j) = ''refund''")
       (simp_all add: sound_world_def sound_services_def own_rows_def other_rows_def)
qed

lemma fitting_create:
  assumes f: "fitting j w0 w" and "room j w0" and p: "perform co (create_call (jb_case j) (jb_config j)) w = (a, w')"
  shows "fitting j w0 w'"
proof -
  have "sound_services w" using f by (simp add: fitting_def)
  from perform_create_services [OF this p] f assms(2) show ?thesis
    by (fastforce simp: fitting_def added_def)
qed

text \<open>The exact answer of a service.\<close>

fun exact :: "world \<Rightarrow> service \<Rightarrow> string \<Rightarrow> decimal" where
  "exact w Billing_Service cid = total_committed cid (w_billing w)"
| "exact w Ledger_Service cid = total_committed cid (w_ledger w)"
| "exact w Crm_Service cid = fst (get_compensation cid (w_crm w))"

lemma perform_total:
  assumes "same_services w0 w" "s \<noteq> Crm_Service" "perform co (Total_Call s cid) w = (a, w')"
  shows "a = Total_Answer (exact w0 s cid) \<or> (\<exists>e. a = Raised e)"
  using assms by (cases s; cases "co_fate co")
    (auto simp: perform_def same_services_def list_refunds_def list_credits_def)

text \<open>
  A program that creates only what fits, started in \<open>w0\<close>; the flag says that it has not created
  yet, so that the services still answer as in \<open>w0\<close>.
\<close>

primrec keeps_within :: "job \<Rightarrow> world \<Rightarrow> agent \<Rightarrow> bool \<Rightarrow> bool" where
  "keeps_within j w0 (Return r) unspent = True"
| "keeps_within j w0 (Call c k) unspent =
     (case c of
        Create_Call s cid amount key \<Rightarrow>
          c = create_call (jb_case j) (jb_config j) \<and> room j w0 \<and> (\<forall>a. keeps_within j w0 (k a) False)
      | Total_Call s cid \<Rightarrow> unspent \<and> s \<noteq> Crm_Service \<and> keeps_within j w0 (k (Total_Answer (exact w0 s cid))) True \<and>
          (\<forall>e. keeps_within j w0 (k (Raised e)) True)
      | _ \<Rightarrow> \<forall>a. keeps_within j w0 (k a) unspent)"

lemma keeps_within_step:
  assumes "keeps_within j w0 (Call c k) unspent" "fitting j w0 w" "unspent \<Longrightarrow> same_services w0 w"
    and p: "perform co c w = (a, w')"
  shows "\<exists>unspent. keeps_within j w0 (k a) unspent \<and> fitting j w0 w' \<and> (unspent \<longrightarrow> same_services w0 w')"
proof (cases "\<exists>s cid amount key. c = Create_Call s cid amount key")
  case True
  then have "c = create_call (jb_case j) (jb_config j)" "room j w0" "keeps_within j w0 (k a) False"
    using assms(1) by auto
  then show ?thesis using fitting_create [OF assms(2)] p by blast
next
  case False
  have same: "same_services w w'" using perform_services [OF _ p] False by blast
  have "keeps_within j w0 (k a) unspent"
  proof (cases "\<exists>s cid. c = Total_Call s cid")
    case True
    then obtain s cid where c: "c = Total_Call s cid" by blast
    then have un: "unspent" "s \<noteq> Crm_Service" using assms(1) by auto
    from perform_total [OF assms(3) [OF un(1)] un(2) p [unfolded c]] assms(1) un(1) c show ?thesis by auto
  next
    case other: False
    with False assms(1) show ?thesis by (cases c) auto
  qed
  moreover have "fitting j w0 w'" using fitting_same [OF assms(2) same] .
  moreover have "unspent \<Longrightarrow> same_services w0 w'" using assms(3) same by (simp add: same_services_def)
  ultimately show ?thesis by blast
qed

lemma keeps_within_run:
  "keeps_within j w0 P unspent \<Longrightarrow> fitting j w0 w \<Longrightarrow> (unspent \<Longrightarrow> same_services w0 w) \<Longrightarrow>
   fitting j w0 (snd (run_alone cs P w))"
proof (induction cs P w arbitrary: unspent rule: run_alone.induct)
  case (1 co cs c k w)
  obtain a w' where p: "perform co c w = (a, w')" by fastforce
  obtain un where "keeps_within j w0 (k a) un" "fitting j w0 w'" "un \<longrightarrow> same_services w0 w'"
    using keeps_within_step [OF "1.prems" p] by blast
  then show ?case using "1.IH" [of "(a, w')" a w'] p by simp
qed auto

lemma keeps_within_call_or_raise:
  "\<forall>s cid. c \<noteq> Total_Call s cid \<Longrightarrow> \<forall>s cid amount key. c \<noteq> Create_Call s cid amount key \<Longrightarrow>
   (\<And>a. keeps_within j w0 (k a) unspent) \<Longrightarrow> keeps_within j w0 (call_or_raise c k) unspent"
  by (cases c) (auto simp: call_or_raise_def split: answer.split)

lemma keeps_within_total:
  "s \<noteq> Crm_Service \<Longrightarrow> keeps_within j w0 (k (Total_Answer (exact w0 s cid))) True \<Longrightarrow>
   keeps_within j w0 (call_or_raise (Total_Call s cid) k) True"
  by (simp add: call_or_raise_def)

lemma keeps_within_close:
  "keeps_within j w0 (settle_hold cl rid) un" "keeps_within j w0 (unwind_hold cl rid e) un"
  by (auto simp: settle_hold_def unwind_hold_def intro!: keeps_within_call_or_raise split: option.split)

lemma keeps_within_act:
  assumes "room j w0"
  shows "keeps_within j w0 (act (jb_case j) (jb_config j) (jb_clients j) rid) un"
proof -
  have "keeps_within j w0 (second_try (jb_case j) (jb_config j) (jb_clients j) rid) False"
    using assms keeps_within_close
    by (auto simp: second_try_def create_call_def split: answer.split)
  then show ?thesis
    using assms keeps_within_close by (auto simp: act_def create_call_def split: answer.split)
qed

lemma keeps_within_program:
  assumes "\<not> has_crm (jb_clients j)"
  shows "keeps_within j w0 (run_case (jb_case j) (jb_config j) (jb_clients j)) True"
proof -
  have "keeps_within j w0 (decide (jb_case j) (jb_config j) (jb_clients j) (services_total (jb_case j) w0)) True"
  proof (cases "room j w0")
    case True
    then show ?thesis
      unfolding decide_def ask_for_hold_def
      by (auto simp: room_def keeps_within_act split: answer.split option.split intro!: keeps_within_call_or_raise)
  qed (simp add: decide_def room_def)
  then show ?thesis
    using assms unfolding run_case_def observed_compensation_def
    by (auto simp: services_total_def intro!: keeps_within_call_or_raise keeps_within_total)
qed

lemma serial_step:
  fixes jobs :: "job list"
  assumes "i < length jobs" and "agents ! i = run_case (jb_case (jobs ! i)) (jb_config (jobs ! i)) (jb_clients (jobs ! i))"
    and "\<not> has_crm (jb_clients (jobs ! i))" "jb_case (jobs ! i) = c \<Longrightarrow> cf_authorized (jb_config (jobs ! i)) \<le> C"
    and "in_cents C" "sound_services w" "services_total c w \<le> C"
  shows "sound_services (snd (run_alone cs (agents ! i) w)) \<and> services_total c (snd (run_alone cs (agents ! i) w)) \<le> C"
proof -
  have fit: "fitting (jobs ! i) w (snd (run_alone cs (agents ! i) w))"
    unfolding assms(2)
    by (rule keeps_within_run [OF keeps_within_program [OF assms(3)] fitting_refl [OF assms(6)]])
       (simp add: same_services_def)
  from fitting_total [OF fit assms(6,4,5,7)] fit show ?thesis by (simp add: fitting_def)
qed

lemma serial_run:
  fixes jobs :: "job list"
  assumes "list_all (\<lambda>j. \<not> has_crm (jb_clients j) \<and> (jb_case j = c \<longrightarrow> cf_authorized (jb_config j) \<le> C)) jobs"
    and "in_cents C" "distinct (map fst xs)" "sound_services w" "services_total c w \<le> C" "length agents = length jobs"
    and "\<And>i. i \<in> set (map fst xs) \<Longrightarrow> i < length jobs \<Longrightarrow>
      agents ! i = run_case (jb_case (jobs ! i)) (jb_config (jobs ! i)) (jb_clients (jobs ! i))"
  shows "services_total c (snd (lab_run (serial xs) (agents, w))) \<le> C"
  using assms(3-7)
proof (induction xs arbitrary: agents w)
  case Nil
  then show ?case by (simp add: serial_def lab_run_def)
next
  case (Cons x xs)
  obtain i cs where x: "x = (i, cs)" by (cases x)
  have run: "lab_run (serial (x # xs)) (agents, w) = lab_run (serial xs) (lab_run (map (Pair i) cs) (agents, w))"
    by (simp add: serial_def lab_run_def x)
  show ?case
  proof (cases "i < length jobs")
    case False
    then have "lab_run (map (Pair i) cs) (agents, w) = (agents, w)"
      using Cons.prems(4) by (induction cs) (auto simp: lab_run_def lab_step_def)
    then show ?thesis using run Cons by (simp add: x)
  next
    case True
    let ?r = "run_alone cs (agents ! i) w"
    have alone: "lab_run (map (Pair i) cs) (agents, w) = (agents[i := fst ?r], snd ?r)"
      using lab_run_alone True Cons.prems(4) by simp
    have j: "\<not> has_crm (jb_clients (jobs ! i))" "jb_case (jobs ! i) = c \<Longrightarrow> cf_authorized (jb_config (jobs ! i)) \<le> C"
      using assms(1) True by (auto simp: list_all_length)
    have "agents ! i = run_case (jb_case (jobs ! i)) (jb_config (jobs ! i)) (jb_clients (jobs ! i))"
      using Cons.prems(5) True x by simp
    from serial_step [OF True this j assms(2) Cons.prems(2,3)]
    have "sound_services (snd ?r)" "services_total c (snd ?r) \<le> C" by auto
    moreover have "n \<noteq> i" if "n \<in> set (map fst xs)" for n using Cons.prems(1) that x by auto
    ultimately show ?thesis
      unfolding run alone using Cons.prems by (intro Cons.IH) (simp_all add: x nth_list_update_neq [OF not_sym])
  qed
qed

section \<open>Properties\<close>

text \<open>
  C12. One after the other, agents with exact views are safe. Deterministic agents that read the
  services themselves, with or without reservations, each making all its calls before the next
  makes its first (or stopping before): whatever requests and replies are lost, and even with
  shared keys, the committed total of the case never exceeds the ceiling.
\<close>

theorem serial_agents_are_safe:
  assumes "list_all (\<lambda>j. \<not> has_crm (jb_clients j) \<and> (jb_case j = c \<longrightarrow> cf_authorized (jb_config j) \<le> C)) jobs"
    and "0 \<le> C" "in_cents C" "distinct (map fst xs)"
  shows "services_total c (run_seats (map Diligent_Seat jobs) (serial xs)) \<le> C"
proof -
  have "sound_services empty_world" "services_total c empty_world = 0"
    using billing_inv_empty effect_inv_empty
    by (simp_all add: sound_services_def services_total_def empty_world_def billing_inv_def total_committed_def
        empty_billing_def empty_effect_db_def)
  then show ?thesis
    unfolding run_seats_def using assms
    by (intro serial_run [of c C jobs]) (auto simp: comp_def)
qed

theorem serial_agents_are_safe_witness:
  "services_total ''c'' (run_seats (two_seats direct_clients False 600 500 1000)
      (serial [(0, replicate 5 (calm ''A'')), (1, replicate 5 (calm ''B''))])) = 600
   \<and> (600 :: decimal) \<le> 1000"
proof -
  have "services_total ''c'' (run_seats (map Diligent_Seat [a_job direct_clients ''A'' ''refund'' False 600 1000,
        a_job direct_clients ''B'' ''credit'' False 500 1000])
      (serial [(0, replicate 5 (calm ''A'')), (1, replicate 5 (calm ''B''))])) \<le> 1000"
    by (rule serial_agents_are_safe) (simp_all add: a_job_def direct_clients_def)
  moreover have "services_total ''c'' (run_seats (two_seats direct_clients False 600 500 1000)
      (serial [(0, replicate 5 (calm ''A'')), (1, replicate 5 (calm ''B''))])) = 600"
    by (simp add: services_total_def serial_def race_eval services_eval numeric_12_2_def round2_in_cents)
  ultimately show ?thesis by (simp add: two_seats_def)
qed

end
