(* ===== verification/Threads.thy ===== *)
theory Threads
  imports Serial
begin

text \<open>
  The actors of a schedule, cut at their checkpoints. A thread stops at a gate, acts on the
  world, or has halted. \<open>thread_of\<close> cuts an agent's program also inside the create requests,
  at the two checkpoints of the service's handler, which act on behalf of the agent;
  \<open>projector_thread\<close> and \<open>redeliver_thread\<close> are the two other jobs of
  \<^verbatim>\<open>agents/diligent/pool.py\<close>. The equivalence of this theory says that a thread which is
  never held is the program it was cut from.
\<close>

section \<open>Threads\<close>

text \<open>What the pool's result queue says of an actor.\<close>

datatype actor_outcome = Actor_Ok | Actor_Error

datatype thread =
    Halt actor_outcome
  | Gate string "bool \<Rightarrow> thread"
  | Act "world \<Rightarrow> thread \<times> world"

definition outcome_of :: "outcome \<Rightarrow> actor_outcome" where
  "outcome_of r = (case r of Inl e \<Rightarrow> Actor_Error | Inr t \<Rightarrow> Actor_Ok)"

definition admitted :: "service_env \<Rightarrow> string \<Rightarrow> effect_request \<Rightarrow> bool" where
  "admitted env action req \<longleftrightarrow> 0 < r_amount req \<and>
     authorize (env_enforce env) (env_decode env) (env_headers env) action (r_amount req) = None"

definition failed :: "(answer \<Rightarrow> thread) \<Rightarrow> thread" where
  "failed k = k (Raised Service_Call_Failed)"

text \<open>A checkpoint in front of something: when it fails, so does the call.\<close>

definition guarded :: "(answer \<Rightarrow> thread) \<Rightarrow> thread \<Rightarrow> bool \<Rightarrow> thread" where
  "guarded k t ok = (if ok then t else failed k)"

text \<open>The end of a create handler: acknowledge, after a checkpoint unless replayed.\<close>

definition ack_thread :: "string \<Rightarrow> bool \<Rightarrow> (answer \<Rightarrow> thread) \<Rightarrow> thread" where
  "ack_thread name replayed k = (if replayed then k Done_Answer else Gate name (guarded k (k Done_Answer)))"

definition refund_write :: "service_env \<Rightarrow> effect_request \<Rightarrow> (answer \<Rightarrow> thread) \<Rightarrow> world \<Rightarrow> thread \<times> world" where
  "refund_write env req k w =
     (case create_refund_tx (r_case_id req) (env_actor env) (r_idempotency_key req) (r_amount req) (w_billing w) of
        Inl e \<Rightarrow> (failed k, w)
      | Inr ((replayed, row), db) \<Rightarrow>
          (ack_thread ''billing.after_commit_before_ack'' replayed k, w\<lparr>w_billing := db\<rparr>))"

definition refund_enter :: "service_env \<Rightarrow> effect_request \<Rightarrow> (answer \<Rightarrow> thread) \<Rightarrow> world \<Rightarrow> thread \<times> world" where
  "refund_enter env req k w =
     (if admitted env ''refund'' req
      then Gate ''billing.after_read_before_decide'' (guarded k (Act (refund_write env req k)))
      else failed k, w)"

definition credit_write :: "service_env \<Rightarrow> effect_request \<Rightarrow> (answer \<Rightarrow> thread) \<Rightarrow> world \<Rightarrow> thread \<times> world" where
  "credit_write env req k w =
     (case create_credit_tx (r_case_id req) (env_actor env) (r_idempotency_key req) (r_amount req) (w_ledger w) of
        Inl e \<Rightarrow> (failed k, w)
      | Inr ((replayed, row), db) \<Rightarrow>
          (ack_thread ''ledger.after_commit_before_ack'' replayed k, w\<lparr>w_ledger := db\<rparr>))"

definition credit_enter :: "service_env \<Rightarrow> effect_request \<Rightarrow> (answer \<Rightarrow> thread) \<Rightarrow> world \<Rightarrow> thread \<times> world" where
  "credit_enter env req k w =
     (if admitted env ''credit'' req
      then Gate ''ledger.after_read_before_decide'' (guarded k (Act (credit_write env req k)))
      else failed k, w)"

text \<open>The conditions of a run in which no message is lost: gates replace the checkpoints.\<close>

definition undisturbed :: "service_env \<Rightarrow> conditions" where
  "undisturbed env = \<lparr>co_fate = Delivered, co_now = 0, co_env = env, co_cp = (\<lambda>name. None)\<rparr>"

definition serve_call :: "service_env \<Rightarrow> call \<Rightarrow> (answer \<Rightarrow> thread) \<Rightarrow> world \<Rightarrow> thread \<times> world" where
  "serve_call env c k w = (case serve (undisturbed env) c w of (a, w') \<Rightarrow> (k a, w'))"

definition call_thread :: "service_env \<Rightarrow> call \<Rightarrow> (answer \<Rightarrow> thread) \<Rightarrow> thread" where
  "call_thread env c k = (case c of
     Checkpoint_Call name \<Rightarrow> Gate name (guarded k (k Done_Answer))
   | Create_Call s cid amount key \<Rightarrow>
       (let req = \<lparr>r_case_id = cid, r_amount = amount, r_idempotency_key = key\<rparr>
        in case s of Billing_Service \<Rightarrow> Act (refund_enter env req k)
           | Ledger_Service \<Rightarrow> Act (credit_enter env req k)
           | Crm_Service \<Rightarrow> Act (serve_call env c k))
   | _ \<Rightarrow> Act (serve_call env c k))"

primrec thread_of :: "service_env \<Rightarrow> agent \<Rightarrow> thread" where
  "thread_of env (Return r) = Halt (outcome_of r)"
| "thread_of env (Call c k) = call_thread env c (\<lambda>a. thread_of env (k a))"

section \<open>The projector and the redelivery\<close>

abbreviation pipeline_of :: "world \<Rightarrow> crm_db \<times> services_db" where
  "pipeline_of w \<equiv> (w_crm w, w_billing w, w_ledger w)"

definition with_pipeline :: "world \<Rightarrow> crm_db \<times> services_db \<Rightarrow> world" where
  "with_pipeline w s = (case s of (c, b, l) \<Rightarrow> w\<lparr>w_billing := b, w_ledger := l, w_crm := c\<rparr>)"

fun events_thread :: "string \<Rightarrow> string \<Rightarrow> string \<Rightarrow> event list \<Rightarrow> thread \<Rightarrow> thread" where
  "events_thread actor schedule service [] k = k"
| "events_thread actor schedule service (ev # evs) k =
     Gate ''crm.before_apply_event'' (\<lambda>ok. if \<not> ok then Halt Actor_Error
       else Act (\<lambda>w. case apply_event (http_mark_applied actor schedule 0) service ev (pipeline_of w) of
           (Inl e, s) \<Rightarrow> (Halt Actor_Error, with_pipeline w s)
         | (Inr counted, s) \<Rightarrow> (events_thread actor schedule service evs k, with_pipeline w s)))"

fun sources_thread :: "string \<Rightarrow> string \<Rightarrow> string \<Rightarrow> string list \<Rightarrow> thread" where
  "sources_thread actor schedule cid [] = Halt Actor_Ok"
| "sources_thread actor schedule cid (service # services) =
     Act (\<lambda>w. (case http_unapplied actor schedule (Some cid) service (w_billing w, w_ledger w) of
         None \<Rightarrow> Halt Actor_Error
       | Some evs \<Rightarrow> events_thread actor schedule service evs (sources_thread actor schedule cid services), w))"

definition projector_thread :: "string \<Rightarrow> string \<Rightarrow> string \<Rightarrow> string list option \<Rightarrow> thread" where
  "projector_thread actor schedule cid order =
     (let sources = [''billing'', ''ledger''];
          missing = (case order of None \<Rightarrow> [] | Some ns \<Rightarrow> filter (\<lambda>n. n \<notin> set sources) ns);
          names = (case order of None \<Rightarrow> sources | Some ns \<Rightarrow> rev (remdups (rev ns)))
      in if missing \<noteq> [] then Halt Actor_Error
         else Gate ''crm.before_poll'' (\<lambda>ok. if ok then sources_thread actor schedule cid names else Halt Actor_Error))"

text \<open>The redelivery asks both services, without a checkpoint; the strict middleware wants an identity.\<close>

definition redeliver_thread :: "string \<Rightarrow> string \<Rightarrow> string \<Rightarrow> thread" where
  "redeliver_thread actor schedule cid =
     (if falsy (Some actor) \<or> falsy (Some schedule) then Halt Actor_Error
      else Act (\<lambda>w. (Act (\<lambda>w. (Halt Actor_Ok, w\<lparr>w_ledger := snd (redeliver_credit_events cid (w_ledger w))\<rparr>)),
             w\<lparr>w_billing := snd (redeliver_events cid (w_billing w))\<rparr>)))"

section \<open>An unheld thread is its program\<close>

text \<open>Every gate opens at once.\<close>

primrec run_open :: "thread \<Rightarrow> world \<Rightarrow> actor_outcome \<times> world" where
  "run_open (Halt r) = (\<lambda>w. (r, w))"
| "run_open (Gate name k) = run_open (k True)"
| "run_open (Act f) = (\<lambda>w. case map_prod run_open id (f w) of (run, w') \<Rightarrow> run w')"

text \<open>The calls of a program one after the other.\<close>

primrec run_agent :: "conditions \<Rightarrow> agent \<Rightarrow> world \<Rightarrow> actor_outcome \<times> world" where
  "run_agent co (Return r) = (\<lambda>w. (outcome_of r, w))"
| "run_agent co (Call c k) = (\<lambda>w. case perform co c w of (a, w') \<Rightarrow> run_agent co (k a) w')"

lemma run_open_refund:
  "run_open (Act (refund_enter env req k)) w =
     (case create_refund env (\<lambda>name. None) req (w_billing w) of (r, db) \<Rightarrow>
        run_open (k (answer_of_reply r)) (w\<lparr>w_billing := db\<rparr>))"
proof (cases "admitted env ''refund'' req")
  case True
  then show ?thesis
    by (cases "create_refund_tx (r_case_id req) (env_actor env) (r_idempotency_key req) (r_amount req) (w_billing w)")
       (auto simp: refund_enter_def refund_write_def guarded_def admitted_def create_refund_def answer_of_reply_def failed_def ack_thread_def
         split: prod.splits)
next
  case False
  then show ?thesis
    by (auto simp: refund_enter_def refund_write_def guarded_def admitted_def create_refund_def answer_of_reply_def failed_def not_less)
qed

lemma run_open_credit:
  "run_open (Act (credit_enter env req k)) w =
     (case create_credit env (\<lambda>name. None) req (w_ledger w) of (r, db) \<Rightarrow>
        run_open (k (answer_of_reply r)) (w\<lparr>w_ledger := db\<rparr>))"
proof (cases "admitted env ''credit'' req")
  case True
  then show ?thesis
    by (cases "create_credit_tx (r_case_id req) (env_actor env) (r_idempotency_key req) (r_amount req) (w_ledger w)")
       (auto simp: credit_enter_def credit_write_def guarded_def admitted_def create_credit_def answer_of_reply_def failed_def ack_thread_def
         split: prod.splits)
next
  case False
  then show ?thesis
    by (auto simp: credit_enter_def credit_write_def guarded_def admitted_def create_credit_def answer_of_reply_def failed_def not_less)
qed

lemma undisturbed_simps [simp]:
  "co_env (undisturbed env) = env" "co_cp (undisturbed env) = (\<lambda>name. None)" "co_now (undisturbed env) = 0"
  by (simp_all add: undisturbed_def)

lemma perform_undisturbed: "perform (undisturbed env) c w = serve (undisturbed env) c w"
  by (simp add: perform_def undisturbed_def)

lemma run_open_call:
  "run_open (call_thread env c k) w =
     (case perform (undisturbed env) c w of (a, w') \<Rightarrow> run_open (k a) w')"
proof (cases c)
  case (Create_Call s cid amount key)
  then show ?thesis
    by (cases s) (simp_all add: call_thread_def run_open_refund [simplified] run_open_credit [simplified]
        perform_undisturbed serve_call_def split: prod.split)
qed (simp_all add: call_thread_def serve_call_def guarded_def perform_undisturbed split: prod.split)

lemma with_pipeline_simps [simp]:
  "pipeline_of (with_pipeline w s) = s" "with_pipeline (with_pipeline w s) s' = with_pipeline w s'"
  "with_pipeline w (pipeline_of w) = w"
  by (simp_all add: with_pipeline_def split: prod.split)

definition sum_outcome :: "'e + 'a \<Rightarrow> actor_outcome" where
  "sum_outcome r = (case r of Inl e \<Rightarrow> Actor_Error | Inr x \<Rightarrow> Actor_Ok)"

lemma run_open_events:
  "run_open (events_thread actor schedule service evs k) w =
     (case apply_events (\<lambda>n name. None) (http_mark_applied actor schedule 0) service evs n applied (pipeline_of w) of
        (Inl e, s) \<Rightarrow> (Actor_Error, with_pipeline w s)
      | (Inr x, s) \<Rightarrow> run_open k (with_pipeline w s))"
proof (induction evs arbitrary: w n applied)
  case (Cons ev evs)
  obtain r s where r: "apply_event (http_mark_applied actor schedule 0) service ev (pipeline_of w) = (r, s)"
    by (rule prod.exhaust)
  show ?case
  proof (cases r)
    case (Inr counted)
    then show ?thesis
      using r Cons.IH [of "with_pipeline w s" "n + 1" "if counted then applied + 1 else applied"]
      by (simp split: prod.split sum.split)
  qed (use r in simp)
qed simp

lemma run_open_sources:
  "run_open (sources_thread actor schedule cid names) w =
     (case apply_sources (\<lambda>n name. None) (http_unapplied actor schedule (Some cid))
             (http_mark_applied actor schedule 0) names n applied (pipeline_of w) of
        (r, s) \<Rightarrow> (sum_outcome r, with_pipeline w s))"
proof (induction names arbitrary: w n applied)
  case (Cons service names)
  show ?case
  proof (cases "http_unapplied actor schedule (Some cid) service (w_billing w, w_ledger w)")
    case (Some evs)
    obtain r s where r: "apply_events (\<lambda>n name. None) (http_mark_applied actor schedule 0) service evs n applied
        (pipeline_of w) = (r, s)"
      by (rule prod.exhaust)
    note ev = run_open_events [of actor schedule service evs "sources_thread actor schedule cid names" w n applied]
    show ?thesis
    proof (cases r)
      case (Inr x)
      obtain m a where "x = (m, a)" by (rule prod.exhaust)
      then show ?thesis
        using Cons.IH [of "with_pipeline w s" m a] ev r Inr by (simp add: Some split: prod.split)
    qed (use ev r in \<open>simp add: Some sum_outcome_def\<close>)
  qed (simp add: sum_outcome_def)
qed (simp add: sum_outcome_def)

lemma run_open_projector:
  "run_open (projector_thread actor schedule cid order) w =
     (case apply_pending (\<lambda>n name. None) (http_unapplied actor schedule (Some cid))
             (http_mark_applied actor schedule 0) [''billing'', ''ledger''] order (pipeline_of w) of
        (r, s) \<Rightarrow> (sum_outcome r, with_pipeline w s))"
  by (simp add: projector_thread_def apply_pending_def Let_def run_open_sources [where n = 1 and applied = 0] sum_outcome_def)

text \<open>
  Cutting a program at its checkpoints loses nothing. If every gate opens when it is
  reached, the thread of an agent does to the world exactly what the agent's calls do one
  after the other against the services' handlers, and it ends with the same outcome; and the
  thread of the projector does exactly what \<open>apply_pending\<close> does, order and unknown sources
  included.
\<close>

lemma open_thread_is_its_program:
  "run_open (thread_of env P) w = run_agent (undisturbed env) P w
   \<and> run_open (projector_thread actor schedule cid order) w =
     (case apply_pending (\<lambda>n name. None) (http_unapplied actor schedule (Some cid))
             (http_mark_applied actor schedule 0) [''billing'', ''ledger''] order (pipeline_of w) of
        (r, s) \<Rightarrow> (sum_outcome r, with_pipeline w s))"
proof -
  have "run_open (thread_of env P) w = run_agent (undisturbed env) P w"
    by (induction P arbitrary: w) (auto simp: run_open_call split: prod.split)
  then show ?thesis by (simp only: run_open_projector)
qed

end
