(* ===== verification/Gates.thy ===== *)
theory Gates
  imports Threads
begin

text \<open>
  The abstract scheduler. A declared schedule is a list of steps and a pointer into it; a
  thread at a gate goes on exactly when the pointer names it and its checkpoint. Everything
  else about the order of steps is free: \<open>gated_run\<close> takes any list of thread numbers.
  \<open>explore\<close> follows every choice there is; what it finds holds for every run. That the
  coordinator's barrier implements this scheduler is the subject of theory Gate_Refinement.
\<close>

section \<open>Gated threads\<close>

record plan =
  pl_steps :: "step list"
  pl_faults :: "key list"

record gated =
  g_threads :: "(string \<times> thread) list"
  g_world :: world
  g_pointer :: nat

definition occurrence_at :: "plan \<Rightarrow> nat \<Rightarrow> nat" where
  "occurrence_at pl n = length (filter (\<lambda>s. s = pl_steps pl ! n) (take n (pl_steps pl)))"

definition gate_open :: "plan \<Rightarrow> nat \<Rightarrow> string \<Rightarrow> string \<Rightarrow> bool" where
  "gate_open pl n actor name \<longleftrightarrow> n < length (pl_steps pl) \<and> pl_steps pl ! n = (actor, name)"

text \<open>An injected fault opens the gate but reports a failure.\<close>

definition gate_result :: "plan \<Rightarrow> nat \<Rightarrow> string \<Rightarrow> string \<Rightarrow> bool" where
  "gate_result pl n actor name \<longleftrightarrow> (actor, name, occurrence_at pl n) \<notin> set (pl_faults pl)"

definition gated_enabled :: "plan \<Rightarrow> gated \<Rightarrow> nat \<Rightarrow> bool" where
  "gated_enabled pl g i \<longleftrightarrow> i < length (g_threads g) \<and>
     (case g_threads g ! i of (actor, t) \<Rightarrow>
       (case t of Halt r \<Rightarrow> False | Act f \<Rightarrow> True | Gate name k \<Rightarrow> gate_open pl (g_pointer g) actor name))"

definition gated_step :: "plan \<Rightarrow> nat \<Rightarrow> gated \<Rightarrow> gated" where
  "gated_step pl i g =
     (if \<not> gated_enabled pl g i then g
      else case g_threads g ! i of (actor, t) \<Rightarrow>
        (case t of Halt r \<Rightarrow> g
         | Act f \<Rightarrow> (case f (g_world g) of (t', w') \<Rightarrow>
             g\<lparr>g_threads := (g_threads g)[i := (actor, t')], g_world := w'\<rparr>)
         | Gate name k \<Rightarrow>
             g\<lparr>g_threads := (g_threads g)[i := (actor, k (gate_result pl (g_pointer g) actor name))],
               g_pointer := g_pointer g + 1\<rparr>))"

definition gated_run :: "plan \<Rightarrow> nat list \<Rightarrow> gated \<Rightarrow> gated" where
  "gated_run pl is g = fold (gated_step pl) is g"

definition quiet_state :: "plan \<Rightarrow> gated \<Rightarrow> bool" where
  "quiet_state pl g \<longleftrightarrow> (\<forall>i<length (g_threads g). \<not> gated_enabled pl g i)"

text \<open>Every thread at a gate is still to be let through by the schedule.\<close>

definition no_stray :: "plan \<Rightarrow> gated \<Rightarrow> bool" where
  "no_stray pl g \<longleftrightarrow> list_all (\<lambda>(actor, t). case t of
       Gate name k \<Rightarrow> (actor, name) \<in> set (drop (g_pointer g) (pl_steps pl)) | _ \<Rightarrow> True) (g_threads g)"

section \<open>Exploring every run\<close>

text \<open>
  All runs from a state reach within \<open>n\<close> steps a state in which nothing is enabled, without a
  stray thread on the way, and \<open>P\<close> holds there.
\<close>

fun explore :: "plan \<Rightarrow> (gated \<Rightarrow> bool) \<Rightarrow> nat \<Rightarrow> gated \<Rightarrow> bool" where
  "explore pl P n g \<longleftrightarrow> no_stray pl g \<and>
     (let en = filter (gated_enabled pl g) [0..<length (g_threads g)]
      in if en = [] then P g
         else (case n of 0 \<Rightarrow> False | Suc m \<Rightarrow> list_all (\<lambda>i. explore pl P m (gated_step pl i g)) en))"

declare explore.simps [simp del]

lemma explore_quiet: "explore pl P n g \<Longrightarrow> quiet_state pl g \<Longrightarrow> P g"
  by (subst (asm) explore.simps) (auto simp: quiet_state_def filter_empty_conv Let_def)

lemma explore_no_stray: "explore pl P n g \<Longrightarrow> no_stray pl g"
  by (subst (asm) explore.simps) blast

lemma explore_step:
  assumes "explore pl P n g" "gated_enabled pl g i"
  shows "\<exists>m. n = Suc m \<and> explore pl P m (gated_step pl i g)"
proof -
  let ?en = "filter (gated_enabled pl g) [0..<length (g_threads g)]"
  have i: "i \<in> set ?en" using assms(2) by (auto simp: gated_enabled_def)
  then have "?en \<noteq> []" by (metis empty_iff list.set(1))
  then have "case n of 0 \<Rightarrow> False | Suc m \<Rightarrow> list_all (\<lambda>i. explore pl P m (gated_step pl i g)) ?en"
    using assms(1) by (subst (asm) explore.simps) (simp only: Let_def if_False simp_thms)
  then show ?thesis using i by (cases n) (auto simp: list_all_iff)
qed

lemma explore_step_any: "explore pl P n g \<Longrightarrow> \<exists>m. explore pl P m (gated_step pl i g)"
  using explore_step [of pl P n g i] by (cases "gated_enabled pl g i") (auto simp: gated_step_def)

lemma explore_run: "explore pl P n g \<Longrightarrow> \<exists>m. explore pl P m (gated_run pl is g)"
  unfolding gated_run_def
proof (induction "is" arbitrary: n g)
  case (Cons i js)
  then show ?case using explore_step_any [of pl P n g i] by auto
qed auto

text \<open>How many of a run's steps did something.\<close>

fun effective :: "plan \<Rightarrow> nat list \<Rightarrow> gated \<Rightarrow> nat" where
  "effective pl [] g = 0"
| "effective pl (i # js) g = (if gated_enabled pl g i then 1 else 0) + effective pl js (gated_step pl i g)"

lemma explore_effective: "explore pl P n g \<Longrightarrow> effective pl is g \<le> n"
proof (induction "is" arbitrary: n g)
  case (Cons i js)
  show ?case
  proof (cases "gated_enabled pl g i")
    case True
    obtain m where "n = Suc m" "explore pl P m (gated_step pl i g)" using explore_step [OF Cons.prems True] by blast
    with Cons.IH [of m] True show ?thesis by simp
  next
    case False
    with Cons show ?thesis by (simp add: gated_step_def)
  qed
qed simp

section \<open>Exploring by rewriting\<close>

text \<open>The same search on the steps still to come, in equations that rewrite without looking under a binder.\<close>

fun openings :: "step list \<Rightarrow> nat \<Rightarrow> (string \<times> thread) list \<Rightarrow> nat list" where
  "openings rest n [] = []"
| "openings rest n ((a, Halt r) # ts) = openings rest (Suc n) ts"
| "openings rest n ((a, Act f) # ts) = n # openings rest (Suc n) ts"
| "openings rest n ((a, Gate name k) # ts) =
     (if rest \<noteq> [] \<and> hd rest = (a, name) then n # openings rest (Suc n) ts else openings rest (Suc n) ts)"

fun all_declared :: "step list \<Rightarrow> (string \<times> thread) list \<Rightarrow> bool" where
  "all_declared rest [] = True"
| "all_declared rest ((a, Halt r) # ts) = all_declared rest ts"
| "all_declared rest ((a, Act f) # ts) = all_declared rest ts"
| "all_declared rest ((a, Gate name k) # ts) = ((a, name) \<in> set rest \<and> all_declared rest ts)"

type_synonym search_cont = "nat \<Rightarrow> step list \<Rightarrow> (string \<times> thread) list \<Rightarrow> world \<Rightarrow> bool"

fun search_one ::
  "plan \<Rightarrow> search_cont \<Rightarrow> nat \<Rightarrow> step list \<Rightarrow> (string \<times> thread) list \<Rightarrow> world \<Rightarrow> nat \<Rightarrow> string \<times> thread \<Rightarrow> bool" where
  "search_one pl S p rest ts w i (a, Halt r) = S p rest ts w"
| "search_one pl S p rest ts w i (a, Act f) = (case f w of (t', w') \<Rightarrow> S p rest (ts[i := (a, t')]) w')"
| "search_one pl S p rest ts w i (a, Gate name k) =
     S (Suc p) (tl rest) (ts[i := (a, k (gate_result pl p a name))]) w"

fun search_each ::
  "plan \<Rightarrow> search_cont \<Rightarrow> nat \<Rightarrow> step list \<Rightarrow> (string \<times> thread) list \<Rightarrow> world \<Rightarrow> nat list \<Rightarrow> bool" where
  "search_each pl S p rest ts w [] = True"
| "search_each pl S p rest ts w (i # js) =
     (search_one pl S p rest ts w i (ts ! i) \<and> search_each pl S p rest ts w js)"

fun search ::
  "plan \<Rightarrow> (gated \<Rightarrow> bool) \<Rightarrow> nat \<Rightarrow> nat \<Rightarrow> step list \<Rightarrow> (string \<times> thread) list \<Rightarrow> world \<Rightarrow> bool" where
  "search pl P 0 p rest ts w \<longleftrightarrow> all_declared rest ts \<and> openings rest 0 ts = [] \<and>
     P \<lparr>g_threads = ts, g_world = w, g_pointer = p\<rparr>"
| "search pl P (Suc n) p rest ts w \<longleftrightarrow> all_declared rest ts \<and>
     (case openings rest 0 ts of [] \<Rightarrow> P \<lparr>g_threads = ts, g_world = w, g_pointer = p\<rparr>
      | i # js \<Rightarrow> search_each pl (search pl P n) p rest ts w (i # js))"

lemma all_declared_iff: "all_declared (drop p (pl_steps pl)) ts =
    no_stray pl \<lparr>g_threads = ts, g_world = w, g_pointer = p\<rparr>"
  by (induction "drop p (pl_steps pl)" ts rule: all_declared.induct) (auto simp: no_stray_def)

lemma gate_open_rest: "gate_open pl p a name \<longleftrightarrow> drop p (pl_steps pl) \<noteq> [] \<and> hd (drop p (pl_steps pl)) = (a, name)"
  by (auto simp: gate_open_def hd_drop_conv_nth)

text \<open>Whether a thread is enabled, by itself.\<close>

definition thread_enabled :: "plan \<Rightarrow> nat \<Rightarrow> string \<times> thread \<Rightarrow> bool" where
  "thread_enabled pl p x = (case x of (a, t) \<Rightarrow>
     (case t of Halt r \<Rightarrow> False | Act f \<Rightarrow> True | Gate name k \<Rightarrow> gate_open pl p a name))"

lemma gated_enabled_thread:
  "gated_enabled pl g i \<longleftrightarrow> i < length (g_threads g) \<and> thread_enabled pl (g_pointer g) (g_threads g ! i)"
  by (simp add: gated_enabled_def thread_enabled_def)

lemma openings_Cons:
  "openings (drop p (pl_steps pl)) n (x # ts) =
     (if thread_enabled pl p x then [n] else []) @ openings (drop p (pl_steps pl)) (Suc n) ts"
  by (cases "(drop p (pl_steps pl), n, x # ts)" rule: openings.cases)
     (simp_all only: openings.simps thread_enabled_def prod.case thread.case gate_open_rest if_True if_False
        append_Cons append_Nil split: if_split; auto)+

lemma openings_iff:
  "openings (drop p (pl_steps pl)) n ts =
     map (\<lambda>i. n + i) (filter (\<lambda>i. thread_enabled pl p (ts ! i)) [0..<length ts])"
proof (induction ts arbitrary: n)
  case (Cons x ts)
  have "[0..<length (x # ts)] = 0 # map Suc [0..<length ts]" by (simp add: upt_conv_Cons map_Suc_upt del: upt_Suc)
  then show ?case by (simp add: openings_Cons Cons.IH filter_map comp_def del: upt_Suc)
qed simp

lemma openings_enabled:
  "openings (drop p (pl_steps pl)) 0 ts =
     filter (gated_enabled pl \<lparr>g_threads = ts, g_world = w, g_pointer = p\<rparr>) [0..<length ts]"
proof -
  have "map ((+) 0) js = js" for js :: "nat list" by (induction js) simp_all
  then show ?thesis
    unfolding openings_iff by (auto simp: gated_enabled_thread intro!: filter_cong)
qed

lemma search_one_step:
  assumes "rest = drop p (pl_steps pl)" "thread_enabled pl p (ts ! i)" "i < length ts"
    and S: "\<And>p rest ts w. rest = drop p (pl_steps pl) \<Longrightarrow> S p rest ts w \<Longrightarrow>
      explore pl P n \<lparr>g_threads = ts, g_world = w, g_pointer = p\<rparr>"
    and one: "search_one pl S p rest ts w i (ts ! i)"
  shows "explore pl P n (gated_step pl i \<lparr>g_threads = ts, g_world = w, g_pointer = p\<rparr>)"
proof -
  obtain a t where t: "ts ! i = (a, t)" by fastforce
  have en: "gated_enabled pl \<lparr>g_threads = ts, g_world = w, g_pointer = p\<rparr> i"
    using assms by (simp add: gated_enabled_thread)
  have tl: "tl rest = drop (Suc p) (pl_steps pl)" using assms(1) by (simp add: drop_Suc tl_drop)
  show ?thesis
    using one t en S [OF assms(1)] S [OF tl]
    by (cases t) (auto simp: gated_step_def split: prod.splits)
qed

lemma search_each_steps:
  assumes "rest = drop p (pl_steps pl)" "list_all (\<lambda>i. i < length ts \<and> thread_enabled pl p (ts ! i)) js"
    and S: "\<And>p rest ts w. rest = drop p (pl_steps pl) \<Longrightarrow> S p rest ts w \<Longrightarrow>
      explore pl P n \<lparr>g_threads = ts, g_world = w, g_pointer = p\<rparr>"
    and "search_each pl S p rest ts w js"
  shows "list_all (\<lambda>i. explore pl P n (gated_step pl i \<lparr>g_threads = ts, g_world = w, g_pointer = p\<rparr>)) js"
  using assms(2,4)
proof (induction js)
  case (Cons i js)
  have "explore pl P n (gated_step pl i \<lparr>g_threads = ts, g_world = w, g_pointer = p\<rparr>)"
  proof (rule search_one_step [where S = S, OF assms(1)])
    show "search_one pl S p rest ts w i (ts ! i)" using Cons.prems by (simp only: search_each.simps)
  qed (use Cons.prems S in auto)
  with Cons show ?case by simp
qed simp

lemma search_explore:
  "rest = drop p (pl_steps pl) \<Longrightarrow> search pl P n p rest ts w \<Longrightarrow>
   explore pl P n \<lparr>g_threads = ts, g_world = w, g_pointer = p\<rparr>"
proof (induction n arbitrary: p rest ts w)
  case 0
  let ?g = "\<lparr>g_threads = ts, g_world = w, g_pointer = p\<rparr>"
  have "openings rest 0 ts = filter (gated_enabled pl ?g) [0..<length ts]"
    unfolding 0(1) by (rule openings_enabled)
  then show ?case
    using 0 all_declared_iff by (subst explore.simps) (auto simp: Let_def)
next
  case (Suc n)
  let ?g = "\<lparr>g_threads = ts, g_world = w, g_pointer = p\<rparr>"
  let ?en = "filter (gated_enabled pl ?g) [0..<length ts]"
  have en: "openings rest 0 ts = ?en"
    unfolding Suc.prems(1) by (rule openings_enabled)
  have stray: "no_stray pl ?g" using Suc.prems all_declared_iff by simp
  show ?case
  proof (cases ?en)
    case Nil
    then show ?thesis using Suc.prems(2) stray en by (subst explore.simps) (simp add: Let_def)
  next
    case (Cons i js)
    then have each: "search_each pl (search pl P n) p rest ts w ?en" using Suc.prems(2) en by simp
    have "list_all (\<lambda>i. i < length ts \<and> thread_enabled pl p (ts ! i)) ?en"
      by (auto simp: list_all_iff gated_enabled_thread)
    from search_each_steps [OF Suc.prems(1) this Suc.IH each] Cons stray
    show ?thesis by (subst explore.simps) (simp add: Let_def)
  qed
qed

section \<open>Surveying every run\<close>

text \<open>
  The same search where threads may be left at a checkpoint that never opens: \<open>Q\<close> holds in
  every state on the way and \<open>P\<close> where nothing can go on.
\<close>

fun survey ::
  "plan \<Rightarrow> (gated \<Rightarrow> bool) \<Rightarrow> (gated \<Rightarrow> bool) \<Rightarrow> nat \<Rightarrow> nat \<Rightarrow> step list \<Rightarrow> (string \<times> thread) list \<Rightarrow> world \<Rightarrow> bool" where
  "survey pl Q P 0 p rest ts w \<longleftrightarrow> Q \<lparr>g_threads = ts, g_world = w, g_pointer = p\<rparr> \<and> openings rest 0 ts = [] \<and>
     P \<lparr>g_threads = ts, g_world = w, g_pointer = p\<rparr>"
| "survey pl Q P (Suc n) p rest ts w \<longleftrightarrow> Q \<lparr>g_threads = ts, g_world = w, g_pointer = p\<rparr> \<and>
     (case openings rest 0 ts of [] \<Rightarrow> P \<lparr>g_threads = ts, g_world = w, g_pointer = p\<rparr>
      | i # js \<Rightarrow> search_each pl (survey pl Q P n) p rest ts w (i # js))"

lemma search_each_member:
  "search_each pl S p rest ts w js \<Longrightarrow> i \<in> set js \<Longrightarrow> search_one pl S p rest ts w i (ts ! i)"
  by (induction js) auto

lemma survey_holds: "survey pl Q P n p rest ts w \<Longrightarrow> Q \<lparr>g_threads = ts, g_world = w, g_pointer = p\<rparr>"
  by (cases n) simp_all

lemma survey_step:
  assumes "rest = drop p (pl_steps pl)" "survey pl Q P n p rest ts w"
    and "gated_enabled pl \<lparr>g_threads = ts, g_world = w, g_pointer = p\<rparr> i"
  shows "\<exists>m p' rest' ts' w'. rest' = drop p' (pl_steps pl) \<and> survey pl Q P m p' rest' ts' w' \<and>
    gated_step pl i \<lparr>g_threads = ts, g_world = w, g_pointer = p\<rparr> = \<lparr>g_threads = ts', g_world = w', g_pointer = p'\<rparr>"
proof -
  let ?g = "\<lparr>g_threads = ts, g_world = w, g_pointer = p\<rparr>"
  have i: "i \<in> set (openings rest 0 ts)"
    unfolding assms(1) openings_enabled [of p pl ts w] using assms(3) by (auto simp: gated_enabled_thread)
  then obtain m where m: "n = Suc m" using assms(2) by (cases n) auto
  have "search_each pl (survey pl Q P m) p rest ts w (openings rest 0 ts)"
    using assms(2) i m by (cases "openings rest 0 ts") auto
  then have one: "search_one pl (survey pl Q P m) p rest ts w i (ts ! i)" using i by (rule search_each_member)
  obtain a t where t: "ts ! i = (a, t)" by (rule prod.exhaust)
  have tl: "tl rest = drop (Suc p) (pl_steps pl)" using assms(1) by (simp add: drop_Suc tl_drop)
  show ?thesis
  proof (cases t)
    case (Halt r)
    with assms(3) t show ?thesis by (simp add: gated_enabled_def)
  next
    case (Act f)
    obtain t' w' where f: "f w = (t', w')" by (rule prod.exhaust)
    have "survey pl Q P m p rest (ts[i := (a, t')]) w'" using one t Act f by simp
    moreover have "gated_step pl i ?g = \<lparr>g_threads = ts[i := (a, t')], g_world = w', g_pointer = p\<rparr>"
      using assms(3) t Act f by (simp add: gated_step_def)
    ultimately show ?thesis using assms(1) by blast
  next
    case (Gate name k)
    let ?ts = "ts[i := (a, k (gate_result pl p a name))]"
    have "survey pl Q P m (Suc p) (tl rest) ?ts w" using one t Gate by simp
    moreover have "gated_step pl i ?g = \<lparr>g_threads = ?ts, g_world = w, g_pointer = Suc p\<rparr>"
      using assms(3) t Gate by (simp add: gated_step_def)
    ultimately show ?thesis using tl by blast
  qed
qed

lemma survey_run:
  "rest = drop p (pl_steps pl) \<Longrightarrow> survey pl Q P n p rest ts w \<Longrightarrow>
   Q (gated_run pl js \<lparr>g_threads = ts, g_world = w, g_pointer = p\<rparr>) \<and>
   (quiet_state pl (gated_run pl js \<lparr>g_threads = ts, g_world = w, g_pointer = p\<rparr>) \<longrightarrow>
      P (gated_run pl js \<lparr>g_threads = ts, g_world = w, g_pointer = p\<rparr>))"
proof (induction js arbitrary: n p rest ts w)
  case Nil
  let ?g = "\<lparr>g_threads = ts, g_world = w, g_pointer = p\<rparr>"
  have "P ?g" if "quiet_state pl ?g"
  proof -
    have "openings rest 0 ts = []"
      unfolding Nil.prems(1) openings_enabled [of p pl ts w] using that by (auto simp: quiet_state_def filter_empty_conv)
    then show ?thesis using Nil.prems(2) by (cases n) simp_all
  qed
  then show ?case using survey_holds [OF Nil.prems(2)] by (simp add: gated_run_def)
next
  case (Cons i js)
  let ?g = "\<lparr>g_threads = ts, g_world = w, g_pointer = p\<rparr>"
  have run: "gated_run pl (i # js) ?g = gated_run pl js (gated_step pl i ?g)" by (simp add: gated_run_def)
  show ?case
  proof (cases "gated_enabled pl ?g i")
    case True
    from survey_step [OF Cons.prems True] obtain m p' rest' ts' w' where
      S: "rest' = drop p' (pl_steps pl)" "survey pl Q P m p' rest' ts' w'"
        "gated_step pl i ?g = \<lparr>g_threads = ts', g_world = w', g_pointer = p'\<rparr>" by blast
    show ?thesis unfolding run S(3) by (rule Cons.IH [OF S(1,2)])
  next
    case False
    then have "gated_step pl i ?g = ?g" by (simp add: gated_step_def)
    then show ?thesis unfolding run using Cons.IH [OF Cons.prems] by simp
  qed
qed

section \<open>Following one run\<close>

text \<open>The given threads, each enabled in its turn, lead to a state with \<open>P\<close>.\<close>

fun leads_to ::
  "plan \<Rightarrow> (gated \<Rightarrow> bool) \<Rightarrow> nat list \<Rightarrow> nat \<Rightarrow> step list \<Rightarrow> (string \<times> thread) list \<Rightarrow> world \<Rightarrow> bool" where
  "leads_to pl P [] p rest ts w \<longleftrightarrow> P \<lparr>g_threads = ts, g_world = w, g_pointer = p\<rparr>"
| "leads_to pl P (i # js) p rest ts w \<longleftrightarrow> i \<in> set (openings rest 0 ts) \<and>
     search_one pl (leads_to pl P js) p rest ts w i (ts ! i)"

lemma leads_to_run:
  "rest = drop p (pl_steps pl) \<Longrightarrow> leads_to pl P js p rest ts w \<Longrightarrow>
   P (gated_run pl js \<lparr>g_threads = ts, g_world = w, g_pointer = p\<rparr>) \<and>
   effective pl js \<lparr>g_threads = ts, g_world = w, g_pointer = p\<rparr> = length js"
proof (induction js arbitrary: p rest ts w)
  case (Cons i js)
  let ?g = "\<lparr>g_threads = ts, g_world = w, g_pointer = p\<rparr>"
  have "i \<in> set (openings (drop p (pl_steps pl)) 0 ts)" using Cons.prems by simp
  then have en: "gated_enabled pl ?g i"
    unfolding openings_enabled [of p pl ts w] by simp
  obtain a t where t: "ts ! i = (a, t)" by fastforce
  have tl: "tl rest = drop (Suc p) (pl_steps pl)" using Cons.prems(1) by (simp add: drop_Suc tl_drop)
  have one: "search_one pl (leads_to pl P js) p rest ts w i (a, t)" using Cons.prems(2) t by simp
  have "P (gated_run pl js (gated_step pl i ?g)) \<and> effective pl js (gated_step pl i ?g) = length js"
  proof (cases t)
    case (Gate name k)
    then show ?thesis using Cons.IH [OF tl] one t en by (simp add: gated_step_def)
  next
    case (Act f)
    obtain t' w' where "f w = (t', w')" by fastforce
    then show ?thesis using Act Cons.IH [OF Cons.prems(1)] one t en by (simp add: gated_step_def)
  qed (use en t in \<open>simp add: gated_enabled_def\<close>)
  then show ?case using en by (simp add: gated_run_def)
qed (simp add: gated_run_def)

end
