(* ===== verification/Runner.thy ===== *)
theory Runner
  imports Gates
begin

text \<open>
  Running a schedule: \<^verbatim>\<open>schedules/runner.py\<close> and the worker's side of
  \<^verbatim>\<open>agents/diligent/pool.py\<close>. A schedule file is a \<open>schedule_spec\<close>; the runner turns each of
  its actors into a job, a worker turns a job into a thread, and the threads run under the
  gates of the declared steps.
\<close>

section \<open>Schedule files\<close>

record actor_spec =
  as_id :: string
  as_action :: string
  as_amount :: decimal
  as_key :: string
  as_retry_on_failure :: bool
  as_abandon_after_reserve :: bool
  as_scopes :: "string list option"
  as_projection_order :: "string list option"

record schedule_spec =
  ss_id :: string
  ss_authorized :: decimal
  ss_timeout_seconds :: rat
  ss_lease_ttl_seconds :: rat
  ss_use_reservations :: bool
  ss_use_projection :: bool
  ss_actors :: "actor_spec list"
  ss_steps :: "step list"
  ss_faults :: "key list"

text \<open>The services that are up.\<close>

record stack =
  st_control :: bool
  st_crm :: bool

section \<open>Jobs\<close>

record diligent_spec =
  ds_case :: string
  ds_actor :: string
  ds_schedule :: string
  ds_action :: string
  ds_amount :: decimal
  ds_key :: string
  ds_retry_on_failure :: bool
  ds_abandon_after_reserve :: bool
  ds_scopes :: "string list option"
  ds_authorized :: decimal
  ds_control_url :: bool
  ds_crm_url :: bool

text \<open>A redelivery and a projection carry the actor, the schedule, the case and the order.\<close>

datatype pool_job =
    Run_Redeliver string string string
  | Run_Projector string string string "string list option"
  | Run_Diligent diligent_spec

definition dispatch_actor :: "stack \<Rightarrow> string \<Rightarrow> schedule_spec \<Rightarrow> actor_spec \<Rightarrow> pool_job" where
  "dispatch_actor st cid spec a =
     (if as_action a = ''redeliver'' then Run_Redeliver (as_id a) (ss_id spec) cid
      else if as_action a = ''project'' then Run_Projector (as_id a) (ss_id spec) cid (as_projection_order a)
      else Run_Diligent \<lparr>ds_case = cid, ds_actor = as_id a, ds_schedule = ss_id spec, ds_action = as_action a,
        ds_amount = as_amount a, ds_key = as_key a, ds_retry_on_failure = as_retry_on_failure a,
        ds_abandon_after_reserve = as_abandon_after_reserve a, ds_scopes = as_scopes a,
        ds_authorized = ss_authorized spec, ds_control_url = (ss_use_reservations spec \<and> st_control st),
        ds_crm_url = (ss_use_projection spec \<and> st_crm st)\<rparr>)"

text \<open>
  The worker. The token library is a parameter: \<open>encode\<close> makes a token of a payload, \<open>decode\<close> is
  what the services do with it; \<open>now\<close> is the clock when the token is issued. A scope list that
  is missing or empty is replaced by all four scopes.
\<close>

record token_library =
  tk_encode :: "jwt_payload \<Rightarrow> string"
  tk_decode :: "string \<Rightarrow> string + jwt_payload"
  tk_now :: datetime

definition default_scopes :: "string list" where
  "default_scopes = [''refund:create'', ''refund:approved'', ''credit:create'', ''credit:approved'']"

definition granted_scopes :: "string list option \<Rightarrow> string list" where
  "granted_scopes scs = (case scs of None \<Rightarrow> default_scopes | Some ss \<Rightarrow> if ss = [] then default_scopes else ss)"

definition job_payload :: "token_library \<Rightarrow> string \<Rightarrow> string list option \<Rightarrow> clock_error + jwt_payload" where
  "job_payload tk actor scs =
     issue_payload actor (granted_scopes scs) ''acme'' DEFAULT_TTL_SECONDS (tk_now tk)"

definition job_env :: "token_library \<Rightarrow> string \<Rightarrow> jwt_payload \<Rightarrow> service_env" where
  "job_env tk actor p = \<lparr>env_enforce = True, env_decode = tk_decode tk,
     env_headers = [''authorization'' \<mapsto> ''Bearer '' @ tk_encode tk p, ''x-tenant-id'' \<mapsto> ''acme''],
     env_actor = actor\<rparr>"

definition diligent_thread :: "token_library \<Rightarrow> diligent_spec \<Rightarrow> thread" where
  "diligent_thread tk d =
     (case job_payload tk (ds_actor d) (ds_scopes d) of
        Inl e \<Rightarrow> Halt Actor_Error
      | Inr p \<Rightarrow> thread_of (job_env tk (ds_actor d) p) (run_case (ds_case d)
          \<lparr>cf_case_id = ds_case d, cf_actor_id = ds_actor d, cf_schedule_id = ds_schedule d,
            cf_action = ds_action d, cf_amount = ds_amount d, cf_key = ds_key d, cf_authorized = ds_authorized d,
            cf_retry_on_failure = ds_retry_on_failure d, cf_abandon_after_reserve = ds_abandon_after_reserve d\<rparr>
          \<lparr>has_crm = ds_crm_url d, has_reserve = ds_control_url d, has_release = ds_control_url d,
            has_commit = ds_control_url d\<rparr>))"

definition job_thread :: "token_library \<Rightarrow> pool_job \<Rightarrow> thread" where
  "job_thread tk job = (case job of
     Run_Redeliver actor schedule cid \<Rightarrow> redeliver_thread actor schedule cid
   | Run_Projector actor schedule cid order \<Rightarrow> projector_thread actor schedule cid order
   | Run_Diligent d \<Rightarrow> diligent_thread tk d)"

section \<open>The run\<close>

definition plan_of :: "schedule_spec \<Rightarrow> plan" where
  "plan_of spec = \<lparr>pl_steps = ss_steps spec, pl_faults = ss_faults spec\<rparr>"

definition actor_threads :: "token_library \<Rightarrow> stack \<Rightarrow> string \<Rightarrow> schedule_spec \<Rightarrow> (string \<times> thread) list" where
  "actor_threads tk st cid spec =
     map (\<lambda>a. (as_id a, job_thread tk (dispatch_actor st cid spec a))) (ss_actors spec)"

definition gated_start :: "token_library \<Rightarrow> stack \<Rightarrow> string \<Rightarrow> schedule_spec \<Rightarrow> gated" where
  "gated_start tk st cid spec =
     \<lparr>g_threads = actor_threads tk st cid spec, g_world = empty_world, g_pointer = 0\<rparr>"


section \<open>The end of a run\<close>

record run_outcome =
  ro_schedule :: string
  ro_result :: result
  ro_release_order :: "key list"
  ro_parked :: "key list"
  ro_actor_outcomes :: "(actor_outcome \<times> string) list"
  ro_divergence :: view_comparison
  ro_transitions :: "string list list"

datatype run_error =
    Collect_Timeout
  | Not_Quiescent nat
  | Schedule_Not_Executed string "key list" "key list"
  | Actor_Failed string "(actor_outcome \<times> string) list"

text \<open>One result per actor is taken from the queue, or the collection times out.\<close>

definition collect :: "(string \<times> thread) list \<Rightarrow> (actor_outcome \<times> string) list option" where
  "collect ts = those (map (\<lambda>(actor, t). case t of Halt r \<Rightarrow> Some (r, actor) | _ \<Rightarrow> None) ts)"

text \<open>
  From the collected results on: the coordinator is asked for its waiters and its release
  order, then the databases are read.
\<close>

definition finish_run ::
  "schedule_spec \<Rightarrow> string \<Rightarrow> (actor_outcome \<times> string) list option \<Rightarrow> key list \<Rightarrow> key list \<Rightarrow> services_db \<Rightarrow>
     run_error + run_outcome" where
  "finish_run spec cid collected waiting order db =
     (case collected of None \<Rightarrow> Inl Collect_Timeout
      | Some actor_outcomes \<Rightarrow> (case ensure_quiescent waiting of Some n \<Rightarrow> Inl (Not_Quiescent n)
          | None \<Rightarrow> Inr \<lparr>ro_schedule = ss_id spec, ro_result = evaluate cid (ss_authorized spec) db,
              ro_release_order = order, ro_parked = waiting, ro_actor_outcomes = actor_outcomes,
              ro_divergence = capture_views cid None db, ro_transitions = transitions cid db\<rparr>))"

definition assert_schedule_executed :: "run_outcome \<Rightarrow> key list \<Rightarrow> run_error option" where
  "assert_schedule_executed r expected =
     (if ro_release_order r \<noteq> expected
      then Some (Schedule_Not_Executed (ro_schedule r) expected (ro_release_order r)) else None)"

definition assert_actors_succeeded :: "run_outcome \<Rightarrow> run_error option" where
  "assert_actors_succeeded r =
     (let failures = filter (\<lambda>(o', actor). o' = Actor_Error) (ro_actor_outcomes r)
      in if failures \<noteq> [] then Some (Actor_Failed (ro_schedule r) failures) else None)"

text \<open>
  The same over the abstract scheduler: its waiters are the threads at a gate, with the number
  of times each has been let through before; what it has released are the declared keys before
  the pointer.
\<close>

definition gated_waiters :: "plan \<Rightarrow> gated \<Rightarrow> key list" where
  "gated_waiters pl g = concat (map (\<lambda>(actor, t). case t of
       Gate name k \<Rightarrow> [(actor, name, count_list (take (g_pointer g) (pl_steps pl)) (actor, name))]
     | _ \<Rightarrow> []) (g_threads g))"

definition gated_released :: "plan \<Rightarrow> gated \<Rightarrow> key list" where
  "gated_released pl g = take (g_pointer g) (keys_of (pl_steps pl))"

definition gated_outcome :: "schedule_spec \<Rightarrow> string \<Rightarrow> gated \<Rightarrow> run_error + run_outcome" where
  "gated_outcome spec cid g = finish_run spec cid (collect (g_threads g))
     (gated_waiters (plan_of spec) g) (gated_released (plan_of spec) g)
     (w_billing (g_world g), w_ledger (g_world g))"

section \<open>What a schedule promises\<close>

text \<open>
  \<open>ends_in pl n P g\<close>: in whatever order the threads run from \<open>g\<close>, no thread ever waits at a
  checkpoint the schedule does not let it through any more, at most \<open>n\<close> steps are taken, and
  when no thread can go on \<open>P\<close> holds.
\<close>

definition ends_in :: "plan \<Rightarrow> nat \<Rightarrow> (gated \<Rightarrow> bool) \<Rightarrow> gated \<Rightarrow> bool" where
  "ends_in pl n P g \<longleftrightarrow> (\<forall>js. no_stray pl (gated_run pl js g) \<and> effective pl js g \<le> n \<and>
     (quiet_state pl (gated_run pl js g) \<longrightarrow> P (gated_run pl js g)))"

lemma explore_ends_in:
  assumes "explore pl P n g"
  shows "ends_in pl n P g"
  unfolding ends_in_def
proof
  fix js
  obtain m where "explore pl P m (gated_run pl js g)" using explore_run [OF assms] by blast
  then show "no_stray pl (gated_run pl js g) \<and> effective pl js g \<le> n \<and>
      (quiet_state pl (gated_run pl js g) \<longrightarrow> P (gated_run pl js g))"
    using explore_no_stray explore_quiet explore_effective [OF assms] by blast
qed

lemma search_ends_in:
  "search pl P n 0 (pl_steps pl) ts w \<Longrightarrow> ends_in pl n P \<lparr>g_threads = ts, g_world = w, g_pointer = 0\<rparr>"
  by (intro explore_ends_in search_explore [where rest = "pl_steps pl"]) simp_all

lemma ends_in_mono: "ends_in pl n P g \<Longrightarrow> (\<And>g. P g \<Longrightarrow> Q g) \<Longrightarrow> ends_in pl n Q g"
  by (auto simp: ends_in_def)

text \<open>
  The run executed its declared interleaving, the oracle's answer is the one given, and \<open>ok\<close>
  says whether every actor succeeded.
\<close>

definition executed_with :: "schedule_spec \<Rightarrow> verdict \<Rightarrow> decimal \<Rightarrow> bool \<Rightarrow> run_error + run_outcome \<Rightarrow> bool" where
  "executed_with spec v paid ok out \<longleftrightarrow> (case out of Inl e \<Rightarrow> False
     | Inr r \<Rightarrow> assert_schedule_executed r (expected_release_order (ss_steps spec)) = None \<and>
         (assert_actors_succeeded r = None \<longleftrightarrow> ok) \<and>
         re_verdict (ro_result r) = v \<and> re_committed (ro_result r) = paid \<and>
         re_overage (ro_result r) = max 0 (paid - ss_authorized spec) \<and> \<not> vc_diverged (ro_divergence r))"

text \<open>It ended normally but for the interleaving: fewer keys were released than declared.\<close>

definition cut_short :: "schedule_spec \<Rightarrow> nat \<Rightarrow> verdict \<Rightarrow> decimal \<Rightarrow> run_error + run_outcome \<Rightarrow> bool" where
  "cut_short spec n v paid out \<longleftrightarrow> (case out of Inl e \<Rightarrow> False
     | Inr r \<Rightarrow> ro_release_order r = take n (expected_release_order (ss_steps spec)) \<and>
         assert_schedule_executed r (expected_release_order (ss_steps spec)) \<noteq> None \<and>
         assert_actors_succeeded r = None \<and> re_verdict (ro_result r) = v \<and> re_committed (ro_result r) = paid)"

text \<open>A final state by its parts.\<close>

definition final :: "string list \<Rightarrow> actor_outcome list \<Rightarrow> billing_db \<Rightarrow> ledger_db \<Rightarrow> nat \<Rightarrow> gated \<Rightarrow> bool" where
  "final names rs b l n g \<longleftrightarrow> g_threads g = zip names (map Halt rs) \<and> g_pointer g = n \<and>
     w_billing (g_world g) = b \<and> w_ledger (g_world g) = l"

definition ended :: "schedule_spec \<Rightarrow> actor_outcome list \<Rightarrow> billing_db \<Rightarrow> ledger_db \<Rightarrow> gated \<Rightarrow> bool" where
  "ended spec rs b l g \<longleftrightarrow> length rs = length (ss_actors spec) \<and>
     final (map as_id (ss_actors spec)) rs b l (length (ss_steps spec)) g"

lemma collect_halted: "collect (zip names (map Halt rs)) = Some (zip rs names)"
proof -
  have "map (\<lambda>(actor, t). case t of Halt r \<Rightarrow> Some (r, actor) | _ \<Rightarrow> None) (zip names (map Halt rs))
      = map Some (zip rs names)"
    by (induction names rs rule: list_induct2') auto
  moreover have "those (map Some xs) = Some xs" for xs :: "'x list" by (induction xs) auto
  ultimately show ?thesis unfolding collect_def by metis
qed

lemma waiters_halted:
  assumes "g_threads g = zip names (map Halt rs)"
  shows "gated_waiters pl g = []"
proof -
  have "concat (map (\<lambda>(actor, t). case t of Gate name k \<Rightarrow> [f actor name] | _ \<Rightarrow> []) (zip names (map Halt rs))) = []"
    for f :: "string \<Rightarrow> string \<Rightarrow> key"
    by (induction names rs rule: list_induct2') auto
  then show ?thesis by (simp add: gated_waiters_def assms)
qed

lemma final_outcome:
  assumes "final (map as_id (ss_actors spec)) rs b l n g"
  shows "gated_outcome spec cid g = Inr \<lparr>ro_schedule = ss_id spec,
     ro_result = evaluate cid (ss_authorized spec) (b, l),
     ro_release_order = take n (expected_release_order (ss_steps spec)),
     ro_parked = [], ro_actor_outcomes = zip rs (map as_id (ss_actors spec)),
     ro_divergence = capture_views cid None (b, l), ro_transitions = transitions cid (b, l)\<rparr>"
  using assms waiters_halted [of g "map as_id (ss_actors spec)" rs]
  by (simp add: final_def gated_outcome_def finish_run_def collect_halted ensure_quiescent_def gated_released_def
      plan_of_def expected_keys)

lemma ended_outcome:
  assumes "ended spec rs b l g"
  shows "gated_outcome spec cid g = Inr \<lparr>ro_schedule = ss_id spec,
     ro_result = evaluate cid (ss_authorized spec) (b, l), ro_release_order = expected_release_order (ss_steps spec),
     ro_parked = [], ro_actor_outcomes = zip rs (map as_id (ss_actors spec)),
     ro_divergence = capture_views cid None (b, l), ro_transitions = transitions cid (b, l)\<rparr>"
  using assms final_outcome [of spec rs b l "length (ss_steps spec)" g cid] by (simp add: ended_def expected_keys)

lemma failures_none:
  assumes "length rs = length (ss_actors spec)"
  shows "filter (\<lambda>(r, actor). r = Actor_Error) (zip rs (map as_id (ss_actors spec))) = [] \<longleftrightarrow> Actor_Error \<notin> set rs"
proof -
  have "fst ` set (zip rs (map as_id (ss_actors spec))) = set rs"
    using assms by (metis length_map list.set_map map_fst_zip)
  then show ?thesis by (force simp: filter_empty_conv)
qed

lemma ended_executed:
  assumes "ended spec rs b l g" "distinct (map ef_key (effects b @ effects l))"
    "total_committed cid b + total_committed cid l = paid"
    "v = (if ss_authorized spec < paid then VIOLATION else CLEAN)" "ok \<longleftrightarrow> Actor_Error \<notin> set rs"
  shows "executed_with spec v paid ok (gated_outcome spec cid g)"
  using assms failures_none [of rs spec]
  by (simp add: executed_with_def ended_outcome assert_schedule_executed_def distinct_keys_verdict evaluate_overage
      evaluate_committed authoritative_total_def views_never_diverge assert_actors_succeeded_def Let_def ended_def)

lemma final_cut_short:
  assumes "final (map as_id (ss_actors spec)) rs b l n g" "n < length (ss_steps spec)" "Actor_Error \<notin> set rs"
    "length rs = length (ss_actors spec)"
    "distinct (map ef_key (effects b @ effects l))" "total_committed cid b + total_committed cid l = paid"
    "v = (if ss_authorized spec < paid then VIOLATION else CLEAN)"
  shows "cut_short spec n v paid (gated_outcome spec cid g)"
proof -
  have "take n (expected_release_order (ss_steps spec)) \<noteq> expected_release_order (ss_steps spec)"
    using assms(2) by (metis expected_keys length_keys_of length_take min.absorb4 nat_neq_iff)
  then show ?thesis
    using assms(3,5-7) failures_none [OF assms(4)]
    by (simp add: cut_short_def final_outcome [OF assms(1)] assert_schedule_executed_def assert_actors_succeeded_def
        distinct_keys_verdict evaluate_committed authoritative_total_def Let_def)
qed

text \<open>What the search is asked about a schedule with given threads.\<close>

definition foreseen ::
  "schedule_spec \<Rightarrow> actor_outcome list \<Rightarrow> billing_db \<Rightarrow> ledger_db \<Rightarrow> nat \<Rightarrow> (string \<times> thread) list \<Rightarrow> bool" where
  "foreseen spec rs b l n ts \<longleftrightarrow>
     search (plan_of spec) (final (map as_id (ss_actors spec)) rs b l (length (ss_steps spec))) n 0 (ss_steps spec)
       ts empty_world"

lemma foreseen_ends_in:
  assumes "foreseen spec rs b l n (actor_threads tk st cid spec)" "length rs = length (ss_actors spec)"
  shows "ends_in (plan_of spec) n (ended spec rs b l) (gated_start tk st cid spec)"
proof -
  have "ends_in (plan_of spec) n (final (map as_id (ss_actors spec)) rs b l (length (ss_steps spec)))
      (gated_start tk st cid spec)"
    unfolding gated_start_def using assms(1) by (intro search_ends_in) (simp add: foreseen_def plan_of_def)
  then show ?thesis by (rule ends_in_mono) (simp add: ended_def assms(2))
qed

end
