(* ===== verification/Stages.thy ===== *)
theory Stages
  imports Runner
begin

text \<open>
  The stages of the diligent agent's thread: what it waits for or does next, and what it does
  after that, one equation per stage. With them a run is followed by rewriting, without
  unfolding the program.
\<close>

section \<open>Programs between two stops\<close>

definition ag_observed :: "string \<Rightarrow> case_config \<Rightarrow> clients \<Rightarrow> decimal \<Rightarrow> agent" where
  "ag_observed cid cfg cl observed =
     call_or_raise (Checkpoint_Call ''agent.after_reads_before_act'') (\<lambda>_. decide cid cfg cl observed)"

definition ag_sum :: "string \<Rightarrow> case_config \<Rightarrow> clients \<Rightarrow> decimal \<Rightarrow> decimal \<Rightarrow> agent" where
  "ag_sum cid cfg cl t u = ag_observed cid cfg cl (t + u)"

definition ag_seen :: "string \<Rightarrow> case_config \<Rightarrow> clients \<Rightarrow> decimal \<Rightarrow> agent" where
  "ag_seen cid cfg cl t = call_or_raise (Total_Call Ledger_Service cid) (\<lambda>b. ag_sum cid cfg cl t (total_of b))"

definition ag_read :: "string \<Rightarrow> case_config \<Rightarrow> clients \<Rightarrow> agent" where
  "ag_read cid cfg cl = observed_compensation cid cl (ag_observed cid cfg cl)"

definition pass_to :: "service_env \<Rightarrow> agent \<Rightarrow> bool \<Rightarrow> thread" where
  "pass_to env P ok = (if ok then thread_of env P else Halt Actor_Error)"

definition read_then :: "service_env \<Rightarrow> service \<Rightarrow> string \<Rightarrow> (decimal \<Rightarrow> agent) \<Rightarrow> world \<Rightarrow> thread \<times> world" where
  "read_then env s cid P w = (thread_of env (P (exact w s cid)), w)"

definition ask_then :: "service_env \<Rightarrow> string \<Rightarrow> case_config \<Rightarrow> clients \<Rightarrow> world \<Rightarrow> thread \<times> world" where
  "ask_then env cid cfg cl w =
     (case reserve 0 0 (env_actor env) \<lparr>rq_case = cid, rq_amount = cf_amount cfg, rq_key = cf_key cfg,
            rq_authorized = cf_authorized cfg, rq_ttl = None\<rparr> (w_control w) of
        (Inr g, k) \<Rightarrow> (if cf_abandon_after_reserve cfg then Halt Actor_Ok
            else thread_of env (act cid cfg cl (Some (gr_id g))), w\<lparr>w_control := k\<rparr>)
      | (Inl e, k) \<Rightarrow> (if status e = 409 then Halt Actor_Ok else Halt Actor_Error, w\<lparr>w_control := k\<rparr>))"

definition close_then :: "call \<Rightarrow> actor_outcome \<Rightarrow> world \<Rightarrow> thread \<times> world" where
  "close_then c r w = (case c of
     Commit_Call i \<Rightarrow> (Halt r, w\<lparr>w_control := snd (commit i (w_control w))\<rparr>)
   | Release_Call i \<Rightarrow> (Halt r, w\<lparr>w_control := snd (release i (w_control w))\<rparr>)
   | _ \<Rightarrow> (Halt r, w))"

text \<open>After the first and the second attempt.\<close>

definition after_first :: "service_env \<Rightarrow> string \<Rightarrow> case_config \<Rightarrow> clients \<Rightarrow> int option \<Rightarrow> answer \<Rightarrow> thread" where
  "after_first env cid cfg cl rid a = thread_of env (case a of
     Raised e \<Rightarrow> if \<not> cf_retry_on_failure cfg then unwind_hold cl rid e else second_try cid cfg cl rid
   | _ \<Rightarrow> settle_hold cl rid)"

definition after_second :: "service_env \<Rightarrow> clients \<Rightarrow> int option \<Rightarrow> answer \<Rightarrow> thread" where
  "after_second env cl rid a = thread_of env (case a of
     Raised e \<Rightarrow> unwind_hold cl rid e | _ \<Rightarrow> settle_hold cl rid)"

definition request_of :: "string \<Rightarrow> case_config \<Rightarrow> effect_request" where
  "request_of cid cfg = \<lparr>r_case_id = cid, r_amount = cf_amount cfg, r_idempotency_key = cf_key cfg\<rparr>"

definition create_then :: "service_env \<Rightarrow> string \<Rightarrow> case_config \<Rightarrow> (answer \<Rightarrow> thread) \<Rightarrow> thread" where
  "create_then env cid cfg k =
     (if cf_action cfg = ''refund'' then Act (refund_enter env (request_of cid cfg) k)
      else Act (credit_enter env (request_of cid cfg) k))"

section \<open>The stages\<close>

lemma checkpoint_stage:
  "thread_of env (call_or_raise (Checkpoint_Call name) (\<lambda>_. P)) = Gate name (pass_to env P)"
  by (simp add: call_or_raise_def call_thread_def guarded_def pass_to_def failed_def outcome_of_def fun_eq_iff)

lemma read_stage:
  "thread_of env (call_or_raise (Total_Call s cid) (\<lambda>a. P (total_of a))) = Act (read_then env s cid P)"
proof -
  have "serve_call env (Total_Call s cid) k w = (k (Total_Answer (exact w s cid)), w)" for k w
    by (cases s) (simp_all add: serve_call_def list_refunds_def list_credits_def)
  then show ?thesis
    by (simp add: call_or_raise_def call_thread_def read_then_def [abs_def] fun_eq_iff)
qed

lemma create_stage:
  "thread_of env (Call (create_call cid cfg) k) = create_then env cid cfg (\<lambda>a. thread_of env (k a))"
  by (simp add: create_call_def call_thread_def create_then_def request_of_def Let_def)

lemma start_stage:
  "cf_action cfg \<in> {''refund'', ''credit''} \<Longrightarrow>
   thread_of env (run_case cid cfg cl) = Gate ''agent.before_reads'' (pass_to env (ag_read cid cfg cl))"
  unfolding run_case_def ag_read_def ag_observed_def [abs_def] by (simp add: checkpoint_stage)

lemma ag_read_stage:
  "thread_of env (ag_read cid cfg cl) =
     (if has_crm cl then Act (read_then env Crm_Service cid (ag_observed cid cfg cl))
      else Act (read_then env Billing_Service cid (ag_seen cid cfg cl)))"
  unfolding ag_read_def observed_compensation_def ag_seen_def [abs_def] ag_sum_def
  using read_stage [of env Billing_Service cid "\<lambda>t. call_or_raise (Total_Call Ledger_Service cid)
    (\<lambda>b. ag_observed cid cfg cl (t + total_of b))"]
  by (simp add: read_stage)

lemma ag_seen_stage:
  "thread_of env (ag_seen cid cfg cl t) = Act (read_then env Ledger_Service cid (ag_sum cid cfg cl t))"
  unfolding ag_seen_def by (rule read_stage)

lemma ag_observed_stage:
  "thread_of env (ag_observed cid cfg cl t) = Gate ''agent.after_reads_before_act'' (pass_to env (decide cid cfg cl t))"
  unfolding ag_observed_def by (rule checkpoint_stage)

lemma decide_stage:
  "thread_of env (decide cid cfg cl t) =
     (if t + cf_amount cfg > cf_authorized cfg then Halt Actor_Ok
      else if has_reserve cl then Gate ''agent.before_reserve'' (pass_to env (ask_for_hold cid cfg cl))
      else thread_of env (act cid cfg cl None))"
  by (simp add: decide_def checkpoint_stage outcome_of_def)

lemma ask_stage: "thread_of env (ask_for_hold cid cfg cl) = Act (ask_then env cid cfg cl)"
  by (simp add: ask_for_hold_def call_or_raise_def call_thread_def serve_call_def ask_then_def answer_of_grant_def
      outcome_of_def fun_eq_iff Let_def split: prod.split sum.split)

lemma act_stage:
  "thread_of env (act cid cfg cl rid) = create_then env cid cfg (after_first env cid cfg cl rid)"
  unfolding act_def create_stage after_first_def [abs_def] ..

lemma second_stage:
  "thread_of env (second_try cid cfg cl rid) = create_then env cid cfg (after_second env cl rid)"
  unfolding second_try_def create_stage after_second_def [abs_def] ..

lemma settle_stage:
  "thread_of env (settle_hold cl rid) =
     (case rid of Some i \<Rightarrow> if has_commit cl then Act (close_then (Commit_Call i) Actor_Ok) else Halt Actor_Ok
      | None \<Rightarrow> Halt Actor_Ok)"
  by (simp add: settle_hold_def call_or_raise_def call_thread_def serve_call_def close_then_def outcome_of_def
      fun_eq_iff split: option.split)

lemma unwind_stage:
  "thread_of env (unwind_hold cl rid e) =
     (case rid of Some i \<Rightarrow> if has_release cl then Act (close_then (Release_Call i) Actor_Error) else Halt Actor_Error
      | None \<Rightarrow> Halt Actor_Error)"
  by (simp add: unwind_hold_def call_or_raise_def call_thread_def serve_call_def close_then_def outcome_of_def
      fun_eq_iff split: option.split)

lemma after_first_stage [simp]:
  "after_first env cid cfg cl rid Done_Answer = thread_of env (settle_hold cl rid)"
  "after_first env cid cfg cl rid (Raised e) =
     (if cf_retry_on_failure cfg then thread_of env (second_try cid cfg cl rid) else thread_of env (unwind_hold cl rid e))"
  by (simp_all add: after_first_def)

lemma after_second_stage [simp]:
  "after_second env cl rid Done_Answer = thread_of env (settle_hold cl rid)"
  "after_second env cl rid (Raised e) = thread_of env (unwind_hold cl rid e)"
  by (simp_all add: after_second_def)

lemmas stages = start_stage ag_read_stage ag_seen_stage ag_sum_def ag_observed_stage decide_stage ask_stage
  act_stage second_stage settle_stage unwind_stage

end
