(* ===== verification/Fresh.thy ===== *)
theory Fresh
  imports Stages
begin

text \<open>
  What the handlers do on the databases a schedule starts from, with names for the databases
  that result, so that a run of a schedule is followed by rewriting between names: a first
  refund, a first credit, a first hold and what becomes of it, a first projected event of each
  service. The checkpoints have names here too, which are compared without looking inside.
\<close>

section \<open>The checkpoints\<close>

definition cp_before_reads :: string where "cp_before_reads = ''agent.before_reads''"
definition cp_after_reads :: string where "cp_after_reads = ''agent.after_reads_before_act''"
definition cp_before_reserve :: string where "cp_before_reserve = ''agent.before_reserve''"
definition cp_refund_read :: string where "cp_refund_read = ''billing.after_read_before_decide''"
definition cp_refund_commit :: string where "cp_refund_commit = ''billing.after_commit_before_ack''"
definition cp_credit_read :: string where "cp_credit_read = ''ledger.after_read_before_decide''"
definition cp_credit_commit :: string where "cp_credit_commit = ''ledger.after_commit_before_ack''"

definition cp_poll :: string where "cp_poll = ''crm.before_poll''"
definition cp_apply :: string where "cp_apply = ''crm.before_apply_event''"

lemmas cp_defs = cp_poll_def cp_apply_def cp_before_reads_def cp_after_reads_def cp_before_reserve_def cp_refund_read_def cp_refund_commit_def cp_credit_read_def cp_credit_commit_def

lemma cp_distinct [simp]:
  "cp_before_reads \<noteq> cp_after_reads" "cp_before_reads \<noteq> cp_before_reserve"
  "cp_before_reads \<noteq> cp_refund_read" "cp_before_reads \<noteq> cp_refund_commit"
  "cp_before_reads \<noteq> cp_credit_read" "cp_before_reads \<noteq> cp_credit_commit"
  "cp_before_reads \<noteq> cp_poll" "cp_before_reads \<noteq> cp_apply"
  "cp_after_reads \<noteq> cp_before_reads" "cp_after_reads \<noteq> cp_before_reserve"
  "cp_after_reads \<noteq> cp_refund_read" "cp_after_reads \<noteq> cp_refund_commit"
  "cp_after_reads \<noteq> cp_credit_read" "cp_after_reads \<noteq> cp_credit_commit"
  "cp_after_reads \<noteq> cp_poll" "cp_after_reads \<noteq> cp_apply"
  "cp_before_reserve \<noteq> cp_before_reads" "cp_before_reserve \<noteq> cp_after_reads"
  "cp_before_reserve \<noteq> cp_refund_read" "cp_before_reserve \<noteq> cp_refund_commit"
  "cp_before_reserve \<noteq> cp_credit_read" "cp_before_reserve \<noteq> cp_credit_commit"
  "cp_before_reserve \<noteq> cp_poll" "cp_before_reserve \<noteq> cp_apply"
  "cp_refund_read \<noteq> cp_before_reads" "cp_refund_read \<noteq> cp_after_reads"
  "cp_refund_read \<noteq> cp_before_reserve" "cp_refund_read \<noteq> cp_refund_commit"
  "cp_refund_read \<noteq> cp_credit_read" "cp_refund_read \<noteq> cp_credit_commit"
  "cp_refund_read \<noteq> cp_poll" "cp_refund_read \<noteq> cp_apply"
  "cp_refund_commit \<noteq> cp_before_reads" "cp_refund_commit \<noteq> cp_after_reads"
  "cp_refund_commit \<noteq> cp_before_reserve" "cp_refund_commit \<noteq> cp_refund_read"
  "cp_refund_commit \<noteq> cp_credit_read" "cp_refund_commit \<noteq> cp_credit_commit"
  "cp_refund_commit \<noteq> cp_poll" "cp_refund_commit \<noteq> cp_apply"
  "cp_credit_read \<noteq> cp_before_reads" "cp_credit_read \<noteq> cp_after_reads"
  "cp_credit_read \<noteq> cp_before_reserve" "cp_credit_read \<noteq> cp_refund_read"
  "cp_credit_read \<noteq> cp_refund_commit" "cp_credit_read \<noteq> cp_credit_commit"
  "cp_credit_read \<noteq> cp_poll" "cp_credit_read \<noteq> cp_apply"
  "cp_credit_commit \<noteq> cp_before_reads" "cp_credit_commit \<noteq> cp_after_reads"
  "cp_credit_commit \<noteq> cp_before_reserve" "cp_credit_commit \<noteq> cp_refund_read"
  "cp_credit_commit \<noteq> cp_refund_commit" "cp_credit_commit \<noteq> cp_credit_read"
  "cp_credit_commit \<noteq> cp_poll" "cp_credit_commit \<noteq> cp_apply"
  "cp_poll \<noteq> cp_before_reads" "cp_poll \<noteq> cp_after_reads" "cp_poll \<noteq> cp_before_reserve"
  "cp_poll \<noteq> cp_refund_read" "cp_poll \<noteq> cp_refund_commit" "cp_poll \<noteq> cp_credit_read"
  "cp_poll \<noteq> cp_credit_commit" "cp_poll \<noteq> cp_apply" "cp_apply \<noteq> cp_before_reads"
  "cp_apply \<noteq> cp_after_reads" "cp_apply \<noteq> cp_before_reserve"
  "cp_apply \<noteq> cp_refund_read" "cp_apply \<noteq> cp_refund_commit" "cp_apply \<noteq> cp_credit_read"
  "cp_apply \<noteq> cp_credit_commit" "cp_apply \<noteq> cp_poll"
  by (simp_all add: cp_defs)

lemma guarded_simps [simp]: "guarded k t True = t" "guarded k t False = failed k"
  by (simp_all add: guarded_def)

lemma pass_to_simps [simp]: "pass_to env P True = thread_of env P" "pass_to env P False = Halt Actor_Error"
  by (simp_all add: pass_to_def)

lemma request_simps [simp]:
  "r_case_id (request_of cid cfg) = cid" "r_amount (request_of cid cfg) = cf_amount cfg"
  "r_idempotency_key (request_of cid cfg) = cf_key cfg"
  by (simp_all add: request_of_def)

section \<open>What the handlers do on a fresh database\<close>

definition refunded :: "string \<Rightarrow> string \<Rightarrow> string \<Rightarrow> decimal \<Rightarrow> billing_db" where
  "refunded cid actor key amount = (case create_refund_tx cid actor key amount empty_billing of
     Inr (r, db) \<Rightarrow> db | Inl e \<Rightarrow> empty_billing)"

definition credited :: "string \<Rightarrow> string \<Rightarrow> string \<Rightarrow> decimal \<Rightarrow> ledger_db" where
  "credited cid actor key amount = (case create_credit_tx cid actor key amount empty_effect_db of
     Inr (r, db) \<Rightarrow> db | Inl e \<Rightarrow> empty_effect_db)"

definition amount_ok :: "decimal \<Rightarrow> bool" where
  "amount_ok a \<longleftrightarrow> 0 < a \<and> numeric_12_2 a = Some a"

lemma refunded_tx:
  assumes "amount_ok a"
  shows "\<exists>row. create_refund_tx cid actor key a empty_billing = Inr ((False, row), refunded cid actor key a)"
  using assms by (simp add: refunded_def amount_ok_def services_eval)

lemma credited_tx:
  assumes "amount_ok a"
  shows "\<exists>row. create_credit_tx cid actor key a empty_effect_db = Inr ((False, row), credited cid actor key a)"
  using assms by (simp add: credited_def amount_ok_def services_eval)

lemma refunded_rows:
  "amount_ok a \<Longrightarrow> total_committed c (refunded cid actor key a) = (if c = cid then a else 0) \<and>
     map ef_key (effects (refunded cid actor key a)) = [key]"
  by (simp add: refunded_def amount_ok_def services_eval)

lemma credited_rows:
  "amount_ok a \<Longrightarrow> total_committed c (credited cid actor key a) = (if c = cid then a else 0) \<and>
     map ef_key (effects (credited cid actor key a)) = [key]"
  by (simp add: credited_def amount_ok_def services_eval)

lemma refund_write_fresh:
  assumes "amount_ok (r_amount req)" "w_billing w = empty_billing"
  shows "refund_write env req k w = (Gate ''billing.after_commit_before_ack'' (guarded k (k Done_Answer)),
     w\<lparr>w_billing := refunded (r_case_id req) (env_actor env) (r_idempotency_key req) (r_amount req)\<rparr>)"
  using refunded_tx [OF assms(1), of "r_case_id req" "env_actor env" "r_idempotency_key req"] assms(2)
  by (auto simp: refund_write_def ack_thread_def)

lemma credit_write_fresh:
  assumes "amount_ok (r_amount req)" "w_ledger w = empty_effect_db"
  shows "credit_write env req k w = (Gate ''ledger.after_commit_before_ack'' (guarded k (k Done_Answer)),
     w\<lparr>w_ledger := credited (r_case_id req) (env_actor env) (r_idempotency_key req) (r_amount req)\<rparr>)"
  using credited_tx [OF assms(1), of "r_case_id req" "env_actor env" "r_idempotency_key req"] assms(2)
  by (auto simp: credit_write_def ack_thread_def)

lemma empty_world_simps [simp]:
  "w_billing empty_world = empty_billing" "w_ledger empty_world = empty_effect_db"
  "w_crm empty_world = empty_crm" "w_control empty_world = empty_control"
  by (simp_all add: empty_world_def)

lemma empty_totals [simp]:
  "total_committed c empty_billing = 0" "total_committed c empty_effect_db = 0"
  "effects empty_billing = []" "effects empty_effect_db = []"
  by (simp_all add: services_eval)


text \<open>A second request with the same key finds the row.\<close>

lemma refunded_again:
  assumes "amount_ok a"
  shows "\<exists>row. create_refund_tx cid actor key x (refunded cid actor key a) =
    Inr ((True, row), refunded cid actor key a)"
  using assms by (simp add: refunded_def amount_ok_def services_eval)

lemma refund_write_again:
  assumes "amount_ok a" "w_billing w = refunded (r_case_id req) (env_actor env) (r_idempotency_key req) a"
  shows "refund_write env req k w = (k Done_Answer, w)"
proof -
  obtain row where "create_refund_tx (r_case_id req) (env_actor env) (r_idempotency_key req) (r_amount req)
      (w_billing w) = Inr ((True, row), w_billing w)"
    using refunded_again [OF assms(1)] assms(2) by metis
  then show ?thesis by (simp add: refund_write_def ack_thread_def)
qed

lemma amounts_ok [simp]: "amount_ok 600" "amount_ok 500" "amount_ok 400" "amount_ok 300" "amount_ok 1100" "amount_ok 700"
  by (simp_all add: amount_ok_def numeric_12_2_def round2_in_cents)

section \<open>Holds\<close>

definition held :: "string \<Rightarrow> string \<Rightarrow> string \<Rightarrow> decimal \<Rightarrow> control_db" where
  "held cid actor key amount = snd (reserve 0 0 actor
     \<lparr>rq_case = cid, rq_amount = amount, rq_key = key, rq_authorized = amount, rq_ttl = None\<rparr> empty_control)"

definition spent :: "string \<Rightarrow> string \<Rightarrow> string \<Rightarrow> decimal \<Rightarrow> control_db" where
  "spent cid actor key amount = snd (commit 1 (held cid actor key amount))"

definition freed :: "string \<Rightarrow> string \<Rightarrow> string \<Rightarrow> decimal \<Rightarrow> control_db" where
  "freed cid actor key amount = snd (release 1 (held cid actor key amount))"

lemmas hold_eval = held_def spent_def freed_def control_eval amount_ok_def

lemma ask_then_fresh:
  assumes "amount_ok (cf_amount cfg)" "cf_amount cfg \<le> cf_authorized cfg" "w_control w = empty_control"
  shows "ask_then env cid cfg cl w = (if cf_abandon_after_reserve cfg then Halt Actor_Ok
       else thread_of env (act cid cfg cl (Some 1)),
     w\<lparr>w_control := held cid (env_actor env) (cf_key cfg) (cf_amount cfg)\<rparr>)"
  using assms by (simp add: ask_then_def hold_eval)

lemma ask_then_refused:
  assumes "w_control w = held cid actor key a \<or> w_control w = spent cid actor key a" "amount_ok a"
    "key \<noteq> cf_key cfg" "cf_authorized cfg < a + cf_amount cfg"
  shows "ask_then env cid cfg cl w = (Halt Actor_Ok, w)"
proof -
  have same: "w\<lparr>w_control := w_control w\<rparr> = w" by simp
  show ?thesis
    using assms same by (auto simp: ask_then_def hold_eval)
qed

lemma close_then_commit:
  assumes "w_control w = held cid actor key a" "amount_ok a"
  shows "close_then (Commit_Call 1) r w = (Halt r, w\<lparr>w_control := spent cid actor key a\<rparr>)"
  using assms by (simp add: close_then_def spent_def)

lemma close_then_release:
  assumes "w_control w = held cid actor key a" "amount_ok a"
  shows "close_then (Release_Call 1) r w = (Halt r, w\<lparr>w_control := freed cid actor key a\<rparr>)"
  using assms by (simp add: close_then_def freed_def)

section \<open>Events\<close>

text \<open>The projector's thread, stage by stage.\<close>

definition poll_gate :: "string \<Rightarrow> string \<Rightarrow> string \<Rightarrow> string list \<Rightarrow> bool \<Rightarrow> thread" where
  "poll_gate actor schedule cid names ok = (if ok then sources_thread actor schedule cid names else Halt Actor_Error)"

definition poll_step :: "string \<Rightarrow> string \<Rightarrow> string \<Rightarrow> string \<Rightarrow> string list \<Rightarrow> world \<Rightarrow> thread \<times> world" where
  "poll_step actor schedule cid service services w =
     (case http_unapplied actor schedule (Some cid) service (w_billing w, w_ledger w) of
        None \<Rightarrow> Halt Actor_Error
      | Some evs \<Rightarrow> events_thread actor schedule service evs (sources_thread actor schedule cid services), w)"

definition apply_step :: "string \<Rightarrow> string \<Rightarrow> string \<Rightarrow> event \<Rightarrow> event list \<Rightarrow> thread \<Rightarrow> world \<Rightarrow> thread \<times> world" where
  "apply_step actor schedule service ev evs k w =
     (case apply_event (http_mark_applied actor schedule 0) service ev (pipeline_of w) of
        (Inl e, s) \<Rightarrow> (Halt Actor_Error, with_pipeline w s)
      | (Inr counted, s) \<Rightarrow> (events_thread actor schedule service evs k, with_pipeline w s))"

definition apply_gate :: "string \<Rightarrow> string \<Rightarrow> string \<Rightarrow> event \<Rightarrow> event list \<Rightarrow> thread \<Rightarrow> bool \<Rightarrow> thread" where
  "apply_gate actor schedule service ev evs k ok =
     (if ok then Act (apply_step actor schedule service ev evs k) else Halt Actor_Error)"

lemma poll_gate_simps [simp]:
  "poll_gate actor schedule cid names True = sources_thread actor schedule cid names"
  "apply_gate actor schedule service ev evs k True = Act (apply_step actor schedule service ev evs k)"
  by (simp_all add: poll_gate_def apply_gate_def)

lemma projector_stage:
  "projector_thread actor schedule cid None = Gate ''crm.before_poll'' (poll_gate actor schedule cid [''billing'', ''ledger''])"
  "projector_thread actor schedule cid (Some [''ledger'', ''billing'']) =
     Gate ''crm.before_poll'' (poll_gate actor schedule cid [''ledger'', ''billing''])"
  by (simp_all add: projector_thread_def poll_gate_def [abs_def])

lemma sources_stage:
  "sources_thread actor schedule cid [] = Halt Actor_Ok"
  "sources_thread actor schedule cid (service # services) = Act (poll_step actor schedule cid service services)"
  by (simp_all add: poll_step_def [abs_def])

lemma events_stage:
  "events_thread actor schedule service [] k = k"
  "events_thread actor schedule service (ev # evs) k =
     Gate ''crm.before_apply_event'' (apply_gate actor schedule service ev evs k)"
  by (simp_all add: apply_gate_def [abs_def] apply_step_def [abs_def] fun_eq_iff)

text \<open>A database whose only event has been applied, and the CRM after events of the case.\<close>

definition first_event :: "string \<Rightarrow> decimal \<Rightarrow> event" where
  "first_event cid a = \<lparr>ev_id = 1, ev_case = cid, ev_amount = a\<rparr>"

definition marked :: "'a effect_db_scheme \<Rightarrow> 'a effect_db_scheme" where
  "marked db = db\<lparr>outbox := update_where (\<lambda>e. ob_id e = 1) (\<lambda>e. e\<lparr>ob_applied_at := Some 0\<rparr>) (outbox db)\<rparr>"

definition counted :: "string \<Rightarrow> string \<Rightarrow> decimal \<Rightarrow> crm_db" where
  "counted cid service a = \<lparr>applied_events = [\<lparr>ap_service = service, ap_id = 1, ap_case = cid, ap_amount = a\<rparr>],
     projection = [\<lparr>pr_case = cid, pr_total = a, pr_events_applied = 1\<rparr>]\<rparr>"

definition counted_both :: "string \<Rightarrow> decimal \<Rightarrow> decimal \<Rightarrow> crm_db" where
  "counted_both cid a b = \<lparr>applied_events = [\<lparr>ap_service = ''billing'', ap_id = 1, ap_case = cid, ap_amount = a\<rparr>,
       \<lparr>ap_service = ''ledger'', ap_id = 1, ap_case = cid, ap_amount = b\<rparr>],
     projection = [\<lparr>pr_case = cid, pr_total = a + b, pr_events_applied = 2\<rparr>]\<rparr>"

lemma marked_simps [simp]:
  "effects (marked db) = effects db" "total_committed c (marked db) = total_committed c db"
  by (simp_all add: marked_def total_committed_def)


lemma refunded_events:
  assumes "amount_ok a"
  shows "list_events True (Some cid) (refunded cid actor key a) =
      ([\<lparr>ob_id = 1, ob_case = cid, ob_actor = actor, ob_service = ''billing'', ob_type = ''RefundCommitted'',
         ob_entity = 1, ob_amount = a, ob_applied_at = None\<rparr>], Some 1)"
    and "mark_one now 1 (refunded cid actor key a) = Some (1, (refunded cid actor key a)\<lparr>outbox := update_where
      (\<lambda>e. ob_id e = 1) (\<lambda>e. e\<lparr>ob_applied_at := Some now\<rparr>) (outbox (refunded cid actor key a))\<rparr>)"
  using assms by (simp_all add: refunded_def amount_ok_def services_eval list_events_def events_where_def mark_one_def)

lemma credited_events:
  assumes "amount_ok a"
  shows "list_credit_events True (Some cid) (credited cid actor key a) =
      ([\<lparr>ob_id = 1, ob_case = cid, ob_actor = actor, ob_service = ''ledger'', ob_type = ''CreditCommitted'',
         ob_entity = 1, ob_amount = a, ob_applied_at = None\<rparr>], Some 1)"
    and "mark_one now 1 (credited cid actor key a) = Some (1, (credited cid actor key a)\<lparr>outbox := update_where
      (\<lambda>e. ob_id e = 1) (\<lambda>e. e\<lparr>ob_applied_at := Some now\<rparr>) (outbox (credited cid actor key a))\<rparr>)"
  using assms by (simp_all add: credited_def amount_ok_def services_eval list_credit_events_def events_where_def mark_one_def)

definition identified :: "string \<Rightarrow> string \<Rightarrow> string \<Rightarrow> bool" where
  "identified actor schedule cid \<longleftrightarrow> actor \<noteq> [] \<and> schedule \<noteq> [] \<and> cid \<noteq> []"

lemma poll_billing:
  assumes "identified actor schedule cid" "amount_ok a" "w_billing w = refunded cid who key a"
  shows "poll_step actor schedule cid ''billing'' services w =
    (events_thread actor schedule ''billing'' [first_event cid a] (sources_thread actor schedule cid services), w)"
  using assms by (simp add: poll_step_def http_unapplied_def refunded_events identified_def first_event_def
      to_event_def)

lemma poll_ledger:
  assumes "identified actor schedule cid" "amount_ok a" "w_ledger w = credited cid who key a"
  shows "poll_step actor schedule cid ''ledger'' services w =
    (events_thread actor schedule ''ledger'' [first_event cid a] (sources_thread actor schedule cid services), w)"
  using assms by (simp add: poll_step_def http_unapplied_def credited_events identified_def first_event_def
      to_event_def)

lemma poll_empty:
  assumes "identified actor schedule cid"
  shows "w_billing w = empty_billing \<Longrightarrow> poll_step actor schedule cid ''billing'' services w =
      (sources_thread actor schedule cid services, w)"
    and "w_ledger w = empty_effect_db \<Longrightarrow> poll_step actor schedule cid ''ledger'' services w =
      (sources_thread actor schedule cid services, w)"
  using assms by (simp_all add: poll_step_def http_unapplied_def identified_def list_events_def
      list_credit_events_def events_where_def empty_billing_def empty_effect_db_def)

lemma apply_billing:
  assumes "identified actor schedule cid" "amount_ok a" "w_billing w = refunded cid who key a" "w_crm w = empty_crm"
  shows "apply_step actor schedule ''billing'' (first_event cid a) evs k w =
    (events_thread actor schedule ''billing'' evs k,
     w\<lparr>w_billing := marked (refunded cid who key a), w_crm := counted cid ''billing'' a\<rparr>)"
  using assms
  by (simp add: apply_step_def apply_event_def http_mark_applied_def mark_event_applied_def refunded_events
      identified_def first_event_def marked_def counted_def with_pipeline_def already_applied_def empty_crm_def
      fold_event_def amount_ok_def Let_def)

lemma apply_ledger:
  assumes "identified actor schedule cid" "amount_ok a" "w_ledger w = credited cid who key a" "w_crm w = empty_crm"
  shows "apply_step actor schedule ''ledger'' (first_event cid a) evs k w =
    (events_thread actor schedule ''ledger'' evs k,
     w\<lparr>w_ledger := marked (credited cid who key a), w_crm := counted cid ''ledger'' a\<rparr>)"
  using assms
  by (simp add: apply_step_def apply_event_def http_mark_applied_def mark_credit_event_applied_def credited_events
      identified_def first_event_def marked_def counted_def with_pipeline_def already_applied_def empty_crm_def
      fold_event_def amount_ok_def Let_def)

lemma apply_second:
  assumes "identified actor schedule cid" "amount_ok a" "amount_ok b" "amount_ok (a + b)"
    "w_ledger w = credited cid who key b" "w_crm w = counted cid ''billing'' a"
  shows "apply_step actor schedule ''ledger'' (first_event cid b) evs k w =
    (events_thread actor schedule ''ledger'' evs k,
     w\<lparr>w_ledger := marked (credited cid who key b), w_crm := counted_both cid a b\<rparr>)"
  using assms
  by (simp add: apply_step_def apply_event_def http_mark_applied_def mark_credit_event_applied_def credited_events
      identified_def first_event_def marked_def counted_def counted_both_def with_pipeline_def already_applied_def
      fold_event_def amount_ok_def Let_def)

lemma counted_totals [simp]:
  "exact w Crm_Service cid = fst (get_compensation cid (w_crm w))"
  "fst (get_compensation cid empty_crm) = 0" "fst (get_compensation cid (counted cid service a)) = a"
  "fst (get_compensation cid (counted_both cid a b)) = a + b"
  by (simp_all add: get_compensation_def empty_crm_def counted_def counted_both_def)


lemma counted_both_shown: "get_compensation cid (counted_both cid a b) = (a + b, 2)"
  by (simp add: get_compensation_def counted_both_def)

lemma counted_shown: "get_compensation cid (counted cid service a) = (a, 1)"
  by (simp add: get_compensation_def counted_def)

lemma no_credits: "fst (list_credit_events True cid empty_effect_db) = []"
  by (simp add: list_credit_events_def events_where_def empty_effect_db_def)

lemma marked_shown:
  assumes "amount_ok a"
  shows "fst (list_events True (Some cid) (marked (refunded cid actor key a))) = []"
    "fst (list_credit_events True (Some cid) (marked (credited cid actor key a))) = []"
  using assms by (simp_all add: refunded_def credited_def marked_def amount_ok_def services_eval list_events_def
      list_credit_events_def events_where_def)

declare events_thread.simps [simp del] sources_thread.simps [simp del]

lemmas cp_folds = cp_defs [symmetric]
lemmas stages' = stages [unfolded cp_folds]
lemmas handlers' = refund_enter_def [unfolded cp_folds] credit_enter_def [unfolded cp_folds]
  refund_write_fresh [unfolded cp_folds] refund_write_again credit_write_fresh [unfolded cp_folds]
lemmas projector_folded = projector_stage [unfolded cp_folds] sources_stage events_stage [unfolded cp_folds]
lemmas follow = stages' handlers' create_then_def read_then_def gate_result_def failed_def refunded_rows credited_rows

end
