(* ===== verification/Gate_Refinement.thy ===== *)
theory Gate_Refinement
  imports Runner Coordinators
begin

text \<open>
  The coordinator implements the scheduler. \<open>hub\<close> puts the actors' threads in front of the
  modelled coordinator: a thread at a checkpoint sends \<open>await\<close>, gets its reply at once or is
  parked in the barrier, and is woken when its event is set, by whichever arrival cascades to
  it. The abstraction \<open>hub_shadow\<close> forgets who is parked, and shows a released thread beyond
  its gate although it has not been woken yet. Every step of the hub is then a sequence of
  steps of the gated scheduler of theory Gates, as long as no wait times out and no lease
  lapses, which is what the runner checks afterwards.
\<close>

section \<open>Threads in front of the coordinator\<close>

datatype held_thread = Running thread | Waiting nat key "bool \<Rightarrow> thread"

record hub =
  hub_threads :: "(string \<times> held_thread) list"
  hub_world :: world
  hub_coord :: coordinator

definition passed :: "await_error + await_body \<Rightarrow> bool" where
  "passed r = (case r of Inl e \<Rightarrow> False | Inr x \<Rightarrow> True)"

definition hub_put :: "nat \<Rightarrow> string \<Rightarrow> held_thread \<Rightarrow> coordinator \<Rightarrow> hub \<Rightarrow> hub" where
  "hub_put i actor t c H = H\<lparr>hub_threads := (hub_threads H)[i := (actor, t)], hub_coord := c\<rparr>"

definition hub_step :: "string \<Rightarrow> time \<times> nat \<Rightarrow> hub \<Rightarrow> hub" where
  "hub_step sid x H = (case x of (now, i) \<Rightarrow>
     if i \<ge> length (hub_threads H) then H
     else case hub_threads H ! i of (actor, t) \<Rightarrow>
       (case t of
          Running (Halt r) \<Rightarrow> H
        | Running (Act f) \<Rightarrow> (case f (hub_world H) of (t', w') \<Rightarrow>
            (hub_put i actor (Running t') (hub_coord H) H)\<lparr>hub_world := w'\<rparr>)
        | Running (Gate name k) \<Rightarrow>
            (case await_enter now name (Some actor) (Some sid) (hub_coord H) of
               (Replied r, c) \<Rightarrow> hub_put i actor (Running (k (passed r))) c H
             | (Blocked j key, c) \<Rightarrow> hub_put i actor (Waiting j key k) c H)
        | Waiting j key k \<Rightarrow>
            (if key \<in> set (signalled (heap (hub_coord H) ! j))
             then (case await_woken j key (hub_coord H) of (r, c) \<Rightarrow> hub_put i actor (Running (k (passed r))) c H)
             else H)))"

definition hub_run :: "string \<Rightarrow> (time \<times> nat) list \<Rightarrow> hub \<Rightarrow> hub" where
  "hub_run sid xs H = fold (hub_step sid) xs H"

definition hub_enabled :: "hub \<Rightarrow> nat \<Rightarrow> bool" where
  "hub_enabled H i \<longleftrightarrow> i < length (hub_threads H) \<and> (case snd (hub_threads H ! i) of
     Running (Halt r) \<Rightarrow> False | Running t \<Rightarrow> True
   | Waiting j key k \<Rightarrow> key \<in> set (signalled (heap (hub_coord H) ! j)))"

text \<open>The hub only ever makes moves of the coordinator's own step relation.\<close>

lemma hub_step_cstep:
  assumes "\<forall>(a, t)\<in>set (hub_threads H). case t of Running _ \<Rightarrow> True | Waiting j key k \<Rightarrow> (j, key) \<in> set (pending (hub_coord H))"
  shows "hub_coord (hub_step sid x H) = hub_coord H \<or> (\<exists>l. cstep (hub_coord H) l (hub_coord (hub_step sid x H)))"
proof -
  obtain now i where x: "x = (now, i)" by (rule prod.exhaust)
  show ?thesis
  proof (cases "i < length (hub_threads H)")
    case True
    obtain a t where t: "hub_threads H ! i = (a, t)" by (rule prod.exhaust)
    have "(a, t) \<in> set (hub_threads H)" using True t by (metis nth_mem)
    with assms have "case t of Running _ \<Rightarrow> True | Waiting j key k \<Rightarrow> (j, key) \<in> set (pending (hub_coord H))" by fast
    then show ?thesis
      using True t
      by (auto simp: hub_step_def x hub_put_def split: held_thread.splits thread.splits prod.splits await_reply.splits
          intro: cstep.intros)
  qed (simp add: hub_step_def x)
qed

section \<open>The abstraction\<close>

fun seen_as :: "key set \<Rightarrow> key set \<Rightarrow> held_thread \<Rightarrow> thread" where
  "seen_as F rel (Running t) = t"
| "seen_as F rel (Waiting j key k) = (if key \<in> rel then k (key \<notin> F) else Gate (fst (snd key)) k)"

definition shadow :: "plan \<Rightarrow> barrier \<Rightarrow> (string \<times> held_thread) list \<Rightarrow> world \<Rightarrow> gated" where
  "shadow pl b ts w = \<lparr>g_threads = map (\<lambda>(a, t). (a, seen_as (set (pl_faults pl)) (set (release_order b)) t)) ts,
     g_world = w, g_pointer = pointer (sched b)\<rparr>"

definition hub_shadow :: "plan \<Rightarrow> hub \<Rightarrow> gated" where
  "hub_shadow pl H = shadow pl (heap (hub_coord H) ! 0) (hub_threads H) (hub_world H)"

text \<open>Every parked key has its thread, and a waiting thread is parked or has been signalled.\<close>

definition attended :: "barrier \<Rightarrow> (string \<times> held_thread) list \<Rightarrow> bool" where
  "attended b ts \<longleftrightarrow>
     (\<forall>(a, t)\<in>set ts. case t of Running _ \<Rightarrow> True | Waiting j key k \<Rightarrow> j = 0 \<and> fst key = a \<and>
        (key \<in> set (parked b) \<or> key \<in> set (signalled b) \<and> key \<in> set (release_order b))) \<and>
     (\<forall>key\<in>set (parked b). \<exists>k. (fst key, Waiting 0 key k) \<in> set ts)"

definition tended :: "plan \<Rightarrow> barrier \<Rightarrow> (string \<times> held_thread) list \<Rightarrow> bool" where
  "tended pl b ts \<longleftrightarrow> core_inv b \<and> aborted b = None \<and> accounted b \<and> steps (sched b) = pl_steps pl \<and>
     distinct (map fst ts) \<and> attended b ts"

definition hub_ok :: "plan \<Rightarrow> string \<Rightarrow> hub \<Rightarrow> bool" where
  "hub_ok pl sid H \<longleftrightarrow> (\<exists>b. heap (hub_coord H) = [b] \<and> current (hub_coord H) = Some 0 \<and>
     faults (hub_coord H) = set (pl_faults pl) \<and> schedule_id (sched b) = sid \<and> settled b \<and>
     tended pl b (hub_threads H)) \<and>
     sid \<noteq> [] \<and> [] \<notin> set (map fst (hub_threads H))"

section \<open>Counting\<close>

lemma take_keys_from: "take n (keys_from seen ss) = keys_from seen (take n ss)"
  by (induction ss arbitrary: n seen) (auto simp: take_Cons split: nat.split)

lemma keys_from_nth:
  "p < length ss \<Longrightarrow> keys_from seen ss ! p = (fst (ss ! p), snd (ss ! p), seen (ss ! p) + count_list (take p ss) (ss ! p))"
proof (induction ss arbitrary: p seen)
  case (Cons s ss)
  then show ?case by (cases p) auto
qed simp

lemma keys_of_at:
  "p < length ss \<Longrightarrow> keys_of ss ! p = (fst (ss ! p), snd (ss ! p), count_list (take p ss) (ss ! p))"
  by (simp add: keys_of_from keys_from_nth)

lemma take_keys_member: "k \<in> set (take p (keys_of ss)) \<longleftrightarrow> occ_of k < count_list (take p ss) (step_of k)"
  using keys_of_member [of k "take p ss"] by (simp add: keys_of_from take_keys_from)

lemma occurrence_count: "p < length (pl_steps pl) \<Longrightarrow>
    occurrence_at pl p = count_list (take p (pl_steps pl)) (pl_steps pl ! p)"
  by (auto simp: occurrence_at_def count_list_eq_length_filter intro!: arg_cong [where f = length] filter_cong)

lemma tended_key:
  assumes "tended pl b ts" "current_step (sched b) = Some key"
  shows "pointer (sched b) < length (pl_steps pl)" "pl_steps pl ! pointer (sched b) = step_of key"
    and "occurrence_at pl (pointer (sched b)) = occ_of key"
proof -
  have wf: "wf_schedule (sched b)" and st: "steps (sched b) = pl_steps pl"
    using assms(1) by (simp_all add: tended_def core_inv_def)
  from current_key [OF wf assms(2)] st
  have p: "pointer (sched b) < length (pl_steps pl)" and k: "key = keys_of (pl_steps pl) ! pointer (sched b)" by simp_all
  from p show "pointer (sched b) < length (pl_steps pl)" .
  show "pl_steps pl ! pointer (sched b) = step_of key" "occurrence_at pl (pointer (sched b)) = occ_of key"
    unfolding k keys_of_at [OF p] by (simp_all add: occurrence_count [OF p])
qed

section \<open>Moves of the scheduler\<close>

definition moves :: "plan \<Rightarrow> nat \<Rightarrow> gated \<Rightarrow> gated \<Rightarrow> bool" where
  "moves pl n g g' \<longleftrightarrow> (\<exists>js. length js = n \<and> effective pl js g = n \<and> g' = gated_run pl js g)"

lemma moves_refl: "moves pl 0 g g"
  by (simp add: moves_def gated_run_def)

lemma moves_step: "gated_enabled pl g i \<Longrightarrow> moves pl 1 g (gated_step pl i g)"
  unfolding moves_def by (rule exI [of _ "[i]"]) (simp add: gated_run_def)

lemma gated_run_append: "gated_run pl (is @ js) g = gated_run pl js (gated_run pl is g)"
  by (simp add: gated_run_def)

lemma effective_append: "effective pl (is @ js) g = effective pl is g + effective pl js (gated_run pl is g)"
  by (induction "is" arbitrary: g) (simp_all add: gated_run_def)

lemma moves_trans: "moves pl m g g' \<Longrightarrow> moves pl n g' g'' \<Longrightarrow> moves pl (m + n) g g''"
  unfolding moves_def by (metis effective_append gated_run_append length_append)

section \<open>Releasing one thread\<close>

lemma attended_own:
  assumes "attended b ts" "distinct (map fst ts)" "(a, Waiting j key k) \<in> set ts" "(fst key, t) \<in> set ts"
  shows "t = Waiting j key k"
proof -
  have "fst key = a" using assms(1,3) unfolding attended_def by fastforce
  with assms(2-4) show ?thesis by (meson eq_key_imp_eq_value)
qed

text \<open>How many steps of its own a thread may still owe: to be parked, to be woken.\<close>

fun dues :: "key set \<Rightarrow> held_thread \<Rightarrow> nat" where
  "dues rel (Running t) = 1"
| "dues rel (Waiting j key k) = (if key \<in> rel then 2 else 0)"

definition weight :: "barrier \<Rightarrow> (string \<times> held_thread) list \<Rightarrow> nat" where
  "weight b ts = sum_list (map (\<lambda>(a, t). dues (set (release_order b)) t) ts)"

lemma map_other_threads:
  assumes i: "i < length ts" "ts ! i = (fst key, t)"
    and others: "\<And>a j k'. (a, Waiting j key k') \<in> set ts \<Longrightarrow> a = fst key"
    and dist: "distinct (map fst ts)"
    and F: "\<And>a u. (\<And>m k'. u \<noteq> Waiting m key k') \<Longrightarrow> f a u = g a u"
  shows "map (\<lambda>(a, t). f a t) (ts[i := (fst key, t')]) = (map (\<lambda>(a, t). g a t) ts)[i := f (fst key) t']"
proof -
  have "f a u = g a u" if j: "j < length ts" "j \<noteq> i" "ts ! j = (a, u)" for j a u
  proof (rule F)
    show "u \<noteq> Waiting m key k'" for m k'
    proof
      assume "u = Waiting m key k'"
      then have "(a, Waiting m key k') \<in> set ts" using j by (metis nth_mem)
      from others [OF this] have "map fst ts ! j = map fst ts ! i" using j i by simp
      then show False using dist j i by (simp add: nth_eq_iff_index_eq del: nth_map)
    qed
  qed
  then show ?thesis
    using i by (intro nth_equalityI) (auto simp: nth_list_update split: prod.split)
qed

lemma release_shadow:
  assumes i: "i < length ts" "ts ! i = (fst key, t)"
    and gate: "seen_as (set (pl_faults pl)) (set (release_order b)) t = Gate (fst (snd key)) k"
    and cur: "tended pl b us" "current_step (sched b) = Some key"
    and others: "\<And>a j k'. (a, Waiting j key k') \<in> set ts \<Longrightarrow> a = fst key"
    and dist: "distinct (map fst ts)"
    and new: "release_order b' = release_order b @ [key]" "pointer (sched b') = Suc (pointer (sched b))"
    and us: "ts' = ts[i := (fst key, t')]"
      "seen_as (set (pl_faults pl)) (set (release_order b')) t' = k (key \<notin> set (pl_faults pl))"
  shows "shadow pl b' ts' w = gated_step pl i (shadow pl b ts w)"
    and "gated_enabled pl (shadow pl b ts w) i"
    and "weight b' ts' + dues (set (release_order b)) t = weight b ts + dues (set (release_order b')) t'"
proof -
  let ?F = "set (pl_faults pl)" and ?p = "pointer (sched b)"
  note K = tended_key [OF cur]
  have step: "pl_steps pl ! ?p = (fst key, fst (snd key))" using K(2) by (simp add: step_of_def)
  have thr: "g_threads (shadow pl b ts w) ! i = (fst key, Gate (fst (snd key)) k)"
    using i gate by (simp add: shadow_def)
  show en: "gated_enabled pl (shadow pl b ts w) i"
    using i K(1) step thr by (simp add: gated_enabled_def gate_open_def) (simp add: shadow_def)
  have key: "(fst key, fst (snd key), occurrence_at pl ?p) = key"
    unfolding K(3) occ_of_def by simp
  have res: "gate_result pl ?p (fst key) (fst (snd key)) \<longleftrightarrow> key \<notin> ?F"
    unfolding gate_result_def key ..
  have stay: "seen_as ?F (set (release_order b')) u = seen_as ?F (set (release_order b)) u"
    "dues (set (release_order b')) u = dues (set (release_order b)) u"
    if "\<And>m k'. u \<noteq> Waiting m key k'" for u
    using that new(1) by (cases u; auto)+
  note other = map_other_threads [OF i others dist, where t' = t', folded us(1)]
  have "gated_step pl i (shadow pl b ts w) = (shadow pl b ts w)\<lparr>
      g_threads := (g_threads (shadow pl b ts w))[i := (fst key, k (key \<notin> ?F))], g_pointer := Suc ?p\<rparr>"
    using en thr res by (simp add: gated_step_def) (simp add: shadow_def)
  also have "\<dots> = shadow pl b' ts' w"
    using other [where f = "\<lambda>a t. (a, seen_as ?F (set (release_order b')) t)" and
        g = "\<lambda>a t. (a, seen_as ?F (set (release_order b)) t)"] stay(1) new us(2)
    by (simp add: shadow_def)
  finally show "shadow pl b' ts' w = gated_step pl i (shadow pl b ts w)" by simp
  let ?d = "map (\<lambda>(a, t). dues (set (release_order b)) t) ts"
  have "weight b' ts' = sum_list (?d[i := dues (set (release_order b')) t'])"
    using other [where f = "\<lambda>a t. dues (set (release_order b')) t" and g = "\<lambda>a t. dues (set (release_order b)) t"] stay(2)
    by (simp add: weight_def)
  also have "\<dots> = sum_list ?d + dues (set (release_order b')) t' - dues (set (release_order b)) t"
    using i by (simp add: sum_list_update)
  finally show "weight b' ts' + dues (set (release_order b)) t = weight b ts + dues (set (release_order b')) t'"
    using member_le_sum_list [of "dues (set (release_order b)) t" ?d] i
    by (force simp: weight_def in_set_conv_nth)
qed

section \<open>The cascade\<close>

lemma waiting_for:
  "attended b ts \<Longrightarrow> (a, Waiting j key k) \<in> set ts \<Longrightarrow> a = fst key"
  unfolding attended_def by fastforce

lemma accounted_release: "accounted b \<Longrightarrow> accounted (release_parked key b)"
  unfolding accounted_def by (auto simp: release_parked_def) (metis in_set_remove1)

lemma tended_release:
  assumes "tended pl b ts" "current_step (sched b) = Some key" "key \<in> set (parked b)"
  shows "tended pl (release_parked key b) ts"
proof -
  have "distinct (parked b)" using assms(1) by (simp add: tended_def core_inv_def)
  then have p: "set (parked (release_parked key b)) = set (parked b) - {key}" by (simp add: release_parked_def)
  have "attended b ts" using assms(1) by (simp add: tended_def)
  then have "attended (release_parked key b) ts"
    unfolding attended_def p by (auto simp: release_parked_def split: held_thread.splits)
  then show ?thesis
    using assms core_inv_release_parked [of b key] accounted_release [of b key]
    by (simp add: tended_def)
qed

lemma release_parked_shadow:
  assumes "tended pl b ts" "current_step (sched b) = Some key" "key \<in> set (parked b)"
  shows "moves pl 1 (shadow pl b ts w) (shadow pl (release_parked key b) ts w)"
    and "weight (release_parked key b) ts = weight b ts + 2"
proof -
  have att: "attended b ts" and dist: "distinct (map fst ts)" and core: "core_inv b"
    using assms(1) by (simp_all add: tended_def)
  obtain k where "(fst key, Waiting 0 key k) \<in> set ts" using att assms(3) unfolding attended_def by blast
  then obtain i where i: "i < length ts" "ts ! i = (fst key, Waiting 0 key k)" by (metis in_set_conv_nth)
  have new: "key \<notin> set (release_order b)" using core assms(3) unfolding core_inv_def by blast
  then have "seen_as (set (pl_faults pl)) (set (release_order b)) (Waiting 0 key k) = Gate (fst (snd key)) k" by simp
  moreover have "ts = ts[i := (fst key, Waiting 0 key k)]" using i by (metis list_update_id)
  moreover have "a = fst key" if "(a, Waiting j key k') \<in> set ts" for a j k' using waiting_for [OF att that] .
  moreover have "release_order (release_parked key b) = release_order b @ [key]"
    "pointer (sched (release_parked key b)) = Suc (pointer (sched b))" by (simp_all add: release_parked_def)
  moreover have "seen_as (set (pl_faults pl)) (set (release_order (release_parked key b))) (Waiting 0 key k) =
      k (key \<notin> set (pl_faults pl))" by (simp add: release_parked_def)
  ultimately have r: "shadow pl (release_parked key b) ts w = gated_step pl i (shadow pl b ts w)"
      "gated_enabled pl (shadow pl b ts w) i"
      "weight (release_parked key b) ts + dues (set (release_order b)) (Waiting 0 key k) =
       weight b ts + dues (set (release_order (release_parked key b))) (Waiting 0 key k)"
    using release_shadow [OF i _ assms(1,2) _ dist] by metis+
  show "moves pl 1 (shadow pl b ts w) (shadow pl (release_parked key b) ts w)"
    unfolding r(1) by (rule moves_step [OF r(2)])
  show "weight (release_parked key b) ts = weight b ts + 2"
    using r(3) new by (simp add: release_parked_def)
qed

lemma cascade_shadow:
  "tended pl b ts \<Longrightarrow> tended pl (cascade b) ts \<and>
     (\<exists>n. moves pl n (shadow pl b ts w) (shadow pl (cascade b) ts w) \<and> weight (cascade b) ts = weight b ts + 2 * n)"
proof (induction b rule: cascade.induct)
  case (1 b)
  show ?case
  proof (cases "\<exists>key. current_step (sched b) = Some key \<and> key \<in> set (parked b)")
    case True
    then obtain key where key: "current_step (sched b) = Some key" "key \<in> set (parked b)" by blast
    have "cascade b = cascade (release_parked key b)" using key by (simp add: cascade.simps [of b])
    moreover obtain n where n: "tended pl (cascade (release_parked key b)) ts"
      "moves pl n (shadow pl (release_parked key b) ts w) (shadow pl (cascade (release_parked key b)) ts w)"
      "weight (cascade (release_parked key b)) ts = weight (release_parked key b) ts + 2 * n"
      using "1.IH" [OF key tended_release [OF "1.prems" key]] by blast
    moreover note moves_trans [OF release_parked_shadow(1) [OF "1.prems" key] n(2)]
      release_parked_shadow(2) [OF "1.prems" key]
    ultimately show ?thesis by (auto intro!: exI [of _ "1 + n"])
  next
    case False
    then have "cascade b = b" by (auto simp: cascade.simps [of b] split: option.splits)
    then show ?thesis using "1.prems" moves_refl by (auto intro!: exI [of _ 0])
  qed
qed

section \<open>Arriving\<close>

lemma parked_thread:
  "attended b ts \<Longrightarrow> (a, name, n) \<in> set (parked b) \<Longrightarrow> \<exists>k. (a, Waiting 0 (a, name, n) k) \<in> set ts"
  unfolding attended_def by fastforce

lemma running_arrivals:
  assumes "tended pl b ts" "(a, Running t) \<in> set ts"
  shows "arrivals (sched b) (a, name) = count_list (take (pointer (sched b)) (pl_steps pl)) (a, name)"
proof -
  have T: "core_inv b" "accounted b" "attended b ts" "distinct (map fst ts)" "steps (sched b) = pl_steps pl"
    using assms(1) by (simp_all add: tended_def)
  have rel: "release_order b = take (pointer (sched b)) (keys_of (pl_steps pl))"
    using T(1,5) by (simp add: core_inv_def)
  have "(a, name, n) \<notin> set (parked b)" for n
  proof
    assume "(a, name, n) \<in> set (parked b)"
    then obtain k where "(a, Waiting 0 (a, name, n) k) \<in> set ts" using parked_thread [OF T(3)] by blast
    with assms(2) T(4) show False by (metis eq_key_imp_eq_value held_thread.distinct(1))
  qed
  then have "n < arrivals (sched b) (a, name) \<longleftrightarrow> (a, name, n) \<in> set (release_order b)" for n
    using core_arrived [OF T(1), of "(a, name, n)"] accountedD [OF T(2), of "(a, name, n)"] by auto
  then have "n < arrivals (sched b) (a, name) \<longleftrightarrow> n < count_list (take (pointer (sched b)) (pl_steps pl)) (a, name)" for n
    unfolding rel take_keys_member by simp
  then show ?thesis by (meson linorder_neq_iff)
qed

lemma parked_occurrence:
  assumes "tended pl b ts" "(a, name, n) \<in> set (parked b)"
  shows "n = count_list (take (pointer (sched b)) (pl_steps pl)) (a, name)"
proof -
  have T: "core_inv b" "accounted b" "attended b ts" "distinct (map fst ts)" "steps (sched b) = pl_steps pl"
    using assms(1) by (simp_all add: tended_def)
  have rel: "release_order b = take (pointer (sched b)) (keys_of (pl_steps pl))"
    using T(1,5) by (simp add: core_inv_def)
  have one: "m = n" if m: "(a, name, m) \<in> set (parked b)" for m
  proof -
    obtain k k' where "(a, Waiting 0 (a, name, m) k) \<in> set ts" "(a, Waiting 0 (a, name, n) k') \<in> set ts"
      using parked_thread [OF T(3) m] parked_thread [OF T(3) assms(2)] by blast
    with T(4) have "Waiting 0 (a, name, m) k = Waiting 0 (a, name, n) k'" by (meson eq_key_imp_eq_value)
    then show ?thesis by simp
  qed
  have n: "n < arrivals (sched b) (a, name)" "(a, name, n) \<notin> set (release_order b)"
    using T(1) assms(2) unfolding core_inv_def by fastforce+
  have "m < n \<Longrightarrow> (a, name, m) \<in> set (release_order b)" for m
    using n(1) accountedD [OF T(2), of "(a, name, m)"] one [of m] by fastforce
  then have "m < n \<Longrightarrow> m < count_list (take (pointer (sched b)) (pl_steps pl)) (a, name)" for m
    unfolding rel take_keys_member by simp
  moreover have "\<not> n < count_list (take (pointer (sched b)) (pl_steps pl)) (a, name)"
    using n(2) unfolding rel take_keys_member by simp
  ultimately show ?thesis by (meson linorder_neq_iff)
qed

text \<open>Replacing one thread that attends no parked key.\<close>

lemma attended_put:
  assumes att: "attended b ts" and i: "i < length ts" "ts ! i = (a, t0)"
    and free: "\<And>j key k. t0 = Waiting j key k \<Longrightarrow> key \<notin> set (parked b)"
    and grow: "set (parked b) \<subseteq> set (parked b')" "set (signalled b) \<subseteq> set (signalled b')"
      "set (release_order b) \<subseteq> set (release_order b')"
    and new: "case t' of Running t \<Rightarrow> True | Waiting j key k \<Rightarrow> j = 0 \<and> fst key = a \<and> key \<in> set (parked b')"
    and fresh: "\<And>key. key \<in> set (parked b') \<Longrightarrow> key \<notin> set (parked b) \<Longrightarrow> \<exists>k. (fst key, Waiting 0 key k) = (a, t')"
  shows "attended b' (ts[i := (a, t')])"
proof -
  have old: "case t of Running _ \<Rightarrow> True | Waiting j key k \<Rightarrow> j = 0 \<and> fst key = x \<and>
      (key \<in> set (parked b') \<or> key \<in> set (signalled b') \<and> key \<in> set (release_order b'))" if "(x, t) \<in> set ts" for x t
    using att that grow unfolding attended_def by (fastforce split: held_thread.splits)
  have "\<exists>k. (fst key, Waiting 0 key k) \<in> set (ts[i := (a, t')])" if "key \<in> set (parked b')" for key
  proof (cases "key \<in> set (parked b)")
    case True
    then obtain k where k: "(fst key, Waiting 0 key k) \<in> set ts" using att unfolding attended_def by blast
    then obtain j where j: "j < length ts" "ts ! j = (fst key, Waiting 0 key k)" by (metis in_set_conv_nth)
    have "j \<noteq> i"
    proof
      assume "j = i"
      then have "t0 = Waiting 0 key k" using j i by simp
      with free True show False by blast
    qed
    then have "ts[i := (a, t')] ! j = (fst key, Waiting 0 key k)" using j by simp
    then show ?thesis using j(1) by (metis length_list_update nth_mem)
  next
    case False
    with fresh [OF that] show ?thesis using i(1) by (metis set_update_memI)
  qed
  moreover have "set (ts[i := (a, t')]) \<subseteq> insert (a, t') (set ts)" by (rule set_update_subset_insert)
  ultimately show ?thesis
    using old new unfolding attended_def by (fastforce split: held_thread.splits)
qed

lemma names_put: "i < length ts \<Longrightarrow> ts ! i = (a, t) \<Longrightarrow> map fst (ts[i := (a, t')]) = map fst ts"
  by (simp add: map_update) (metis fst_conv list_update_id map_update nth_map)

lemma shadow_put:
  assumes "i < length ts" "ts ! i = (a, t)"
    and "seen_as (set (pl_faults pl)) (set (release_order b)) t = seen_as (set (pl_faults pl)) (set (release_order b)) t'"
    and "release_order b' = release_order b" "pointer (sched b') = pointer (sched b)"
  shows "shadow pl b' (ts[i := (a, t')]) w = shadow pl b ts w"
  using assms by (auto simp: shadow_def nth_list_update intro!: nth_equalityI split: prod.split)

lemma weight_put:
  assumes "i < length ts" "ts ! i = (a, t)" "release_order b' = release_order b"
  shows "weight b' (ts[i := (a, t')]) + dues (set (release_order b)) t = weight b ts + dues (set (release_order b)) t'"
proof -
  let ?d = "map (\<lambda>(a, t). dues (set (release_order b)) t) ts"
  have "weight b' (ts[i := (a, t')]) = sum_list (?d[i := dues (set (release_order b)) t'])"
    by (simp add: weight_def assms(3) map_update)
  also have "\<dots> = sum_list ?d + dues (set (release_order b)) t' - dues (set (release_order b)) t"
    using assms by (simp add: sum_list_update)
  finally show ?thesis
    using member_le_sum_list [of "dues (set (release_order b)) t" ?d] assms
    by (force simp: weight_def in_set_conv_nth)
qed

lemma tended_put:
  assumes "tended pl b ts" "i < length ts" "ts ! i = (a, t)" "\<And>j key k. t = Waiting j key k \<Longrightarrow> key \<notin> set (parked b)"
  shows "tended pl b (ts[i := (a, Running t')])"
  using assms names_put [OF assms(2,3)] attended_put [of b ts i a t b "Running t'"]
  by (simp add: tended_def)

text \<open>The two outcomes of an arrival at the barrier.\<close>

lemma arrive_released:
  assumes T: "tended pl b ts" and i: "i < length ts" "ts ! i = (a, Running (Gate name k))"
    and arr: "arrive a name (sched b) = Inr ((n, True), s')"
  defines "b' \<equiv> advance_locked (a, name, n) (b\<lparr>sched := s'\<rparr>)"
    and "us \<equiv> ts[i := (a, Running (k ((a, name, n) \<notin> set (pl_faults pl))))]"
  shows "tended pl b' us" and "settled b'"
    and "\<exists>n. moves pl (1 + n) (shadow pl b ts w) (shadow pl b' us w) \<and> weight b' us = weight b ts + 2 * n"
    and "parked b = [] \<Longrightarrow> shadow pl b' us w = gated_step pl i (shadow pl b ts w)"
proof -
  let ?key = "(a, name, n)"
  have C: "core_inv b" "aborted b = None" "accounted b" "attended b ts" "distinct (map fst ts)"
    "steps (sched b) = pl_steps pl"
    using T by (simp_all add: tended_def)
  note A = core_inv_arrive [OF C(1) arr] and R = arrive_Inr [OF arr]
  define b2 where "b2 = b\<lparr>release_order := release_order b @ [?key], leases := AList.delete ?key (leases b),
      lease_ttls := AList.delete ?key (lease_ttls b), sched := advance s'\<rparr>"
  have b': "b' = cascade b2" by (simp add: b'_def advance_locked_def b2_def)
  have cur: "current_step (sched b) = Some ?key" using R(4) by simp
  have "barrier_inv b'"
    unfolding b'_def using A(1-4) cur C(2) by (intro advance_locked_inv) auto
  then show "settled b'" by (simp add: barrier_inv_def)
  have "b2 = (b\<lparr>sched := s'\<rparr>)\<lparr>parked := remove1 ?key (parked b), leases := AList.delete ?key (leases b),
     lease_ttls := AList.delete ?key (lease_ttls b), release_order := release_order b @ [?key],
     signalled := signalled b, sched := advance s'\<rparr>"
    using A(4) by (simp add: b2_def remove1_idem)
  moreover have "core_inv \<dots>"
    using core_inv_release [OF A(1), of ?key "signalled b"] A(2,3) cur C(2) by auto
  ultimately have core: "core_inv b2" by simp
  have acc: "accounted b2"
    using C(3) R(1,3) unfolding accounted_def b2_def
    by (auto simp: less_Suc_eq intro!: key_eqI split: if_splits)
  have att: "attended b2 us"
    unfolding us_def by (rule attended_put [OF C(4) i]) (auto simp: b2_def)
  have T2: "tended pl b2 us"
    using core acc att C names_put [OF i] A(6) by (simp add: tended_def us_def b2_def)
  have own: "x = fst ?key" if "(x, Waiting j ?key k') \<in> set ts" for x j k' using waiting_for [OF C(4) that] .
  have i': "ts ! i = (fst ?key, Running (Gate name k))" using i(2) by simp
  have us: "us = ts[i := (fst ?key, Running (k (?key \<notin> set (pl_faults pl))))]" by (simp add: us_def)
  have new: "release_order b2 = release_order b @ [?key]" "pointer (sched b2) = Suc (pointer (sched b))"
    by (simp_all add: b2_def R(3))
  note rel = release_shadow [OF i(1) i' _ T cur own C(5) new us, of k]
  have r: "shadow pl b2 us w = gated_step pl i (shadow pl b ts w)" "gated_enabled pl (shadow pl b ts w) i"
    "weight b2 us = weight b ts"
    using rel by simp_all
  obtain m where m: "tended pl b' us" "moves pl m (shadow pl b2 us w) (shadow pl b' us w)"
      "weight b' us = weight b2 us + 2 * m"
    using cascade_shadow [OF T2, of w] b' by blast
  have "moves pl (1 + m) (shadow pl b ts w) (shadow pl b' us w)"
    using moves_trans [OF moves_step [OF r(2)] m(2) [unfolded r(1)]] .
  show "shadow pl b' us w = gated_step pl i (shadow pl b ts w)" if "parked b = []"
  proof -
    have "parked b2 = []" using that by (simp add: b2_def)
    then have "b' = b2" unfolding b' by (simp add: cascade.simps [of b2] split: option.split)
    then show ?thesis using r(1) by simp
  qed
  with m r(3) \<open>moves pl (1 + m) (shadow pl b ts w) (shadow pl b' us w)\<close> show "tended pl b' us"
    "\<exists>n. moves pl (1 + n) (shadow pl b ts w) (shadow pl b' us w) \<and> weight b' us = weight b ts + 2 * n" by auto
qed

lemma arrive_parked:
  assumes T: "tended pl b ts" "settled b" and i: "i < length ts" "ts ! i = (a, Running (Gate name k))"
    and w: "wait_enter now ttl a name b = (Wait_Parked key, b')"
    and room: "arrivals (sched b) (a, name) < count_list (steps (sched b)) (a, name)"
  shows "tended pl b' (ts[i := (a, Waiting 0 key k)])" and "settled b'"
    and "shadow pl b' (ts[i := (a, Waiting 0 key k)]) w = shadow pl b ts w"
    and "schedule_id (sched b') = schedule_id (sched b)"
    and "weight b' (ts[i := (a, Waiting 0 key k)]) + 1 = weight b ts"
proof -
  have C: "core_inv b" "aborted b = None" "accounted b" "attended b ts" "distinct (map fst ts)"
    "steps (sched b) = pl_steps pl"
    using T by (simp_all add: tended_def)
  have inv: "barrier_inv b" using C(1) T(2) by (simp add: barrier_inv_def)
  have inv': "barrier_inv b'" and same: "same_run b b'" using wait_enter_inv [OF inv w] by simp_all
  from w obtain n s' ls ttls where arr: "arrive a name (sched b) = Inr ((n, False), s')" and key: "key = (a, name, n)"
    and b': "b' = b\<lparr>sched := s', parked := parked b @ [key], leases := ls, lease_ttls := ttls\<rparr>"
    by (cases rule: wait_enter_cases) auto
  note A = core_inv_arrive [OF C(1) arr] and R = arrive_Inr [OF arr]
  have "attended b' (ts[i := (a, Waiting 0 key k)])"
    by (rule attended_put [OF C(4) i]) (auto simp: b' key)
  then show "tended pl b' (ts[i := (a, Waiting 0 key k)])"
    using inv' wait_enter_accounts(1,2) [OF inv C(2,3) room w] names_put [OF i] C(5,6) A(6)
    by (simp add: tended_def barrier_inv_def) (simp add: b')
  show "settled b'" using inv' by (simp add: barrier_inv_def)
  show "shadow pl b' (ts[i := (a, Waiting 0 key k)]) w = shadow pl b ts w"
    using A(5) R(3) key by (intro shadow_put [OF i]) (simp_all add: b')
  show "schedule_id (sched b') = schedule_id (sched b)" using same by (simp add: same_run_def)
  show "weight b' (ts[i := (a, Waiting 0 key k)]) + 1 = weight b ts"
    using weight_put [OF i, where b' = b' and b = b and t' = "Waiting 0 key k"] A(5) key by (simp add: b')
qed

section \<open>Every step of the hub\<close>

lemma no_stray_room:
  assumes "no_stray pl (shadow pl b ts w)" "(a, Running (Gate name k)) \<in> set ts"
  shows "(a, name) \<in> set (drop (pointer (sched b)) (pl_steps pl))"
  using assms by (force simp: no_stray_def shadow_def list_all_iff)

lemma running_room:
  assumes T: "tended pl b ts" and ns: "(a, name) \<in> set (drop (pointer (sched b)) (pl_steps pl))"
    and g: "(a, Running (Gate name k)) \<in> set ts"
  shows "arrivals (sched b) (a, name) < count_list (steps (sched b)) (a, name)" and "a \<in> known_actors (sched b)"
proof -
  let ?p = "pointer (sched b)"
  have st: "steps (sched b) = pl_steps pl" using T by (simp add: tended_def)
  have "count_list (pl_steps pl) (a, name) =
      count_list (take ?p (pl_steps pl)) (a, name) + count_list (drop ?p (pl_steps pl)) (a, name)"
    by (metis append_take_drop_id count_list_append)
  moreover have "0 < count_list (drop ?p (pl_steps pl)) (a, name)"
    using ns count_list_0_iff [of "drop ?p (pl_steps pl)" "(a, name)"] by simp
  ultimately show "arrivals (sched b) (a, name) < count_list (steps (sched b)) (a, name)"
    using running_arrivals [OF T g, of name] st by simp
  have "(a, name) \<in> set (pl_steps pl)" using ns by (rule in_set_dropD)
  then show "a \<in> known_actors (sched b)" by (force simp: known_actors_def st)
qed

definition hub_weight :: "hub \<Rightarrow> nat" where
  "hub_weight H = weight (heap (hub_coord H) ! 0) (hub_threads H)"

text \<open>A step that moves the scheduler, and pays for the steps of the hub that do not.\<close>

definition hub_advances :: "plan \<Rightarrow> string \<Rightarrow> hub \<Rightarrow> hub \<Rightarrow> bool" where
  "hub_advances pl sid H H' \<longleftrightarrow> hub_ok pl sid H' \<and>
     (\<exists>n. moves pl n (hub_shadow pl H) (hub_shadow pl H') \<and> hub_weight H' + 1 \<le> hub_weight H + 3 * n)"

lemma hub_gate_step:
  assumes ok: "hub_ok pl sid H" and ns: "(a, name) \<in> set (drop (g_pointer (hub_shadow pl H)) (pl_steps pl))"
    and i: "i < length (hub_threads H)" "hub_threads H ! i = (a, Running (Gate name k))"
  shows "hub_advances pl sid H (hub_step sid (now, i) H)"
proof -
  let ?c = "hub_coord H" and ?ts = "hub_threads H" and ?w = "hub_world H"
  obtain b where b: "heap ?c = [b]" "current ?c = Some 0" "faults ?c = set (pl_faults pl)"
    "schedule_id (sched b) = sid" "settled b" and T: "tended pl b ?ts" and ids: "sid \<noteq> []" "[] \<notin> set (map fst ?ts)"
    using ok by (auto simp: hub_ok_def)
  have g: "(a, Running (Gate name k)) \<in> set ?ts" using i by (metis nth_mem)
  have sh: "hub_shadow pl H = shadow pl b ?ts ?w" "hub_weight H = weight b ?ts"
    by (simp_all add: hub_shadow_def hub_weight_def b)
  have room: "arrivals (sched b) (a, name) < count_list (steps (sched b)) (a, name)" "a \<in> known_actors (sched b)"
    using running_room [OF T _ g] ns by (simp_all add: sh shadow_def)
  have a: "a \<noteq> []" using ids(2) g by force
  have ab: "aborted b = None" and wf: "wf_schedule (sched b)" using T by (simp_all add: tended_def core_inv_def)
  obtain r b' where w: "wait_enter now (Some (lease_ttl_s ?c)) a name b = (r, b')" by (rule prod.exhaust)
  from w show ?thesis
  proof (cases rule: wait_enter_cases)
    case (aborted reason)
    then show ?thesis using ab by simp
  next
    case (undeclared e)
    then show ?thesis using arrive_accepts [OF wf, of a name] room(1) by auto
  next
    case (released n s')
    let ?key = "(a, name, n)"
    note R = arrive_released [OF T i released(2)]
    have "await_enter now name (Some a) (Some sid) ?c = (Replied (acknowledge ?key (?c\<lparr>heap := [b']\<rparr>)), ?c\<lparr>heap := [b']\<rparr>)"
      using b ids(1) a room(2) ab w released(3) by (simp add: await_enter_def Let_def)
    then have H': "hub_step sid (now, i) H = hub_put i a (Running (k (?key \<notin> set (pl_faults pl)))) (?c\<lparr>heap := [b']\<rparr>) H"
      using i b(3) by (simp add: hub_step_def acknowledge_def passed_def)
    have "schedule_id (sched b') = sid"
      using advance_locked_frame(4) [of ?key "b\<lparr>sched := s'\<rparr>"] arrive_Inr(3) [OF released(2)] b(4) released(4) by simp
    then have "hub_ok pl sid (hub_step sid (now, i) H)"
      using b R(1,2) ids names_put [OF i] released(4) by (simp add: H' hub_ok_def hub_put_def)
    moreover obtain m where "moves pl (1 + m) (hub_shadow pl H) (hub_shadow pl (hub_step sid (now, i) H))"
      "hub_weight (hub_step sid (now, i) H) = hub_weight H + 2 * m"
      using R(3) [of ?w] released(4) unfolding sh by (auto simp: H' hub_shadow_def hub_weight_def hub_put_def)
    ultimately show ?thesis by (auto simp: hub_advances_def intro!: exI [of _ "1 + m"])
  next
    case (parked n s' ls ttls)
    let ?key = "(a, name, n)"
    note P = arrive_parked [OF T b(5) i w [unfolded parked(3)] room(1)]
    have "await_enter now name (Some a) (Some sid) ?c =
        (Blocked 0 ?key, ?c\<lparr>heap := [b'], pending := pending ?c @ [(0, ?key)]\<rparr>)"
      using b ids(1) a room(2) ab w parked(3) by (simp add: await_enter_def)
    then have H': "hub_step sid (now, i) H =
        hub_put i a (Waiting 0 ?key k) (?c\<lparr>heap := [b'], pending := pending ?c @ [(0, ?key)]\<rparr>) H"
      using i by (simp add: hub_step_def)
    have "hub_ok pl sid (hub_step sid (now, i) H)"
      using b P ids names_put [OF i] by (simp add: H' hub_ok_def hub_put_def)
    moreover have "hub_shadow pl (hub_step sid (now, i) H) = hub_shadow pl H"
      "hub_weight (hub_step sid (now, i) H) + 1 = hub_weight H"
      using P(3) [where w = ?w] P(5) unfolding sh by (simp_all add: H' hub_shadow_def hub_weight_def hub_put_def)
    ultimately show ?thesis using moves_refl by (auto simp: hub_advances_def intro!: exI [of _ 0])
  qed
qed

lemma hub_act_step:
  assumes ok: "hub_ok pl sid H" and i: "i < length (hub_threads H)" "hub_threads H ! i = (a, Running (Act f))"
  shows "hub_advances pl sid H (hub_step sid (now, i) H)"
proof -
  let ?ts = "hub_threads H"
  obtain b where b: "heap (hub_coord H) = [b]" "tended pl b ?ts"
    using ok by (auto simp: hub_ok_def)
  obtain t' w' where f: "f (hub_world H) = (t', w')" by (rule prod.exhaust)
  have H': "hub_step sid (now, i) H = (hub_put i a (Running t') (hub_coord H) H)\<lparr>hub_world := w'\<rparr>"
    using i f by (simp add: hub_step_def)
  have "tended pl b (?ts[i := (a, Running t')])" using tended_put [OF b(2) i] by simp
  then have "hub_ok pl sid (hub_step sid (now, i) H)"
    using ok b names_put [OF i] by (auto simp: H' hub_ok_def hub_put_def)
  moreover have en: "gated_enabled pl (hub_shadow pl H) i"
    using i by (simp add: hub_shadow_def shadow_def gated_enabled_def)
  have "hub_shadow pl (hub_step sid (now, i) H) = gated_step pl i (hub_shadow pl H)"
    using i f b(1) en by (simp add: H' hub_put_def hub_shadow_def shadow_def gated_step_def map_update)
  moreover have "hub_weight (hub_step sid (now, i) H) = hub_weight H"
    using weight_put [OF i, where b' = b and b = b and t' = "Running t'"] b(1) by (simp add: H' hub_weight_def hub_put_def)
  ultimately show ?thesis
    using moves_step [OF en] by (auto simp: hub_advances_def intro!: exI [of _ 1])
qed

lemma hub_wake_step:
  assumes ok: "hub_ok pl sid H" and i: "i < length (hub_threads H)" "hub_threads H ! i = (a, Waiting j key k)"
    and sig: "key \<in> set (signalled (heap (hub_coord H) ! j))"
  shows "hub_advances pl sid H (hub_step sid (now, i) H)"
proof -
  let ?ts = "hub_threads H" and ?c = "hub_coord H"
  obtain b where b: "heap ?c = [b]" "faults ?c = set (pl_faults pl)" and T: "tended pl b ?ts"
    using ok by (auto simp: hub_ok_def)
  have C: "core_inv b" "aborted b = None" "attended b ?ts" using T by (simp_all add: tended_def)
  have "(a, Waiting j key k) \<in> set ?ts" using i by (metis nth_mem)
  with C(3) have j: "j = 0" unfolding attended_def by fastforce
  have rel: "key \<in> set (release_order b)" using C(1,2) sig b(1) j unfolding core_inv_def by auto
  have free: "key \<notin> set (parked b)" using C(1) rel unfolding core_inv_def by auto
  have "await_woken j key ?c = (acknowledge key (?c\<lparr>pending := remove1 (j, key) (pending ?c)\<rparr>),
      ?c\<lparr>pending := remove1 (j, key) (pending ?c)\<rparr>)"
    using b(1) j C(2) by (simp add: await_woken_def wait_woken_def Let_def)
  then have H': "hub_step sid (now, i) H = hub_put i a (Running (k (key \<notin> set (pl_faults pl))))
      (?c\<lparr>pending := remove1 (j, key) (pending ?c)\<rparr>) H"
    using i sig b(2) by (simp add: hub_step_def acknowledge_def passed_def split: prod.split)
  have "tended pl b (?ts[i := (a, Running (k (key \<notin> set (pl_faults pl))))])"
    using tended_put [OF T i] free by simp
  then have "hub_ok pl sid (hub_step sid (now, i) H)"
    using ok b names_put [OF i] by (auto simp: H' hub_ok_def hub_put_def)
  moreover have "hub_shadow pl (hub_step sid (now, i) H) = hub_shadow pl H"
    using shadow_put [OF i, of pl b "Running (k (key \<notin> set (pl_faults pl)))" b] rel b(1)
    by (simp add: H' hub_put_def hub_shadow_def)
  moreover have "hub_weight (hub_step sid (now, i) H) + 1 = hub_weight H"
    using weight_put [OF i, where b' = b and b = b and t' = "Running (k (key \<notin> set (pl_faults pl)))"] rel b(1)
    by (simp add: H' hub_weight_def hub_put_def)
  ultimately show ?thesis using moves_refl by (auto simp: hub_advances_def intro!: exI [of _ 0])
qed

text \<open>A thread at a checkpoint that the schedule does not let it through any more.\<close>

definition strays :: "plan \<Rightarrow> hub \<Rightarrow> nat \<Rightarrow> string \<Rightarrow> string \<Rightarrow> bool" where
  "strays pl H i a name \<longleftrightarrow> i < length (hub_threads H) \<and> (\<exists>k. hub_threads H ! i = (a, Running (Gate name k))) \<and>
     (a, name) \<notin> set (drop (g_pointer (hub_shadow pl H)) (pl_steps pl))"

lemma hub_step_or_stray:
  assumes ok: "hub_ok pl sid H" and "\<And>a name. \<not> strays pl H i a name"
  shows "if hub_enabled H i then hub_advances pl sid H (hub_step sid (now, i) H) else hub_step sid (now, i) H = H"
proof (cases "i < length (hub_threads H)")
  case True
  obtain a t where i: "hub_threads H ! i = (a, t)" by (rule prod.exhaust)
  show ?thesis
  proof (cases t)
    case (Running th)
    show ?thesis
    proof (cases th)
      case (Gate name k)
      then have "(a, name) \<in> set (drop (g_pointer (hub_shadow pl H)) (pl_steps pl))"
        using assms(2) [of a name] True i Running by (simp add: strays_def)
      with hub_gate_step [OF ok this True] i Running Gate True show ?thesis by (simp add: hub_enabled_def)
    next
      case (Act f)
      with hub_act_step [OF ok True] i Running True show ?thesis by (simp add: hub_enabled_def)
    qed (use True i Running in \<open>simp add: hub_enabled_def hub_step_def\<close>)
  next
    case (Waiting j key k)
    then show ?thesis
      using True i hub_wake_step [OF ok True] by (auto simp: hub_enabled_def hub_step_def)
  qed
qed (simp add: hub_enabled_def hub_step_def)

lemma no_stray_strays:
  assumes "no_stray pl (hub_shadow pl H)"
  shows "\<not> strays pl H i a name"
proof
  assume "strays pl H i a name"
  then obtain k where i: "(a, Running (Gate name k)) \<in> set (hub_threads H)"
    and "(a, name) \<notin> set (drop (g_pointer (hub_shadow pl H)) (pl_steps pl))"
    unfolding strays_def by (metis nth_mem)
  with no_stray_room [OF assms [unfolded hub_shadow_def] i] show False by (simp add: hub_shadow_def shadow_def)
qed

lemma hub_step_shadow:
  assumes ok: "hub_ok pl sid H" and ns: "no_stray pl (hub_shadow pl H)"
  shows "if hub_enabled H i then hub_advances pl sid H (hub_step sid (now, i) H) else hub_step sid (now, i) H = H"
  using hub_step_or_stray [OF ok no_stray_strays [OF ns]] .

text \<open>How many steps of a run did something.\<close>

fun hub_effective :: "string \<Rightarrow> (time \<times> nat) list \<Rightarrow> hub \<Rightarrow> nat" where
  "hub_effective sid [] H = 0"
| "hub_effective sid (x # xs) H = (if hub_enabled H (snd x) then 1 else 0) + hub_effective sid xs (hub_step sid x H)"

lemma hub_run_shadow:
  assumes "hub_ok pl sid H" and "\<And>js. no_stray pl (gated_run pl js (hub_shadow pl H))"
  shows "hub_ok pl sid (hub_run sid xs H) \<and> (\<exists>n. moves pl n (hub_shadow pl H) (hub_shadow pl (hub_run sid xs H)) \<and>
    hub_effective sid xs H + hub_weight (hub_run sid xs H) \<le> hub_weight H + 3 * n)"
  using assms
proof (induction xs arbitrary: H)
  case Nil
  then show ?case using moves_refl by (auto simp: hub_run_def intro!: exI [of _ 0])
next
  case (Cons x xs)
  obtain now i where x: "x = (now, i)" by (rule prod.exhaust)
  have run: "hub_run sid (x # xs) H = hub_run sid xs (hub_step sid x H)" by (simp add: hub_run_def)
  have "no_stray pl (hub_shadow pl H)" using Cons.prems(2) [of "[]"] by (simp add: gated_run_def)
  note step = hub_step_shadow [OF Cons.prems(1) this, of i now]
  show ?case
  proof (cases "hub_enabled H i")
    case True
    then obtain m where m: "hub_ok pl sid (hub_step sid x H)"
        "moves pl m (hub_shadow pl H) (hub_shadow pl (hub_step sid x H))"
        "hub_weight (hub_step sid x H) + 1 \<le> hub_weight H + 3 * m"
      using step x by (auto simp: hub_advances_def)
    then obtain js where "hub_shadow pl (hub_step sid x H) = gated_run pl js (hub_shadow pl H)"
      by (auto simp: moves_def)
    then have "no_stray pl (gated_run pl is (hub_shadow pl (hub_step sid x H)))" for "is"
      using Cons.prems(2) [of "js @ is"] by (simp add: gated_run_append)
    from Cons.IH [OF m(1) this] obtain n where n: "hub_ok pl sid (hub_run sid xs (hub_step sid x H))"
        "moves pl n (hub_shadow pl (hub_step sid x H)) (hub_shadow pl (hub_run sid xs (hub_step sid x H)))"
        "hub_effective sid xs (hub_step sid x H) + hub_weight (hub_run sid xs (hub_step sid x H))
           \<le> hub_weight (hub_step sid x H) + 3 * n" by blast
    show ?thesis
      unfolding run using n m(3) moves_trans [OF m(2) n(2)] True x by (auto intro!: exI [of _ "m + n"])
  next
    case False
    then have same: "hub_step sid x H = H" using step x by simp
    show ?thesis unfolding run same using Cons.IH [OF Cons.prems] False x same by simp
  qed
qed

section \<open>Following the scheduler\<close>

text \<open>With nobody parked, the hub does what the scheduler does, step by step.\<close>

definition all_running :: "hub \<Rightarrow> bool" where
  "all_running H \<longleftrightarrow> (\<forall>(a, t)\<in>set (hub_threads H). \<exists>u. t = Running u)"

lemma all_runningD: "all_running H \<Longrightarrow> (a, t) \<in> set (hub_threads H) \<Longrightarrow> \<exists>u. t = Running u"
  unfolding all_running_def by fast

lemma all_running_parked:
  assumes "tended pl b (hub_threads H)" "all_running H"
  shows "parked b = []"
proof (rule ccontr)
  assume "parked b \<noteq> []"
  then obtain key where "key \<in> set (parked b)" by (meson list.set_sel(1))
  then obtain k where "(fst key, Waiting 0 key k) \<in> set (hub_threads H)"
    using assms(1) unfolding tended_def attended_def by blast
  then show False using assms(2) unfolding all_running_def by fastforce
qed

lemma all_running_put: "all_running H \<Longrightarrow> all_running (hub_put i a (Running u) c H)"
  using set_update_subset_insert [of "hub_threads H" i "(a, Running u)"]
  by (auto simp: all_running_def hub_put_def)

lemma hub_follows_step:
  assumes ok: "hub_ok pl sid H" and run: "all_running H" and en: "gated_enabled pl (hub_shadow pl H) i"
  shows "hub_ok pl sid (hub_step sid (now, i) H)" "all_running (hub_step sid (now, i) H)"
    and "hub_shadow pl (hub_step sid (now, i) H) = gated_step pl i (hub_shadow pl H)"
proof -
  let ?c = "hub_coord H" and ?ts = "hub_threads H" and ?w = "hub_world H"
  obtain b where b: "heap ?c = [b]" "current ?c = Some 0" "faults ?c = set (pl_faults pl)"
    "schedule_id (sched b) = sid" "settled b" and T: "tended pl b ?ts" and ids: "sid \<noteq> []" "[] \<notin> set (map fst ?ts)"
    using ok by (auto simp: hub_ok_def)
  have sh: "hub_shadow pl H = shadow pl b ?ts ?w" by (simp add: hub_shadow_def b)
  have i: "i < length ?ts" using en by (simp add: gated_enabled_def sh) (simp add: shadow_def)
  obtain a t0 where t0: "?ts ! i = (a, t0)" by (rule prod.exhaust)
  then have "(a, t0) \<in> set ?ts" using i by (metis nth_mem)
  then obtain u where t: "?ts ! i = (a, Running u)" using all_runningD [OF run, of a t0] t0 by metis
  have "hub_ok pl sid (hub_step sid (now, i) H) \<and> all_running (hub_step sid (now, i) H) \<and>
    hub_shadow pl (hub_step sid (now, i) H) = gated_step pl i (hub_shadow pl H)"
  proof (cases u)
    case (Halt r)
    then show ?thesis using en i t by (simp add: gated_enabled_def sh) (simp add: shadow_def)
  next
    case (Act f)
    obtain t' w' where f: "f ?w = (t', w')" by (rule prod.exhaust)
    have H': "hub_step sid (now, i) H = (hub_put i a (Running t') ?c H)\<lparr>hub_world := w'\<rparr>"
      using i t Act f by (simp add: hub_step_def)
    have "hub_shadow pl (hub_step sid (now, i) H) = gated_step pl i (hub_shadow pl H)"
      using i t Act f b(1) en by (simp add: H' hub_put_def hub_shadow_def shadow_def gated_step_def map_update)
    moreover have "hub_ok pl sid (hub_step sid (now, i) H)"
      using hub_act_step [OF ok i] t Act by (simp add: hub_advances_def)
    moreover have "all_running (hub_step sid (now, i) H)"
      using all_running_put [OF run] by (simp add: H' all_running_def)
    ultimately show ?thesis by blast
  next
    case (Gate name k)
    note t' = t [unfolded Gate]
    have g: "(a, Running (Gate name k)) \<in> set ?ts" using i t' by (metis nth_mem)
    have C: "aborted b = None" "steps (sched b) = pl_steps pl" "wf_schedule (sched b)"
      using T by (simp_all add: tended_def core_inv_def)
    let ?n = "count_list (take (pointer (sched b)) (pl_steps pl)) (a, name)"
    have open': "gate_open pl (pointer (sched b)) a name"
      using en i t' by (simp add: gated_enabled_def sh) (simp add: shadow_def)
    then have cur: "current_step (sched b) = Some (a, name, ?n)"
      using C(2,3) by (simp add: gate_open_def current_step_key keys_of_at)
    have st: "pl_steps pl = take (pointer (sched b)) (pl_steps pl) @ (a, name) # drop (Suc (pointer (sched b))) (pl_steps pl)"
      using open' unfolding gate_open_def by (metis id_take_nth_drop)
    have arr: "arrivals (sched b) (a, name) = ?n" by (rule running_arrivals [OF T g])
    have room: "arrivals (sched b) (a, name) < count_list (steps (sched b)) (a, name)"
      unfolding arr C(2) using arg_cong [OF st, of "\<lambda>xs. count_list xs (a, name)"] by simp
    then obtain m nxt s' where s': "arrive a name (sched b) = Inr ((m, nxt), s')"
      using arrive_accepts [OF C(3), of a name] by auto
    have "m = ?n" "nxt" using arrive_Inr [OF s'] arr cur by auto
    note s'' = s' [unfolded \<open>m = ?n\<close>, simplified \<open>nxt\<close>]
    let ?key = "(a, name, ?n)" and ?b = "advance_locked (a, name, ?n) (b\<lparr>sched := s'\<rparr>)"
    have w: "wait_enter now (Some (lease_ttl_s ?c)) a name b = (Wait_Released ?n, ?b)"
      using s'' C(1) by (simp add: wait_enter_def Let_def)
    have "(a, name) \<in> set (pl_steps pl)" using arg_cong [OF st, of set] by simp
    then have known: "a \<in> known_actors (sched b)" by (force simp: known_actors_def C(2))
    have "fst (a, Running (Gate name k)) \<in> set (map fst ?ts)" using imageI [OF g, of fst] by simp
    then have known': "a \<noteq> []" using ids(2) by (metis fst_conv)
    have "await_enter now name (Some a) (Some sid) ?c = (Replied (acknowledge ?key (?c\<lparr>heap := [?b]\<rparr>)), ?c\<lparr>heap := [?b]\<rparr>)"
      using b ids(1) known known' C(1) w by (simp add: await_enter_def Let_def)
    then have H': "hub_step sid (now, i) H = hub_put i a (Running (k (?key \<notin> set (pl_faults pl)))) (?c\<lparr>heap := [?b]\<rparr>) H"
      using i t' b(3) by (simp add: hub_step_def acknowledge_def passed_def)
    note R = arrive_released [OF T i t' s'']
    have "schedule_id (sched ?b) = sid"
      using advance_locked_frame(4) [of ?key "b\<lparr>sched := s'\<rparr>"] arrive_Inr(3) [OF s''] b(4) by simp
    then have "hub_ok pl sid (hub_step sid (now, i) H)"
      using b R(1,2) ids names_put [OF i t'] by (simp add: H' hub_ok_def hub_put_def)
    moreover have "hub_shadow pl (hub_step sid (now, i) H) = gated_step pl i (hub_shadow pl H)"
      using R(4) [OF all_running_parked [OF T run]] unfolding sh by (simp add: H' hub_shadow_def hub_put_def)
    moreover have "all_running (hub_step sid (now, i) H)" unfolding H' by (rule all_running_put [OF run])
    ultimately show ?thesis by blast
  qed
  then show "hub_ok pl sid (hub_step sid (now, i) H)" "all_running (hub_step sid (now, i) H)"
    "hub_shadow pl (hub_step sid (now, i) H) = gated_step pl i (hub_shadow pl H)" by simp_all
qed

lemma hub_follows:
  assumes "hub_ok pl sid H" "all_running H" "effective pl js (hub_shadow pl H) = length js"
  shows "hub_ok pl sid (hub_run sid (map (Pair now) js) H) \<and> all_running (hub_run sid (map (Pair now) js) H) \<and>
    hub_shadow pl (hub_run sid (map (Pair now) js) H) = gated_run pl js (hub_shadow pl H)"
  using assms
proof (induction js arbitrary: H)
  case (Cons i js)
  have le: "effective pl js g \<le> length js" for g by (induction js arbitrary: g) (simp_all add: le_SucI)
  have en: "gated_enabled pl (hub_shadow pl H) i" "effective pl js (gated_step pl i (hub_shadow pl H)) = length js"
    using Cons.prems(3) le [of "gated_step pl i (hub_shadow pl H)"] by (auto split: if_splits)
  note F = hub_follows_step [OF Cons.prems(1,2) en(1), of now]
  show ?case
    using Cons.IH [OF F(1,2)] en(2) F(3) by (simp add: hub_run_def gated_run_def)
qed (simp add: hub_run_def gated_run_def)

section \<open>Strays\<close>

text \<open>The run has been aborted, for the given reason.\<close>

definition hub_aborted :: "abort_reason \<Rightarrow> hub \<Rightarrow> bool" where
  "hub_aborted r H \<longleftrightarrow> (\<exists>b. heap (hub_coord H) = [b] \<and> current (hub_coord H) = Some 0 \<and> aborted b = Some r)"

lemma hub_aborted_view:
  "hub_aborted r H \<Longrightarrow> view_aborted (waiters (hub_coord H)) \<and> view_abort_reason (waiters (hub_coord H)) = Some r"
  by (auto simp: hub_aborted_def waiters_def Let_def)

text \<open>What the coordinator says to a stray arrival.\<close>

definition stray_reason :: "plan \<Rightarrow> string \<Rightarrow> nat \<Rightarrow> string \<Rightarrow> string \<Rightarrow> abort_reason" where
  "stray_reason pl sid p a name = (if a \<in> fst ` set (pl_steps pl)
     then Undeclared (UndeclaredOccurrence sid a name (count_list (take p (pl_steps pl)) (a, name))) else Unknown_Actor a)"

lemma hub_stray_step:
  assumes ok: "hub_ok pl sid H" and "strays pl H i a name"
  shows "hub_aborted (stray_reason pl sid (g_pointer (hub_shadow pl H)) a name) (hub_step sid (now, i) H)"
proof -
  let ?c = "hub_coord H" and ?ts = "hub_threads H"
  obtain k where i: "i < length ?ts" "?ts ! i = (a, Running (Gate name k))"
    and stray: "(a, name) \<notin> set (drop (g_pointer (hub_shadow pl H)) (pl_steps pl))"
    using assms(2) by (auto simp: strays_def)
  obtain b where b: "heap ?c = [b]" "current ?c = Some 0" "schedule_id (sched b) = sid"
    and T: "tended pl b ?ts" and ids: "sid \<noteq> []" "[] \<notin> set (map fst ?ts)"
    using ok by (auto simp: hub_ok_def)
  have C: "aborted b = None" "steps (sched b) = pl_steps pl" "wf_schedule (sched b)"
    using T by (simp_all add: tended_def core_inv_def)
  have p: "g_pointer (hub_shadow pl H) = pointer (sched b)" by (simp add: hub_shadow_def shadow_def b(1))
  have at': "(a, Running (Gate name k)) \<in> set ?ts" using i by (metis nth_mem)
  have arr: "arrivals (sched b) (a, name) = count_list (take (pointer (sched b)) (pl_steps pl)) (a, name)"
    using running_arrivals [OF T at', of name] C(2) by simp
  have "count_list (pl_steps pl) (a, name) = count_list (take (pointer (sched b)) (pl_steps pl)) (a, name) +
      count_list (drop (pointer (sched b)) (pl_steps pl)) (a, name)"
    by (metis append_take_drop_id count_list_append)
  then have "\<not> arrivals (sched b) (a, name) < count_list (steps (sched b)) (a, name)"
    using arr stray p C(2) by simp
  then have none: "\<nexists>r. arrive a name (sched b) = Inr r" using arrive_accepts [OF C(3), of a name] by blast
  have e: "arrive a name (sched b) = Inl (UndeclaredOccurrence sid a name (arrivals (sched b) (a, name)))"
  proof (cases "(a, name, arrivals (sched b) (a, name)) \<in> declared (sched b)")
    case True
    then have "\<exists>r. arrive a name (sched b) = Inr r" by (simp add: arrive_def Let_def)
    with none show ?thesis by blast
  qed (simp add: arrive_def Let_def b(3))
  have known: "a \<in> known_actors (sched b) \<longleftrightarrow> a \<in> fst ` set (pl_steps pl)"
    by (simp add: known_actors_def C(2))
  have a: "a \<noteq> []" using ids(2) at' by force
  have "hub_coord (hub_step sid (now, i) H) = snd (await_enter now name (Some a) (Some sid) ?c)"
    using i by (simp add: hub_step_def hub_put_def split: prod.split await_reply.split)
  moreover have "snd (await_enter now name (Some a) (Some sid) ?c) =
      abort_current (stray_reason pl sid (pointer (sched b)) a name) ?c"
    using b ids(1) a C(1) e arr known
    by (simp add: await_enter_def wait_enter_def stray_reason_def abort_current_def Let_def)
  ultimately show ?thesis using b C(1) by (simp add: hub_aborted_def p abort_current_def abort_def)
qed

lemma hub_aborted_step:
  assumes "hub_aborted r H"
  shows "hub_aborted r (hub_step sid x H)"
proof -
  obtain now i where x: "x = (now, i)" by (rule prod.exhaust)
  obtain b where b: "heap (hub_coord H) = [b]" "current (hub_coord H) = Some 0" "aborted b = Some r"
    using assms by (auto simp: hub_aborted_def)
  have enter: "await_enter now name a s (hub_coord H) = (Replied (Inl (HTTPException 409 (Run_Aborted r))), hub_coord H)" for name a s
    using b by (simp add: await_enter_def)
  have woken: "heap (snd (await_woken j key (hub_coord H))) = heap (hub_coord H)"
    "current (snd (await_woken j key (hub_coord H))) = current (hub_coord H)" for j key
    by (auto simp: await_woken_def Let_def split: sum.split)
  have "heap (hub_coord (hub_step sid x H)) = heap (hub_coord H) \<and> current (hub_coord (hub_step sid x H)) = current (hub_coord H)"
  proof (cases "i < length (hub_threads H)")
    case True
    obtain a t where t: "hub_threads H ! i = (a, t)" by (rule prod.exhaust)
    show ?thesis
    proof (cases t)
      case (Running th)
      with True t show ?thesis by (cases th) (simp_all add: hub_step_def x hub_put_def enter split: prod.split)
    next
      case (Waiting j key k)
      obtain r' c' where w: "await_woken j key (hub_coord H) = (r', c')" by (rule prod.exhaust)
      with True t Waiting woken [of j key] show ?thesis by (simp add: hub_step_def x hub_put_def)
    qed
  qed (simp add: hub_step_def x)
  with b show ?thesis by (simp add: hub_aborted_def)
qed

lemma hub_aborted_run: "hub_aborted r H \<Longrightarrow> hub_aborted r (hub_run sid xs H)"
  unfolding hub_run_def by (induction xs arbitrary: H) (simp_all add: hub_aborted_step)

text \<open>
  Whatever the schedule: a run either follows the scheduler or has been aborted by the first
  actor that came to a checkpoint the schedule did not let it through any more.
\<close>

lemma hub_run_or_abort:
  assumes "hub_ok pl sid H"
  shows "hub_ok pl sid (hub_run sid xs H) \<and> (\<exists>js. hub_shadow pl (hub_run sid xs H) = gated_run pl js (hub_shadow pl H))
   \<or> (\<exists>js a name k. (a, Gate name k) \<in> set (g_threads (gated_run pl js (hub_shadow pl H))) \<and>
        (a, name) \<notin> set (drop (g_pointer (gated_run pl js (hub_shadow pl H))) (pl_steps pl)) \<and>
        hub_aborted (stray_reason pl sid (g_pointer (gated_run pl js (hub_shadow pl H))) a name) (hub_run sid xs H))"
  using assms
proof (induction xs arbitrary: H)
  case Nil
  then show ?case by (auto simp: hub_run_def gated_run_def intro!: exI [of _ "[]"])
next
  case (Cons x xs)
  obtain now i where x: "x = (now, i)" by (rule prod.exhaust)
  have run: "hub_run sid (x # xs) H = hub_run sid xs (hub_step sid x H)" by (simp add: hub_run_def)
  show ?case
  proof (cases "\<exists>a name. strays pl H i a name")
    case True
    then obtain a name where s: "strays pl H i a name" by blast
    then obtain k where k: "i < length (hub_threads H)" "hub_threads H ! i = (a, Running (Gate name k))"
      and d: "(a, name) \<notin> set (drop (g_pointer (hub_shadow pl H)) (pl_steps pl))"
      by (auto simp: strays_def)
    then have "(a, Running (Gate name k)) \<in> set (hub_threads H)" by (metis nth_mem)
    then have "(a, Gate name k) \<in> set (g_threads (hub_shadow pl H))"
      by (force simp: hub_shadow_def shadow_def)
    moreover have "hub_aborted (stray_reason pl sid (g_pointer (hub_shadow pl H)) a name) (hub_run sid (x # xs) H)"
      unfolding run by (subst x) (rule hub_aborted_run [OF hub_stray_step [OF Cons.prems s]])
    ultimately show ?thesis
      using d by (intro disjI2 exI [of _ "[]"] exI [of _ a] exI [of _ name] exI [of _ k]) (simp add: gated_run_def)
  next
    case False
    have "hub_ok pl sid (hub_step sid x H) \<and>
        (\<exists>js. hub_shadow pl (hub_step sid x H) = gated_run pl js (hub_shadow pl H))"
    proof (cases "hub_enabled H i")
      case True
      with hub_step_or_stray [OF Cons.prems, of i now] False
      have "hub_advances pl sid H (hub_step sid x H)" by (simp add: x)
      then show ?thesis by (auto simp: hub_advances_def moves_def)
    next
      case en: False
      with hub_step_or_stray [OF Cons.prems, of i now] False have "hub_step sid x H = H" by (simp add: x)
      with Cons.prems show ?thesis by (auto simp: gated_run_def intro!: exI [of _ "[]"])
    qed
    then obtain js where ok: "hub_ok pl sid (hub_step sid x H)"
      and js: "hub_shadow pl (hub_step sid x H) = gated_run pl js (hub_shadow pl H)" by blast
    have behind: "gated_run pl ks (hub_shadow pl (hub_step sid x H)) = gated_run pl (js @ ks) (hub_shadow pl H)" for ks
      by (simp add: js gated_run_append)
    from Cons.IH [OF ok] show ?thesis unfolding run behind by blast
  qed
qed

text \<open>With nobody parked, some actor aborts the run at once.\<close>

lemma stray_aborts:
  assumes ok: "hub_ok pl sid H" and run: "all_running H" and stray: "\<not> no_stray pl (hub_shadow pl H)"
  shows "\<exists>i<length (hub_threads H). view_aborted (waiters (hub_coord (hub_step sid (now, i) H)))"
proof -
  obtain a t where at': "(a, t) \<in> set (hub_threads H)"
    and bad: "\<not> (case seen_as (set (pl_faults pl)) (set (release_order (heap (hub_coord H) ! 0))) t of
      Gate name k \<Rightarrow> (a, name) \<in> set (drop (pointer (sched (heap (hub_coord H) ! 0))) (pl_steps pl)) | _ \<Rightarrow> True)"
    using stray by (auto simp: no_stray_def list_all_iff hub_shadow_def shadow_def)
  have p: "g_pointer (hub_shadow pl H) = pointer (sched (heap (hub_coord H) ! 0))"
    by (simp add: hub_shadow_def shadow_def)
  obtain u where "t = Running u" using all_runningD [OF run at'] by metis
  with bad obtain name k where t: "t = Running (Gate name k)"
    and rest: "(a, name) \<notin> set (drop (g_pointer (hub_shadow pl H)) (pl_steps pl))" unfolding p by (cases u) auto
  obtain i where i: "i < length (hub_threads H)" "hub_threads H ! i = (a, Running (Gate name k))"
    using at' t by (metis in_set_conv_nth)
  then have "strays pl H i a name" using rest by (auto simp: strays_def)
  from hub_aborted_view [OF hub_stray_step [OF ok this]] i(1) show ?thesis by blast
qed

section \<open>A whole run\<close>

text \<open>The request by which the runner declares a schedule, and the state before the first step.\<close>

definition declare_of :: "schedule_spec \<Rightarrow> declare_request" where
  "declare_of spec = \<lparr>req_schedule_id = ss_id spec, req_steps = ss_steps spec,
     req_timeout_seconds = ss_timeout_seconds spec, req_lease_ttl_seconds = ss_lease_ttl_seconds spec,
     req_faults = ss_faults spec\<rparr>"

definition hub_start :: "token_library \<Rightarrow> stack \<Rightarrow> string \<Rightarrow> schedule_spec \<Rightarrow> hub" where
  "hub_start tk st cid spec = \<lparr>hub_threads = map (\<lambda>(a, t). (a, Running t)) (actor_threads tk st cid spec),
     hub_world = empty_world, hub_coord = snd (declare_schedule (declare_of spec) init_coordinator)\<rparr>"

definition hub_quiet :: "hub \<Rightarrow> bool" where
  "hub_quiet H \<longleftrightarrow> (\<forall>i<length (hub_threads H). \<not> hub_enabled H i)"

definition hub_outcome :: "schedule_spec \<Rightarrow> string \<Rightarrow> hub \<Rightarrow> run_error + run_outcome" where
  "hub_outcome spec cid H = finish_run spec cid
     (collect (map (\<lambda>(a, t). (a, case t of Running t \<Rightarrow> t | Waiting j key k \<Rightarrow> Gate (fst (snd key)) k)) (hub_threads H)))
     (view_waiters (waiters (hub_coord H))) (view_release_order (waiters (hub_coord H)))
     (w_billing (hub_world H), w_ledger (hub_world H))"

definition named :: "schedule_spec \<Rightarrow> bool" where
  "named spec \<longleftrightarrow> ss_id spec \<noteq> [] \<and> distinct (map as_id (ss_actors spec)) \<and> [] \<notin> set (map as_id (ss_actors spec))"

lemma hub_start_ok:
  assumes "named spec"
  shows "hub_ok (plan_of spec) (ss_id spec) (hub_start tk st cid spec)"
    and "hub_shadow (plan_of spec) (hub_start tk st cid spec) = gated_start tk st cid spec"
proof -
  let ?b = "make_barrier (make_schedule (ss_id spec) (ss_steps spec))"
  let ?ts = "map (\<lambda>(a, t). (a, Running t)) (actor_threads tk st cid spec)"
  have c: "heap (snd (declare_schedule (declare_of spec) init_coordinator)) = [?b]"
    "current (snd (declare_schedule (declare_of spec) init_coordinator)) = Some 0"
    "faults (snd (declare_schedule (declare_of spec) init_coordinator)) = set (ss_faults spec)"
    by (simp_all add: declare_schedule_def declare_of_def init_coordinator_def reset_state_def Let_def)
  have names: "map fst ?ts = map as_id (ss_actors spec)" by (simp add: actor_threads_def comp_def)
  have inv: "barrier_inv ?b" by (rule barrier_inv_make)
  have "attended ?b ?ts" by (auto simp: attended_def)
  then have "tended (plan_of spec) ?b ?ts"
    using inv assms names by (simp add: tended_def plan_of_def named_def barrier_inv_def)
  then show "hub_ok (plan_of spec) (ss_id spec) (hub_start tk st cid spec)"
    using c assms inv names by (simp add: hub_ok_def hub_start_def plan_of_def named_def barrier_inv_def)
  show "hub_shadow (plan_of spec) (hub_start tk st cid spec) = gated_start tk st cid spec"
    by (simp add: hub_shadow_def hub_start_def c shadow_def gated_start_def comp_def case_prod_unfold)
qed

lemma hub_quiet_shadow:
  assumes ok: "hub_ok pl sid H" and q: "hub_quiet H"
  shows "quiet_state pl (hub_shadow pl H)"
    and "g_threads (hub_shadow pl H) =
      map (\<lambda>(a, t). (a, case t of Running t \<Rightarrow> t | Waiting j key k \<Rightarrow> Gate (fst (snd key)) k)) (hub_threads H)"
proof -
  obtain b where b: "heap (hub_coord H) = [b]" "settled b" and T: "tended pl b (hub_threads H)"
    using ok by (auto simp: hub_ok_def)
  have C: "core_inv b" "attended b (hub_threads H)" using T by (simp_all add: tended_def)
  have waits: "j = 0 \<and> fst key = a \<and> key \<in> set (parked b) \<and> key \<notin> set (release_order b)"
    if "i < length (hub_threads H)" "hub_threads H ! i = (a, Waiting j key k)" for i a j key k
  proof -
    have "(a, Waiting j key k) \<in> set (hub_threads H)" using that by (metis nth_mem)
    with C(2) have w: "j = 0" "fst key = a"
      "key \<in> set (parked b) \<or> key \<in> set (signalled b) \<and> key \<in> set (release_order b)"
      unfolding attended_def by fastforce+
    have "key \<notin> set (signalled (heap (hub_coord H) ! j))"
      using q that by (auto simp: hub_quiet_def hub_enabled_def)
    then have "key \<in> set (parked b)" using w b(1) by simp
    with w C(1) show ?thesis unfolding core_inv_def by blast
  qed
  show thr: "g_threads (hub_shadow pl H) =
      map (\<lambda>(a, t). (a, case t of Running t \<Rightarrow> t | Waiting j key k \<Rightarrow> Gate (fst (snd key)) k)) (hub_threads H)"
  proof -
    have "seen_as (set (pl_faults pl)) (set (release_order b)) t =
        (case t of Running t \<Rightarrow> t | Waiting j key k \<Rightarrow> Gate (fst (snd key)) k)"
      if "(a, t) \<in> set (hub_threads H)" for a t
    proof (cases t)
      case (Waiting j key k)
      obtain i where "i < length (hub_threads H)" "hub_threads H ! i = (a, t)"
        using \<open>(a, t) \<in> set (hub_threads H)\<close> by (metis in_set_conv_nth)
      with waits [of i a j key k] Waiting show ?thesis by simp
    qed simp
    then show ?thesis
      unfolding hub_shadow_def b(1) shadow_def by auto
  qed
  show "quiet_state pl (hub_shadow pl H)" unfolding quiet_state_def
  proof (intro allI impI)
    fix i assume "i < length (g_threads (hub_shadow pl H))"
    then have i: "i < length (hub_threads H)" by (simp add: thr)
    obtain a t where t: "hub_threads H ! i = (a, t)" by (rule prod.exhaust)
    have nen: "\<not> hub_enabled H i" using q i by (simp add: hub_quiet_def)
    show "\<not> gated_enabled pl (hub_shadow pl H) i"
    proof (cases t)
      case (Running th)
      with i t nen obtain r where "th = Halt r" by (cases th) (auto simp: hub_enabled_def)
      with i t Running show ?thesis by (simp add: gated_enabled_def thr)
    next
      case (Waiting j key k)
      obtain name n where key: "key = (a, name, n)" using waits [OF i] t Waiting by (cases key) auto
      have p: "(a, name, n) \<in> set (parked b)" using waits [OF i] t Waiting key by blast
      have "\<not> gate_open pl (pointer (sched b)) a name"
      proof
        assume g: "gate_open pl (pointer (sched b)) a name"
        have wf: "wf_schedule (sched b)" "steps (sched b) = pl_steps pl" using T by (simp_all add: tended_def core_inv_def)
        with g have "current_step (sched b) =
            Some (a, name, count_list (take (pointer (sched b)) (pl_steps pl)) (a, name))"
          by (simp add: gate_open_def current_step_key keys_of_at)
        with parked_occurrence [OF T p] b(2) p show False by (simp add: settled_def)
      qed
      then show ?thesis using i t Waiting key
        by (simp add: gated_enabled_def thr) (simp add: hub_shadow_def b(1) shadow_def)
    qed
  qed
qed

text \<open>Where nothing can go on, nobody is astray: a stray thread can still arrive.\<close>

lemma parked_room:
  assumes T: "tended pl b ts" and p: "(a, name, n) \<in> set (parked b)"
  shows "(a, name) \<in> set (drop (pointer (sched b)) (pl_steps pl))"
proof -
  have C: "core_inv b" "steps (sched b) = pl_steps pl" using T by (simp_all add: tended_def)
  then have wf: "wf_schedule (sched b)" by (simp add: core_inv_def)
  have "n < arrivals (sched b) (a, name)" using C(1) p unfolding core_inv_def by fastforce
  also have "\<dots> \<le> count_list (pl_steps pl) (a, name)" using C(2) wf by (auto simp: wf_schedule_def)
  finally have "count_list (take (pointer (sched b)) (pl_steps pl)) (a, name) < count_list (pl_steps pl) (a, name)"
    using parked_occurrence [OF T p] by simp
  moreover have "count_list (pl_steps pl) (a, name) =
      count_list (take (pointer (sched b)) (pl_steps pl)) (a, name) + count_list (drop (pointer (sched b)) (pl_steps pl)) (a, name)"
    by (metis append_take_drop_id count_list_append)
  ultimately show ?thesis using count_list_0_iff [of "drop (pointer (sched b)) (pl_steps pl)" "(a, name)"] by simp
qed

lemma quiet_no_stray:
  assumes ok: "hub_ok pl sid H" and q: "hub_quiet H"
  shows "no_stray pl (hub_shadow pl H)"
proof -
  obtain b where b: "heap (hub_coord H) = [b]" and T: "tended pl b (hub_threads H)"
    using ok by (auto simp: hub_ok_def)
  have att: "attended b (hub_threads H)" using T by (simp add: tended_def)
  have room: "case seen_as (set (pl_faults pl)) (set (release_order b)) t of
      Gate name k \<Rightarrow> (a, name) \<in> set (drop (pointer (sched b)) (pl_steps pl)) | _ \<Rightarrow> True"
    if t: "(a, t) \<in> set (hub_threads H)" for a t
  proof -
    obtain i where i: "i < length (hub_threads H)" "hub_threads H ! i = (a, t)" using t by (metis in_set_conv_nth)
    then have nen: "\<not> hub_enabled H i" using q by (simp add: hub_quiet_def)
    show ?thesis
    proof (cases t)
      case (Running th)
      then show ?thesis using nen i by (cases th) (simp_all add: hub_enabled_def)
    next
      case (Waiting j key k)
      with att t have w: "j = 0" "fst key = a"
          "key \<in> set (parked b) \<or> key \<in> set (signalled b) \<and> key \<in> set (release_order b)"
        unfolding attended_def by fastforce+
      have "key \<notin> set (signalled b)" using nen i Waiting w(1) b by (simp add: hub_enabled_def)
      with w(3) have key: "key \<in> set (parked b)" by blast
      then have "key \<notin> set (release_order b)" using T unfolding tended_def core_inv_def by blast
      moreover obtain name n where "key = (a, name, n)" using w(2) by (cases key) auto
      ultimately show ?thesis using parked_room [OF T, of a name n] key Waiting by simp
    qed
  qed
  show ?thesis
    using room by (auto simp: no_stray_def hub_shadow_def b shadow_def list_all_iff)
qed

lemma those_Some: "those xs = Some ys \<Longrightarrow> None \<notin> set xs"
  by (induction xs arbitrary: ys) (auto split: option.splits)

lemma collect_halts:
  assumes "collect ts = Some os" "(a, t) \<in> set ts"
  shows "\<exists>r. t = Halt r"
proof -
  have "None \<notin> (\<lambda>(actor, t). case t of Halt r \<Rightarrow> Some (r, actor) | _ \<Rightarrow> None) ` set ts"
    using those_Some [OF assms(1) [unfolded collect_def]] by simp
  with assms(2) show ?thesis by (cases t) force+
qed

lemma collect_no_waiters:
  assumes "collect (g_threads g) = Some os"
  shows "gated_waiters pl g = []"
  using collect_halts [OF assms] unfolding gated_waiters_def by (force split: thread.split)

lemma hub_outcome_shadow:
  assumes ok: "hub_ok (plan_of spec) sid H" and q: "hub_quiet H"
  shows "hub_outcome spec cid H = gated_outcome spec cid (hub_shadow (plan_of spec) H)"
proof -
  let ?pl = "plan_of spec" and ?g = "hub_shadow (plan_of spec) H"
  obtain b where b: "heap (hub_coord H) = [b]" "current (hub_coord H) = Some 0" and T: "tended ?pl b (hub_threads H)"
    using ok by (auto simp: hub_ok_def)
  note thr = hub_quiet_shadow(2) [OF ok q]
  have view: "view_waiters (waiters (hub_coord H)) = sort (parked b)"
    "view_release_order (waiters (hub_coord H)) = gated_released ?pl ?g"
    using T b by (simp_all add: waiters_def waiters_locked_def gated_released_def hub_shadow_def shadow_def tended_def
        core_inv_def Let_def)
  have db: "w_billing (g_world ?g) = w_billing (hub_world H)" "w_ledger (g_world ?g) = w_ledger (hub_world H)"
    by (simp_all add: hub_shadow_def shadow_def)
  show ?thesis
  proof (cases "collect (g_threads ?g)")
    case None
    then show ?thesis by (simp add: hub_outcome_def gated_outcome_def finish_run_def flip: thr)
  next
    case (Some os)
    have "parked b = []"
    proof (rule ccontr)
      assume "parked b \<noteq> []"
      then obtain key where "key \<in> set (parked b)" by (meson list.set_sel(1))
      then obtain k where "(fst key, Waiting 0 key k) \<in> set (hub_threads H)"
        using T unfolding tended_def attended_def by blast
      then have "(fst key, Gate (fst (snd key)) k) \<in> set (g_threads ?g)" unfolding thr by force
      with collect_halts [OF Some] show False by blast
    qed
    moreover have "gated_waiters ?pl ?g = []" by (rule collect_no_waiters [OF Some])
    ultimately show ?thesis
      by (simp add: hub_outcome_def gated_outcome_def view db flip: thr)
  qed
qed

lemma hub_start_weight:
  "hub_weight (hub_start tk st cid spec) = length (ss_actors spec)"
  by (simp add: hub_weight_def hub_start_def weight_def comp_def case_prod_unfold sum_list_triv actor_threads_def)

lemma hub_reaches:
  assumes "named spec" and "ends_in (plan_of spec) n P (gated_start tk st cid spec)"
    and "H = hub_run (ss_id spec) xs (hub_start tk st cid spec)"
  shows "hub_ok (plan_of spec) (ss_id spec) H"
    and "\<exists>js. hub_shadow (plan_of spec) H = gated_run (plan_of spec) js (gated_start tk st cid spec)"
    and "hub_effective (ss_id spec) xs (hub_start tk st cid spec) \<le> 3 * n + length (ss_actors spec)"
    and "hub_quiet H \<Longrightarrow> P (hub_shadow (plan_of spec) H)"
proof -
  let ?g = "gated_start tk st cid spec" and ?pl = "plan_of spec"
  have E: "no_stray ?pl (gated_run ?pl js ?g)" "effective ?pl js ?g \<le> n" for js using assms(2) by (simp_all add: ends_in_def)
  from E(1) hub_run_shadow [OF hub_start_ok(1) [OF assms(1)], of tk st cid xs] assms(3)
  obtain m where ok: "hub_ok ?pl (ss_id spec) H" and m: "moves ?pl m ?g (hub_shadow ?pl H)"
      "hub_effective (ss_id spec) xs (hub_start tk st cid spec) \<le> length (ss_actors spec) + 3 * m"
    by (auto simp: hub_start_ok(2) [OF assms(1)] hub_start_weight)
  obtain js where js: "hub_shadow ?pl H = gated_run ?pl js ?g" "effective ?pl js ?g = m"
    using m(1) by (auto simp: moves_def)
  show "hub_ok ?pl (ss_id spec) H" by (rule ok)
  show "\<exists>js. hub_shadow ?pl H = gated_run ?pl js ?g" using js(1) by blast
  have "m \<le> n" using E(2) [of js] js(2) by simp
  then show "hub_effective (ss_id spec) xs (hub_start tk st cid spec) \<le> 3 * n + length (ss_actors spec)"
    using m(2) by linarith
  show "P (hub_shadow ?pl H)" if "hub_quiet H"
    using hub_quiet_shadow(1) [OF ok that] assms(2) js by (simp add: ends_in_def)
qed

lemma hub_ok_view:
  assumes "hub_ok pl sid H"
  shows "\<not> view_aborted (waiters (hub_coord H))"
    and "view_release_order (waiters (hub_coord H)) = gated_released pl (hub_shadow pl H)"
  using assms by (auto simp: hub_ok_def waiters_def gated_released_def hub_shadow_def shadow_def tended_def
      core_inv_def Let_def)

end
