(* ===== verification/Seats.thy ===== *)
theory Seats
  imports Fresh Gate_Refinement
begin

text \<open>
  From a schedule file to the threads of its actors: what the worker hands to an agent, the
  token it issues and what the services make of it, and the general shape of a claim about a
  schedule with one or two diligent actors.
\<close>

declare events_thread.simps [simp del] sources_thread.simps [simp del]

section \<open>From the file to the threads\<close>

definition an_actor :: "string \<Rightarrow> string \<Rightarrow> decimal \<Rightarrow> string \<Rightarrow> actor_spec" where
  "an_actor i action amount key = \<lparr>as_id = i, as_action = action, as_amount = amount, as_key = key,
     as_retry_on_failure = False, as_abandon_after_reserve = False, as_scopes = None, as_projection_order = None\<rparr>"

definition a_schedule :: "string \<Rightarrow> actor_spec list \<Rightarrow> step list \<Rightarrow> schedule_spec" where
  "a_schedule i actors ss = \<lparr>ss_id = i, ss_authorized = 1000, ss_timeout_seconds = 30, ss_lease_ttl_seconds = 30,
     ss_use_reservations = False, ss_use_projection = False, ss_actors = actors, ss_steps = ss, ss_faults = []\<rparr>"

definition full_stack :: stack where
  "full_stack = \<lparr>st_control = True, st_crm = True\<rparr>"

definition cfg_of :: "string \<Rightarrow> schedule_spec \<Rightarrow> actor_spec \<Rightarrow> case_config" where
  "cfg_of cid spec a = \<lparr>cf_case_id = cid, cf_actor_id = as_id a, cf_schedule_id = ss_id spec,
     cf_action = as_action a, cf_amount = as_amount a, cf_key = as_key a, cf_authorized = ss_authorized spec,
     cf_retry_on_failure = as_retry_on_failure a, cf_abandon_after_reserve = as_abandon_after_reserve a\<rparr>"

definition clients_of :: "stack \<Rightarrow> schedule_spec \<Rightarrow> clients" where
  "clients_of st spec = \<lparr>has_crm = (ss_use_projection spec \<and> st_crm st), has_reserve = (ss_use_reservations spec \<and> st_control st),
     has_release = (ss_use_reservations spec \<and> st_control st), has_commit = (ss_use_reservations spec \<and> st_control st)\<rparr>"

text \<open>The library decodes what it encoded, and the clock is not at the end of time.\<close>

definition library_ok :: "token_library \<Rightarrow> schedule_spec \<Rightarrow> bool" where
  "library_ok tk spec \<longleftrightarrow> list_all (\<lambda>a. case job_payload tk (as_id a) (as_scopes a) of
     Inl e \<Rightarrow> False | Inr p \<Rightarrow> tk_decode tk (tk_encode tk p) = Inr p) (ss_actors spec)"

text \<open>A library that knows the actors of one file, at the start of the clock.\<close>

definition file_library :: "schedule_spec \<Rightarrow> token_library" where
  "file_library spec = \<lparr>tk_encode = jp_sub, tk_decode = (\<lambda>s.
     case row_where (\<lambda>a. as_id a = s) (ss_actors spec) of None \<Rightarrow> Inl ''unknown''
     | Some a \<Rightarrow> (case issue_payload (as_id a) (granted_scopes (as_scopes a)) ''acme'' DEFAULT_TTL_SECONDS EPOCH of
         Inl e \<Rightarrow> Inl ''overflow'' | Inr p \<Rightarrow> Inr p)), tk_now = EPOCH\<rparr>"

lemma file_library_ok:
  assumes "distinct (map as_id (ss_actors spec))"
  shows "library_ok (file_library spec) spec"
proof -
  have clock: "\<exists>e. add_seconds EPOCH DEFAULT_TTL_SECONDS = Some e"
    by (simp add: add_seconds_def add_microseconds_def EPOCH_def DEFAULT_TTL_SECONDS_def datetime_limit_def)
  have "row_where (\<lambda>b. as_id b = as_id a) (ss_actors spec) = Some a" if "a \<in> set (ss_actors spec)" for a
    using row_where_unique [OF assms that] .
  then show ?thesis
    using clock by (auto simp: library_ok_def list_all_iff file_library_def job_payload_def issue_payload_def)
qed

definition may :: "string list option \<Rightarrow> string \<Rightarrow> decimal \<Rightarrow> bool" where
  "may scs action amount \<longleftrightarrow> 0 < amount \<and> outcome (evaluate_action \<lparr>actor_id = '''', tenant = ''acme'',
     scopes = granted_scopes scs\<rparr>
     action amount ''acme'') = ALLOW"

text \<open>What an actor's thread is, as far as a run depends on it.\<close>

definition plays :: "service_env \<Rightarrow> case_config \<Rightarrow> schedule_spec \<Rightarrow> actor_spec \<Rightarrow> bool" where
  "plays e c spec a \<longleftrightarrow> env_actor e = as_id a \<and> (\<forall>action req. admitted e action req \<longleftrightarrow> may (as_scopes a) action (r_amount req)) \<and>
     cf_action c = as_action a \<and> cf_amount c = as_amount a \<and> cf_key c = as_key a \<and> cf_authorized c = ss_authorized spec \<and>
     cf_retry_on_failure c = as_retry_on_failure a \<and> cf_abandon_after_reserve c = as_abandon_after_reserve a"

lemma admitted_job:
  assumes "job_payload tk actor scs = Inr p" "tk_decode tk (tk_encode tk p) = Inr p"
  shows "admitted (job_env tk actor p) action req \<longleftrightarrow> may scs action (r_amount req)"
proof -
  have space: "lower_char (CHR '' '') = CHR '' ''" by (simp add: lower_char_def)
  have bearer: "starts_with ''bearer '' (map lower_char (''Bearer '' @ x))"
    "tl (dropWhile (\<lambda>c. c \<noteq> CHR '' '') (''Bearer '' @ x)) = x" for x
    by (simp_all add: starts_with_def space)
  have p: "jp_tenant p = Some ''acme''"
    "jp_scopes p = Some (granted_scopes scs)"
    using assms(1) by (auto simp: job_payload_def issue_payload_def split: option.splits)
  have allow: "(case outcome d of ALLOW \<Rightarrow> None | REQUIRE_APPROVAL \<Rightarrow> Some x | DENY \<Rightarrow> Some y) = None
      \<longleftrightarrow> outcome d = ALLOW" for d :: policy_decision and x y :: "auth_detail http_error"
    by (cases "outcome d") auto
  show ?thesis
    using bearer p assms(2)
    by (simp add: admitted_def job_env_def authorize_def actor_claims_of_def may_def allow Let_def evaluate_ALLOW
        del: append_Cons)
qed

text \<open>The refusal of a job whose token lacks the approval scope.\<close>

lemma job_needs_approval:
  assumes "job_payload tk actor scs = Inr p" "tk_decode tk (tk_encode tk p) = Inr p"
    and "REQUIRED_SCOPE action = Some required" "required \<in> set (granted_scopes scs)"
    and "the (APPROVED_SCOPE action) \<notin> set (granted_scopes scs)" "500 < amount"
  shows "authorize (env_enforce (job_env tk actor p)) (env_decode (job_env tk actor p)) (env_headers (job_env tk actor p))
    action amount = Some (HTTPException 403 (Approval_Required (Exceeds_Threshold amount)))"
proof -
  have space: "lower_char (CHR '' '') = CHR '' ''" by (simp add: lower_char_def)
  have bearer: "starts_with ''bearer '' (map lower_char (''Bearer '' @ x))"
    "tl (dropWhile (\<lambda>c. c \<noteq> CHR '' '') (''Bearer '' @ x)) = x" for x
    by (simp_all add: starts_with_def space)
  have p: "jp_tenant p = Some ''acme''" "jp_scopes p = Some (granted_scopes scs)"
    using assms(1) by (auto simp: job_payload_def issue_payload_def split: option.splits)
  show ?thesis
    using bearer p assms(2-6)
    by (simp add: job_env_def authorize_def actor_claims_of_def Let_def evaluate_action_def APPROVAL_THRESHOLD_def
        del: append_Cons)
qed

lemma may_default [simp]:
  "may None ''refund'' a \<longleftrightarrow> 0 < a" "may None ''credit'' a \<longleftrightarrow> 0 < a"
  by (simp_all add: may_def granted_scopes_def evaluate_ALLOW REQUIRED_SCOPE_def APPROVED_SCOPE_def default_scopes_def)

text \<open>A diligent actor of a schedule, with the environment its token gives it.\<close>

definition seated :: "token_library \<Rightarrow> stack \<Rightarrow> string \<Rightarrow> schedule_spec \<Rightarrow> actor_spec \<Rightarrow> service_env \<Rightarrow> bool" where
  "seated tk st cid spec a e \<longleftrightarrow> plays e (cfg_of cid spec a) spec a \<and>
     job_thread tk (dispatch_actor st cid spec a) = thread_of e (run_case cid (cfg_of cid spec a) (clients_of st spec))"

lemma diligent_seat:
  assumes "library_ok tk spec" "a \<in> set (ss_actors spec)" "as_action a \<in> {''refund'', ''credit''}"
  shows "\<exists>e. seated tk st cid spec a e"
proof -
  obtain p where p: "job_payload tk (as_id a) (as_scopes a) = Inr p" "tk_decode tk (tk_encode tk p) = Inr p"
    using assms(1,2) by (cases "job_payload tk (as_id a) (as_scopes a)") (auto simp: library_ok_def list_all_iff)
  have "plays (job_env tk (as_id a) p) (cfg_of cid spec a) spec a"
    by (simp add: plays_def cfg_of_def admitted_job [OF p]) (simp add: job_env_def)
  moreover have "job_thread tk (dispatch_actor st cid spec a) =
      thread_of (job_env tk (as_id a) p) (run_case cid (cfg_of cid spec a) (clients_of st spec))"
    using assms(3) by (auto simp: job_thread_def dispatch_actor_def diligent_thread_def p cfg_of_def clients_of_def)
  ultimately show ?thesis by (auto simp: seated_def)
qed

text \<open>Two diligent actors, and whoever else takes part.\<close>

abbreviation seat_of :: "string \<Rightarrow> stack \<Rightarrow> schedule_spec \<Rightarrow> actor_spec \<Rightarrow> service_env \<Rightarrow> string \<times> thread" where
  "seat_of cid st spec a e \<equiv> (as_id a, thread_of e (run_case cid (cfg_of cid spec a) (clients_of st spec)))"

lemma two_actors:
  assumes "library_ok tk spec" "ss_actors spec = x # y # zs"
    "as_action x \<in> {''refund'', ''credit''}" "as_action y \<in> {''refund'', ''credit''}"
    and "\<And>e1 e2. plays e1 (cfg_of cid spec x) spec x \<Longrightarrow> plays e2 (cfg_of cid spec y) spec y \<Longrightarrow>
      Q (seat_of cid st spec x e1 # seat_of cid st spec y e2 #
        map (\<lambda>a. (as_id a, job_thread tk (dispatch_actor st cid spec a))) zs)"
  shows "Q (actor_threads tk st cid spec)"
proof -
  obtain ex where x: "seated tk st cid spec x ex"
    using diligent_seat [OF assms(1), of x] assms(2,3) by auto
  obtain ey where y: "seated tk st cid spec y ey"
    using diligent_seat [OF assms(1), of y] assms(2,4) by auto
  show ?thesis
    using assms(5) [of ex ey] x y by (simp add: actor_threads_def assms(2) seated_def)
qed

lemma one_actor:
  assumes "library_ok tk spec" "ss_actors spec = x # zs" "as_action x \<in> {''refund'', ''credit''}"
    and "\<And>e. plays e (cfg_of cid spec x) spec x \<Longrightarrow> Q (seat_of cid st spec x e #
        map (\<lambda>a. (as_id a, job_thread tk (dispatch_actor st cid spec a))) zs)"
  shows "Q (actor_threads tk st cid spec)"
proof -
  obtain ex where x: "seated tk st cid spec x ex"
    using diligent_seat [OF assms(1), of x] assms(2,3) by auto
  show ?thesis
    using assms(4) [of ex] x by (simp add: actor_threads_def assms(2) seated_def)
qed

lemma an_actor_simps [simp]:
  "as_id (an_actor i action amount key) = i" "as_action (an_actor i action amount key) = action"
  "as_amount (an_actor i action amount key) = amount" "as_key (an_actor i action amount key) = key"
  "as_retry_on_failure (an_actor i action amount key) = False"
  "as_abandon_after_reserve (an_actor i action amount key) = False"
  "as_scopes (an_actor i action amount key) = None" "as_projection_order (an_actor i action amount key) = None"
  by (simp_all add: an_actor_def)

lemma a_schedule_simps [simp]:
  "ss_id (a_schedule i actors ss) = i" "ss_authorized (a_schedule i actors ss) = 1000"
  "ss_actors (a_schedule i actors ss) = actors" "ss_steps (a_schedule i actors ss) = ss"
  "ss_faults (a_schedule i actors ss) = []"
  "ss_use_reservations (a_schedule i actors ss) = False" "ss_use_projection (a_schedule i actors ss) = False"
  by (simp_all add: a_schedule_def)

lemma plan_of_simps [simp]: "pl_faults (plan_of spec) = ss_faults spec" "pl_steps (plan_of spec) = ss_steps spec"
  by (simp_all add: plan_of_def)

section \<open>What a schedule reports in every run\<close>

text \<open>
  In front of the coordinator, whatever the order in which the actors' requests arrive and
  the waiters wake: the run is never aborted, at most \<open>n\<close> steps are taken, and when nothing can go
  on the runner's answer is the given one.
\<close>

definition always_reports :: "schedule_spec \<Rightarrow> string \<Rightarrow> nat \<Rightarrow> verdict \<Rightarrow> decimal \<Rightarrow> bool \<Rightarrow> hub \<Rightarrow> bool" where
  "always_reports spec cid n v paid ok H0 \<longleftrightarrow> (\<forall>xs.
     \<not> view_aborted (waiters (hub_coord (hub_run (ss_id spec) xs H0))) \<and>
     hub_effective (ss_id spec) xs H0 \<le> n \<and>
     (hub_quiet (hub_run (ss_id spec) xs H0) \<longrightarrow>
        executed_with spec v paid ok (hub_outcome spec cid (hub_run (ss_id spec) xs H0))))"

lemma ends_reports:
  assumes "ends_in (plan_of spec) n (ended spec rs b l) (gated_start tk st cid spec)" "named spec"
    and "distinct (map ef_key (effects b @ effects l))"
    and "total_committed cid b + total_committed cid l = paid" "v = (if ss_authorized spec < paid then VIOLATION else CLEAN)"
    and "ok \<longleftrightarrow> Actor_Error \<notin> set rs" "m = 3 * n + length (ss_actors spec)"
  shows "always_reports spec cid m v paid ok (hub_start tk st cid spec)"
  unfolding always_reports_def
proof
  fix xs
  let ?H = "hub_run (ss_id spec) xs (hub_start tk st cid spec)"
  note R = hub_reaches [OF assms(2,1) refl, of xs]
  have "executed_with spec v paid ok (hub_outcome spec cid ?H)" if "hub_quiet ?H"
    unfolding hub_outcome_shadow [OF R(1) that] by (rule ended_executed [OF R(4) [OF that] assms(3-6)])
  with R(3) hub_ok_view(1) [OF R(1)]
  show "\<not> view_aborted (waiters (hub_coord ?H)) \<and> hub_effective (ss_id spec) xs (hub_start tk st cid spec) \<le> m \<and>
      (hub_quiet ?H \<longrightarrow> executed_with spec v paid ok (hub_outcome spec cid ?H))"
    unfolding assms(7) by blast
qed

lemma foreseen_reports:
  assumes "foreseen spec rs b l n (actor_threads tk st cid spec)" "named spec"
    and "length rs = length (ss_actors spec)" "distinct (map ef_key (effects b @ effects l))"
    and "total_committed cid b + total_committed cid l = paid" "v = (if ss_authorized spec < paid then VIOLATION else CLEAN)"
    and "ok \<longleftrightarrow> Actor_Error \<notin> set rs" "m = 3 * n + length (ss_actors spec)"
  shows "always_reports spec cid m v paid ok (hub_start tk st cid spec)"
  by (rule ends_reports [OF foreseen_ends_in [OF assms(1,3)] assms(2,4-8)])

text \<open>What every actor came to in such a run.\<close>

lemma foreseen_actors:
  assumes "foreseen spec rs b l n (actor_threads tk st cid spec)" "named spec" "length rs = length (ss_actors spec)"
    and "hub_quiet (hub_run (ss_id spec) xs (hub_start tk st cid spec))"
  shows "\<exists>r. hub_outcome spec cid (hub_run (ss_id spec) xs (hub_start tk st cid spec)) = Inr r \<and>
    ro_actor_outcomes r = zip rs (map as_id (ss_actors spec))"
proof -
  note R = hub_reaches [OF assms(2) foreseen_ends_in [OF assms(1,3)] refl, of xs]
  show ?thesis
    unfolding hub_outcome_shadow [OF R(1) assms(4)] by (simp add: ended_outcome [OF R(4) [OF assms(4)]])
qed

lemma hub_shadow_world: "g_world (hub_shadow pl H) = hub_world H"
  by (simp add: hub_shadow_def shadow_def)

text \<open>The projection shows the given total and count, and no service has an event left to apply.\<close>

definition caught_up :: "string \<Rightarrow> decimal \<times> nat \<Rightarrow> world \<Rightarrow> bool" where
  "caught_up cid x w \<longleftrightarrow> get_compensation cid (w_crm w) = x \<and>
     fst (list_events True (Some cid) (w_billing w)) = [] \<and> fst (list_credit_events True (Some cid) (w_ledger w)) = []"

text \<open>One run, chosen step by step.\<close>

definition run_of :: "nat list \<Rightarrow> (time \<times> nat) list" where
  "run_of js = map (Pair 0) js"

lemma hub_start_running: "all_running (hub_start tk st cid spec)"
  by (auto simp: all_running_def hub_start_def)

lemma chosen_run:
  assumes "named spec" "leads_to (plan_of spec) P js 0 (ss_steps spec) (actor_threads tk st cid spec) empty_world"
  defines "H \<equiv> hub_run (ss_id spec) (run_of js) (hub_start tk st cid spec)"
  shows "hub_ok (plan_of spec) (ss_id spec) H" "all_running H" "P (hub_shadow (plan_of spec) H)"
proof -
  have L: "P (gated_run (plan_of spec) js (gated_start tk st cid spec))"
    "effective (plan_of spec) js (gated_start tk st cid spec) = length js"
    using leads_to_run [OF _ assms(2)] unfolding gated_start_def by simp_all
  from hub_follows [OF hub_start_ok(1) [OF assms(1)] hub_start_running, where js = js and now = 0] L
  show "hub_ok (plan_of spec) (ss_id spec) H" "all_running H" "P (hub_shadow (plan_of spec) H)"
    by (simp_all add: H_def run_of_def hub_start_ok(2) [OF assms(1)])
qed

lemma halted_quiet:
  assumes "all_running H" "final names rs b l n (hub_shadow pl H)"
  shows "hub_quiet H"
  unfolding hub_quiet_def
proof (intro allI impI)
  fix i assume i: "i < length (hub_threads H)"
  let ?ts = "g_threads (hub_shadow pl H)"
  obtain a u where u: "hub_threads H ! i = (a, Running u)"
    using i assms(1) by (metis all_runningD nth_mem surj_pair)
  have "?ts ! i = (a, u)" "i < length ?ts"
    using i u by (simp_all add: hub_shadow_def shadow_def)
  moreover have "?ts = zip names (map Halt rs)" using assms(2) by (simp add: final_def)
  ultimately have "(a, u) \<in> set (zip names (map Halt rs))" by (metis nth_mem)
  then have "u \<in> set (map Halt rs)" by (rule set_zip_rightD)
  then obtain r where "u = Halt r" by auto
  with u show "\<not> hub_enabled H i" by (simp add: hub_enabled_def)
qed

lemma chosen_run_final:
  assumes "named spec"
    and "leads_to (plan_of spec) (final (map as_id (ss_actors spec)) rs b l n) js 0 (ss_steps spec)
      (actor_threads tk st cid spec) empty_world"
  defines "H \<equiv> hub_run (ss_id spec) (run_of js) (hub_start tk st cid spec)"
  shows "hub_quiet H" and "hub_outcome spec cid H = gated_outcome spec cid (hub_shadow (plan_of spec) H)"
    and "final (map as_id (ss_actors spec)) rs b l n (hub_shadow (plan_of spec) H)"
proof -
  note C = chosen_run [OF assms(1,2), folded H_def]
  show F: "final (map as_id (ss_actors spec)) rs b l n (hub_shadow (plan_of spec) H)" by (rule C(3))
  show q: "hub_quiet H" by (rule halted_quiet [OF C(2) F])
  show "hub_outcome spec cid H = gated_outcome spec cid (hub_shadow (plan_of spec) H)"
    by (rule hub_outcome_shadow [OF C(1) q])
qed

text \<open>Such a run ends as declared, or cut short.\<close>

lemma chosen_run_executed:
  assumes "named spec"
    and "leads_to (plan_of spec) (final (map as_id (ss_actors spec)) rs b l (length (ss_steps spec))) js 0 (ss_steps spec)
      (actor_threads tk st cid spec) empty_world"
    and "length rs = length (ss_actors spec)" "distinct (map ef_key (effects b @ effects l))"
    and "total_committed cid b + total_committed cid l = paid" "v = (if ss_authorized spec < paid then VIOLATION else CLEAN)"
    and "ok \<longleftrightarrow> Actor_Error \<notin> set rs"
  shows "executed_with spec v paid ok
    (hub_outcome spec cid (hub_run (ss_id spec) (run_of js) (hub_start tk st cid spec)))"
proof -
  note F = chosen_run_final [OF assms(1,2)]
  have "ended spec rs b l (hub_shadow (plan_of spec) (hub_run (ss_id spec) (run_of js) (hub_start tk st cid spec)))"
    unfolding ended_def using F(3) assms(3) by blast
  then show ?thesis unfolding F(2) by (rule ended_executed [OF _ assms(4-7)])
qed

lemma chosen_run_cut_short:
  assumes "named spec"
    and "leads_to (plan_of spec) (final (map as_id (ss_actors spec)) rs b l n) js 0 (ss_steps spec)
      (actor_threads tk st cid spec) empty_world"
    and "n < length (ss_steps spec)" "Actor_Error \<notin> set rs" "length rs = length (ss_actors spec)"
    and "distinct (map ef_key (effects b @ effects l))"
    and "total_committed cid b + total_committed cid l = paid" "v = (if ss_authorized spec < paid then VIOLATION else CLEAN)"
  shows "hub_quiet (hub_run (ss_id spec) (run_of js) (hub_start tk st cid spec)) \<and>
    cut_short spec n v paid (hub_outcome spec cid (hub_run (ss_id spec) (run_of js) (hub_start tk st cid spec)))"
proof -
  note F = chosen_run_final [OF assms(1,2)]
  show ?thesis unfolding F(2) using F(1) final_cut_short [OF F(3) assms(3-8)] by blast
qed

lemma chosen_run_aborts:
  assumes "named spec"
    and "leads_to (plan_of spec) (\<lambda>g. \<not> no_stray (plan_of spec) g) js 0 (ss_steps spec) (actor_threads tk st cid spec) empty_world"
  shows "\<exists>i<length (ss_actors spec). view_aborted (waiters (hub_coord
    (hub_run (ss_id spec) (run_of (js @ [i])) (hub_start tk st cid spec))))"
proof -
  note C = chosen_run [OF assms]
  let ?H = "hub_run (ss_id spec) (run_of js) (hub_start tk st cid spec)"
  obtain i where i: "i < length (hub_threads ?H)"
      "view_aborted (waiters (hub_coord (hub_step (ss_id spec) (0, i) ?H)))"
    using stray_aborts [OF C] by blast
  have "length (hub_threads (hub_step sid x H)) = length (hub_threads H)" for sid x H
    by (auto simp: hub_step_def hub_put_def split: prod.split held_thread.split thread.split await_reply.split)
  then have "length (hub_threads (hub_run sid xs H)) = length (hub_threads H)" for sid xs H
    unfolding hub_run_def by (induction xs arbitrary: H) simp_all
  then have "length (hub_threads ?H) = length (ss_actors spec)" by (simp add: hub_start_def actor_threads_def)
  with i show ?thesis by (auto simp: hub_run_def run_of_def)
qed

end
