(* ===== verification/Mode_A.thy ===== *)
theory Mode_A
  imports Seats
begin

text \<open>
  The schedules that decide: files \<^verbatim>\<open>p0.yaml\<close>, \<open>p1\<close>, \<open>p2\<close>, \<open>p3\<close>, \<open>s1\<close>, \<open>s1h\<close> and \<open>s6\<close> of
  \<^verbatim>\<open>schedules/\<close>. In whatever order the operating system runs the actors' processes in front of
  the coordinator, the declared steps determine the verdict, the amounts and the outcome of
  every actor. The last section is the general statement behind them.
\<close>

section \<open>P2\<close>

definition P2_A :: actor_spec where "P2_A = an_actor ''A'' ''refund'' 600 ''p2-a''"
definition P2_B :: actor_spec where "P2_B = an_actor ''B'' ''credit'' 500 ''p2-b''"

definition P2 :: schedule_spec where
  "P2 = a_schedule ''P2'' [P2_A, P2_B]
    [(''A'', ''agent.before_reads''), (''B'', ''agent.before_reads''),
     (''B'', ''agent.after_reads_before_act''), (''A'', ''agent.after_reads_before_act''),
     (''A'', ''billing.after_read_before_decide''), (''A'', ''billing.after_commit_before_ack''),
     (''B'', ''ledger.after_read_before_decide''), (''B'', ''ledger.after_commit_before_ack'')]"

lemma P2_simps [simp]:
  "ss_id P2 = ''P2''" "ss_actors P2 = [P2_A, P2_B]" "ss_authorized P2 = 1000" "ss_faults P2 = []" "length (ss_steps P2) = 8"
  "has_crm (clients_of st P2) = False" "has_reserve (clients_of st P2) = False"
  "has_commit (clients_of st P2) = False" "has_release (clients_of st P2) = False"
  "as_id P2_A = ''A''" "as_action P2_A = ''refund''" "as_amount P2_A = 600" "as_key P2_A = ''p2-a''"
  "as_retry_on_failure P2_A = False" "as_abandon_after_reserve P2_A = False" "as_scopes P2_A = None" "as_projection_order P2_A = None"
  "as_id P2_B = ''B''" "as_action P2_B = ''credit''" "as_amount P2_B = 500" "as_key P2_B = ''p2-b''"
  "as_retry_on_failure P2_B = False" "as_abandon_after_reserve P2_B = False" "as_scopes P2_B = None" "as_projection_order P2_B = None"
  by (simp_all add: P2_def clients_of_def full_stack_def P2_A_def P2_B_def)

lemma P2_steps:
  "ss_steps P2 = [(''A'', cp_before_reads), (''B'', cp_before_reads), (''B'', cp_after_reads), (''A'', cp_after_reads),
     (''A'', cp_refund_read), (''A'', cp_refund_commit), (''B'', cp_credit_read), (''B'', cp_credit_commit)]"
  by (simp add: P2_def cp_defs)

lemma P2_foreseen:
  assumes "plays e1 c1 P2 P2_A" "plays e2 c2 P2 P2_B"
  shows "foreseen P2 [Actor_Ok, Actor_Ok] (refunded cid ''A'' ''p2-a'' 600) (credited cid ''B'' ''p2-b'' 500) 16
    [(''A'', thread_of e1 (run_case cid c1 (clients_of st P2))),
     (''B'', thread_of e2 (run_case cid c2 (clients_of st P2)))]"
  by (simp add: foreseen_def assms [unfolded plays_def] P2_steps follow final_def eval_nat_numeral)

lemma P2_seated:
  assumes "library_ok tk P2"
  shows "foreseen P2 [Actor_Ok, Actor_Ok] (refunded cid ''A'' ''p2-a'' 600) (credited cid ''B'' ''p2-b'' 500) 16
    (actor_threads tk st cid P2)"
  by (rule two_actors [OF assms, where Q = "foreseen P2 [Actor_Ok, Actor_Ok] (refunded cid ''A'' ''p2-a'' 600)
        (credited cid ''B'' ''p2-b'' 500) 16" and x = P2_A and y = P2_B and zs = "[]"])
     (simp_all add: P2_foreseen)

text \<open>
  C1. P2 is a violation whatever the operating system does. Both agents read before either acts,
  as declared. In front of the coordinator, in whatever order requests arrive and waiters wake,
  the run is never aborted and at most 50 steps are taken; once nothing can go on the runner
  gets exactly the declared release order, both actors returned normally, the two views agree,
  and the oracle says VIOLATION with 1100 committed and 100 over the ceiling. Assumed: the token
  library decodes what it encodes, no wait times out and no lease lapses.
\<close>

theorem P2_violates:
  assumes "library_ok tk P2"
  shows "always_reports P2 cid 50 VIOLATION 1100 True (hub_start tk st cid P2)"
  by (rule foreseen_reports [OF P2_seated [OF assms]]) (simp_all add: named_def refunded_rows credited_rows)

theorem P2_violates_witness:
  "always_reports P2 ''c'' 50 VIOLATION 1100 True (hub_start (file_library P2) full_stack ''c'' P2)"
  by (rule P2_violates) (simp_all add: file_library_ok)

section \<open>P1\<close>

definition P1_A :: actor_spec where "P1_A = an_actor ''A'' ''refund'' 600 ''p1-a''"
definition P1_B :: actor_spec where "P1_B = an_actor ''B'' ''credit'' 300 ''p1-b''"

definition P1 :: schedule_spec where
  "P1 = a_schedule ''P1'' [P1_A, P1_B]
    [(''A'', ''agent.before_reads''), (''A'', ''agent.after_reads_before_act''),
     (''A'', ''billing.after_read_before_decide''), (''A'', ''billing.after_commit_before_ack''),
     (''B'', ''agent.before_reads''), (''B'', ''agent.after_reads_before_act''),
     (''B'', ''ledger.after_read_before_decide''), (''B'', ''ledger.after_commit_before_ack'')]"

lemma P1_simps [simp]:
  "ss_id P1 = ''P1''" "ss_actors P1 = [P1_A, P1_B]" "ss_authorized P1 = 1000" "ss_faults P1 = []" "length (ss_steps P1) = 8"
  "has_crm (clients_of st P1) = False" "has_reserve (clients_of st P1) = False"
  "has_commit (clients_of st P1) = False" "has_release (clients_of st P1) = False"
  "as_id P1_A = ''A''" "as_action P1_A = ''refund''" "as_amount P1_A = 600" "as_key P1_A = ''p1-a''"
  "as_retry_on_failure P1_A = False" "as_abandon_after_reserve P1_A = False" "as_scopes P1_A = None" "as_projection_order P1_A = None"
  "as_id P1_B = ''B''" "as_action P1_B = ''credit''" "as_amount P1_B = 300" "as_key P1_B = ''p1-b''"
  "as_retry_on_failure P1_B = False" "as_abandon_after_reserve P1_B = False" "as_scopes P1_B = None" "as_projection_order P1_B = None"
  by (simp_all add: P1_def clients_of_def full_stack_def P1_A_def P1_B_def)

lemma P1_steps:
  "ss_steps P1 = [(''A'', cp_before_reads), (''A'', cp_after_reads), (''A'', cp_refund_read), (''A'', cp_refund_commit),
     (''B'', cp_before_reads), (''B'', cp_after_reads), (''B'', cp_credit_read), (''B'', cp_credit_commit)]"
  by (simp add: P1_def cp_defs)

lemma P1_foreseen:
  assumes "plays e1 c1 P1 P1_A" "plays e2 c2 P1 P1_B"
  shows "foreseen P1 [Actor_Ok, Actor_Ok] (refunded cid ''A'' ''p1-a'' 600) (credited cid ''B'' ''p1-b'' 300) 16
    [(''A'', thread_of e1 (run_case cid c1 (clients_of st P1))),
     (''B'', thread_of e2 (run_case cid c2 (clients_of st P1)))]"
  by (simp add: foreseen_def assms [unfolded plays_def] P1_steps follow final_def eval_nat_numeral)

text \<open>
  P1 is its control: the same agents one after the other, and every run is CLEAN with both
  effects committed, 900 in total.
\<close>

lemma P1_is_clean:
  assumes "library_ok tk P1"
  shows "always_reports P1 cid 50 CLEAN 900 True (hub_start tk st cid P1)"
proof -
  let ?Q = "foreseen P1 [Actor_Ok, Actor_Ok] (refunded cid ''A'' ''p1-a'' 600) (credited cid ''B'' ''p1-b'' 300) 16"
  have "?Q (actor_threads tk st cid P1)"
    by (rule two_actors [OF assms, where Q = "?Q" and x = P1_A and y = P1_B and zs = "[]"])
       (simp_all add: P1_foreseen)
  then show ?thesis by (rule foreseen_reports) (simp_all add: named_def refunded_rows credited_rows)
qed

section \<open>P0\<close>

definition P0_A :: actor_spec where "P0_A = an_actor ''A'' ''refund'' 600 ''p0-a''"
definition P0_B :: actor_spec where "P0_B = an_actor ''B'' ''credit'' 500 ''p0-b''"

definition P0 :: schedule_spec where
  "P0 = (a_schedule ''P0'' [P0_A, P0_B]
    [(''A'', ''agent.before_reads''), (''B'', ''agent.before_reads''),
     (''B'', ''agent.after_reads_before_act''), (''A'', ''agent.after_reads_before_act''),
     (''A'', ''agent.before_reserve''), (''A'', ''billing.after_read_before_decide''),
     (''A'', ''billing.after_commit_before_ack''), (''B'', ''agent.before_reserve'')])\<lparr>ss_use_reservations := True\<rparr>"

lemma P0_simps [simp]:
  "ss_id P0 = ''P0''" "ss_actors P0 = [P0_A, P0_B]" "ss_authorized P0 = 1000" "ss_faults P0 = []" "length (ss_steps P0) = 8"
  "has_crm (clients_of full_stack P0) = False" "has_reserve (clients_of full_stack P0) = True"
  "has_commit (clients_of full_stack P0) = True" "has_release (clients_of full_stack P0) = True"
  "as_id P0_A = ''A''" "as_action P0_A = ''refund''" "as_amount P0_A = 600" "as_key P0_A = ''p0-a''"
  "as_retry_on_failure P0_A = False" "as_abandon_after_reserve P0_A = False" "as_scopes P0_A = None" "as_projection_order P0_A = None"
  "as_id P0_B = ''B''" "as_action P0_B = ''credit''" "as_amount P0_B = 500" "as_key P0_B = ''p0-b''"
  "as_retry_on_failure P0_B = False" "as_abandon_after_reserve P0_B = False" "as_scopes P0_B = None" "as_projection_order P0_B = None"
  by (simp_all add: P0_def clients_of_def full_stack_def P0_A_def P0_B_def)

lemma P0_steps:
  "ss_steps P0 = [(''A'', cp_before_reads), (''B'', cp_before_reads), (''B'', cp_after_reads), (''A'', cp_after_reads),
     (''A'', cp_before_reserve), (''A'', cp_refund_read), (''A'', cp_refund_commit), (''B'', cp_before_reserve)]"
  by (simp add: P0_def cp_defs)

lemma P0_foreseen:
  assumes "plays e1 c1 P0 P0_A" "plays e2 c2 P0 P0_B"
  shows "foreseen P0 [Actor_Ok, Actor_Ok] (refunded cid ''A'' ''p0-a'' 600) (empty_effect_db) 20
    [(''A'', thread_of e1 (run_case cid c1 (clients_of full_stack P0))),
     (''B'', thread_of e2 (run_case cid c2 (clients_of full_stack P0)))]"
  by (simp add: foreseen_def assms [unfolded plays_def] P0_steps follow ask_then_fresh
    ask_then_refused [where cid = cid and actor = "''A''" and key = "''p0-a''" and a = 600]
    close_then_commit [where cid = cid and actor = "''A''" and key = "''p0-a''" and a = 600] final_def eval_nat_numeral)

text \<open>
  C3. P0 is P2 with reservations, and every run is CLEAN with 600 committed: the second actor is
  refused whether its request comes before or after the first one's hold is committed, an
  order that the schedule leaves open.
\<close>

theorem P0_is_clean:
  assumes "library_ok tk P0"
  shows "always_reports P0 cid 62 CLEAN 600 True (hub_start tk full_stack cid P0)"
proof -
  let ?Q = "foreseen P0 [Actor_Ok, Actor_Ok] (refunded cid ''A'' ''p0-a'' 600) (empty_effect_db) 20"
  have "?Q (actor_threads tk full_stack cid P0)"
    by (rule two_actors [OF assms, where Q = "?Q" and x = P0_A and y = P0_B and zs = "[]"])
       (simp_all add: P0_foreseen)
  then show ?thesis by (rule foreseen_reports) (simp_all add: named_def refunded_rows credited_rows)
qed

theorem P0_is_clean_witness:
  "always_reports P0 ''c'' 62 CLEAN 600 True (hub_start (file_library P0) full_stack ''c'' P0)"
  by (rule P0_is_clean) (simp_all add: file_library_ok)

section \<open>P3\<close>

definition P3_A :: actor_spec where "P3_A = (an_actor ''A'' ''refund'' 600 ''p3-a'')\<lparr>as_retry_on_failure := True\<rparr>"

definition P3 :: schedule_spec where
  "P3 = (a_schedule ''P3'' [P3_A]
    [(''A'', ''agent.before_reads''), (''A'', ''agent.after_reads_before_act''),
     (''A'', ''billing.after_read_before_decide''), (''A'', ''billing.after_commit_before_ack''),
     (''A'', ''billing.after_read_before_decide'')])\<lparr>ss_faults := [(''A'', ''billing.after_commit_before_ack'', 0)]\<rparr>"

lemma P3_simps [simp]:
  "ss_id P3 = ''P3''" "ss_actors P3 = [P3_A]" "ss_authorized P3 = 1000" "ss_faults P3 = [(''A'', ''billing.after_commit_before_ack'', 0)]" "length (ss_steps P3) = 5"
  "has_crm (clients_of st P3) = False" "has_reserve (clients_of st P3) = False"
  "has_commit (clients_of st P3) = False" "has_release (clients_of st P3) = False"
  "as_id P3_A = ''A''" "as_action P3_A = ''refund''" "as_amount P3_A = 600" "as_key P3_A = ''p3-a''"
  "as_retry_on_failure P3_A = True" "as_abandon_after_reserve P3_A = False" "as_scopes P3_A = None" "as_projection_order P3_A = None"
  by (simp_all add: P3_def clients_of_def full_stack_def P3_A_def)

lemma P3_steps:
  "ss_steps P3 = [(''A'', cp_before_reads), (''A'', cp_after_reads), (''A'', cp_refund_read), (''A'', cp_refund_commit),
     (''A'', cp_refund_read)]"
  by (simp add: P3_def cp_defs)

lemma P3_foreseen:
  assumes "plays e1 c1 P3 P3_A"
  shows "foreseen P3 [Actor_Ok] (refunded cid ''A'' ''p3-a'' 600) (empty_effect_db) 12
    [(''A'', thread_of e1 (run_case cid c1 (clients_of st P3)))]"
  by (simp add: foreseen_def assms [unfolded plays_def] P3_steps follow occurrence_at_def cp_folds refund_write_again [where a = 600] final_def eval_nat_numeral)

text \<open>
  C6. P3 drops the acknowledgement of a refund that has landed. The retry passes the read
  checkpoint a second time, finds the row and skips the other checkpoint: in every run five
  steps are released, the actor returns normally and 600 are committed once.
\<close>

theorem P3_retries_once:
  assumes "library_ok tk P3"
  shows "always_reports P3 cid 37 CLEAN 600 True (hub_start tk st cid P3)"
proof -
  let ?Q = "foreseen P3 [Actor_Ok] (refunded cid ''A'' ''p3-a'' 600) (empty_effect_db) 12"
  have "?Q (actor_threads tk st cid P3)"
    by (rule one_actor [OF assms, where Q = "?Q" and x = P3_A and zs = "[]"])
       (simp_all add: P3_foreseen)
  then show ?thesis by (rule foreseen_reports) (simp_all add: named_def refunded_rows credited_rows)
qed

theorem P3_retries_once_witness:
  "always_reports P3 ''c'' 37 CLEAN 600 True (hub_start (file_library P3) full_stack ''c'' P3)"
  by (rule P3_retries_once) (simp_all add: file_library_ok)

section \<open>S6\<close>

definition S6_A :: actor_spec where "S6_A = (an_actor ''A'' ''refund'' 600 ''s6-a'')\<lparr>as_scopes := Some [''refund:create'']\<rparr>"
definition S6_B :: actor_spec where "S6_B = (an_actor ''B'' ''credit'' 600 ''s6-b'')\<lparr>as_scopes := Some [''credit:create'']\<rparr>"

definition S6 :: schedule_spec where
  "S6 = a_schedule ''S6'' [S6_A, S6_B]
    [(''A'', ''agent.before_reads''), (''A'', ''agent.after_reads_before_act''),
     (''B'', ''agent.before_reads''), (''B'', ''agent.after_reads_before_act'')]"

lemma S6_simps [simp]:
  "ss_id S6 = ''S6''" "ss_actors S6 = [S6_A, S6_B]" "ss_authorized S6 = 1000" "ss_faults S6 = []" "length (ss_steps S6) = 4"
  "has_crm (clients_of st S6) = False" "has_reserve (clients_of st S6) = False"
  "has_commit (clients_of st S6) = False" "has_release (clients_of st S6) = False"
  "as_id S6_A = ''A''" "as_action S6_A = ''refund''" "as_amount S6_A = 600" "as_key S6_A = ''s6-a''"
  "as_retry_on_failure S6_A = False" "as_abandon_after_reserve S6_A = False" "as_scopes S6_A = Some [''refund:create'']" "as_projection_order S6_A = None"
  "as_id S6_B = ''B''" "as_action S6_B = ''credit''" "as_amount S6_B = 600" "as_key S6_B = ''s6-b''"
  "as_retry_on_failure S6_B = False" "as_abandon_after_reserve S6_B = False" "as_scopes S6_B = Some [''credit:create'']" "as_projection_order S6_B = None"
  by (simp_all add: S6_def clients_of_def full_stack_def S6_A_def S6_B_def)

lemma S6_steps:
  "ss_steps S6 = [(''A'', cp_before_reads), (''A'', cp_after_reads), (''B'', cp_before_reads), (''B'', cp_after_reads)]"
  by (simp add: S6_def cp_defs)

lemma S6_foreseen:
  assumes "plays e1 c1 S6 S6_A" "plays e2 c2 S6 S6_B"
  shows "foreseen S6 [Actor_Error, Actor_Error] (empty_billing) (empty_effect_db) 12
    [(''A'', thread_of e1 (run_case cid c1 (clients_of st S6))),
     (''B'', thread_of e2 (run_case cid c2 (clients_of st S6)))]"
  by (simp add: foreseen_def assms [unfolded plays_def] S6_steps follow may_def granted_scopes_def evaluate_ALLOW REQUIRED_SCOPE_def APPROVED_SCOPE_def APPROVAL_THRESHOLD_def final_def eval_nat_numeral)

text \<open>
  C7. S6 withholds the approval scope. Whatever the state of the services and whatever their
  checkpoints would do, Billing answers the first agent's refund of 600 and the Ledger the second
  agent's credit of 600 with 403, because the amount needs an approval, and leave their tables as
  they were. In every run both agents raise, the four declared steps are released, nothing is
  committed and the verdict is CLEAN.
\<close>

theorem S6_commits_nothing:
  assumes "library_ok tk S6"
  shows "always_reports S6 cid 38 CLEAN 0 False (hub_start tk st cid S6)
   \<and> (\<forall>xs. hub_quiet (hub_run (ss_id S6) xs (hub_start tk st cid S6)) \<longrightarrow>
      (\<exists>r. hub_outcome S6 cid (hub_run (ss_id S6) xs (hub_start tk st cid S6)) = Inr r \<and>
        ro_actor_outcomes r = [(Actor_Error, ''A''), (Actor_Error, ''B'')]))
   \<and> (\<forall>p cp b. job_payload tk ''A'' (as_scopes S6_A) = Inr p \<longrightarrow>
      create_refund (job_env tk ''A'' p) cp (request cid 600 (as_key S6_A)) b =
        (Inl (HTTPException 403 (Auth_Failed (Approval_Required (Exceeds_Threshold 600)))), b))
   \<and> (\<forall>p cp l. job_payload tk ''B'' (as_scopes S6_B) = Inr p \<longrightarrow>
      create_credit (job_env tk ''B'' p) cp (request cid 600 (as_key S6_B)) l =
        (Inl (HTTPException 403 (Auth_Failed (Approval_Required (Exceeds_Threshold 600)))), l))"
proof (intro conjI allI impI)
  let ?Q = "foreseen S6 [Actor_Error, Actor_Error] (empty_billing) (empty_effect_db) 12"
  have F: "?Q (actor_threads tk st cid S6)"
    by (rule two_actors [OF assms, where Q = "?Q" and x = S6_A and y = S6_B and zs = "[]"])
       (simp_all add: S6_foreseen)
  then show "always_reports S6 cid 38 CLEAN 0 False (hub_start tk st cid S6)"
    by (rule foreseen_reports) (simp_all add: named_def refunded_rows credited_rows)
  show "\<exists>r. hub_outcome S6 cid (hub_run (ss_id S6) xs (hub_start tk st cid S6)) = Inr r \<and>
      ro_actor_outcomes r = [(Actor_Error, ''A''), (Actor_Error, ''B'')]"
    if "hub_quiet (hub_run (ss_id S6) xs (hub_start tk st cid S6))" for xs
    using foreseen_actors [OF F, of xs] that by (simp add: named_def)
  have scopes: "granted_scopes (Some [s]) = [s]" for s by (simp add: granted_scopes_def)
  show "create_refund (job_env tk ''A'' p) cp (request cid 600 (as_key S6_A)) b =
      (Inl (HTTPException 403 (Auth_Failed (Approval_Required (Exceeds_Threshold 600)))), b)"
    if "job_payload tk ''A'' (as_scopes S6_A) = Inr p" for p cp b
    using job_needs_approval [of tk "''A''" "as_scopes S6_A" p "''refund''" "''refund:create''" 600] that assms
    by (simp add: library_ok_def scopes REQUIRED_SCOPE_def APPROVED_SCOPE_def create_refund_def request_def)
  show "create_credit (job_env tk ''B'' p) cp (request cid 600 (as_key S6_B)) l =
      (Inl (HTTPException 403 (Auth_Failed (Approval_Required (Exceeds_Threshold 600)))), l)"
    if "job_payload tk ''B'' (as_scopes S6_B) = Inr p" for p cp l
    using job_needs_approval [of tk "''B''" "as_scopes S6_B" p "''credit''" "''credit:create''" 600] that assms
    by (simp add: library_ok_def scopes REQUIRED_SCOPE_def APPROVED_SCOPE_def create_credit_def request_def)
qed

theorem S6_commits_nothing_witness:
  "always_reports S6 ''c'' 38 CLEAN 0 False (hub_start (file_library S6) full_stack ''c'' S6) \<and>
   (\<exists>p. job_payload (file_library S6) ''A'' (as_scopes S6_A) = Inr p \<and>
     create_refund (job_env (file_library S6) ''A'' p) (\<lambda>_. None) (request ''c'' 600 ''s6-a'') empty_billing =
       (Inl (HTTPException 403 (Auth_Failed (Approval_Required (Exceeds_Threshold 600)))), empty_billing))"
proof -
  have L: "library_ok (file_library S6) S6" by (rule file_library_ok) simp
  then obtain p where p: "job_payload (file_library S6) ''A'' (as_scopes S6_A) = Inr p"
    by (cases "job_payload (file_library S6) ''A'' (as_scopes S6_A)") (simp_all add: library_ok_def)
  show ?thesis
    using S6_commits_nothing [OF L, where st = full_stack and cid = "''c''"] p by simp
qed

section \<open>S1\<close>

definition S1_A :: actor_spec where "S1_A = an_actor ''A'' ''refund'' 600 ''s1-a''"
definition S1_B :: actor_spec where "S1_B = an_actor ''B'' ''credit'' 500 ''s1-b''"
definition S1_P :: actor_spec where "S1_P = an_actor ''P'' ''project'' 0 ''''"

definition S1 :: schedule_spec where
  "S1 = (a_schedule ''S1'' [S1_A, S1_B, S1_P]
    [(''A'', ''agent.before_reads''), (''A'', ''agent.after_reads_before_act''),
     (''A'', ''billing.after_read_before_decide''), (''A'', ''billing.after_commit_before_ack''),
     (''B'', ''agent.before_reads''), (''B'', ''agent.after_reads_before_act''),
     (''B'', ''ledger.after_read_before_decide''), (''B'', ''ledger.after_commit_before_ack''),
     (''P'', ''crm.before_poll''), (''P'', ''crm.before_apply_event''), (''P'', ''crm.before_apply_event'')])\<lparr>ss_use_projection := True\<rparr>"

lemma S1_simps [simp]:
  "ss_id S1 = ''S1''" "ss_actors S1 = [S1_A, S1_B, S1_P]" "ss_authorized S1 = 1000" "ss_faults S1 = []" "length (ss_steps S1) = 11"
  "has_crm (clients_of full_stack S1) = True" "has_reserve (clients_of full_stack S1) = False"
  "has_commit (clients_of full_stack S1) = False" "has_release (clients_of full_stack S1) = False"
  "as_id S1_A = ''A''" "as_action S1_A = ''refund''" "as_amount S1_A = 600" "as_key S1_A = ''s1-a''"
  "as_retry_on_failure S1_A = False" "as_abandon_after_reserve S1_A = False" "as_scopes S1_A = None" "as_projection_order S1_A = None"
  "as_id S1_B = ''B''" "as_action S1_B = ''credit''" "as_amount S1_B = 500" "as_key S1_B = ''s1-b''"
  "as_retry_on_failure S1_B = False" "as_abandon_after_reserve S1_B = False" "as_scopes S1_B = None" "as_projection_order S1_B = None"
  "as_id S1_P = ''P''" "as_action S1_P = ''project''" "as_amount S1_P = 0" "as_key S1_P = ''''"
  "as_retry_on_failure S1_P = False" "as_abandon_after_reserve S1_P = False" "as_scopes S1_P = None" "as_projection_order S1_P = None"
  by (simp_all add: S1_def clients_of_def full_stack_def S1_A_def S1_B_def S1_P_def)

lemma S1_steps:
  "ss_steps S1 = [(''A'', cp_before_reads), (''A'', cp_after_reads), (''A'', cp_refund_read), (''A'', cp_refund_commit),
     (''B'', cp_before_reads), (''B'', cp_after_reads), (''B'', cp_credit_read), (''B'', cp_credit_commit),
     (''P'', cp_poll), (''P'', cp_apply), (''P'', cp_apply)]"
  by (simp add: S1_def cp_defs)

text \<open>How S1 ends, the projection included, and the search for it.\<close>

definition S1_end :: "string \<Rightarrow> gated \<Rightarrow> bool" where
  "S1_end cid g \<longleftrightarrow> final [''A'', ''B'', ''P''] [Actor_Ok, Actor_Ok, Actor_Ok]
      (marked (refunded cid ''A'' ''s1-a'' 600)) (marked (credited cid ''B'' ''s1-b'' 500)) 11 g \<and>
    w_crm (g_world g) = counted_both cid 600 500"

definition S1_search :: "string \<Rightarrow> (string \<times> thread) list \<Rightarrow> bool" where
  "S1_search cid ts \<longleftrightarrow> search (plan_of S1) (S1_end cid) 26 0 (ss_steps S1) ts empty_world"

lemma S1_foreseen:
  assumes "plays e1 c1 S1 S1_A" "plays e2 c2 S1 S1_B" "identified ''P'' ''S1'' cid"
  shows "S1_search cid
    [(''A'', thread_of e1 (run_case cid c1 (clients_of full_stack S1))),
     (''B'', thread_of e2 (run_case cid c2 (clients_of full_stack S1))),
     (''P'', projector_thread ''P'' ''S1'' cid None)]"
  by (simp add: S1_search_def assms [unfolded plays_def] S1_steps follow projector_folded
    poll_billing [where who = "''A''" and key = "''s1-a''" and a = 600 and cid = cid] poll_ledger [where who = "''B''" and key = "''s1-b''" and a = 500 and cid = cid]
    poll_empty [where cid = cid] apply_billing [where who = "''A''" and key = "''s1-a''" and a = 600 and cid = cid]
    apply_ledger [where who = "''B''" and key = "''s1-b''" and a = 500 and cid = cid]
    apply_second [where who = "''B''" and key = "''s1-b''" and a = 600 and b = 500 and cid = cid] S1_end_def final_def eval_nat_numeral)

text \<open>
  C4. S1 needs no race. The second agent starts when the first has finished, but its only view
  is the projection and the projector runs last: in every run the verdict is VIOLATION with
  1100 committed, 100 over, although every actor returned normally. When nothing can go on the
  projection has caught up: it shows the case with 1100 in two events, and neither service has
  an event of the case left that is not marked applied.
\<close>

theorem S1_violates:
  assumes "library_ok tk S1" "cid \<noteq> []"
  shows "always_reports S1 cid 81 VIOLATION 1100 True (hub_start tk full_stack cid S1) \<and>
    (\<forall>xs. hub_quiet (hub_run (ss_id S1) xs (hub_start tk full_stack cid S1)) \<longrightarrow>
      caught_up cid (1100, 2) (hub_world (hub_run (ss_id S1) xs (hub_start tk full_stack cid S1))))"
proof (intro conjI allI impI)
  have "S1_search cid (actor_threads tk full_stack cid S1)"
    by (rule two_actors [OF assms(1), where Q = "S1_search cid" and x = S1_A and y = S1_B and zs = "[S1_P]"])
       (simp_all add: S1_foreseen job_thread_def dispatch_actor_def identified_def assms(2))
  then have E: "ends_in (plan_of S1) 26 (S1_end cid) (gated_start tk full_stack cid S1)"
    unfolding gated_start_def S1_search_def by (intro search_ends_in) simp
  then have "ends_in (plan_of S1) 26 (ended S1 [Actor_Ok, Actor_Ok, Actor_Ok] (marked (refunded cid ''A'' ''s1-a'' 600))
      (marked (credited cid ''B'' ''s1-b'' 500))) (gated_start tk full_stack cid S1)"
    by (rule ends_in_mono) (simp add: S1_end_def ended_def)
  then show "always_reports S1 cid 81 VIOLATION 1100 True (hub_start tk full_stack cid S1)"
    by (rule ends_reports) (simp_all add: named_def refunded_rows credited_rows)
  fix xs
  let ?H = "hub_run (ss_id S1) xs (hub_start tk full_stack cid S1)"
  assume q: "hub_quiet ?H"
  have "named S1" by (simp add: named_def)
  from hub_reaches(4) [OF this E refl q] have "S1_end cid (hub_shadow (plan_of S1) ?H)" .
  then show "caught_up cid (1100, 2) (hub_world ?H)"
    by (simp add: S1_end_def final_def hub_shadow_world caught_up_def counted_both_shown marked_shown)
qed

theorem S1_violates_witness:
  "always_reports S1 ''c'' 81 VIOLATION 1100 True (hub_start (file_library S1) full_stack ''c'' S1)"
  using S1_violates [OF file_library_ok [of S1], of "''c''"] by simp

section \<open>S1H\<close>

definition S1H_A :: actor_spec where "S1H_A = an_actor ''A'' ''refund'' 600 ''s1h-a''"
definition S1H_B :: actor_spec where "S1H_B = an_actor ''B'' ''credit'' 500 ''s1h-b''"
definition S1H_P :: actor_spec where "S1H_P = an_actor ''P'' ''project'' 0 ''''"

definition S1H :: schedule_spec where
  "S1H = (a_schedule ''S1H'' [S1H_A, S1H_B, S1H_P]
    [(''A'', ''agent.before_reads''), (''A'', ''agent.after_reads_before_act''),
     (''A'', ''agent.before_reserve''), (''A'', ''billing.after_read_before_decide''),
     (''A'', ''billing.after_commit_before_ack''), (''B'', ''agent.before_reads''),
     (''B'', ''agent.after_reads_before_act''), (''B'', ''agent.before_reserve''),
     (''P'', ''crm.before_poll''), (''P'', ''crm.before_apply_event'')])\<lparr>ss_use_projection := True, ss_use_reservations := True\<rparr>"

lemma S1H_simps [simp]:
  "ss_id S1H = ''S1H''" "ss_actors S1H = [S1H_A, S1H_B, S1H_P]" "ss_authorized S1H = 1000" "ss_faults S1H = []" "length (ss_steps S1H) = 10"
  "has_crm (clients_of full_stack S1H) = True" "has_reserve (clients_of full_stack S1H) = True"
  "has_commit (clients_of full_stack S1H) = True" "has_release (clients_of full_stack S1H) = True"
  "as_id S1H_A = ''A''" "as_action S1H_A = ''refund''" "as_amount S1H_A = 600" "as_key S1H_A = ''s1h-a''"
  "as_retry_on_failure S1H_A = False" "as_abandon_after_reserve S1H_A = False" "as_scopes S1H_A = None" "as_projection_order S1H_A = None"
  "as_id S1H_B = ''B''" "as_action S1H_B = ''credit''" "as_amount S1H_B = 500" "as_key S1H_B = ''s1h-b''"
  "as_retry_on_failure S1H_B = False" "as_abandon_after_reserve S1H_B = False" "as_scopes S1H_B = None" "as_projection_order S1H_B = None"
  "as_id S1H_P = ''P''" "as_action S1H_P = ''project''" "as_amount S1H_P = 0" "as_key S1H_P = ''''"
  "as_retry_on_failure S1H_P = False" "as_abandon_after_reserve S1H_P = False" "as_scopes S1H_P = None" "as_projection_order S1H_P = None"
  by (simp_all add: S1H_def clients_of_def full_stack_def S1H_A_def S1H_B_def S1H_P_def)

lemma S1H_steps:
  "ss_steps S1H = [(''A'', cp_before_reads), (''A'', cp_after_reads), (''A'', cp_before_reserve), (''A'', cp_refund_read),
     (''A'', cp_refund_commit), (''B'', cp_before_reads), (''B'', cp_after_reads), (''B'', cp_before_reserve),
     (''P'', cp_poll), (''P'', cp_apply)]"
  by (simp add: S1H_def cp_defs)

lemma S1H_foreseen:
  assumes "plays e1 c1 S1H S1H_A" "plays e2 c2 S1H S1H_B" "identified ''P'' ''S1H'' cid"
  shows "foreseen S1H [Actor_Ok, Actor_Ok, Actor_Ok] (marked (refunded cid ''A'' ''s1h-a'' 600)) (empty_effect_db) 26
    [(''A'', thread_of e1 (run_case cid c1 (clients_of full_stack S1H))),
     (''B'', thread_of e2 (run_case cid c2 (clients_of full_stack S1H))),
     (''P'', projector_thread ''P'' ''S1H'' cid None)]"
  by (simp add: foreseen_def assms [unfolded plays_def] S1H_steps follow projector_folded
    poll_billing [where who = "''A''" and key = "''s1h-a''" and a = 600 and cid = cid] poll_ledger [where who = "''B''" and key = "''s1h-b''" and a = 500 and cid = cid]
    poll_empty [where cid = cid] apply_billing [where who = "''A''" and key = "''s1h-a''" and a = 600 and cid = cid]
    apply_ledger [where who = "''B''" and key = "''s1h-b''" and a = 500 and cid = cid]
    apply_second [where who = "''B''" and key = "''s1h-b''" and a = 600 and b = 500 and cid = cid]
    ask_then_fresh ask_then_refused [where cid = cid and actor = "''A''" and key = "''s1h-a''" and a = 600]
    close_then_commit [where cid = cid and actor = "''A''" and key = "''s1h-a''" and a = 600] final_def eval_nat_numeral)

text \<open>
  C5. S1H is S1 with reservations, and every run is CLEAN with 600 committed: the stale view says
  that there is room, the hold of the first agent says that there is not.
\<close>

theorem S1H_is_clean:
  assumes "library_ok tk S1H" "cid \<noteq> []"
  shows "always_reports S1H cid 81 CLEAN 600 True (hub_start tk full_stack cid S1H)"
proof -
  let ?Q = "foreseen S1H [Actor_Ok, Actor_Ok, Actor_Ok] (marked (refunded cid ''A'' ''s1h-a'' 600)) (empty_effect_db) 26"
  have "?Q (actor_threads tk full_stack cid S1H)"
    by (rule two_actors [OF assms(1), where Q = "?Q" and x = S1H_A and y = S1H_B and zs = "[S1H_P]"])
       (simp_all add: S1H_foreseen job_thread_def dispatch_actor_def identified_def assms(2))
  then show ?thesis by (rule foreseen_reports) (simp_all add: named_def refunded_rows credited_rows)
qed

theorem S1H_is_clean_witness:
  "always_reports S1H ''c'' 81 CLEAN 600 True (hub_start (file_library S1H) full_stack ''c'' S1H)"
  by (rule S1H_is_clean) (simp_all add: file_library_ok)

section \<open>The gates and the coordinator\<close>

text \<open>
  C2. The coordinator implements the scheduler. Take any schedule of which it is known what
  it promises under the gates: in every order of steps no actor waits in vain at a checkpoint,
  at most \<open>n\<close> steps are taken, and \<open>P\<close> holds when nothing can go on. Then in front of the
  coordinator, with its arrivals, occurrence counters, parked waiters, cascades and wake-ups,
  and whatever the order in which requests arrive and waiters wake, if no wait times out and no
  lease lapses: at every moment the run shows a state the scheduler can reach, it is not
  aborted and the released keys are the declared ones up to the pointer; at most three times \<open>n\<close>
  steps, and one per actor, are taken; and when nothing can go on, \<open>P\<close> holds and the runner
  returns what the scheduler's final state says.
\<close>

theorem coordinator_implements_the_gates:
  assumes "named spec" and "ends_in (plan_of spec) n P (gated_start tk st cid spec)"
    and "H = hub_run (ss_id spec) xs (hub_start tk st cid spec)"
  shows "(\<exists>js. hub_shadow (plan_of spec) H = gated_run (plan_of spec) js (gated_start tk st cid spec))
    \<and> \<not> view_aborted (waiters (hub_coord H))
    \<and> view_release_order (waiters (hub_coord H)) = gated_released (plan_of spec) (hub_shadow (plan_of spec) H)
    \<and> hub_effective (ss_id spec) xs (hub_start tk st cid spec) \<le> 3 * n + length (ss_actors spec)
    \<and> (hub_quiet H \<longrightarrow> P (hub_shadow (plan_of spec) H)
        \<and> hub_outcome spec cid H = gated_outcome spec cid (hub_shadow (plan_of spec) H))"
proof -
  note R = hub_reaches [OF assms]
  from R(2,3,4) hub_ok_view [OF R(1)] hub_outcome_shadow [OF R(1)] show ?thesis by blast
qed

theorem coordinator_implements_the_gates_witness:
  "\<not> view_aborted (waiters (hub_coord (hub_run (ss_id P2) [(0, 0), (0, 0)] (hub_start (file_library P2) full_stack ''c'' P2))))"
proof -
  have "library_ok (file_library P2) P2" by (rule file_library_ok) simp
  from foreseen_ends_in [OF P2_seated [OF this, where st = full_stack and cid = "''c''"]]
  have E: "ends_in (plan_of P2) 16 (ended P2 [Actor_Ok, Actor_Ok] (refunded ''c'' ''A'' ''p2-a'' 600) (credited ''c'' ''B'' ''p2-b'' 500))
      (gated_start (file_library P2) full_stack ''c'' P2)" by simp
  show ?thesis
    using coordinator_implements_the_gates [OF _ E refl, where xs = "[(0, 0), (0, 0)]"] by (simp add: named_def)
qed

end
