(* ===== verification/Derailed.thy ===== *)
theory Derailed
  imports Seats
begin

text \<open>
  The schedules that leave something to chance: files \<^verbatim>\<open>s1c.yaml\<close>, \<open>s3\<close>, \<open>s4\<close>, \<open>s5\<close> and \<open>s8\<close> of
  \<^verbatim>\<open>schedules/\<close>. What an actor does after the last gate it passes is not ordered against the
  other actors, and the redelivery passes no gate at all; each lemma follows one run in which
  that makes a difference.
\<close>

section \<open>S1C\<close>

definition S1C_A :: actor_spec where "S1C_A = an_actor ''A'' ''refund'' 600 ''s1c-a''"
definition S1C_B :: actor_spec where "S1C_B = an_actor ''B'' ''credit'' 500 ''s1c-b''"
definition S1C_P :: actor_spec where "S1C_P = an_actor ''P'' ''project'' 0 ''''"

definition S1C :: schedule_spec where
  "S1C = (a_schedule ''S1C'' [S1C_A, S1C_B, S1C_P]
    [(''A'', ''agent.before_reads''), (''A'', ''agent.after_reads_before_act''),
     (''A'', ''billing.after_read_before_decide''), (''A'', ''billing.after_commit_before_ack''),
     (''P'', ''crm.before_poll''), (''P'', ''crm.before_apply_event''), (''B'', ''agent.before_reads''),
     (''B'', ''agent.after_reads_before_act'')])\<lparr>ss_use_projection := True\<rparr>"

lemma S1C_simps [simp]:
  "ss_id S1C = ''S1C''" "ss_actors S1C = [S1C_A, S1C_B, S1C_P]" "ss_authorized S1C = 1000" "ss_faults S1C = []" "length (ss_steps S1C) = 8"
  "has_crm (clients_of full_stack S1C) = True" "has_reserve (clients_of full_stack S1C) = False"
  "has_commit (clients_of full_stack S1C) = False" "has_release (clients_of full_stack S1C) = False"
  "as_id S1C_A = ''A''" "as_action S1C_A = ''refund''" "as_amount S1C_A = 600" "as_key S1C_A = ''s1c-a''"
  "as_retry_on_failure S1C_A = False" "as_abandon_after_reserve S1C_A = False" "as_scopes S1C_A = None" "as_projection_order S1C_A = None"
  "as_id S1C_B = ''B''" "as_action S1C_B = ''credit''" "as_amount S1C_B = 500" "as_key S1C_B = ''s1c-b''"
  "as_retry_on_failure S1C_B = False" "as_abandon_after_reserve S1C_B = False" "as_scopes S1C_B = None" "as_projection_order S1C_B = None"
  "as_id S1C_P = ''P''" "as_action S1C_P = ''project''" "as_amount S1C_P = 0" "as_key S1C_P = ''''"
  "as_retry_on_failure S1C_P = False" "as_abandon_after_reserve S1C_P = False" "as_scopes S1C_P = None" "as_projection_order S1C_P = None"
  by (simp_all add: S1C_def clients_of_def full_stack_def S1C_A_def S1C_B_def S1C_P_def)

lemma S1C_steps:
  "ss_steps S1C = [(''A'', cp_before_reads), (''A'', cp_after_reads), (''A'', cp_refund_read), (''A'', cp_refund_commit),
     (''P'', cp_poll), (''P'', cp_apply), (''B'', cp_before_reads), (''B'', cp_after_reads)]"
  by (simp add: S1C_def cp_defs)

definition S1C_late :: "nat list" where "S1C_late = [0, 0, 0, 0, 0, 0, 0, 2, 2, 2, 1, 1, 1, 1]"
definition S1C_prompt :: "nat list" where "S1C_prompt = [0, 0, 0, 0, 0, 0, 0, 2, 2, 2, 2, 2, 1, 1, 1]"

lemma S1C_derails_path:
  assumes "plays e1 c1 S1C S1C_A" "plays e2 c2 S1C S1C_B" "identified ''P'' ''S1C'' cid"
  shows "leads_to (plan_of S1C) (\<lambda>g. \<not> no_stray (plan_of S1C) g) S1C_late 0 (ss_steps S1C)
    [(''A'', thread_of e1 (run_case cid c1 (clients_of full_stack S1C))),
     (''B'', thread_of e2 (run_case cid c2 (clients_of full_stack S1C))),
     (''P'', projector_thread ''P'' ''S1C'' cid None)] empty_world"
  by (simp add: assms [unfolded plays_def] S1C_steps follow projector_folded
    poll_billing [where who = "''A''" and key = "''s1c-a''" and a = 600 and cid = cid] no_stray_def S1C_late_def)

lemma S1C_executes_path:
  assumes "plays e1 c1 S1C S1C_A" "plays e2 c2 S1C S1C_B" "identified ''P'' ''S1C'' cid"
  shows "leads_to (plan_of S1C) (final [''A'', ''B'', ''P''] [Actor_Ok, Actor_Ok, Actor_Ok]
      (marked (refunded cid ''A'' ''s1c-a'' 600)) empty_effect_db 8)
    S1C_prompt 0 (ss_steps S1C)
    [(''A'', thread_of e1 (run_case cid c1 (clients_of full_stack S1C))),
     (''B'', thread_of e2 (run_case cid c2 (clients_of full_stack S1C))),
     (''P'', projector_thread ''P'' ''S1C'' cid None)] empty_world"
  by (simp add: assms [unfolded plays_def] S1C_steps follow projector_folded final_def eval_nat_numeral
    poll_billing [where who = "''A''" and key = "''s1c-a''" and a = 600 and cid = cid]
    poll_empty [where cid = cid] apply_billing [where who = "''A''" and key = "''s1c-a''" and a = 600 and cid = cid]
    S1C_prompt_def)

text \<open>
  In every order of steps only one thread ever waits in vain: the second agent, at the first
  checkpoint of the Ledger. When nothing can go on it either waits there or everybody returned.
\<close>

definition S1C_on_the_way :: "gated \<Rightarrow> bool" where
  "S1C_on_the_way g \<longleftrightarrow> list_all (\<lambda>(a, t). case t of Gate name k \<Rightarrow>
       (a, name) \<in> set (drop (g_pointer g) (ss_steps S1C)) \<or> a = ''B'' \<and> name = cp_credit_read | _ \<Rightarrow> True) (g_threads g)"

definition S1C_end :: "string \<Rightarrow> gated \<Rightarrow> bool" where
  "S1C_end cid g \<longleftrightarrow> \<not> no_stray (plan_of S1C) g \<or>
     final [''A'', ''B'', ''P''] [Actor_Ok, Actor_Ok, Actor_Ok] (marked (refunded cid ''A'' ''s1c-a'' 600)) empty_effect_db 8 g \<and>
     w_crm (g_world g) = counted cid ''billing'' 600"

definition S1C_survey :: "string \<Rightarrow> (string \<times> thread) list \<Rightarrow> bool" where
  "S1C_survey cid ts \<longleftrightarrow> survey (plan_of S1C) S1C_on_the_way (S1C_end cid) 26 0 (ss_steps S1C) ts empty_world"

lemma S1C_surveyed:
  assumes "plays e1 c1 S1C S1C_A" "plays e2 c2 S1C S1C_B" "identified ''P'' ''S1C'' cid"
  shows "S1C_survey cid
    [(''A'', thread_of e1 (run_case cid c1 (clients_of full_stack S1C))),
     (''B'', thread_of e2 (run_case cid c2 (clients_of full_stack S1C))),
     (''P'', projector_thread ''P'' ''S1C'' cid None)]"
  by (simp add: S1C_survey_def assms [unfolded plays_def] S1C_steps follow projector_folded S1C_on_the_way_def
    S1C_end_def no_stray_def final_def eval_nat_numeral
    poll_billing [where who = "''A''" and key = "''s1c-a''" and a = 600 and cid = cid]
    poll_empty [where cid = cid] apply_billing [where who = "''A''" and key = "''s1c-a''" and a = 600 and cid = cid])

definition S1C_after :: "token_library \<Rightarrow> string \<Rightarrow> (time \<times> nat) list \<Rightarrow> hub" where
  "S1C_after tk cid xs = hub_run (ss_id S1C) xs (hub_start tk full_stack cid S1C)"

lemma S1C_no_refund_seen: "stray_reason (plan_of S1C) ''S1C'' p ''B'' cp_credit_read =
    Undeclared (UndeclaredOccurrence ''S1C'' ''B'' ''ledger.after_read_before_decide'' 0)"
proof -
  have "(''B'', cp_credit_read) \<notin> set (take p (ss_steps S1C))"
    by (rule notI, drule in_set_takeD) (simp add: S1C_steps cp_defs)
  then have "count_list (take p (ss_steps S1C)) (''B'', cp_credit_read) = 0" by (simp add: count_list_0_iff)
  then show ?thesis by (simp add: stray_reason_def S1C_steps cp_defs)
qed

text \<open>
  C8. S1C leaves its verdict to a race. The projector's last gate opens before it writes
  the event into the projection, and nothing orders that write against the read of the second
  agent, whose first gate opens next. Every run in front of the coordinator, whatever the order
  in which requests arrive and waiters wake, goes one of two ways. If it is not aborted, it ends
  as the file expects: all declared steps released, all actors successful, CLEAN with 600
  committed, and the projection shows that one refund. If it is aborted, the reason is that the
  second agent, on a view that lacks the refund, came to the first checkpoint of the Ledger, which
  the schedule does not declare. Both happen: the first when the projector writes before the
  agent reads (\<open>S1C_prompt\<close>), the second when the agent reads first (\<open>S1C_late\<close>).
\<close>

theorem S1C_is_decided_by_a_race:
  assumes "library_ok tk S1C" "cid \<noteq> []"
  shows "(\<forall>xs. case view_abort_reason (waiters (hub_coord (S1C_after tk cid xs))) of
       None \<Rightarrow> hub_quiet (S1C_after tk cid xs) \<longrightarrow>
         executed_with S1C CLEAN 600 True (hub_outcome S1C cid (S1C_after tk cid xs)) \<and>
         caught_up cid (600, 1) (hub_world (S1C_after tk cid xs))
     | Some r \<Rightarrow> r = Undeclared (UndeclaredOccurrence ''S1C'' ''B'' ''ledger.after_read_before_decide'' 0))
   \<and> hub_quiet (S1C_after tk cid (run_of S1C_prompt))
   \<and> view_abort_reason (waiters (hub_coord (S1C_after tk cid (run_of S1C_prompt)))) = None
   \<and> (\<exists>i<3. view_aborted (waiters (hub_coord (S1C_after tk cid (run_of (S1C_late @ [i]))))))"
proof (intro conjI allI)
  let ?S = "gated_start tk full_stack cid S1C" and ?pl = "plan_of S1C"
  have n: "named S1C" by (simp add: named_def)
  have third: "job_thread tk (dispatch_actor full_stack cid S1C S1C_P) = projector_thread ''P'' ''S1C'' cid None"
    by (simp add: job_thread_def dispatch_actor_def)
  have "S1C_survey cid (actor_threads tk full_stack cid S1C)"
    by (rule two_actors [OF assms(1), where Q = "S1C_survey cid" and x = S1C_A and y = S1C_B and zs = "[S1C_P]"])
       (simp_all add: S1C_surveyed third identified_def assms(2))
  then have V: "S1C_on_the_way (gated_run ?pl js ?S)" "quiet_state ?pl (gated_run ?pl js ?S) \<Longrightarrow> S1C_end cid (gated_run ?pl js ?S)" for js
    using survey_run [of "ss_steps S1C" 0 ?pl S1C_on_the_way "S1C_end cid" 26 _ _ js]
    by (simp_all add: S1C_survey_def gated_start_def)
  show "case view_abort_reason (waiters (hub_coord (S1C_after tk cid xs))) of
       None \<Rightarrow> hub_quiet (S1C_after tk cid xs) \<longrightarrow>
         executed_with S1C CLEAN 600 True (hub_outcome S1C cid (S1C_after tk cid xs)) \<and>
         caught_up cid (600, 1) (hub_world (S1C_after tk cid xs))
     | Some r \<Rightarrow> r = Undeclared (UndeclaredOccurrence ''S1C'' ''B'' ''ledger.after_read_before_decide'' 0)" for xs
    using hub_run_or_abort [OF hub_start_ok(1) [OF n, of tk full_stack cid], where xs = xs,
      unfolded hub_start_ok(2) [OF n], folded S1C_after_def]
  proof (elim disjE conjE exE)
    fix js
    let ?H = "S1C_after tk cid xs"
    assume ok: "hub_ok ?pl (ss_id S1C) ?H" and js: "hub_shadow ?pl ?H = gated_run ?pl js ?S"
    have none: "view_abort_reason (waiters (hub_coord ?H)) = None"
      using ok by (auto simp: hub_ok_def tended_def waiters_def Let_def)
    have "executed_with S1C CLEAN 600 True (hub_outcome S1C cid ?H) \<and> caught_up cid (600, 1) (hub_world ?H)"
      if q: "hub_quiet ?H"
    proof -
      have F: "final [''A'', ''B'', ''P''] [Actor_Ok, Actor_Ok, Actor_Ok] (marked (refunded cid ''A'' ''s1c-a'' 600))
          empty_effect_db 8 (hub_shadow ?pl ?H)" and c: "w_crm (hub_world ?H) = counted cid ''billing'' 600"
        using V(2) [of js] quiet_no_stray [OF ok q] hub_quiet_shadow(1) [OF ok q] hub_shadow_world [of ?pl ?H]
        by (simp_all add: js S1C_end_def)
      have "ended S1C [Actor_Ok, Actor_Ok, Actor_Ok] (marked (refunded cid ''A'' ''s1c-a'' 600)) empty_effect_db
          (hub_shadow ?pl ?H)" using F by (simp add: ended_def)
      from ended_executed [OF this, where cid = cid and paid = 600 and v = CLEAN and ok = True]
      have "executed_with S1C CLEAN 600 True (hub_outcome S1C cid ?H)"
        unfolding hub_outcome_shadow [OF ok q] by (simp add: refunded_rows)
      moreover have "caught_up cid (600, 1) (hub_world ?H)"
        using F c by (simp add: final_def hub_shadow_world caught_up_def counted_shown marked_shown no_credits)
      ultimately show ?thesis by blast
    qed
    with none show ?thesis by simp
  next
    fix js a name k
    let ?g = "gated_run ?pl js ?S"
    assume "(a, Gate name k) \<in> set (g_threads ?g)" "(a, name) \<notin> set (drop (g_pointer ?g) (pl_steps ?pl))"
      and ab: "hub_aborted (stray_reason ?pl (ss_id S1C) (g_pointer ?g) a name) (S1C_after tk cid xs)"
    with V(1) [of js] have "a = ''B''" "name = cp_credit_read"
      by (auto simp: S1C_on_the_way_def list_all_iff)
    with hub_aborted_view [OF ab] show ?thesis by (simp add: S1C_no_refund_seen)
  qed
  let ?P = "final (map as_id (ss_actors S1C)) [Actor_Ok, Actor_Ok, Actor_Ok] (marked (refunded cid ''A'' ''s1c-a'' 600))
    empty_effect_db (length (ss_steps S1C))"
  let ?Q = "\<lambda>js P ts. leads_to ?pl P js 0 (ss_steps S1C) ts empty_world"
  let ?N = "\<lambda>g. \<not> no_stray ?pl g"
  have P: "?Q S1C_prompt ?P (actor_threads tk full_stack cid S1C)"
    by (rule two_actors [OF assms(1), where Q = "?Q S1C_prompt ?P" and x = S1C_A and y = S1C_B and zs = "[S1C_P]"])
       (simp_all add: S1C_executes_path third identified_def assms(2))
  show "hub_quiet (S1C_after tk cid (run_of S1C_prompt))"
    using chosen_run_final(1) [OF n P] by (simp add: S1C_after_def)
  show "view_abort_reason (waiters (hub_coord (S1C_after tk cid (run_of S1C_prompt)))) = None"
    using chosen_run(1) [OF n P] by (auto simp: S1C_after_def hub_ok_def tended_def waiters_def Let_def)
  have "?Q S1C_late ?N (actor_threads tk full_stack cid S1C)"
    by (rule two_actors [OF assms(1), where Q = "?Q S1C_late ?N" and x = S1C_A and y = S1C_B and zs = "[S1C_P]"])
       (simp_all add: S1C_derails_path third identified_def assms(2))
  from chosen_run_aborts [OF n this]
  show "\<exists>i<3. view_aborted (waiters (hub_coord (S1C_after tk cid (run_of (S1C_late @ [i])))))"
    by (simp add: S1C_after_def eval_nat_numeral)
qed

theorem S1C_is_decided_by_a_race_witness:
  "executed_with S1C CLEAN 600 True (hub_outcome S1C ''c'' (S1C_after (file_library S1C) ''c'' (run_of S1C_prompt)))
   \<and> (\<exists>i<3. view_abort_reason (waiters (hub_coord (S1C_after (file_library S1C) ''c'' (run_of (S1C_late @ [i]))))) =
       Some (Undeclared (UndeclaredOccurrence ''S1C'' ''B'' ''ledger.after_read_before_decide'' 0)))"
proof -
  have L: "library_ok (file_library S1C) S1C" by (rule file_library_ok) simp
  note T = S1C_is_decided_by_a_race [OF L, of "''c''"]
  have view: "view_aborted (waiters c) \<Longrightarrow> \<exists>r. view_abort_reason (waiters c) = Some r" for c
    by (auto simp: waiters_def Let_def split: option.splits)
  obtain i where i: "i < 3" "view_aborted (waiters (hub_coord (S1C_after (file_library S1C) ''c'' (run_of (S1C_late @ [i])))))"
    using T by auto
  then obtain r where r: "view_abort_reason (waiters (hub_coord (S1C_after (file_library S1C) ''c'' (run_of (S1C_late @ [i]))))) = Some r"
    using view by blast
  have two: "case view_abort_reason (waiters (hub_coord (S1C_after (file_library S1C) ''c'' xs))) of
       None \<Rightarrow> hub_quiet (S1C_after (file_library S1C) ''c'' xs) \<longrightarrow>
         executed_with S1C CLEAN 600 True (hub_outcome S1C ''c'' (S1C_after (file_library S1C) ''c'' xs)) \<and>
         caught_up ''c'' (600, 1) (hub_world (S1C_after (file_library S1C) ''c'' xs))
     | Some r \<Rightarrow> r = Undeclared (UndeclaredOccurrence ''S1C'' ''B'' ''ledger.after_read_before_decide'' 0)" for xs
    using T by blast
  show ?thesis using two [of "run_of S1C_prompt"] two [of "run_of (S1C_late @ [i])"] T i(1) r by auto
qed

section \<open>S8\<close>

definition S8_A :: actor_spec where "S8_A = (an_actor ''A'' ''refund'' 600 ''s8-a'')\<lparr>as_abandon_after_reserve := True\<rparr>"
definition S8_B :: actor_spec where "S8_B = an_actor ''B'' ''credit'' 500 ''s8-b''"

definition S8 :: schedule_spec where
  "S8 = (a_schedule ''S8'' [S8_A, S8_B]
    [(''A'', ''agent.before_reads''), (''A'', ''agent.after_reads_before_act''),
     (''A'', ''agent.before_reserve''), (''B'', ''agent.before_reads''),
     (''B'', ''agent.after_reads_before_act''), (''B'', ''agent.before_reserve'')])\<lparr>ss_use_reservations := True\<rparr>"

lemma S8_simps [simp]:
  "ss_id S8 = ''S8''" "ss_actors S8 = [S8_A, S8_B]" "ss_authorized S8 = 1000" "ss_faults S8 = []" "length (ss_steps S8) = 6"
  "has_crm (clients_of full_stack S8) = False" "has_reserve (clients_of full_stack S8) = True"
  "has_commit (clients_of full_stack S8) = True" "has_release (clients_of full_stack S8) = True"
  "as_id S8_A = ''A''" "as_action S8_A = ''refund''" "as_amount S8_A = 600" "as_key S8_A = ''s8-a''"
  "as_retry_on_failure S8_A = False" "as_abandon_after_reserve S8_A = True" "as_scopes S8_A = None" "as_projection_order S8_A = None"
  "as_id S8_B = ''B''" "as_action S8_B = ''credit''" "as_amount S8_B = 500" "as_key S8_B = ''s8-b''"
  "as_retry_on_failure S8_B = False" "as_abandon_after_reserve S8_B = False" "as_scopes S8_B = None" "as_projection_order S8_B = None"
  by (simp_all add: S8_def clients_of_def full_stack_def S8_A_def S8_B_def)

lemma S8_steps:
  "ss_steps S8 = [(''A'', cp_before_reads), (''A'', cp_after_reads), (''A'', cp_before_reserve), (''B'', cp_before_reads),
     (''B'', cp_after_reads), (''B'', cp_before_reserve)]"
  by (simp add: S8_def cp_defs)

definition S8_late :: "nat list" where "S8_late = [0, 0, 0, 0, 0, 1, 1, 1, 1, 1, 1, 1]"

lemma S8_derails_path:
  assumes "plays e1 c1 S8 S8_A" "plays e2 c2 S8 S8_B"
  shows "leads_to (plan_of S8) (\<lambda>g. \<not> no_stray (plan_of S8) g) S8_late 0 (ss_steps S8)
    [(''A'', thread_of e1 (run_case cid c1 (clients_of full_stack S8))),
     (''B'', thread_of e2 (run_case cid c2 (clients_of full_stack S8)))] empty_world"
  by (simp add: assms [unfolded plays_def] S8_steps follow S8_late_def final_def eval_nat_numeral no_stray_def
    ask_then_fresh)

text \<open>
  S8 has the same race: the first agent's reservation is sent after its last gate, the second
  agent's may be granted first, and then it arrives at a checkpoint the schedule does not
  declare.
\<close>

lemma S8_may_derail:
  assumes "library_ok tk S8"
  shows "\<exists>i<2. view_aborted (waiters (hub_coord
    (hub_run (ss_id S8) (run_of (S8_late @ [i])) (hub_start tk full_stack cid S8))))"
proof -
  let ?Q = "\<lambda>ts. leads_to (plan_of S8) (\<lambda>g. \<not> no_stray (plan_of S8) g) S8_late 0 (ss_steps S8) ts empty_world"
  have "?Q (actor_threads tk full_stack cid S8)"
    by (rule two_actors [OF assms, where Q = "?Q" and x = S8_A and y = S8_B and zs = "[]"])
       (simp_all add: S8_derails_path)
  from chosen_run_aborts [OF _ this] show ?thesis by (simp add: named_def eval_nat_numeral)
qed

section \<open>S4\<close>

definition S4_A :: actor_spec where "S4_A = an_actor ''A'' ''refund'' 600 ''s4-a''"
definition S4_B :: actor_spec where "S4_B = an_actor ''B'' ''credit'' 500 ''s4-b''"
definition S4_P :: actor_spec where "S4_P = (an_actor ''P'' ''project'' 0 '''')\<lparr>as_projection_order := Some [''ledger'', ''billing'']\<rparr>"

definition S4 :: schedule_spec where
  "S4 = (a_schedule ''S4'' [S4_A, S4_B, S4_P]
    [(''A'', ''agent.before_reads''), (''A'', ''agent.after_reads_before_act''),
     (''A'', ''billing.after_read_before_decide''), (''A'', ''billing.after_commit_before_ack''),
     (''P'', ''crm.before_poll''), (''P'', ''crm.before_apply_event''), (''B'', ''agent.before_reads''),
     (''B'', ''agent.after_reads_before_act'')])\<lparr>ss_use_projection := True\<rparr>"

lemma S4_simps [simp]:
  "ss_id S4 = ''S4''" "ss_actors S4 = [S4_A, S4_B, S4_P]" "ss_authorized S4 = 1000" "ss_faults S4 = []" "length (ss_steps S4) = 8"
  "has_crm (clients_of full_stack S4) = True" "has_reserve (clients_of full_stack S4) = False"
  "has_commit (clients_of full_stack S4) = False" "has_release (clients_of full_stack S4) = False"
  "as_id S4_A = ''A''" "as_action S4_A = ''refund''" "as_amount S4_A = 600" "as_key S4_A = ''s4-a''"
  "as_retry_on_failure S4_A = False" "as_abandon_after_reserve S4_A = False" "as_scopes S4_A = None" "as_projection_order S4_A = None"
  "as_id S4_B = ''B''" "as_action S4_B = ''credit''" "as_amount S4_B = 500" "as_key S4_B = ''s4-b''"
  "as_retry_on_failure S4_B = False" "as_abandon_after_reserve S4_B = False" "as_scopes S4_B = None" "as_projection_order S4_B = None"
  "as_id S4_P = ''P''" "as_action S4_P = ''project''" "as_amount S4_P = 0" "as_key S4_P = ''''"
  "as_retry_on_failure S4_P = False" "as_abandon_after_reserve S4_P = False" "as_scopes S4_P = None" "as_projection_order S4_P = Some [''ledger'', ''billing'']"
  by (simp_all add: S4_def clients_of_def full_stack_def S4_A_def S4_B_def S4_P_def)

lemma S4_steps:
  "ss_steps S4 = [(''A'', cp_before_reads), (''A'', cp_after_reads), (''A'', cp_refund_read), (''A'', cp_refund_commit),
     (''P'', cp_poll), (''P'', cp_apply), (''B'', cp_before_reads), (''B'', cp_after_reads)]"
  by (simp add: S4_def cp_defs)

definition S4_late :: "nat list" where "S4_late = [0, 0, 0, 0, 0, 0, 0, 2, 2, 2, 2, 1, 1, 1, 1]"

lemma S4_derails_path:
  assumes "plays e1 c1 S4 S4_A" "plays e2 c2 S4 S4_B" "identified ''P'' ''S4'' cid"
  shows "leads_to (plan_of S4) (\<lambda>g. \<not> no_stray (plan_of S4) g) S4_late 0 (ss_steps S4)
    [(''A'', thread_of e1 (run_case cid c1 (clients_of full_stack S4))),
     (''B'', thread_of e2 (run_case cid c2 (clients_of full_stack S4))),
     (''P'', projector_thread ''P'' ''S4'' cid (Some [''ledger'', ''billing'']))] empty_world"
  by (simp add: assms [unfolded plays_def] S4_steps follow S4_late_def final_def eval_nat_numeral no_stray_def
    projector_folded poll_billing [where who = "''A''" and key = "''s4-a''" and a = 600 and cid = cid]
    poll_empty [where cid = cid])

lemma S4_may_derail:
  assumes "library_ok tk S4" "cid \<noteq> []"
  shows "\<exists>i<3. view_aborted (waiters (hub_coord
    (hub_run (ss_id S4) (run_of (S4_late @ [i])) (hub_start tk full_stack cid S4))))"
proof -
  let ?Q = "\<lambda>ts. leads_to (plan_of S4) (\<lambda>g. \<not> no_stray (plan_of S4) g) S4_late 0 (ss_steps S4) ts empty_world"
  have "?Q (actor_threads tk full_stack cid S4)"
    by (rule two_actors [OF assms(1), where Q = "?Q" and x = S4_A and y = S4_B and zs = "[S4_P]"])
       (simp_all add: S4_derails_path job_thread_def dispatch_actor_def identified_def assms(2))
  from chosen_run_aborts [OF _ this] show ?thesis by (simp add: named_def eval_nat_numeral)
qed

section \<open>S5\<close>

definition S5_A :: actor_spec where "S5_A = an_actor ''A'' ''refund'' 600 ''s5-a''"
definition S5_P :: actor_spec where "S5_P = an_actor ''P'' ''project'' 0 ''''"
definition S5_R :: actor_spec where "S5_R = an_actor ''R'' ''redeliver'' 0 ''''"
definition S5_Q :: actor_spec where "S5_Q = an_actor ''Q'' ''project'' 0 ''''"

definition S5 :: schedule_spec where
  "S5 = (a_schedule ''S5'' [S5_A, S5_P, S5_R, S5_Q]
    [(''A'', ''agent.before_reads''), (''A'', ''agent.after_reads_before_act''),
     (''A'', ''billing.after_read_before_decide''), (''A'', ''billing.after_commit_before_ack''),
     (''P'', ''crm.before_poll''), (''P'', ''crm.before_apply_event''), (''Q'', ''crm.before_poll''),
     (''Q'', ''crm.before_apply_event'')])\<lparr>ss_use_projection := True\<rparr>"

lemma S5_simps [simp]:
  "ss_id S5 = ''S5''" "ss_actors S5 = [S5_A, S5_P, S5_R, S5_Q]" "ss_authorized S5 = 1000" "ss_faults S5 = []" "length (ss_steps S5) = 8"
  "has_crm (clients_of full_stack S5) = True" "has_reserve (clients_of full_stack S5) = False"
  "has_commit (clients_of full_stack S5) = False" "has_release (clients_of full_stack S5) = False"
  "as_id S5_A = ''A''" "as_action S5_A = ''refund''" "as_amount S5_A = 600" "as_key S5_A = ''s5-a''"
  "as_retry_on_failure S5_A = False" "as_abandon_after_reserve S5_A = False" "as_scopes S5_A = None" "as_projection_order S5_A = None"
  "as_id S5_P = ''P''" "as_action S5_P = ''project''" "as_amount S5_P = 0" "as_key S5_P = ''''"
  "as_retry_on_failure S5_P = False" "as_abandon_after_reserve S5_P = False" "as_scopes S5_P = None" "as_projection_order S5_P = None"
  "as_id S5_R = ''R''" "as_action S5_R = ''redeliver''" "as_amount S5_R = 0" "as_key S5_R = ''''"
  "as_retry_on_failure S5_R = False" "as_abandon_after_reserve S5_R = False" "as_scopes S5_R = None" "as_projection_order S5_R = None"
  "as_id S5_Q = ''Q''" "as_action S5_Q = ''project''" "as_amount S5_Q = 0" "as_key S5_Q = ''''"
  "as_retry_on_failure S5_Q = False" "as_abandon_after_reserve S5_Q = False" "as_scopes S5_Q = None" "as_projection_order S5_Q = None"
  by (simp_all add: S5_def clients_of_def full_stack_def S5_A_def S5_P_def S5_R_def S5_Q_def)

lemma S5_steps:
  "ss_steps S5 = [(''A'', cp_before_reads), (''A'', cp_after_reads), (''A'', cp_refund_read), (''A'', cp_refund_commit),
     (''P'', cp_poll), (''P'', cp_apply), (''Q'', cp_poll), (''Q'', cp_apply)]"
  by (simp add: S5_def cp_defs)

text \<open>The redelivery's two requests, and the poll of a service whose event is applied.\<close>

definition redeliver_second :: "string \<Rightarrow> world \<Rightarrow> thread \<times> world" where
  "redeliver_second cid w = (Halt Actor_Ok, w\<lparr>w_ledger := snd (redeliver_credit_events cid (w_ledger w))\<rparr>)"

definition redeliver_first :: "string \<Rightarrow> world \<Rightarrow> thread \<times> world" where
  "redeliver_first cid w = (Act (redeliver_second cid), w\<lparr>w_billing := snd (redeliver_events cid (w_billing w))\<rparr>)"

lemma redeliver_stage: "redeliver_thread ''R'' ''S5'' cid = Act (redeliver_first cid)"
  by (simp add: redeliver_thread_def redeliver_first_def [abs_def] redeliver_second_def [abs_def])

lemma redeliver_empty:
  "w_billing w = empty_billing \<Longrightarrow> redeliver_first cid w = (Act (redeliver_second cid), w)"
  "w_ledger w = empty_effect_db \<Longrightarrow> redeliver_second cid w = (Halt Actor_Ok, w)"
proof -
  have "redeliver cid empty_billing = ([], empty_billing)" "redeliver cid empty_effect_db = ([], empty_effect_db)"
    by (simp_all add: redeliver_def empty_billing_def empty_effect_db_def)
  then show "w_billing w = empty_billing \<Longrightarrow> redeliver_first cid w = (Act (redeliver_second cid), w)"
    and "w_ledger w = empty_effect_db \<Longrightarrow> redeliver_second cid w = (Halt Actor_Ok, w)"
    by (metis redeliver_first_def redeliver_events_def snd_conv world.surjective world.update_convs(1))
       (metis \<open>redeliver cid empty_effect_db = ([], empty_effect_db)\<close> redeliver_second_def redeliver_credit_events_def
        snd_conv world.surjective world.update_convs(2))
qed

lemma poll_marked:
  assumes "identified actor schedule cid" "amount_ok a" "w_billing w = marked (refunded cid who key a)"
  shows "poll_step actor schedule cid ''billing'' services w = (sources_thread actor schedule cid services, w)"
proof -
  have "outbox (refunded cid who key a) = [\<lparr>ob_id = 1, ob_case = cid, ob_actor = who, ob_service = ''billing'',
      ob_type = ''RefundCommitted'', ob_entity = 1, ob_amount = a, ob_applied_at = None\<rparr>]"
    using assms(2) by (simp add: refunded_def amount_ok_def services_eval)
  then show ?thesis
    using assms by (simp add: poll_step_def http_unapplied_def identified_def list_events_def events_where_def marked_def
        events_stage)
qed

definition S5_early :: "nat list" where
  "S5_early = [2, 2, 0, 0, 0, 0, 0, 0, 0, 1, 1, 1, 1, 1, 3, 3, 3]"

lemma S5_path:
  assumes "plays e1 c1 S5 S5_A" "identified ''P'' ''S5'' cid" "identified ''Q'' ''S5'' cid"
  shows "leads_to (plan_of S5) (final [''A'', ''P'', ''R'', ''Q'']
      [Actor_Ok, Actor_Ok, Actor_Ok, Actor_Ok] (marked (refunded cid ''A'' ''s5-a'' 600)) empty_effect_db 7)
    S5_early 0 (ss_steps S5)
    [(''A'', thread_of e1 (run_case cid c1 (clients_of full_stack S5))), (''P'', projector_thread ''P'' ''S5'' cid None),
     (''R'', redeliver_thread ''R'' ''S5'' cid), (''Q'', projector_thread ''Q'' ''S5'' cid None)] empty_world"
  by (simp add: assms [unfolded plays_def] S5_steps follow S5_early_def final_def eval_nat_numeral projector_folded
    redeliver_stage redeliver_empty
    poll_billing [where who = "''A''" and key = "''s5-a''" and a = 600 and cid = cid] poll_empty [where cid = cid]
    apply_billing [where who = "''A''" and key = "''s5-a''" and a = 600 and cid = cid]
    poll_marked [where who = "''A''" and key = "''s5-a''" and a = 600 and cid = cid])

text \<open>
  The redelivery of S5 is not scheduled: it passes no gate. If it runs first it re-offers
  nothing, every actor still returns normally and the verdict is CLEAN, but the second
  projector finds no event and the last declared step never happens.
\<close>

lemma S5_may_redeliver_nothing:
  assumes "library_ok tk S5" "cid \<noteq> []"
  shows "hub_quiet (hub_run (ss_id S5) (run_of S5_early) (hub_start tk full_stack cid S5)) \<and>
    cut_short S5 7 CLEAN 600 (hub_outcome S5 cid (hub_run (ss_id S5) (run_of S5_early) (hub_start tk full_stack cid S5)))"
proof -
  let ?P = "final (map as_id (ss_actors S5))
      [Actor_Ok, Actor_Ok, Actor_Ok, Actor_Ok] (marked (refunded cid ''A'' ''s5-a'' 600)) empty_effect_db 7"
  let ?Q = "\<lambda>ts. leads_to (plan_of S5) ?P S5_early 0 (ss_steps S5) ts empty_world"
  have "?Q (actor_threads tk full_stack cid S5)"
    by (rule one_actor [OF assms(1), where Q = "?Q" and x = S5_A and zs = "[S5_P, S5_R, S5_Q]"])
       (simp_all add: S5_path job_thread_def dispatch_actor_def identified_def assms(2))
  then show ?thesis by (rule chosen_run_cut_short [rotated]) (simp_all add: named_def refunded_rows)
qed

section \<open>S3\<close>

definition S3_A :: actor_spec where "S3_A = an_actor ''A'' ''refund'' 400 ''s3-a''"
definition S3_B :: actor_spec where "S3_B = an_actor ''B'' ''credit'' 300 ''s3-b''"
definition S3_C :: actor_spec where "S3_C = an_actor ''C'' ''credit'' 400 ''s3-c''"
definition S3_P :: actor_spec where "S3_P = an_actor ''P'' ''project'' 0 ''''"

definition S3 :: schedule_spec where
  "S3 = (a_schedule ''S3'' [S3_A, S3_B, S3_C, S3_P]
    [(''A'', ''agent.before_reads''), (''A'', ''agent.after_reads_before_act''),
     (''A'', ''billing.after_read_before_decide''), (''A'', ''billing.after_commit_before_ack''),
     (''B'', ''agent.before_reads''), (''B'', ''agent.after_reads_before_act''),
     (''B'', ''ledger.after_read_before_decide''), (''B'', ''ledger.after_commit_before_ack''),
     (''P'', ''crm.before_poll''), (''P'', ''crm.before_apply_event''), (''C'', ''agent.before_reads''),
     (''C'', ''agent.after_reads_before_act''), (''C'', ''ledger.after_read_before_decide''),
     (''C'', ''ledger.after_commit_before_ack''), (''P'', ''crm.before_apply_event''),
     (''P'', ''crm.before_apply_event'')])\<lparr>ss_use_projection := True\<rparr>"

lemma S3_simps [simp]:
  "ss_id S3 = ''S3''" "ss_actors S3 = [S3_A, S3_B, S3_C, S3_P]" "ss_authorized S3 = 1000" "ss_faults S3 = []" "length (ss_steps S3) = 16"
  "has_crm (clients_of full_stack S3) = True" "has_reserve (clients_of full_stack S3) = False"
  "has_commit (clients_of full_stack S3) = False" "has_release (clients_of full_stack S3) = False"
  "as_id S3_A = ''A''" "as_action S3_A = ''refund''" "as_amount S3_A = 400" "as_key S3_A = ''s3-a''"
  "as_retry_on_failure S3_A = False" "as_abandon_after_reserve S3_A = False" "as_scopes S3_A = None" "as_projection_order S3_A = None"
  "as_id S3_B = ''B''" "as_action S3_B = ''credit''" "as_amount S3_B = 300" "as_key S3_B = ''s3-b''"
  "as_retry_on_failure S3_B = False" "as_abandon_after_reserve S3_B = False" "as_scopes S3_B = None" "as_projection_order S3_B = None"
  "as_id S3_C = ''C''" "as_action S3_C = ''credit''" "as_amount S3_C = 400" "as_key S3_C = ''s3-c''"
  "as_retry_on_failure S3_C = False" "as_abandon_after_reserve S3_C = False" "as_scopes S3_C = None" "as_projection_order S3_C = None"
  "as_id S3_P = ''P''" "as_action S3_P = ''project''" "as_amount S3_P = 0" "as_key S3_P = ''''"
  "as_retry_on_failure S3_P = False" "as_abandon_after_reserve S3_P = False" "as_scopes S3_P = None" "as_projection_order S3_P = None"
  by (simp_all add: S3_def clients_of_def full_stack_def S3_A_def S3_B_def S3_C_def S3_P_def)

lemma S3_steps:
  "ss_steps S3 = [(''A'', cp_before_reads), (''A'', cp_after_reads), (''A'', cp_refund_read), (''A'', cp_refund_commit),
     (''B'', cp_before_reads), (''B'', cp_after_reads), (''B'', cp_credit_read), (''B'', cp_credit_commit),
     (''P'', cp_poll), (''P'', cp_apply), (''C'', cp_before_reads), (''C'', cp_after_reads),
     (''C'', cp_credit_read), (''C'', cp_credit_commit), (''P'', cp_apply), (''P'', cp_apply)]"
  by (simp add: S3_def cp_defs)

text \<open>A second credit, and its predecessor's event applied after it.\<close>

definition credited_second :: "string \<Rightarrow> string \<Rightarrow> string \<Rightarrow> decimal \<Rightarrow> string \<Rightarrow> string \<Rightarrow> decimal \<Rightarrow> ledger_db" where
  "credited_second cid actor key amount actor' key' amount' =
     (case create_credit_tx cid actor' key' amount' (credited cid actor key amount) of
        Inr (r, db) \<Rightarrow> db | Inl e \<Rightarrow> empty_effect_db)"

lemma credited_second_tx:
  assumes "amount_ok a" "amount_ok b" "key \<noteq> key'"
  shows "\<exists>row. create_credit_tx cid actor' key' b (credited cid actor key a) =
    Inr ((False, row), credited_second cid actor key a actor' key' b)"
  using assms by (simp add: credited_second_def credited_def amount_ok_def services_eval)

lemma credit_write_second:
  assumes "amount_ok a" "amount_ok (r_amount req)" "key \<noteq> r_idempotency_key req"
    "w_ledger w = credited (r_case_id req) actor key a"
  shows "credit_write env req k w = (Gate ''ledger.after_commit_before_ack'' (guarded k (k Done_Answer)),
     w\<lparr>w_ledger := credited_second (r_case_id req) actor key a (env_actor env) (r_idempotency_key req) (r_amount req)\<rparr>)"
  using credited_second_tx [OF assms(1,2,3), of "r_case_id req" "env_actor env" actor] assms(4)
  by (auto simp: credit_write_def ack_thread_def)

lemma credited_second_rows:
  assumes "amount_ok a" "amount_ok b" "key \<noteq> key'"
  shows "total_committed c (credited_second cid actor key a actor' key' b) = (if c = cid then a + b else 0)"
    and "map ef_key (effects (credited_second cid actor key a actor' key' b)) = [key, key']"
  using assms by (simp_all add: credited_second_def credited_def amount_ok_def services_eval)

lemma apply_late:
  assumes "identified actor schedule cid" "amount_ok a" "amount_ok b" "amount_ok b'" "amount_ok (a + b)" "key \<noteq> key'"
    "w_ledger w = credited_second cid who key b who' key' b'" "w_crm w = counted cid ''billing'' a"
  shows "apply_step actor schedule ''ledger'' (first_event cid b) evs k w =
    (events_thread actor schedule ''ledger'' evs k,
     w\<lparr>w_ledger := marked (credited_second cid who key b who' key' b'), w_crm := counted_both cid a b\<rparr>)"
proof -
  have "mark_one 0 1 (credited_second cid who key b who' key' b') =
      Some (1, marked (credited_second cid who key b who' key' b'))"
    using assms(3,4,6)
    by (simp add: credited_second_def credited_def amount_ok_def services_eval mark_one_def marked_def)
  then show ?thesis
    using assms
    by (simp add: apply_step_def apply_event_def http_mark_applied_def mark_credit_event_applied_def identified_def
        first_event_def counted_def counted_both_def with_pipeline_def already_applied_def fold_event_def
        amount_ok_def Let_def)
qed

definition S3_prompt :: "nat list" where "S3_prompt = [0, 0, 0, 0, 0, 0, 0, 1, 1, 1, 1, 1, 1, 1, 3, 3, 3, 3, 3, 2, 2, 2, 2, 2, 2, 2, 3, 3]"

lemma S3_path:
  assumes "plays e1 c1 S3 S3_A" "plays e2 c2 S3 S3_B" "plays e3 c3 S3 S3_C" "identified ''P'' ''S3'' cid"
  shows "leads_to (plan_of S3) (final [''A'', ''B'', ''C'', ''P''] [Actor_Ok, Actor_Ok, Actor_Ok, Actor_Ok]
      (marked (refunded cid ''A'' ''s3-a'' 400)) (marked (credited_second cid ''B'' ''s3-b'' 300 ''C'' ''s3-c'' 400)) 15) S3_prompt 0 (ss_steps S3)
    [(''A'', thread_of e1 (run_case cid c1 (clients_of full_stack S3))),
     (''B'', thread_of e2 (run_case cid c2 (clients_of full_stack S3))),
     (''C'', thread_of e3 (run_case cid c3 (clients_of full_stack S3))),
     (''P'', projector_thread ''P'' ''S3'' cid None)] empty_world"
  by (simp add: assms [unfolded plays_def] S3_steps follow S3_prompt_def final_def eval_nat_numeral no_stray_def
    projector_folded
    poll_billing [where who = "''A''" and key = "''s3-a''" and a = 400 and cid = cid]
    poll_ledger [where who = "''B''" and key = "''s3-b''" and a = 300 and cid = cid]
    apply_billing [where who = "''A''" and key = "''s3-a''" and a = 400 and cid = cid]
    credit_write_second [where a = 300 and key = "''s3-b''" and actor = "''B''", unfolded cp_folds]
    apply_late [where a = 400 and b = 300 and b' = 400 and who = "''B''" and key = "''s3-b''" and who' = "''C''" and
      key' = "''s3-c''" and cid = cid])

text \<open>
  The projector of S3 polls the Ledger as soon as it has applied the first event. If it does so
  before the third agent has committed, it sees one credit and not two: the verdict is the
  declared one, but the last declared step never happens.
\<close>

lemma S3_may_end_short:
  assumes "library_ok tk S3" "cid \<noteq> []"
  shows "hub_quiet (hub_run (ss_id S3) (run_of S3_prompt) (hub_start tk full_stack cid S3)) \<and>
    cut_short S3 15 VIOLATION 1100 (hub_outcome S3 cid (hub_run (ss_id S3) (run_of S3_prompt) (hub_start tk full_stack cid S3)))"
proof -
  let ?P = "final (map as_id (ss_actors S3))
      [Actor_Ok, Actor_Ok, Actor_Ok, Actor_Ok] (marked (refunded cid ''A'' ''s3-a'' 400))
      (marked (credited_second cid ''B'' ''s3-b'' 300 ''C'' ''s3-c'' 400)) 15"
  obtain ea where a: "seated tk full_stack cid S3 S3_A ea"
    using diligent_seat [OF assms(1), of S3_A] by auto
  obtain eb where b: "seated tk full_stack cid S3 S3_B eb"
    using diligent_seat [OF assms(1), of S3_B] by auto
  obtain ec where c: "seated tk full_stack cid S3 S3_C ec"
    using diligent_seat [OF assms(1), of S3_C] by auto
  have third: "job_thread tk (dispatch_actor full_stack cid S3 S3_P) = projector_thread ''P'' ''S3'' cid None"
    by (simp add: job_thread_def dispatch_actor_def)
  have "leads_to (plan_of S3) ?P S3_prompt 0 (ss_steps S3) (actor_threads tk full_stack cid S3) empty_world"
    using a b c by (simp add: actor_threads_def seated_def third S3_path identified_def assms(2))
  then show ?thesis by (rule chosen_run_cut_short [rotated]) (simp_all add: named_def refunded_rows credited_second_rows)
qed

end
