(* ===== verification/Naturalistic.thy ===== *)
theory Naturalistic
  imports Fresh
begin

text \<open>
  The naturalistic mode, \<^verbatim>\<open>schedules/naturalistic.py\<close>: two agents without a barrier, a
  request log, and the observable \<open>window_opened\<close> that is computed from the log after the run.
  An interleaving is a list of steps; each names the agent, the conditions its next request
  meets, and the two readings of the server's clock around that request.
\<close>

section \<open>The agent\<close>

text \<open>
  It deliberately does not import the diligent policy. The reply of the effect request is not
  looked at: only a failure of the transport is an exception.
\<close>

definition natural_post :: "string \<Rightarrow> string \<Rightarrow> decimal \<Rightarrow> string \<Rightarrow> agent" where
  "natural_post cid action amount key =
     Call (Create_Call (if action = ''refund'' then Billing_Service else Ledger_Service) cid amount key)
       (\<lambda>a. if a = Raised Transport_Error then Return (Inl Transport_Error) else Return (Inr None))"

definition natural_decide :: "string \<Rightarrow> string \<Rightarrow> decimal \<Rightarrow> string \<Rightarrow> decimal \<Rightarrow> decimal \<Rightarrow> agent" where
  "natural_decide cid action amount key C observed =
     (if observed + amount > C then Return (Inr None) else natural_post cid action amount key)"

definition natural_second :: "string \<Rightarrow> string \<Rightarrow> decimal \<Rightarrow> string \<Rightarrow> decimal \<Rightarrow> decimal \<Rightarrow> agent" where
  "natural_second cid action amount key C t =
     call_or_raise (Total_Call Ledger_Service cid) (\<lambda>u. natural_decide cid action amount key C (t + total_of u))"

definition natural_act :: "string \<Rightarrow> string \<Rightarrow> decimal \<Rightarrow> string \<Rightarrow> decimal \<Rightarrow> agent" where
  "natural_act cid action amount key C =
     call_or_raise (Total_Call Billing_Service cid) (\<lambda>t. natural_second cid action amount key C (total_of t))"

definition natural_key :: "string \<Rightarrow> string \<Rightarrow> string" where
  "natural_key cid actor = cid @ ''-'' @ actor"

section \<open>The race window\<close>

text \<open>One service's rows of the run: the reads' starts and the writes' ends, by actor.\<close>

definition log_reads :: "request_row list \<Rightarrow> (string option \<times> datetime) list" where
  "log_reads rows = map (\<lambda>r. (rl_actor r, rl_started_at r))
     (filter (\<lambda>r. rl_schedule r = Some ''MODEB'' \<and> rl_ended_at r \<noteq> None \<and> rl_method r = ''GET'') rows)"

definition log_writes :: "request_row list \<Rightarrow> (string option \<times> datetime) list" where
  "log_writes rows = map (\<lambda>r. (rl_actor r, the (rl_ended_at r)))
     (filter (\<lambda>r. rl_schedule r = Some ''MODEB'' \<and> rl_ended_at r \<noteq> None \<and> rl_method r = ''POST'') rows)"

definition window_opened :: "request_row list \<Rightarrow> request_row list \<Rightarrow> bool" where
  "window_opened billing ledger \<longleftrightarrow>
     (\<exists>(read_actor, read_start)\<in>set (log_reads billing @ log_reads ledger).
      \<exists>(write_actor, write_end)\<in>set (log_writes billing @ log_writes ledger).
        read_actor \<noteq> write_actor \<and> read_start < write_end)"

text \<open>
  Whoever both reads and then writes contributes a read that starts before its write ends. Two
  actors that do so open the window for each other in every order, the serial ones included.
\<close>

lemma two_writers_open_the_window:
  assumes "(A, r) \<in> set (log_reads billing @ log_reads ledger)" "(A, w) \<in> set (log_writes billing @ log_writes ledger)" "r < w"
    and "(B, r') \<in> set (log_reads billing @ log_reads ledger)" "(B, w') \<in> set (log_writes billing @ log_writes ledger)" "r' < w'"
    and "A \<noteq> B"
  shows "window_opened billing ledger"
proof (cases "r < w'")
  case True
  then show ?thesis using assms unfolding window_opened_def by blast
next
  case False
  then have "r' < w" using assms(3,6) by simp
  then show ?thesis using assms unfolding window_opened_def by blast
qed

section \<open>A run\<close>

record natural =
  na_agents :: "agent list"
  na_world :: world
  na_billing_log :: "request_row list"
  na_ledger_log :: "request_row list"

record natural_step =
  ns_agent :: nat
  ns_conditions :: conditions
  ns_started :: datetime
  ns_ended :: datetime

definition natural_actors :: "string list" where
  "natural_actors = [''A'', ''B'']"

text \<open>A request that arrives leaves a row in the log of its service.\<close>

definition logged :: "string \<Rightarrow> natural_step \<Rightarrow> string \<Rightarrow> request_row list \<Rightarrow> request_row list" where
  "logged actor x method rows =
     (if co_fate (ns_conditions x) = Request_Lost then rows
      else (let (i, rows) = log_insert True (Some actor) (Some ''MODEB'') method '''' 0 (ns_started x) rows
        in log_finish True i (ns_ended x) rows))"

fun log_call :: "string \<Rightarrow> natural_step \<Rightarrow> call \<Rightarrow> request_row list \<times> request_row list \<Rightarrow>
    request_row list \<times> request_row list" where
  "log_call actor x (Total_Call Billing_Service cid) (b, l) = (logged actor x ''GET'' b, l)"
| "log_call actor x (Total_Call Ledger_Service cid) (b, l) = (b, logged actor x ''GET'' l)"
| "log_call actor x (Create_Call Billing_Service cid amount key) (b, l) = (logged actor x ''POST'' b, l)"
| "log_call actor x (Create_Call Ledger_Service cid amount key) (b, l) = (b, logged actor x ''POST'' l)"
| "log_call actor x c (b, l) = (b, l)"

definition natural_next :: "natural_step \<Rightarrow> natural \<Rightarrow> natural" where
  "natural_next x s =
     (if ns_agent x \<ge> length (na_agents s) then s
      else (case na_agents s ! ns_agent x of
          Return r \<Rightarrow> s
        | Call c k \<Rightarrow> (let (a, w) = perform (ns_conditions x) c (na_world s);
              (b, l) = log_call (natural_actors ! ns_agent x) x c (na_billing_log s, na_ledger_log s)
            in \<lparr>na_agents = (na_agents s)[ns_agent x := k a], na_world = w, na_billing_log = b, na_ledger_log = l\<rparr>)))"

definition natural_start :: "string \<Rightarrow> decimal \<Rightarrow> decimal \<Rightarrow> decimal \<Rightarrow> natural" where
  "natural_start cid amount_a amount_b C =
     \<lparr>na_agents = [natural_act cid ''refund'' amount_a (natural_key cid ''A'') C,
        natural_act cid ''credit'' amount_b (natural_key cid ''B'') C],
      na_world = empty_world, na_billing_log = [], na_ledger_log = []\<rparr>"

definition natural_states :: "natural_step list \<Rightarrow> natural \<Rightarrow> natural" where
  "natural_states xs s = fold natural_next xs s"

record natural_run =
  nr_case_id :: string
  nr_verdict :: verdict
  nr_committed_total :: decimal
  nr_window_opened :: bool

text \<open>After both actors are terminal the oracle reads the services, then the log is evaluated.\<close>

definition run_naturally :: "string \<Rightarrow> decimal \<Rightarrow> decimal \<Rightarrow> decimal \<Rightarrow> natural_step list \<Rightarrow> natural_run option" where
  "run_naturally cid C amount_a amount_b xs =
     (let s = natural_states xs (natural_start cid amount_a amount_b C);
          r = evaluate cid C (w_billing (na_world s), w_ledger (na_world s))
      in if \<forall>P\<in>set (na_agents s). \<exists>x. P = Return (Inr x)
         then Some \<lparr>nr_case_id = cid, nr_verdict = re_verdict r, nr_committed_total = re_committed r,
           nr_window_opened = window_opened (na_billing_log s) (na_ledger_log s)\<rparr>
         else None)"

section \<open>What every run keeps\<close>

text \<open>One agent before its last request, and one service's table: empty until the agent has ended.\<close>

definition natural_open :: "string \<Rightarrow> string \<Rightarrow> decimal \<Rightarrow> string \<Rightarrow> decimal \<Rightarrow> agent \<Rightarrow> bool" where
  "natural_open cid action amount key C P \<longleftrightarrow> P = natural_act cid action amount key C \<or>
     (\<exists>t. P = natural_second cid action amount key C t) \<or> P = natural_post cid action amount key"

definition has_ended :: "agent \<Rightarrow> bool" where
  "has_ended P \<longleftrightarrow> (\<exists>r. P = Return r)"

lemma natural_open_not_ended: "natural_open cid action amount key C P \<Longrightarrow> \<not> has_ended P"
  by (auto simp: natural_open_def has_ended_def natural_act_def natural_second_def natural_post_def call_or_raise_def)

text \<open>A read leads to the next stage or to the end, and changes nothing.\<close>

lemma perform_read:
  assumes "perform co (Total_Call s cid) w = (a, w')"
  shows "w' = w \<and> (a = Raised Transport_Error \<or> co_fate co = Delivered \<and> (\<exists>t. a = Total_Answer t))"
  using assms by (cases s) (auto simp: perform_def split: fate.splits prod.splits)

lemma natural_open_step:
  assumes "natural_open cid action amount key C P" "P = Call c k" "perform co c w = (a, w')"
  shows "(\<exists>s. s \<noteq> Crm_Service \<and> c = Total_Call s cid) \<and> w' = w \<and>
       (natural_open cid action amount key C (k a) \<and> co_fate co = Delivered \<or> has_ended (k a)) \<or>
     P = natural_post cid action amount key \<and>
     c = Create_Call (if action = ''refund'' then Billing_Service else Ledger_Service) cid amount key \<and> has_ended (k a)"
proof -
  consider (act) "P = natural_act cid action amount key C" | (second) t where "P = natural_second cid action amount key C t"
    | (post) "P = natural_post cid action amount key"
    using assms(1) unfolding natural_open_def by blast
  then show ?thesis
  proof cases
    case act
    then have c: "c = Total_Call Billing_Service cid" using assms(2) by (simp add: natural_act_def call_or_raise_def)
    from perform_read [OF assms(3) [unfolded c]] act show ?thesis
      using assms(2) by (auto simp: c natural_act_def call_or_raise_def natural_open_def has_ended_def)
  next
    case second
    then have c: "c = Total_Call Ledger_Service cid" using assms(2) by (simp add: natural_second_def call_or_raise_def)
    from perform_read [OF assms(3) [unfolded c]] second show ?thesis
      using assms(2) by (auto simp: c natural_second_def call_or_raise_def natural_decide_def natural_open_def has_ended_def)
  next
    case post
    then show ?thesis using assms(2) by (auto simp: natural_post_def has_ended_def)
  qed
qed

lemma perform_refund:
  assumes "perform co (Create_Call Billing_Service cid amount key) w = (a, w')" "w_billing w = empty_billing" "amount_ok amount"
  shows "w' = w \<or> co_fate co \<noteq> Request_Lost \<and> (\<exists>actor. w' = w\<lparr>w_billing := refunded cid actor key amount\<rparr>)"
proof -
  let ?req = "\<lparr>r_case_id = cid, r_amount = amount, r_idempotency_key = key\<rparr>"
  obtain row where tx: "create_refund_tx cid (env_actor (co_env co)) key amount empty_billing =
      Inr ((False, row), refunded cid (env_actor (co_env co)) key amount)" using refunded_tx [OF assms(3)] by metis
  have "snd (create_refund (co_env co) (co_cp co) ?req empty_billing) \<in>
      {empty_billing, refunded cid (env_actor (co_env co)) key amount}"
    by (cases "co_env co" "co_cp co" ?req empty_billing rule: create_refund_cases) (auto simp: tx)
  then show ?thesis using assms(1,2)
    by (auto simp: perform_def split: fate.splits prod.splits)
qed

lemma perform_credit:
  assumes "perform co (Create_Call Ledger_Service cid amount key) w = (a, w')" "w_ledger w = empty_effect_db" "amount_ok amount"
  shows "w' = w \<or> co_fate co \<noteq> Request_Lost \<and> (\<exists>actor. w' = w\<lparr>w_ledger := credited cid actor key amount\<rparr>)"
proof -
  let ?req = "\<lparr>r_case_id = cid, r_amount = amount, r_idempotency_key = key\<rparr>"
  obtain row where tx: "create_credit_tx cid (env_actor (co_env co)) key amount empty_effect_db =
      Inr ((False, row), credited cid (env_actor (co_env co)) key amount)" using credited_tx [OF assms(3)] by metis
  have "snd (create_credit (co_env co) (co_cp co) ?req empty_effect_db) \<in>
      {empty_effect_db, credited cid (env_actor (co_env co)) key amount}"
    by (cases "co_env co" "co_cp co" ?req empty_effect_db rule: create_credit_cases) (auto simp: tx)
  then show ?thesis using assms(1,2)
    by (auto simp: perform_def split: fate.splits prod.splits)
qed

section \<open>The log of a run\<close>

definition log_wf :: "request_row list \<Rightarrow> bool" where
  "log_wf rows \<longleftrightarrow> (\<forall>r\<in>set rows. rl_id r \<le> int (length rows))"

lemma logged_rows:
  assumes "log_wf rows" "co_fate (ns_conditions x) \<noteq> Request_Lost"
  shows "logged actor x method rows = rows @ [\<lparr>rl_id = int (length rows) + 1, rl_actor = Some actor,
     rl_schedule = Some ''MODEB'', rl_method = method, rl_path = '''', rl_pid = 0, rl_started_at = ns_started x,
     rl_ended_at = Some (ns_ended x)\<rparr>]"
proof -
  have "update_where (\<lambda>r. rl_id r = int (length rows) + 1) (\<lambda>r. r\<lparr>rl_ended_at := Some (ns_ended x)\<rparr>) rows = rows"
    using assms(1) by (intro update_where_none) (auto simp: log_wf_def)
  then show ?thesis using assms(2)
    by (simp add: logged_def log_insert_def log_finish_def Let_def table_simps)
qed

lemma logged_wf: "log_wf rows \<Longrightarrow> log_wf (logged actor x method rows)"
proof (cases "co_fate (ns_conditions x) = Request_Lost")
  case False
  then show "log_wf rows \<Longrightarrow> ?thesis" by (force simp: logged_rows log_wf_def)
qed (simp add: logged_def)

text \<open>What has been read and written so far, by actor and time.\<close>

definition seen_reads :: "natural \<Rightarrow> (string option \<times> datetime) set" where
  "seen_reads s = set (log_reads (na_billing_log s) @ log_reads (na_ledger_log s))"

definition seen_writes :: "natural \<Rightarrow> (string option \<times> datetime) set" where
  "seen_writes s = set (log_writes (na_billing_log s) @ log_writes (na_ledger_log s))"

text \<open>
  One agent's side of a run whose remaining steps are \<open>xs\<close>: once it has read, its read is in
  the log and starts before all its later requests end; once its effect is there, so is the row
  of the request that made it.
\<close>

definition side_ok :: "nat \<Rightarrow> string \<Rightarrow> string \<Rightarrow> string \<Rightarrow> decimal \<Rightarrow> string \<Rightarrow> decimal \<Rightarrow> bool \<Rightarrow> agent \<Rightarrow>
    natural_step list \<Rightarrow> natural \<Rightarrow> bool" where
  "side_ok i actor cid action amount key C written P xs s \<longleftrightarrow>
     (natural_open cid action amount key C P \<and> \<not> written \<or> has_ended P) \<and>
     (natural_open cid action amount key C P \<and> P \<noteq> natural_act cid action amount key C \<longrightarrow>
        (\<exists>r. (Some actor, r) \<in> seen_reads s \<and> (\<forall>x\<in>set xs. ns_agent x = i \<longrightarrow> r < ns_ended x))) \<and>
     (written \<longrightarrow> (\<exists>r w. (Some actor, r) \<in> seen_reads s \<and> (Some actor, w) \<in> seen_writes s \<and> r < w))"

lemma side_ok_mono:
  assumes "side_ok i actor cid action amount key C written P xs s" "set ys \<subseteq> set xs"
    and "seen_reads s \<subseteq> seen_reads s'" "seen_writes s \<subseteq> seen_writes s'"
  shows "side_ok i actor cid action amount key C written P ys s'"
  using assms unfolding side_ok_def by blast

text \<open>Requests of one agent follow each other.\<close>

definition clock_ok :: "natural_step list \<Rightarrow> bool" where
  "clock_ok xs \<longleftrightarrow> sorted_wrt (\<lambda>x y. ns_agent x = ns_agent y \<longrightarrow> ns_started x < ns_ended y) xs"

lemma log_reads_row [simp]:
  "log_reads (rows @ [\<lparr>rl_id = n, rl_actor = actor, rl_schedule = Some ''MODEB'', rl_method = m, rl_path = p, rl_pid = q,
      rl_started_at = t, rl_ended_at = Some e\<rparr>]) = log_reads rows @ (if m = ''GET'' then [(actor, t)] else [])"
  "log_writes (rows @ [\<lparr>rl_id = n, rl_actor = actor, rl_schedule = Some ''MODEB'', rl_method = m, rl_path = p, rl_pid = q,
      rl_started_at = t, rl_ended_at = Some e\<rparr>]) = log_writes rows @ (if m = ''POST'' then [(actor, e)] else [])"
  by (simp_all add: log_reads_def log_writes_def)

text \<open>The rows one request adds.\<close>

lemma log_call_rows:
  assumes "log_call actor x c (na_billing_log s, na_ledger_log s) = (na_billing_log s', na_ledger_log s')"
    "log_wf (na_billing_log s)" "log_wf (na_ledger_log s)"
  shows "log_wf (na_billing_log s')" "log_wf (na_ledger_log s')"
    and "seen_reads s \<subseteq> seen_reads s'" "seen_writes s \<subseteq> seen_writes s'"
    and "c = Total_Call sv cid \<Longrightarrow> sv \<noteq> Crm_Service \<Longrightarrow> co_fate (ns_conditions x) \<noteq> Request_Lost \<Longrightarrow>
      (Some actor, ns_started x) \<in> seen_reads s'"
    and "c = Create_Call sv cid amount key \<Longrightarrow> sv \<noteq> Crm_Service \<Longrightarrow> co_fate (ns_conditions x) \<noteq> Request_Lost \<Longrightarrow>
      (Some actor, ns_ended x) \<in> seen_writes s'"
proof -
  have unlost: "logged actor x m rows = rows" if "co_fate (ns_conditions x) = Request_Lost" for m rows
    using that by (simp add: logged_def)
  consider (none) "na_billing_log s' = na_billing_log s" "na_ledger_log s' = na_ledger_log s"
      "(\<forall>cid. c \<noteq> Total_Call Billing_Service cid \<and> c \<noteq> Total_Call Ledger_Service cid) \<and>
       (\<forall>cid a key. c \<noteq> Create_Call Billing_Service cid a key \<and> c \<noteq> Create_Call Ledger_Service cid a key)"
    | (rb) cid where "c = Total_Call Billing_Service cid"
        "na_billing_log s' = logged actor x ''GET'' (na_billing_log s)" "na_ledger_log s' = na_ledger_log s"
    | (rl) cid where "c = Total_Call Ledger_Service cid"
        "na_ledger_log s' = logged actor x ''GET'' (na_ledger_log s)" "na_billing_log s' = na_billing_log s"
    | (wb) cid a key where "c = Create_Call Billing_Service cid a key"
        "na_billing_log s' = logged actor x ''POST'' (na_billing_log s)" "na_ledger_log s' = na_ledger_log s"
    | (wl) cid a key where "c = Create_Call Ledger_Service cid a key"
        "na_ledger_log s' = logged actor x ''POST'' (na_ledger_log s)" "na_billing_log s' = na_billing_log s"
    using assms(1) by (cases "(actor, x, c, (na_billing_log s, na_ledger_log s))" rule: log_call.cases) auto
  note by_call = this
  show "log_wf (na_billing_log s')" by (rule by_call) (use assms(2,3) in \<open>simp_all add: logged_wf\<close>)
  show "log_wf (na_ledger_log s')" by (rule by_call) (use assms(2,3) in \<open>simp_all add: logged_wf\<close>)
  have L: "logged actor x m rows = rows \<or> (\<exists>r. logged actor x m rows = rows @ [r])" if "log_wf rows" for m rows
    using that unlost [of m rows] logged_rows [of rows x actor m] by blast
  have mono: "set (log_reads rows) \<subseteq> set (log_reads (logged actor x m rows))"
    "set (log_writes rows) \<subseteq> set (log_writes (logged actor x m rows))" if "log_wf rows" for m rows
    using L [OF that, of m] by (auto simp: log_reads_def log_writes_def)
  show "seen_reads s \<subseteq> seen_reads s'"
    unfolding seen_reads_def set_append
    by (rule by_call) (use assms(2,3) mono in \<open>simp_all add: subset_iff\<close>)
  show "seen_writes s \<subseteq> seen_writes s'"
    unfolding seen_writes_def set_append
    by (rule by_call) (use assms(2,3) mono in \<open>simp_all add: subset_iff\<close>)
  show "(Some actor, ns_started x) \<in> seen_reads s'"
    if "c = Total_Call sv cid" "sv \<noteq> Crm_Service" "co_fate (ns_conditions x) \<noteq> Request_Lost"
    by (rule by_call) (use that assms(2,3) in \<open>cases sv; simp add: seen_reads_def logged_rows\<close>)+
  show "(Some actor, ns_ended x) \<in> seen_writes s'"
    if "c = Create_Call sv cid amount key" "sv \<noteq> Crm_Service" "co_fate (ns_conditions x) \<noteq> Request_Lost"
    by (rule by_call) (use that assms(2,3) in \<open>cases sv; simp add: seen_writes_def logged_rows\<close>)+
qed

section \<open>The invariant of a run\<close>

definition natural_inv :: "string \<Rightarrow> decimal \<Rightarrow> decimal \<Rightarrow> decimal \<Rightarrow> natural_step list \<Rightarrow> natural \<Rightarrow> bool" where
  "natural_inv cid a b C xs s \<longleftrightarrow> (\<exists>P Q. na_agents s = [P, Q] \<and>
     side_ok 0 ''A'' cid ''refund'' a (natural_key cid ''A'') C (w_billing (na_world s) \<noteq> empty_billing) P xs s \<and>
     side_ok 1 ''B'' cid ''credit'' b (natural_key cid ''B'') C (w_ledger (na_world s) \<noteq> empty_effect_db) Q xs s) \<and>
     (w_billing (na_world s) = empty_billing \<or> (\<exists>actor. w_billing (na_world s) = refunded cid actor (natural_key cid ''A'') a)) \<and>
     (w_ledger (na_world s) = empty_effect_db \<or> (\<exists>actor. w_ledger (na_world s) = credited cid actor (natural_key cid ''B'') b)) \<and>
     log_wf (na_billing_log s) \<and> log_wf (na_ledger_log s) \<and> clock_ok xs"

lemma side_ok_open:
  "side_ok i actor cid action amount key C written (Call c k) xs s \<Longrightarrow>
   natural_open cid action amount key C (Call c k) \<and> \<not> written"
  by (auto simp: side_ok_def has_ended_def)

lemma side_ok_ended:
  "has_ended P \<Longrightarrow> (written \<Longrightarrow> \<exists>r w. (Some actor, r) \<in> seen_reads s \<and> (Some actor, w) \<in> seen_writes s \<and> r < w) \<Longrightarrow>
   side_ok i actor cid action amount key C written P xs s"
  using natural_open_not_ended unfolding side_ok_def by blast

text \<open>An agent's own request keeps its side, and leaves the other service alone.\<close>

lemma side_own_step:
  assumes side: "side_ok i actor cid action amount key C False (Call c k) (x # xs) s"
    and x: "ns_agent x = i" and clock: "clock_ok (x # xs)"
    and p: "perform (ns_conditions x) c w = (a, w')"
    and l: "log_call actor x c (na_billing_log s, na_ledger_log s) = (na_billing_log s', na_ledger_log s')"
      "log_wf (na_billing_log s)" "log_wf (na_ledger_log s)"
    and post: "c = Create_Call (if action = ''refund'' then Billing_Service else Ledger_Service) cid amount key \<Longrightarrow>
      w' = w \<and> \<not> written \<or> co_fate (ns_conditions x) \<noteq> Request_Lost"
    and same: "w' = w \<Longrightarrow> \<not> written"
  shows "side_ok i actor cid action amount key C written (k a) xs s'"
proof -
  note rows = log_call_rows [OF l]
  have op: "natural_open cid action amount key C (Call c k)" using side_ok_open [OF side] by blast
  from natural_open_step [OF op refl p]
  consider (ended) "w' = w" "has_ended (k a)"
    | (next_read) sv where "w' = w" "natural_open cid action amount key C (k a)" "sv \<noteq> Crm_Service" "c = Total_Call sv cid"
        "co_fate (ns_conditions x) = Delivered"
    | (create) "Call c k = natural_post cid action amount key" "has_ended (k a)"
        "c = Create_Call (if action = ''refund'' then Billing_Service else Ledger_Service) cid amount key" by blast
  then show ?thesis
  proof cases
    case ended
    then show ?thesis using same by (intro side_ok_ended) auto
  next
    case next_read
    have "(Some actor, ns_started x) \<in> seen_reads s'" using rows(5) next_read by simp
    moreover have "\<forall>y\<in>set xs. ns_agent y = i \<longrightarrow> ns_started x < ns_ended y" using clock x by (auto simp: clock_ok_def)
    ultimately show ?thesis using same [OF next_read(1)] next_read(2) unfolding side_ok_def by blast
  next
    case create
    have "Call c k \<noteq> natural_act cid action amount key C"
      by (simp add: create(1) natural_post_def natural_act_def call_or_raise_def)
    then obtain r where r: "(Some actor, r) \<in> seen_reads s" "r < ns_ended x"
      using side op x unfolding side_ok_def by auto
    show ?thesis
    proof (rule side_ok_ended [OF create(2)])
      assume written
      with post create(3) same have "co_fate (ns_conditions x) \<noteq> Request_Lost" by blast
      with rows(6) [OF create(3)] have "(Some actor, ns_ended x) \<in> seen_writes s'" by simp
      then show "\<exists>r w. (Some actor, r) \<in> seen_reads s' \<and> (Some actor, w) \<in> seen_writes s' \<and> r < w"
        using r rows(3) by blast
    qed
  qed
qed

lemma natural_open_other_service:
  assumes "natural_open cid action amount key C (Call c k)" "perform co c w = (a, w')"
  shows "action = ''refund'' \<Longrightarrow> w_ledger w' = w_ledger w" "action \<noteq> ''refund'' \<Longrightarrow> w_billing w' = w_billing w"
  using natural_open_step [OF assms(1) refl assms(2)] assms(2)
  by (auto simp: perform_def split: fate.splits prod.splits)

lemma natural_next_inv:
  assumes inv: "natural_inv cid a b C (x # xs) s" and ok: "amount_ok a" "amount_ok b"
  shows "natural_inv cid a b C xs (natural_next x s)"
proof -
  obtain P Q where ag: "na_agents s = [P, Q]"
    and A: "side_ok 0 ''A'' cid ''refund'' a (natural_key cid ''A'') C (w_billing (na_world s) \<noteq> empty_billing) P (x # xs) s"
    and B: "side_ok 1 ''B'' cid ''credit'' b (natural_key cid ''B'') C (w_ledger (na_world s) \<noteq> empty_effect_db) Q (x # xs) s"
    and tab: "w_billing (na_world s) = empty_billing \<or> (\<exists>actor. w_billing (na_world s) = refunded cid actor (natural_key cid ''A'') a)"
      "w_ledger (na_world s) = empty_effect_db \<or> (\<exists>actor. w_ledger (na_world s) = credited cid actor (natural_key cid ''B'') b)"
    and wf: "log_wf (na_billing_log s)" "log_wf (na_ledger_log s)" and clock: "clock_ok (x # xs)"
    using inv unfolding natural_inv_def by blast
  have clock': "clock_ok xs" using clock by (simp add: clock_ok_def)
  have idle: "natural_inv cid a b C xs s"
    unfolding natural_inv_def using ag tab wf clock' side_ok_mono [OF A, of xs s] side_ok_mono [OF B, of xs s] by auto
  have keep: ?thesis if "natural_next x s = s" using idle that by simp
  consider (none) "ns_agent x \<ge> 2" | (first) "ns_agent x = 0" | (other) "ns_agent x = 1" by linarith
  then show ?thesis
  proof cases
    case none
    then show ?thesis by (intro keep) (simp add: natural_next_def ag)
  next
    case first
    show ?thesis
    proof (cases P)
      case (Return r)
      then show ?thesis using first by (intro keep) (simp add: natural_next_def ag)
    next
      case (Call c k)
      obtain ans w' where p: "perform (ns_conditions x) c (na_world s) = (ans, w')" by fastforce
      obtain bl ll where l: "log_call ''A'' x c (na_billing_log s, na_ledger_log s) = (bl, ll)" by fastforce
      define s' where "s' = \<lparr>na_agents = [k ans, Q], na_world = w', na_billing_log = bl, na_ledger_log = ll\<rparr>"
      have s': "natural_next x s = s'"
        using first Call p l by (simp add: natural_next_def ag natural_actors_def s'_def)
      have l': "log_call ''A'' x c (na_billing_log s, na_ledger_log s) = (na_billing_log s', na_ledger_log s')"
        using l by (simp add: s'_def)
      note rows = log_call_rows [OF l' wf]
      from side_ok_open A Call have op: "natural_open cid ''refund'' a (natural_key cid ''A'') C (Call c k)"
        and empty: "w_billing (na_world s) = empty_billing" by blast+
      have ledger: "w_ledger w' = w_ledger (na_world s)" using natural_open_other_service(1) [OF op p] by simp
      have refund: "w' = na_world s \<or> co_fate (ns_conditions x) \<noteq> Request_Lost \<and>
          (\<exists>actor. w' = (na_world s)\<lparr>w_billing := refunded cid actor (natural_key cid ''A'') a\<rparr>)"
        using natural_open_step [OF op refl p] perform_refund [OF _ empty ok(1)] p by (metis (full_types))
      have "side_ok 0 ''A'' cid ''refund'' a (natural_key cid ''A'') C (w_billing w' \<noteq> empty_billing) (k ans) xs s'"
        using A [unfolded Call] empty refund by (intro side_own_step [OF _ first clock p l' wf]) auto
      moreover have "side_ok 1 ''B'' cid ''credit'' b (natural_key cid ''B'') C (w_ledger w' \<noteq> empty_effect_db) Q xs s'"
        unfolding ledger by (rule side_ok_mono [OF B _ rows(3,4)]) auto
      ultimately show ?thesis
        unfolding s' natural_inv_def using tab empty refund ledger rows(1,2) clock' by (auto simp: s'_def)
    qed
  next
    case other
    show ?thesis
    proof (cases Q)
      case (Return r)
      then show ?thesis using other by (intro keep) (simp add: natural_next_def ag)
    next
      case (Call c k)
      obtain ans w' where p: "perform (ns_conditions x) c (na_world s) = (ans, w')" by fastforce
      obtain bl ll where l: "log_call ''B'' x c (na_billing_log s, na_ledger_log s) = (bl, ll)" by fastforce
      define s' where "s' = \<lparr>na_agents = [P, k ans], na_world = w', na_billing_log = bl, na_ledger_log = ll\<rparr>"
      have s': "natural_next x s = s'"
        using other Call p l by (simp add: natural_next_def ag natural_actors_def s'_def)
      have l': "log_call ''B'' x c (na_billing_log s, na_ledger_log s) = (na_billing_log s', na_ledger_log s')"
        using l by (simp add: s'_def)
      note rows = log_call_rows [OF l' wf]
      from side_ok_open B Call have op: "natural_open cid ''credit'' b (natural_key cid ''B'') C (Call c k)"
        and empty: "w_ledger (na_world s) = empty_effect_db" by blast+
      have billing: "w_billing w' = w_billing (na_world s)" using natural_open_other_service(2) [OF op p] by simp
      have credit: "w' = na_world s \<or> co_fate (ns_conditions x) \<noteq> Request_Lost \<and>
          (\<exists>actor. w' = (na_world s)\<lparr>w_ledger := credited cid actor (natural_key cid ''B'') b\<rparr>)"
      proof -
        have "w' = na_world s \<or> c = Create_Call Ledger_Service cid b (natural_key cid ''B'')"
          using natural_open_step [OF op refl p] by auto
        then show ?thesis using perform_credit [OF _ empty ok(2)] p by metis
      qed
      have "side_ok 1 ''B'' cid ''credit'' b (natural_key cid ''B'') C (w_ledger w' \<noteq> empty_effect_db) (k ans) xs s'"
        using B [unfolded Call] empty credit by (intro side_own_step [OF _ other clock p l' wf]) auto
      moreover have "side_ok 0 ''A'' cid ''refund'' a (natural_key cid ''A'') C (w_billing w' \<noteq> empty_billing) P xs s'"
        unfolding billing by (rule side_ok_mono [OF A _ rows(3,4)]) auto
      ultimately show ?thesis
        unfolding s' natural_inv_def using tab empty credit billing rows(1,2) clock' by (auto simp: s'_def)
    qed
  qed
qed

lemma natural_states_inv:
  assumes "natural_inv cid a b C xs s" "amount_ok a" "amount_ok b"
  shows "natural_inv cid a b C [] (natural_states xs s)"
  using assms(1)
proof (induction xs arbitrary: s)
  case (Cons x xs)
  from Cons.IH [OF natural_next_inv [OF Cons.prems assms(2,3)]] show ?case by (simp add: natural_states_def)
qed (simp add: natural_states_def)

lemma natural_start_inv: "clock_ok xs \<Longrightarrow> natural_inv cid a b C xs (natural_start cid a b C)"
  by (simp add: natural_inv_def natural_start_def side_ok_def natural_open_def log_wf_def)

section \<open>Properties\<close>

text \<open>
  What the naturalistic mode can observe. Two agents with their own keys, in any interleaving,
  whichever requests and replies are lost, whatever the services answer: if both return,
  the committed total is nothing, one of the amounts or both, the verdict is VIOLATION exactly
  when it exceeds the ceiling and never INCONCLUSIVE, and when both effects are there the window
  is reported open. The last holds in every order, so the check of the tests that no
  violation occurs with the window closed cannot fail.
\<close>

lemma naturalistic_observables:
  assumes "amount_ok a" "amount_ok b" "clock_ok xs" and "run_naturally cid C a b xs = Some r"
  shows "nr_committed_total r \<in> {0, a, b, a + b}
    \<and> nr_verdict r = (if C < nr_committed_total r then VIOLATION else CLEAN)
    \<and> (nr_committed_total r = a + b \<longrightarrow> nr_window_opened r)"
proof -
  define s where "s = natural_states xs (natural_start cid a b C)"
  define w where "w = na_world s"
  have inv: "natural_inv cid a b C [] s"
    unfolding s_def by (rule natural_states_inv [OF natural_start_inv [OF assms(3)] assms(1,2)])
  have r: "nr_committed_total r = total_committed cid (w_billing w) + total_committed cid (w_ledger w)"
    "nr_verdict r = re_verdict (evaluate cid C (w_billing w, w_ledger w))"
    "nr_window_opened r = window_opened (na_billing_log s) (na_ledger_log s)"
    using assms(4) by (auto simp: run_naturally_def s_def w_def Let_def evaluate_committed authoritative_total_def split: if_splits)
  have pos: "0 < a" "0 < b" using assms(1,2) by (simp_all add: amount_ok_def)
  have keys: "natural_key cid ''A'' \<noteq> natural_key cid ''B''" by (simp add: natural_key_def)
  have ta: "(w_billing w = empty_billing \<and> total_committed cid (w_billing w) = 0 \<and> effects (w_billing w) = []) \<or>
      (w_billing w \<noteq> empty_billing \<and> total_committed cid (w_billing w) = a \<and>
        map ef_key (effects (w_billing w)) = [natural_key cid ''A''])"
    using inv refunded_rows [OF assms(1)] pos(1) unfolding natural_inv_def w_def by fastforce
  have tb: "(w_ledger w = empty_effect_db \<and> total_committed cid (w_ledger w) = 0 \<and> effects (w_ledger w) = []) \<or>
      (w_ledger w \<noteq> empty_effect_db \<and> total_committed cid (w_ledger w) = b \<and>
        map ef_key (effects (w_ledger w)) = [natural_key cid ''B''])"
    using inv credited_rows [OF assms(2)] pos(2) unfolding natural_inv_def w_def by fastforce
  have "distinct (map ef_key (effects (w_billing w) @ effects (w_ledger w)))"
    using ta tb keys by auto
  then have v: "nr_verdict r = (if C < nr_committed_total r then VIOLATION else CLEAN)"
    by (simp add: r distinct_keys_verdict authoritative_total_def)
  have "nr_window_opened r" if "nr_committed_total r = a + b"
  proof -
    have "w_billing w \<noteq> empty_billing" "w_ledger w \<noteq> empty_effect_db" using that ta tb pos r(1) by auto
    then have "\<exists>t u. (Some ''A'', t) \<in> seen_reads s \<and> (Some ''A'', u) \<in> seen_writes s \<and> t < u"
      "\<exists>t u. (Some ''B'', t) \<in> seen_reads s \<and> (Some ''B'', u) \<in> seen_writes s \<and> t < u"
      using inv unfolding natural_inv_def side_ok_def w_def by blast+
    then obtain t u t' u' where "(Some ''A'', t) \<in> seen_reads s" "(Some ''A'', u) \<in> seen_writes s" "t < u"
      "(Some ''B'', t') \<in> seen_reads s" "(Some ''B'', u') \<in> seen_writes s" "t' < u'" by blast
    then show ?thesis
      unfolding r(3) seen_reads_def seen_writes_def by (rule two_writers_open_the_window) simp
  qed
  with v ta tb r(1) show ?thesis by auto
qed

text \<open>Undisturbed steps at consecutive times.\<close>

definition natural_steps :: "nat list \<Rightarrow> natural_step list" where
  "natural_steps js = map (\<lambda>(t, i). \<lparr>ns_agent = i, ns_conditions = calm (natural_actors ! i), ns_started = 10 * int t,
     ns_ended = 10 * int t + 5\<rparr>) (enumerate 0 js)"

lemmas natural_eval = run_naturally_def natural_states_def natural_start_def natural_steps_def natural_next_def
  natural_act_def natural_second_def natural_decide_def natural_post_def natural_actors_def call_or_raise_def
  perform_def calm_def logged_def log_insert_def log_finish_def table_simps answer_of_reply_def natural_key_def
  empty_world_def list_refunds_def list_credits_def distinct_keys_verdict evaluate_committed authoritative_total_def
  amount_ok_def services_eval

definition serial_steps :: "natural_step list" where
  "serial_steps = natural_steps [0, 0, 0, 1, 1, 1]"

lemma serial_run_eval:
  "run_naturally ''c'' 1000 300 500 serial_steps = Some \<lparr>nr_case_id = ''c'', nr_verdict = CLEAN,
     nr_committed_total = 800, nr_window_opened = True\<rparr>"
  by (simp add: serial_steps_def natural_eval window_opened_def log_reads_def log_writes_def Let_def numeric_12_2_def
      round2_in_cents)

text \<open>
  The window is reported open in a run without any race. The first agent has made its last
  request and got its reply before the second one makes its first, and the second one sees the
  first one's refund; the observable, which asks whether the second actor read before the first
  one's write completed, is true.
\<close>

lemma window_reported_open_in_a_serial_run:
  "run_naturally ''c'' 1000 300 500 serial_steps = Some \<lparr>nr_case_id = ''c'', nr_verdict = CLEAN,
     nr_committed_total = 800, nr_window_opened = True\<rparr>
   \<and> map ns_agent serial_steps = [0, 0, 0, 1, 1, 1]
   \<and> sorted_wrt (\<lambda>x y. ns_ended x < ns_started y) serial_steps"
  using serial_run_eval by (simp add: serial_steps_def natural_steps_def)

text \<open>
  The race, from the order of the six requests alone: the crediting agent reads Billing before
  the refund is posted, and the refunding agent reads the Ledger before the credit is posted.
\<close>

definition before_last :: "nat \<Rightarrow> nat list \<Rightarrow> nat list" where
  "before_last i js = rev (tl (dropWhile (\<lambda>j. j \<noteq> i) (rev js)))"

definition raced :: "nat list \<Rightarrow> bool" where
  "raced js \<longleftrightarrow> 1 \<in> set (before_last 0 js) \<and> 2 \<le> count_list (before_last 1 js) 0"

definition natural_orders :: "nat list list" where
  "natural_orders = [js. js \<leftarrow> List.n_lists 6 [0, 1], count_list js 0 = 3]"

lemma natural_orders_eval: "natural_orders =
    [[1, 1, 1, 0, 0, 0], [1, 1, 0, 1, 0, 0], [1, 0, 1, 1, 0, 0], [0, 1, 1, 1, 0, 0], [1, 1, 0, 0, 1, 0], [1, 0, 1,
     0, 1, 0], [0, 1, 1, 0, 1, 0], [1, 0, 0, 1, 1, 0], [0, 1, 0, 1, 1, 0], [0, 0, 1, 1, 1, 0], [1, 1, 0, 0, 0, 1],
     [1, 0, 1, 0, 0, 1], [0, 1, 1, 0, 0, 1], [1, 0, 0, 1, 0, 1], [0, 1, 0, 1, 0, 1], [0, 0, 1, 1, 0, 1], [1, 0, 0,
     0, 1, 1], [0, 1, 0, 0, 1, 1], [0, 0, 1, 0, 1, 1], [0, 0, 0, 1, 1, 1]]"
  by code_simp

text \<open>
  C30. The verdict of an undisturbed naturalistic run is the race. For two amounts that fit the
  ceiling alone and not together, and each of the twenty orders of the six requests: the verdict
  is VIOLATION with both amounts committed if each agent's read misses the other's write, and
  CLEAN with exactly one effect otherwise.
\<close>

theorem naturalistic_verdict_is_the_race:
  assumes "amount_ok a" "amount_ok b" "a \<le> C" "b \<le> C" "C < a + b"
  shows "list_all (\<lambda>js. case run_naturally ''c'' C a b (natural_steps js) of None \<Rightarrow> False
     | Some r \<Rightarrow> nr_verdict r = (if raced js then VIOLATION else CLEAN) \<and>
         (if raced js then nr_committed_total r = a + b else nr_committed_total r \<in> {a, b}))
    natural_orders"
  unfolding natural_orders_eval list.pred_inject
  by (intro conjI TrueI; use assms in \<open>simp add: raced_def before_last_def natural_eval Let_def\<close>)

definition credit_first :: "nat list" where "credit_first = [1, 1, 1, 0, 0, 0]"

theorem naturalistic_verdict_is_the_race_witness:
  "case run_naturally ''c'' 1000 600 500 (natural_steps credit_first) of None \<Rightarrow> False
   | Some r \<Rightarrow> nr_verdict r = CLEAN \<and> nr_committed_total r \<in> {600, 500}"
proof -
  have order: "credit_first \<in> set natural_orders" "\<not> raced credit_first"
    by (simp_all add: credit_first_def natural_orders_eval raced_def before_last_def)
  have run: "case run_naturally ''c'' 1000 600 500 (natural_steps js) of None \<Rightarrow> False
      | Some r \<Rightarrow> nr_verdict r = (if raced js then VIOLATION else CLEAN) \<and>
          (if raced js then nr_committed_total r = 600 + 500 else nr_committed_total r \<in> {600, 500})"
    if "js \<in> set natural_orders" for js
    using naturalistic_verdict_is_the_race [of 600 500 1000] that unfolding list_all_iff by simp
  from run [OF order(1)] show ?thesis unfolding if_not_P [OF order(2)] .
qed

end
