(* ===== verification/Arms.thy ===== *)
theory Arms
  imports Serial
begin

text \<open>
  The model-driven arms, \<^verbatim>\<open>schedules/llm_arms.py\<close>: the workload of the naturalistic mode with a
  model deciding, without reservations (arm C) and with them (arm D).
\<close>

section \<open>An arm\<close>

definition arm_key :: "string \<Rightarrow> string \<Rightarrow> string" where
  "arm_key cid actor = cid @ ''-'' @ actor"

definition arm_clients :: "bool \<Rightarrow> clients" where
  "arm_clients with_reservation = \<lparr>has_crm = False, has_reserve = with_reservation, has_release = with_reservation,
     has_commit = with_reservation\<rparr>"

definition arm_job :: "string \<Rightarrow> string \<Rightarrow> string \<Rightarrow> decimal \<Rightarrow> decimal \<Rightarrow> bool \<Rightarrow> job" where
  "arm_job cid actor action amount C with_reservation =
     \<lparr>jb_config = \<lparr>cf_case_id = cid, cf_actor_id = actor, cf_schedule_id = ''LLM'', cf_action = action,
        cf_amount = amount, cf_key = arm_key cid actor, cf_authorized = C, cf_retry_on_failure = False,
        cf_abandon_after_reserve = False\<rparr>,
      jb_clients = arm_clients with_reservation\<rparr>"

definition arm_seats :: "string \<Rightarrow> model \<Rightarrow> bool \<Rightarrow> decimal \<Rightarrow> decimal \<Rightarrow> decimal \<Rightarrow> seat list" where
  "arm_seats cid model with_reservation C a b =
     [Llm_Seat (Some model) (arm_job cid ''A'' ''refund'' a C with_reservation),
      Llm_Seat (Some model) (arm_job cid ''B'' ''credit'' b C with_reservation)]"

text \<open>What \<open>_one\<close> returns: a transcript, or the actor with its exception.\<close>

fun one_result :: "string \<Rightarrow> agent \<Rightarrow> (transcript option \<times> (string \<times> agent_exn) option) option" where
  "one_result actor (Return (Inr t)) = Some (t, None)"
| "one_result actor (Return (Inl e)) = Some (None, Some (actor, e))"
| "one_result actor (Call c k) = None"

record arm_run =
  ar_case_id :: string
  ar_verdict :: verdict
  ar_committed_total :: decimal
  ar_transcripts :: "transcript list"
  ar_errors :: "(string \<times> agent_exn) list"

text \<open>\<open>run_arm\<close> waits for both agents and then asks the oracle; \<open>None\<close> while one is still running.\<close>

definition run_arm :: "string \<Rightarrow> model \<Rightarrow> bool \<Rightarrow> decimal \<Rightarrow> decimal \<Rightarrow> decimal \<Rightarrow> (nat \<times> conditions) list \<Rightarrow> arm_run option" where
  "run_arm cid model with_reservation C a b xs =
     (case lab_run xs (map seat_program (arm_seats cid model with_reservation C a b), empty_world) of (agents, w) \<Rightarrow>
       case those (map (\<lambda>(actor, P). one_result actor P) (zip [''A'', ''B''] agents)) of
         None \<Rightarrow> None
       | Some results \<Rightarrow> (let r = evaluate cid C (w_billing w, w_ledger w) in
           Some \<lparr>ar_case_id = cid, ar_verdict = re_verdict r, ar_committed_total = re_committed r,
             ar_transcripts = List.map_filter fst results, ar_errors = List.map_filter snd results\<rparr>))"

lemma run_arm_verdict:
  assumes "run_arm cid model with_reservation C a b xs = Some r"
  shows "ar_verdict r = re_verdict (evaluate cid C
      (w_billing (run_seats (arm_seats cid model with_reservation C a b) xs),
       w_ledger (run_seats (arm_seats cid model with_reservation C a b) xs)))"
    and "ar_committed_total r = services_total cid (run_seats (arm_seats cid model with_reservation C a b) xs)"
  using assms by (auto simp: run_arm_def run_seats_def Let_def evaluate_committed authoritative_total_def services_total_def
      split: prod.splits option.splits)

section \<open>Arm D\<close>

text \<open>
  C32. With reservations no model can breach the ceiling by itself. Whatever the model answers, as
  long as no reply of it both issues and declines, in every interleaving and whichever
  messages are lost: the verdict of arm D is CLEAN, and the committed total is within the ceiling.
\<close>

theorem arm_with_reservations_is_clean:
  assumes "prudent ''refund'' model" "prudent ''credit'' model" "0 \<le> C" "in_cents C"
    and "run_arm cid model True C a b xs = Some r"
  shows "ar_verdict r = CLEAN \<and> ar_committed_total r \<le> C"
proof -
  let ?seats = "arm_seats cid model True C a b"
  let ?db = "(w_billing (run_seats ?seats xs), w_ledger (run_seats ?seats xs))"
  have ok: "seats_ok cid C ?seats"
    using assms(3,4) by (simp add: seats_ok_def arm_seats_def arm_job_def arm_clients_def arm_key_def)
  have "re_verdict (evaluate cid C ?db) = CLEAN \<and> released_spend cid (run_seats ?seats xs) = 0"
    by (rule careful_seats_are_clean [OF ok]) (use assms(1,2) in \<open>auto simp: arm_seats_def arm_job_def less_Suc_eq\<close>)
  moreover from this have "services_total cid (run_seats ?seats xs) \<le> C"
    using seats_bounded [OF ok, of xs] by (simp add: services_total_def)
  ultimately show ?thesis using run_arm_verdict [OF assms(5)] by simp
qed

section \<open>The two arms side by side\<close>

text \<open>A model that reads, reserves if it can, issues, and declines when it was refused.\<close>

definition sensible :: model where
  "sensible messages tools =
     (let n = replies_so_far messages;
          offered = map tl_name tools;
          issue = filter (\<lambda>name. take 6 name = ''issue_'') offered;
          names = (if n = 0 then [''read_compensation'']
                   else if ''reserve_budget'' \<in> set offered \<and> n = 1 then [''reserve_budget'']
                   else if n < 3 then take 1 issue else [''decline''])
      in Inr \<lparr>mr_tool_calls = map (\<lambda>name. \<lparr>tc_id = name, tc_name = name, tc_arguments = J_Object []\<rparr>) names, mr_text = None\<rparr>)"

definition arm_order :: "(nat \<times> conditions) list" where
  "arm_order = calm_steps 2 0 @ calm_steps 2 1 @ calm_steps 3 0 @ calm_steps 3 1"

lemma sensible_prudent: "action \<in> {''refund'', ''credit''} \<Longrightarrow> prudent action sensible"
  unfolding prudent_def sensible_def Let_def single_minded_def
  by (auto dest!: in_set_takeD)



lemma arm_d_ends: "\<exists>r. run_arm ''c'' sensible True 1000 600 500 arm_order = Some r"
  using breaching_600_500
  by (simp add: run_arm_def arm_order_def arm_seats_def arm_job_def arm_clients_def arm_key_def sensible_def tools_of_def
      race_verdict control_eval llm_eval llm_seat_def map_filter_simps evaluate_committed)

theorem arm_with_reservations_is_clean_witness:
  "case run_arm ''c'' sensible True 1000 600 500 arm_order of None \<Rightarrow> False
     | Some r \<Rightarrow> ar_verdict r = CLEAN \<and> ar_committed_total r \<le> 1000"
  using arm_with_reservations_is_clean [of sensible 1000 "''c''" 600 500 arm_order] arm_d_ends
  by (auto simp: sensible_prudent)

end
