(* ===== verification/Pool.thy ===== *)
theory Pool
  imports Runner "HOL-Library.Multiset"
begin

text \<open>
  The pool of agent processes, \<^verbatim>\<open>agents/diligent/pool.py\<close>: a queue of jobs, a queue of
  results, and workers that take one job after the other. What a job itself does is the
  subject of the other theories; here it is a number of results and perhaps an exception.
\<close>

section \<open>What a job reports\<close>

text \<open>
  What happens to a job outside the pool's control: setting it up may raise, the work ends in
  one of two ways, and closing its connections may raise.
\<close>

record job_fate =
  setup_raises :: bool
  work_ends :: actor_outcome
  close_raises :: bool

definition job_actor :: "pool_job \<Rightarrow> string" where
  "job_actor job = (case job of Run_Redeliver actor _ _ \<Rightarrow> actor | Run_Projector actor _ _ _ \<Rightarrow> actor
     | Run_Diligent d \<Rightarrow> ds_actor d)"

text \<open>\<open>_run_job\<close>: the results it puts, and whether it raises. A redelivery closes nothing.\<close>

definition run_job :: "(pool_job \<Rightarrow> job_fate) \<Rightarrow> pool_job \<Rightarrow> (actor_outcome \<times> string) list \<times> bool" where
  "run_job fate job =
     (if setup_raises (fate job) then ([], True)
      else ([(work_ends (fate job), job_actor job)],
        (case job of Run_Redeliver _ _ _ \<Rightarrow> False | _ \<Rightarrow> close_raises (fate job))))"

text \<open>\<open>_worker\<close> turns an exception that escapes from the job into a result.\<close>

definition worker_results :: "(pool_job \<Rightarrow> job_fate) \<Rightarrow> pool_job \<Rightarrow> (actor_outcome \<times> string) list" where
  "worker_results fate job =
     (case run_job fate job of (rs, raised) \<Rightarrow> rs @ (if raised then [(Actor_Error, job_actor job)] else []))"

section \<open>Queues and workers\<close>

datatype pool_item = Shut_Down | Job pool_job

text \<open>A worker waits for an item, has results still to put, or has returned.\<close>

datatype worker = Idle | Working "(actor_outcome \<times> string) list" | Gone

record pool =
  po_inbox :: "pool_item list"
  po_outbox :: "(actor_outcome \<times> string) list"
  po_workers :: "worker list"

definition make_pool :: "nat \<Rightarrow> pool" where
  "make_pool size' = \<lparr>po_inbox = [], po_outbox = [], po_workers = replicate size' Idle\<rparr>"

definition dispatch_job :: "pool_job \<Rightarrow> pool \<Rightarrow> pool" where
  "dispatch_job job p = p\<lparr>po_inbox := po_inbox p @ [Job job]\<rparr>"

text \<open>\<open>collect\<close> takes results in the order they were put; \<open>None\<close> while there are too few.\<close>

definition collect_results :: "nat \<Rightarrow> pool \<Rightarrow> ((actor_outcome \<times> string) list \<times> pool) option" where
  "collect_results n p = (if length (po_outbox p) < n then None
     else Some (take n (po_outbox p), p\<lparr>po_outbox := drop n (po_outbox p)\<rparr>))"

definition live_workers :: "pool \<Rightarrow> nat" where
  "live_workers p = length (filter (\<lambda>w. w \<noteq> Gone) (po_workers p))"

text \<open>The next thing worker \<open>i\<close> does.\<close>

definition pool_step :: "(pool_job \<Rightarrow> job_fate) \<Rightarrow> nat \<Rightarrow> pool \<Rightarrow> pool" where
  "pool_step fate i p =
     (if i \<ge> length (po_workers p) then p
      else (case po_workers p ! i of
          Gone \<Rightarrow> p
        | Working [] \<Rightarrow> p\<lparr>po_workers := (po_workers p)[i := Idle]\<rparr>
        | Working (r # rs) \<Rightarrow> p\<lparr>po_workers := (po_workers p)[i := Working rs], po_outbox := po_outbox p @ [r]\<rparr>
        | Idle \<Rightarrow> (case po_inbox p of
              [] \<Rightarrow> p
            | Shut_Down # items \<Rightarrow> p\<lparr>po_workers := (po_workers p)[i := Gone], po_inbox := items\<rparr>
            | Job job # items \<Rightarrow>
                p\<lparr>po_workers := (po_workers p)[i := Working (worker_results fate job)], po_inbox := items\<rparr>)))"

definition pool_run :: "(pool_job \<Rightarrow> job_fate) \<Rightarrow> nat list \<Rightarrow> pool \<Rightarrow> pool" where
  "pool_run fate choices p = fold (pool_step fate) choices p"

text \<open>
  \<open>shutdown\<close>. One shutdown item per worker goes behind what is queued; then each worker in turn is
  given \<open>timeout\<close> seconds to end. While it is waited for, all workers go on: \<open>fst (waits i)\<close> are
  their steps during \<open>w.join(timeout)\<close> for worker \<open>i\<close>, \<open>snd (waits i)\<close> those during the join after
  \<open>terminate\<close>. How much the operating system lets them do in that time is arbitrary, so a worker
  may well be busy when its time is up. It is then killed: what it has not put into the outbox is
  lost, and the job it was running with it.
\<close>

definition put_shutdowns :: "pool \<Rightarrow> pool" where
  "put_shutdowns p = p\<lparr>po_inbox := po_inbox p @ map (\<lambda>_. Shut_Down) (po_workers p)\<rparr>"

definition is_alive :: "nat \<Rightarrow> pool \<Rightarrow> bool" where
  "is_alive i p \<longleftrightarrow> po_workers p ! i \<noteq> Gone"

definition terminate :: "nat \<Rightarrow> pool \<Rightarrow> pool" where
  "terminate i p = p\<lparr>po_workers := (po_workers p)[i := Gone]\<rparr>"

definition join_worker :: "(pool_job \<Rightarrow> job_fate) \<Rightarrow> (nat \<Rightarrow> nat list \<times> nat list) \<Rightarrow> nat \<Rightarrow> pool \<Rightarrow> pool" where
  "join_worker fate waits i p =
     (let p = pool_run fate (fst (waits i)) p
      in if is_alive i p then pool_run fate (snd (waits i)) (terminate i p) else p)"

definition shutdown_pool :: "(pool_job \<Rightarrow> job_fate) \<Rightarrow> (nat \<Rightarrow> nat list \<times> nat list) \<Rightarrow> pool \<Rightarrow> pool" where
  "shutdown_pool fate waits p = fold (join_worker fate waits) [0..<length (po_workers p)] (put_shutdowns p)"

definition pool_enabled :: "pool \<Rightarrow> nat \<Rightarrow> bool" where
  "pool_enabled p i \<longleftrightarrow> i < length (po_workers p) \<and>
     (case po_workers p ! i of Gone \<Rightarrow> False | Working rs \<Rightarrow> True | Idle \<Rightarrow> po_inbox p \<noteq> [])"

text \<open>Nothing is left for any worker to do.\<close>

definition pool_quiet :: "pool \<Rightarrow> bool" where
  "pool_quiet p \<longleftrightarrow> (\<forall>w\<in>set (po_workers p). w = Gone \<or> w = Idle \<and> po_inbox p = [])"

fun pool_effective :: "(pool_job \<Rightarrow> job_fate) \<Rightarrow> nat list \<Rightarrow> pool \<Rightarrow> nat" where
  "pool_effective fate [] p = 0"
| "pool_effective fate (i # choices) p = (if pool_enabled p i then 1 else 0) + pool_effective fate choices (pool_step fate i p)"

lemma quiet_not_enabled: "pool_quiet p \<longleftrightarrow> (\<forall>i. \<not> pool_enabled p i)"
proof -
  have "pool_quiet p \<longleftrightarrow> (\<forall>i<length (po_workers p). po_workers p ! i = Gone \<or> po_workers p ! i = Idle \<and> po_inbox p = [])"
    by (simp add: pool_quiet_def all_set_conv_all_nth)
  also have "\<dots> \<longleftrightarrow> (\<forall>i. \<not> pool_enabled p i)"
    by (intro iff_allI) (auto simp: pool_enabled_def split: worker.split)
  finally show ?thesis .
qed

section \<open>Nothing is lost\<close>

text \<open>The results of a queued item, and those a worker has still to put.\<close>

definition item_results :: "(pool_job \<Rightarrow> job_fate) \<Rightarrow> pool_item \<Rightarrow> (actor_outcome \<times> string) list" where
  "item_results fate x = (case x of Shut_Down \<Rightarrow> [] | Job job \<Rightarrow> worker_results fate job)"

definition held_results :: "worker \<Rightarrow> (actor_outcome \<times> string) list" where
  "held_results w = (case w of Working rs \<Rightarrow> rs | _ \<Rightarrow> [])"

definition all_results :: "(pool_job \<Rightarrow> job_fate) \<Rightarrow> pool \<Rightarrow> (actor_outcome \<times> string) multiset" where
  "all_results fate p = mset (po_outbox p) + mset (concat (map held_results (po_workers p))) +
     mset (concat (map (item_results fate) (po_inbox p)))"

text \<open>The steps ahead: two for a job beside its results, one for a shutdown.\<close>

definition item_work :: "(pool_job \<Rightarrow> job_fate) \<Rightarrow> pool_item \<Rightarrow> nat" where
  "item_work fate x = (case x of Shut_Down \<Rightarrow> 1 | Job job \<Rightarrow> 2 + length (worker_results fate job))"

definition held_work :: "worker \<Rightarrow> nat" where
  "held_work w = (case w of Working rs \<Rightarrow> 1 + length rs | _ \<Rightarrow> 0)"

definition pool_work :: "(pool_job \<Rightarrow> job_fate) \<Rightarrow> pool \<Rightarrow> nat" where
  "pool_work fate p = sum_list (map held_work (po_workers p)) + sum_list (map (item_work fate) (po_inbox p))"

lemma concat_update:
  "i < length ws \<Longrightarrow> mset (concat (map f (ws[i := w]))) + mset (f (ws ! i)) = mset (concat (map f ws)) + mset (f w)"
proof (induction ws arbitrary: i)
  case (Cons a ws)
  then show ?case by (cases i) (auto simp: add.assoc)
qed simp

lemma sum_update:
  fixes f :: "'w \<Rightarrow> nat"
  shows "i < length ws \<Longrightarrow> sum_list (map f (ws[i := w])) + f (ws ! i) = sum_list (map f ws) + f w"
proof (induction ws arbitrary: i)
  case (Cons a ws)
  then show ?case by (cases i) auto
qed simp

lemmas pool_parts = all_results_def pool_work_def held_results_def item_results_def held_work_def item_work_def

lemma pool_step_results: "all_results fate (pool_step fate i p) = all_results fate p"
proof (cases "i < length (po_workers p)")
  case True
  note C = concat_update [OF True, of held_results]
  show ?thesis
  proof (cases "po_workers p ! i")
    case Idle
    then show ?thesis
      using True C [of Gone] C [of "Working (worker_results fate j)" for j]
      by (auto simp: pool_step_def all_results_def held_results_def item_results_def ac_simps
          split: list.splits pool_item.splits)
  next
    case (Working rs)
    then show ?thesis
      using True C [of Idle] C [of "Working (tl rs)"]
      by (cases rs) (auto simp: pool_step_def all_results_def held_results_def ac_simps)
  qed (simp add: pool_step_def)
qed (simp add: pool_step_def)

lemma pool_step_work:
  "pool_work fate p = (if pool_enabled p i then 1 else 0) + pool_work fate (pool_step fate i p)"
proof (cases "i < length (po_workers p)")
  case True
  note S = sum_update [OF True, of held_work]
  show ?thesis
  proof (cases "po_workers p ! i")
    case Idle
    then show ?thesis
      using True S [of Gone] S [of "Working (worker_results fate j)" for j]
      by (auto simp: pool_step_def pool_enabled_def pool_work_def held_work_def item_work_def
          split: list.splits pool_item.splits)
  next
    case (Working rs)
    then show ?thesis
      using True S [of Idle] S [of "Working (tl rs)"]
      by (cases rs) (auto simp: pool_step_def pool_enabled_def pool_work_def held_work_def)
  qed (simp add: pool_step_def pool_enabled_def)
qed (simp add: pool_step_def pool_enabled_def)

lemma pool_run_Cons: "pool_run fate (i # choices) p = pool_run fate choices (pool_step fate i p)"
  by (simp add: pool_run_def)

lemma pool_run_results: "all_results fate (pool_run fate choices p) = all_results fate p"
proof (induction "choices" arbitrary: p)
  case (Cons i choices)
  then show ?case by (simp add: pool_run_Cons pool_step_results)
qed (simp add: pool_run_def)

lemma pool_run_work: "pool_work fate p = pool_effective fate choices p + pool_work fate (pool_run fate choices p)"
proof (induction "choices" arbitrary: p)
  case (Cons i choices)
  from pool_step_work [of fate p i] Cons [of "pool_step fate i p"]
  show ?case by (simp add: pool_run_Cons)
qed (simp add: pool_run_def)

section \<open>One schedule run\<close>

text \<open>The queue after the runner has dispatched its jobs, and after the shutdown.\<close>

definition dispatched :: "pool_job list \<Rightarrow> nat \<Rightarrow> pool" where
  "dispatched jobs n = fold dispatch_job jobs (make_pool n)"

lemma dispatched_eq: "dispatched jobs n = \<lparr>po_inbox = map Job jobs, po_outbox = [], po_workers = replicate n Idle\<rparr>"
proof -
  have "fold dispatch_job jobs p = p\<lparr>po_inbox := po_inbox p @ map Job jobs\<rparr>" for p
    by (induction jobs arbitrary: p) (simp_all add: dispatch_job_def)
  then show ?thesis by (simp add: dispatched_def make_pool_def)
qed

text \<open>Before the shutdown only jobs are queued, and no worker is gone.\<close>

definition pool_inv :: "nat \<Rightarrow> pool \<Rightarrow> bool" where
  "pool_inv n p \<longleftrightarrow> length (po_workers p) = n \<and> Shut_Down \<notin> set (po_inbox p) \<and> Gone \<notin> set (po_workers p)"

lemma count_list_update:
  "i < length ws \<Longrightarrow> count_list (ws[i := w]) x + (if ws ! i = x then 1 else 0) = count_list ws x + (if w = x then 1 else 0)"
proof (induction ws arbitrary: i)
  case (Cons a ws)
  show ?case
  proof (cases i)
    case (Suc k)
    with Cons.prems have "k < length ws" by simp
    from Cons.IH [OF this] show ?thesis by (auto simp: Suc split: if_splits)
  qed simp
qed simp

lemma pool_step_inv: "pool_inv n p \<Longrightarrow> pool_inv n (pool_step fate i p)"
  by (auto simp: pool_inv_def pool_step_def split: worker.split list.split pool_item.split
      dest!: set_update_subset_insert [THEN subsetD])

lemma pool_run_inv: "pool_inv n p \<Longrightarrow> pool_inv n (pool_run fate choices p)"
  by (induction choices arbitrary: p) (simp_all add: pool_run_Cons pool_step_inv, simp add: pool_run_def)

lemma pool_inv_start: "pool_inv n (dispatched jobs n)"
  by (auto simp: pool_inv_def dispatched_eq)

lemma results_le_2: "length (worker_results fate job) \<le> 2"
  by (simp add: worker_results_def run_job_def split: pool_job.split)

lemma start_results: "all_results fate (dispatched jobs n) = mset (concat (map (worker_results fate) jobs))"
proof -
  have "concat (map held_results (replicate n Idle)) = []" by (induction n) (simp_all add: held_results_def)
  moreover have "map (item_results fate) (map Job jobs) = map (worker_results fate) jobs" by (simp add: item_results_def)
  ultimately show ?thesis unfolding all_results_def by (simp add: dispatched_eq del: map_map)
qed

lemma start_work: "pool_work fate (dispatched jobs n) \<le> 4 * length jobs"
proof -
  have "sum_list (map (\<lambda>job. 2 + length (worker_results fate job)) jobs) \<le> 4 * length jobs"
  proof (induction jobs)
    case (Cons job jobs)
    then show ?case using results_le_2 [of fate job] by simp
  qed simp
  moreover have "map (item_work fate) (map Job jobs) = map (\<lambda>job. 2 + length (worker_results fate job)) jobs"
    by (simp add: item_work_def)
  ultimately show ?thesis
    by (simp add: pool_work_def dispatched_eq held_work_def sum_list_replicate del: map_map)
qed

lemma some_result: "worker_results fate job \<noteq> []"
  by (simp add: worker_results_def run_job_def)

lemma quiet_pool:
  assumes "0 < n" "pool_inv n p" "pool_quiet p"
  shows "po_inbox p = []" "w \<in> set (po_workers p) \<Longrightarrow> w = Idle"
proof -
  show idle: "w = Idle" if "w \<in> set (po_workers p)" for w using that assms(2,3) by (auto simp: pool_inv_def pool_quiet_def)
  have "po_workers p ! 0 \<in> set (po_workers p)" using assms(1,2) by (simp add: pool_inv_def)
  with idle [OF this] show "po_inbox p = []" using assms(3) by (auto simp: pool_quiet_def)
qed

section \<open>Shutting down\<close>

text \<open>A worker that has ended stays ended, and no step makes or ends another worker.\<close>

lemma pool_step_gone:
  "length (po_workers (pool_step fate i p)) = length (po_workers p)"
  "j < length (po_workers p) \<Longrightarrow> po_workers p ! j = Gone \<Longrightarrow> po_workers (pool_step fate i p) ! j = Gone"
  by (auto simp: pool_step_def nth_list_update split: worker.split list.split pool_item.split)

lemma pool_run_gone:
  "length (po_workers (pool_run fate choices p)) = length (po_workers p)"
  "j < length (po_workers p) \<Longrightarrow> po_workers p ! j = Gone \<Longrightarrow> po_workers (pool_run fate choices p) ! j = Gone"
  by (induction choices arbitrary: p) (simp_all add: pool_run_Cons pool_step_gone, simp_all add: pool_run_def)

lemma join_worker_gone:
  "length (po_workers (join_worker fate waits i p)) = length (po_workers p)"
  "j < length (po_workers p) \<Longrightarrow> j = i \<or> po_workers p ! j = Gone \<Longrightarrow> po_workers (join_worker fate waits i p) ! j = Gone"
proof -
  let ?q = "pool_run fate (fst (waits i)) p"
  have len: "length (po_workers (terminate i ?q)) = length (po_workers p)" by (simp add: terminate_def pool_run_gone)
  then show "length (po_workers (join_worker fate waits i p)) = length (po_workers p)"
    by (simp add: join_worker_def Let_def pool_run_gone)
  assume j: "j < length (po_workers p)" "j = i \<or> po_workers p ! j = Gone"
  then have "po_workers p ! j = Gone \<Longrightarrow> po_workers ?q ! j = Gone" by (simp add: pool_run_gone)
  with j len have "po_workers (terminate i ?q) ! j = Gone"
    by (cases "j = i") (auto simp: terminate_def nth_list_update)
  with j len show "po_workers (join_worker fate waits i p) ! j = Gone"
    by (auto simp: join_worker_def is_alive_def Let_def pool_run_gone)
qed

lemma joins_gone:
  "length (po_workers (fold (join_worker fate waits) js p)) = length (po_workers p)"
  "j < length (po_workers p) \<Longrightarrow> j \<in> set js \<or> po_workers p ! j = Gone \<Longrightarrow>
     po_workers (fold (join_worker fate waits) js p) ! j = Gone"
  by (induction js arbitrary: p) (auto simp: join_worker_gone)

lemma shutdown_ends_all: "live_workers (shutdown_pool fate waits p) = 0"
proof -
  let ?q = "put_shutdowns p"
  have len: "length (po_workers ?q) = length (po_workers p)" by (simp add: put_shutdowns_def)
  then have "\<forall>j<length (po_workers p). po_workers (shutdown_pool fate waits p) ! j = Gone"
    by (simp add: shutdown_pool_def joins_gone)
  moreover have "length (po_workers (shutdown_pool fate waits p)) = length (po_workers p)"
    by (simp add: shutdown_pool_def joins_gone len)
  ultimately show ?thesis by (simp add: live_workers_def filter_empty_conv all_set_conv_all_nth)
qed

text \<open>Killing a worker loses results, and invents none.\<close>

lemma terminate_results: "all_results fate (terminate i p) \<subseteq># all_results fate p"
proof (cases "i < length (po_workers p)")
  case True
  from concat_update [OF this, of held_results Gone]
  have "mset (concat (map held_results ((po_workers p)[i := Gone]))) \<subseteq># mset (concat (map held_results (po_workers p)))"
    by (metis add_0_right held_results_def mset.simps(1) mset_subset_eq_add_left worker.simps(10))
  then show ?thesis by (simp add: all_results_def terminate_def)
qed (simp add: terminate_def list_update_beyond)

lemma join_worker_results: "all_results fate (join_worker fate waits i p) \<subseteq># all_results fate p"
  using terminate_results [of fate i "pool_run fate (fst (waits i)) p"]
  by (simp add: join_worker_def pool_run_results Let_def)

lemma shutdown_results: "all_results fate (shutdown_pool fate waits p) \<subseteq># all_results fate p"
proof -
  have "all_results fate (fold (join_worker fate waits) js q) \<subseteq># all_results fate q" for js q
    by (induction js arbitrary: q) (auto intro: subset_mset.order_trans join_worker_results)
  moreover have "all_results fate (put_shutdowns p) = all_results fate p"
    by (simp add: all_results_def put_shutdowns_def map_replicate_const item_results_def)
  ultimately show ?thesis by (metis shutdown_pool_def)
qed

text \<open>A pool with nothing left to do but to end puts nothing more and has nothing to lose.\<close>

definition drained :: "pool \<Rightarrow> bool" where
  "drained p \<longleftrightarrow> set (po_inbox p) \<subseteq> {Shut_Down} \<and> set (po_workers p) \<subseteq> {Idle, Gone}"

lemma drained_step: "drained p \<Longrightarrow> drained (pool_step fate i p) \<and> po_outbox (pool_step fate i p) = po_outbox p"
proof -
  assume D: "drained p"
  show ?thesis
  proof (cases "i < length (po_workers p)")
    case True
    then have "po_workers p ! i \<in> {Idle, Gone}" using D nth_mem by (auto simp: drained_def)
    then show ?thesis
      using D by (auto simp: drained_def pool_step_def split: list.split pool_item.split
          dest!: set_update_subset_insert [THEN subsetD])
  qed (use D in \<open>simp add: pool_step_def\<close>)
qed

lemma drained_run: "drained p \<Longrightarrow> drained (pool_run fate choices p) \<and> po_outbox (pool_run fate choices p) = po_outbox p"
  by (induction choices arbitrary: p) (simp_all add: pool_run_Cons drained_step, simp add: pool_run_def)

lemma drained_join:
  assumes "drained p"
  shows "drained (join_worker fate waits i p) \<and> po_outbox (join_worker fate waits i p) = po_outbox p"
proof -
  let ?q = "pool_run fate (fst (waits i)) p"
  have "drained ?q" "po_outbox ?q = po_outbox p" using drained_run [OF assms] by blast+
  moreover from this(1) have "drained (terminate i ?q)"
    by (auto simp: drained_def terminate_def dest!: set_update_subset_insert [THEN subsetD])
  moreover have "po_outbox (terminate i ?q) = po_outbox ?q" by (simp add: terminate_def)
  ultimately show ?thesis using drained_run by (simp add: join_worker_def Let_def)
qed

lemma drained_shutdown:
  assumes "drained p"
  shows "po_outbox (shutdown_pool fate waits p) = po_outbox p"
proof -
  have "drained q \<Longrightarrow> po_outbox (fold (join_worker fate waits) js q) = po_outbox q" for js q
    by (induction js arbitrary: q) (simp_all add: drained_join)
  moreover have "drained (put_shutdowns p)" using assms by (auto simp: drained_def put_shutdowns_def)
  ultimately show ?thesis by (simp add: shutdown_pool_def put_shutdowns_def)
qed

text \<open>
  C31. Dispatching, collecting and shutting down. However the operating system runs the workers
  (\<open>choices\<close>), and whatever raises where, the workers of a pool that is not empty take at most
  four steps per job, those that do something counted, before there is nothing left to do. Then no job is queued, the outbox holds
  the results of all jobs and nothing else, and since every job has one at least, collecting one
  per job returns. However long the joins of a shutdown at any moment let the workers run
  (\<open>waits\<close>), after it no worker is left, and what is in the outbox are results of the jobs: a
  worker that is killed loses its own and invents none. Shutting down a pool with nothing left to
  do changes nothing in the outbox.
\<close>

theorem pool_finishes_every_job:
  assumes "0 < n" and "p = pool_run fate choices (dispatched jobs n)"
  shows "pool_effective fate choices (dispatched jobs n) \<le> 4 * length jobs
    \<and> (pool_quiet p \<longrightarrow> po_inbox p = []
        \<and> mset (po_outbox p) = mset (concat (map (worker_results fate) jobs))
        \<and> collect_results (length jobs) p \<noteq> None)
    \<and> (\<forall>waits. live_workers (shutdown_pool fate waits p) = 0
        \<and> mset (po_outbox (shutdown_pool fate waits p)) \<subseteq># mset (concat (map (worker_results fate) jobs))
        \<and> (pool_quiet p \<longrightarrow> po_outbox (shutdown_pool fate waits p) = po_outbox p))"
proof -
  have I: "pool_inv n p" unfolding assms(2) by (intro pool_run_inv pool_inv_start)
  have R: "all_results fate p = mset (concat (map (worker_results fate) jobs))"
    using assms(2) by (simp add: pool_run_results start_results)
  have steps: "pool_effective fate choices (dispatched jobs n) \<le> 4 * length jobs"
    using start_work [of fate jobs n] pool_run_work [of fate "dispatched jobs n" choices] by linarith
  have quiet: "po_inbox p = []" "drained p" "mset (po_outbox p) = mset (concat (map (worker_results fate) jobs))"
    if "pool_quiet p"
  proof -
    note Q = quiet_pool [OF assms(1) I that]
    show "po_inbox p = []" by (rule Q)
    then show "drained p" using Q(2) by (auto simp: drained_def)
    have "\<forall>w\<in>set (po_workers p). held_results w = []" using Q(2) by (metis held_results_def worker.simps(8))
    then have none: "concat (map held_results (po_workers p)) = []" by simp
    then show "mset (po_outbox p) = mset (concat (map (worker_results fate) jobs))"
      using R unfolding all_results_def Q(1) none by simp
  qed
  have "length jobs \<le> length (concat (map (worker_results fate) jobs))"
  proof (induction jobs)
    case (Cons job jobs)
    then show ?case using some_result [of fate job] by (cases "worker_results fate job") simp_all
  qed simp
  then have "pool_quiet p \<longrightarrow> collect_results (length jobs) p \<noteq> None"
    using quiet(3) by (metis collect_results_def leD option.distinct(1) size_mset)
  moreover have "mset (po_outbox (shutdown_pool fate waits p)) \<subseteq># mset (concat (map (worker_results fate) jobs))" for waits
    using shutdown_results [of fate waits p] unfolding R
    by (metis all_results_def mset_subset_eq_add_left subset_mset.order_trans)
  ultimately show ?thesis using steps quiet drained_shutdown shutdown_ends_all by blast
qed

theorem pool_finishes_every_job_witness:
  "let fate = (\<lambda>_. \<lparr>setup_raises = False, work_ends = Actor_Ok, close_raises = False\<rparr>);
       p = pool_run fate [1, 1, 1] (dispatched [Run_Redeliver ''R'' ''S'' ''c''] 2)
   in pool_quiet p \<and> po_outbox p = [(Actor_Ok, ''R'')]
      \<and> po_outbox (shutdown_pool fate (\<lambda>_. ([], [])) p) = [(Actor_Ok, ''R'')]"
proof -
  let ?fate = "\<lambda>_ :: pool_job. \<lparr>setup_raises = False, work_ends = Actor_Ok, close_raises = False\<rparr>"
  let ?p = "pool_run ?fate [1, 1, 1] (dispatched [Run_Redeliver ''R'' ''S'' ''c''] 2)"
  have "pool_quiet ?p \<and> po_outbox ?p = [(Actor_Ok, ''R'')]"
    by (simp add: dispatched_eq pool_run_def pool_step_def worker_results_def run_job_def job_actor_def pool_quiet_def
        eval_nat_numeral)
  moreover from this have "po_outbox (shutdown_pool ?fate (\<lambda>_. ([], [])) ?p) = po_outbox ?p"
    using pool_finishes_every_job [of 2 ?p ?fate "[1, 1, 1]" "[Run_Redeliver ''R'' ''S'' ''c'']"] by simp
  ultimately show ?thesis unfolding Let_def by simp
qed

text \<open>
  Shut down before the results are in, the pool does lose some: the one worker is still in its
  first job when its time is up, and neither that job nor the queued one is ever reported.
\<close>

lemma early_shutdown_loses_jobs:
  assumes "waits = (\<lambda>_. ([0], []))"
  shows "po_outbox (shutdown_pool fate waits (dispatched [job, job'] 1)) = []
    \<and> po_inbox (shutdown_pool fate waits (dispatched [job, job'] 1)) = [Job job', Shut_Down]"
  using assms by (simp add: shutdown_pool_def put_shutdowns_def join_worker_def is_alive_def terminate_def dispatched_eq
      pool_run_def pool_step_def)

section \<open>What the runner collects\<close>

definition closes :: "(pool_job \<Rightarrow> job_fate) \<Rightarrow> pool_job \<Rightarrow> bool" where
  "closes fate job \<longleftrightarrow> setup_raises (fate job) \<or> \<not> close_raises (fate job)"

definition job_result :: "(pool_job \<Rightarrow> job_fate) \<Rightarrow> pool_job \<Rightarrow> actor_outcome \<times> string" where
  "job_result fate job = (if setup_raises (fate job) then Actor_Error else work_ends (fate job), job_actor job)"

lemma closes_result: "closes fate job \<Longrightarrow> worker_results fate job = [job_result fate job]"
  by (auto simp: closes_def worker_results_def run_job_def job_result_def split: pool_job.split)

text \<open>
  If closing a job's connections never raises, the runner's answer is one result per actor
  and every actor has ended: whenever \<open>collect\<close> returns, in whatever order the workers ran, its
  results are those of the dispatched jobs, one each, no job is queued, and no result is
  outstanding.
\<close>

lemma collect_is_one_result_per_actor:
  assumes "\<And>job. job \<in> set jobs \<Longrightarrow> closes fate job"
    and "collect_results (length jobs) (pool_run fate choices (dispatched jobs n)) = Some (rs, p)"
  shows "mset rs = mset (map (job_result fate) jobs) \<and> po_outbox p = [] \<and> po_inbox p = []
    \<and> (\<forall>w\<in>set (po_workers p). held_results w = [])"
proof -
  let ?q = "pool_run fate choices (dispatched jobs n)"
  have all: "concat (map (worker_results fate) jobs) = map (job_result fate) jobs"
    using assms(1) by (induction jobs) (simp_all add: closes_result)
  have R: "mset (po_outbox ?q) + mset (concat (map held_results (po_workers ?q))) +
      mset (concat (map (item_results fate) (po_inbox ?q))) = mset (map (job_result fate) jobs)" (is "?o + ?h + ?i = _")
    using pool_run_results [of fate choices "dispatched jobs n"] unfolding start_results all by (simp add: all_results_def)
  have C: "length jobs \<le> length (po_outbox ?q)" "rs = take (length jobs) (po_outbox ?q)"
    "p = ?q\<lparr>po_outbox := drop (length jobs) (po_outbox ?q)\<rparr>"
    using assms(2) by (auto simp: collect_results_def split: if_splits)
  have "size ?o + size ?h + size ?i = length jobs" using R by (metis length_map size_mset size_union)
  moreover have "length jobs \<le> size ?o" using C(1) by simp
  ultimately have "size ?o = length jobs \<and> size ?h = 0 \<and> size ?i = 0" by linarith
  then have small: "size ?o = length jobs" "?h = {#}" "?i = {#}" by (metis size_eq_0_iff_empty)+
  have "pool_inv n ?q" by (intro pool_run_inv pool_inv_start)
  then have "Shut_Down \<notin> set (po_inbox ?q)" by (simp add: pool_inv_def)
  then have inbox: "po_inbox ?q = []"
    using small(3) some_result [of fate] by (cases "po_inbox ?q") (auto simp: item_results_def split: pool_item.splits)
  have out: "?o = mset (map (job_result fate) jobs)" using R unfolding small(2,3) by simp
  have "held_results w = []" if "w \<in> set (po_workers ?q)" for w using small(2) that by simp
  moreover have "length (po_outbox ?q) = length jobs" using small(1) unfolding size_mset .
  ultimately show ?thesis using out C inbox by simp
qed

text \<open>
  Without that condition it is not: when the connections of the first job cannot be closed its
  worker reports it twice, as ok and as crashed, and with two actors the collection is complete
  although the second one has not started.
\<close>

lemma failed_close_hides_an_actor:
  assumes "\<not> setup_raises (fate (Run_Diligent d))" "close_raises (fate (Run_Diligent d))"
  shows "collect_results 2 (pool_run fate [0, 0, 0] (dispatched [Run_Diligent d, job] 2)) =
    Some ([(work_ends (fate (Run_Diligent d)), ds_actor d), (Actor_Error, ds_actor d)],
      \<lparr>po_inbox = [Job job], po_outbox = [], po_workers = [Working [], Idle]\<rparr>)"
  using assms by (simp add: collect_results_def dispatched_eq pool_run_def pool_step_def worker_results_def run_job_def
      job_actor_def eval_nat_numeral)

text \<open>
  A pool as large as the run has actors never makes an actor wait for another one to finish,
  which under a schedule would be a deadlock: while a job is queued there is a worker waiting.
\<close>

definition roomy :: "pool \<Rightarrow> bool" where
  "roomy p \<longleftrightarrow> length (po_inbox p) \<le> count_list (po_workers p) Idle"

lemma pool_step_roomy: "roomy p \<Longrightarrow> roomy (pool_step fate i p)"
proof (cases "i < length (po_workers p)")
  case True
  assume R: "roomy p"
  note C = count_list_update [OF True, of _ Idle]
  show ?thesis
  proof (cases "po_workers p ! i")
    case Idle
    then have "count_list (po_workers p) Idle \<le> Suc (count_list ((po_workers p)[i := w]) Idle)" for w
      using C [of w] by simp
    note lose = this
    show ?thesis
    proof (cases "po_inbox p")
      case (Cons x items)
      have "length items \<le> count_list ((po_workers p)[i := w]) Idle" for w
        using R lose [of w] Cons by (simp add: roomy_def)
      then show ?thesis using True Idle Cons by (simp add: pool_step_def roomy_def split: pool_item.split)
    qed (use Idle R in \<open>simp add: pool_step_def\<close>)
  next
    case (Working rs)
    then show ?thesis
      using True R C [of Idle] C [of "Working (tl rs)"] by (cases rs) (auto simp: pool_step_def roomy_def)
  qed (use R in \<open>simp add: pool_step_def\<close>)
qed (simp add: pool_step_def)

lemma no_actor_waits_for_a_worker:
  assumes "length jobs \<le> n" "p = pool_run fate choices (dispatched jobs n)" "po_inbox p \<noteq> []"
  shows "Idle \<in> set (po_workers p)"
proof -
  have "count_list (replicate n Idle) Idle = n" by (induction n) simp_all
  then have "roomy (dispatched jobs n)" using assms(1) by (simp add: roomy_def dispatched_eq)
  then have "roomy (pool_run fate choices (dispatched jobs n))"
    unfolding pool_run_def by (induction choices arbitrary: jobs n rule: rev_induct) (simp_all add: pool_step_roomy)
  then have "0 < count_list (po_workers p) Idle" using assms(2,3) by (cases "po_inbox p") (auto simp: roomy_def)
  then show ?thesis by (metis count_list_0_iff less_irrefl)
qed

end
