(* ===== verification/Propagation.thy ===== *)
theory Propagation
  imports Services
begin

text \<open>
  Identity from a caller to a service: what the caller's client writes into the headers
  (\<open>outbound_headers\<close>) and what the service's middleware reads out of them (\<open>actor_context\<close>).
  Between the two are the HTTP client and the ASGI server, which are libraries: \<open>wire\<close> is the
  header list that the server hands on for the one that the client was given, and \<open>http_wire\<close> is
  what is relied on of it. Characters are bytes here, so the middleware's \<open>decode\<close> is the identity
  on the values that \<open>http_wire\<close> speaks of, which are ASCII; of other values nothing is said.
\<close>

section \<open>Headers in transit\<close>

text \<open>The values a header field carries unchanged: printable ASCII with no space at either end.\<close>

definition header_safe :: "string \<Rightarrow> bool" where
  "header_safe v \<longleftrightarrow> list_all (\<lambda>c. 32 \<le> (of_char c :: nat) \<and> (of_char c :: nat) \<le> 126) v \<and>
     (v \<noteq> [] \<longrightarrow> hd v \<noteq> CHR '' '' \<and> last v \<noteq> CHR '' '')"

text \<open>The dictionary that the middleware builds: of a repeated name the last value counts.\<close>

definition header_dict :: "header_list \<Rightarrow> string \<Rightarrow> string option" where
  "header_dict hs = map_of (rev hs)"

definition lowered :: "header_list \<Rightarrow> header_list" where
  "lowered = map (\<lambda>(n, v). (map lower_char n, v))"

text \<open>
  HTTP and ASGI: safe values arrive as they were sent, under names in lower case, and whatever
  headers client and server add on their own are not the three that the middleware reads.
\<close>

definition http_wire :: "(header_list \<Rightarrow> header_list) \<Rightarrow> bool" where
  "http_wire wire \<longleftrightarrow> (\<forall>hs. list_all (\<lambda>(n, v). header_safe v) hs \<longrightarrow>
     (\<forall>name\<in>{''x-actor-id'', ''x-schedule-id'', ''traceparent''}.
        header_dict (wire hs) name = header_dict (lowered hs) name))"

text \<open>One call of a service: the caller's context becomes headers, the callee binds them.\<close>

definition call_onwards ::
  "(header_list \<Rightarrow> header_list) \<Rightarrow> string option \<Rightarrow> (identity \<Rightarrow> 'r \<times> identity) \<Rightarrow> identity \<Rightarrow> identity \<Rightarrow>
     wire_error + 'r middleware_reply \<times> identity" where
  "call_onwards wire traceparent app callee ctx =
     (case outbound_headers ctx traceparent of Inl e \<Rightarrow> Inl e
      | Inr hs \<Rightarrow> Inr (actor_context True True (header_dict (wire hs)) app callee))"

lemma lower_chars [simp]:
  "lower_char CHR ''X'' = CHR ''x''"
  "lower_char CHR ''A'' = CHR ''a''"
  "lower_char CHR ''c'' = CHR ''c''"
  "lower_char CHR ''t'' = CHR ''t''"
  "lower_char CHR ''o'' = CHR ''o''"
  "lower_char CHR ''r'' = CHR ''r''"
  "lower_char CHR ''-'' = CHR ''-''"
  "lower_char CHR ''I'' = CHR ''i''"
  "lower_char CHR ''d'' = CHR ''d''"
  "lower_char CHR ''S'' = CHR ''s''"
  "lower_char CHR ''h'' = CHR ''h''"
  "lower_char CHR ''e'' = CHR ''e''"
  "lower_char CHR ''u'' = CHR ''u''"
  "lower_char CHR ''l'' = CHR ''l''"
  "lower_char CHR ''a'' = CHR ''a''"
  "lower_char CHR ''p'' = CHR ''p''"
  "lower_char CHR ''n'' = CHR ''n''"
  by code_simp+

text \<open>An identity, and a \<open>traceparent\<close>, that headers can carry.\<close>

definition sendable :: "identity \<Rightarrow> string option \<Rightarrow> bool" where
  "sendable ctx tp \<longleftrightarrow> pred_option header_safe (ctx_actor ctx) \<and> pred_option header_safe (ctx_schedule ctx) \<and>
     pred_option header_safe tp"

lemma outbound_lookup:
  assumes "http_wire wire" "sendable ctx tp" "outbound_headers ctx tp = Inr hs"
  shows "header_dict (wire hs) ''x-actor-id'' = ctx_actor ctx"
    "header_dict (wire hs) ''x-schedule-id'' = ctx_schedule ctx"
    "header_dict (wire hs) ''traceparent'' = (if falsy tp then None else tp)"
proof -
  have "list_all (\<lambda>(n, v). header_safe v) hs"
    using assms(2,3) by (cases tp) (auto simp: sendable_def outbound_headers_def split: option.splits if_splits)
  have the: "\<not> falsy tp \<Longrightarrow> Some (the tp) = tp" by (cases tp) simp_all
  have w: "header_dict (wire hs) name = header_dict (lowered hs) name"
    if "name \<in> {''x-actor-id'', ''x-schedule-id'', ''traceparent''}" for name
    using assms(1) \<open>list_all _ hs\<close> that unfolding http_wire_def by blast
  show "header_dict (wire hs) ''x-actor-id'' = ctx_actor ctx"
    "header_dict (wire hs) ''x-schedule-id'' = ctx_schedule ctx"
    "header_dict (wire hs) ''traceparent'' = (if falsy tp then None else tp)"
    unfolding w [OF insertI1] w [OF insertI2 [OF insertI1]] w [OF insertI2 [OF insertI2 [OF insertI1]]]
    using assms(3) the by (auto simp: outbound_headers_def header_dict_def lowered_def split: option.splits if_splits)
qed

text \<open>
  C33. Identity survives the wire. Let the caller's actor, schedule and \<open>traceparent\<close> be printable
  ASCII without a space at either end, and HTTP do what it promises for such headers. Then a
  caller with an identity reaches the service with that very identity bound, whatever was bound
  there before and is bound there again afterwards, with or without a trace; a caller without one
  cannot call; and an empty actor or schedule, which a caller may have, is rejected by the
  service with a 400 that names it, and its handler does not run.
\<close>

theorem identity_survives_the_wire:
  assumes "http_wire wire" "sendable ctx tp"
  shows "call_onwards wire tp app callee ctx =
     (case (ctx_actor ctx, ctx_schedule ctx) of
        (Some a, Some s) \<Rightarrow>
          Inr (if a = '''' then Rejected 400 ''missing X-Actor-Id header''
               else if s = '''' then Rejected 400 ''missing X-Schedule-Id header''
               else Passed (fst (app (callee\<lparr>ctx_actor := Some a, ctx_schedule := Some s\<rparr>))),
            if a = '''' \<or> s = '''' then callee
            else (snd (app (callee\<lparr>ctx_actor := Some a, ctx_schedule := Some s\<rparr>)))
              \<lparr>ctx_actor := ctx_actor callee, ctx_schedule := ctx_schedule callee\<rparr>)
      | _ \<Rightarrow> Inl MissingActorIdentity)"
proof (cases "outbound_headers ctx tp")
  case (Inl e)
  then show ?thesis by (auto simp: call_onwards_def outbound_headers_def split: option.splits)
next
  case (Inr hs)
  then obtain a s where ctx: "ctx_actor ctx = Some a" "ctx_schedule ctx = Some s"
    by (auto simp: outbound_headers_def split: option.splits)
  show ?thesis
    using outbound_lookup [OF assms Inr] by (auto simp: call_onwards_def Inr actor_context_def ctx Let_def split: prod.split)
qed

text \<open>A server that adds a header of its own, and an agent of schedule S1.\<close>

definition plain_wire :: "header_list \<Rightarrow> header_list" where
  "plain_wire hs = (''host'', ''localhost'') # lowered hs"

lemma plain_wire: "http_wire plain_wire"
proof -
  have "header_dict ((''host'', ''localhost'') # hs) name = header_dict hs name" if "name \<noteq> ''host''" for hs name
    using that by (auto simp: header_dict_def map_add_def split: option.split)
  then show ?thesis by (simp add: http_wire_def plain_wire_def)
qed

theorem identity_survives_the_wire_witness:
  "call_onwards plain_wire (Some ''00-4bf9-01'') (\<lambda>who. (ctx_actor who, who)) \<lparr>ctx_actor = None, ctx_schedule = None\<rparr>
     \<lparr>ctx_actor = Some ''agent-a'', ctx_schedule = Some ''S1''\<rparr> =
   Inr (Passed (Some ''agent-a''), \<lparr>ctx_actor = None, ctx_schedule = None\<rparr>)"
proof -
  have "sendable \<lparr>ctx_actor = Some ''agent-a'', ctx_schedule = Some ''S1''\<rparr> (Some ''00-4bf9-01'')" (is ?safe)
    by (simp add: sendable_def header_safe_def)
  show ?thesis by (simp add: identity_survives_the_wire [OF plain_wire \<open>?safe\<close>])
qed

end
