(* ===== verification/Tracing.thy ===== *)
theory Tracing
  imports Propagation
begin

text \<open>
  \<^verbatim>\<open>libs/tracing.py\<close> and the server span of \<^verbatim>\<open>libs/barrier/middleware.py\<close>. OpenTelemetry is a
  parameter: \<open>otel_start\<close> is the context inside a new current span, \<open>otel_inject\<close> the
  \<open>traceparent\<close> that the propagator writes for a context, \<open>otel_extract\<close> the context that it
  reads back. A context manager is a function from its body, and a body that raises returns \<open>Inl\<close>.
\<close>

section \<open>Export\<close>

record export_state =
  export_configured :: bool
  installed_resource :: "string option"
  tracer_providers :: "string list"

definition no_export :: export_state where
  "no_export = \<lparr> export_configured = False, installed_resource = None, tracer_providers = [] \<rparr>"

text \<open>\<open>tracer_providers\<close> are the service names of the providers handed to \<open>set_tracer_provider\<close>.\<close>

definition configure_export :: "string option \<Rightarrow> string \<Rightarrow> string option \<Rightarrow> export_state \<Rightarrow> bool \<times> export_state" where
  "configure_export environ service_name endpoint st =
     (let endpoint = (case endpoint of Some e \<Rightarrow> Some e | None \<Rightarrow> environ) in
      if falsy endpoint \<or> export_configured st then (False, st)
      else (True, st\<lparr> export_configured := True, installed_resource := Some service_name,
         tracer_providers := tracer_providers st @ [service_name] \<rparr>))"

text \<open>A process that configures its export several times.\<close>

fun configure_all :: "string option \<Rightarrow> (string \<times> string option) list \<Rightarrow> export_state \<Rightarrow> bool list \<times> export_state" where
  "configure_all environ [] st = ([], st)"
| "configure_all environ ((name, endpoint) # calls) st =
     (let (b, st) = configure_export environ name endpoint st; (bs, st) = configure_all environ calls st in (b # bs, st))"

definition asks_for_export :: "string option \<Rightarrow> string \<times> string option \<Rightarrow> bool" where
  "asks_for_export environ call \<longleftrightarrow> \<not> falsy (case snd call of Some e \<Rightarrow> Some e | None \<Rightarrow> environ)"

lemma configured_is_final:
  "export_configured st \<Longrightarrow> configure_all environ calls st = (map (\<lambda>_. False) calls, st)"
  by (induction calls) (auto simp: configure_export_def Let_def split: prod.splits)

text \<open>
  A process installs one exporter at most. Of its calls of \<open>configure_export\<close> exactly the first
  one that finds an endpoint installs a provider and returns true; the service is named by that
  call; every later call changes nothing; and without an endpoint nothing is installed.
\<close>

lemma export_is_installed_once:
  "configure_all environ calls no_export =
     (case filter (asks_for_export environ) calls of
        [] \<Rightarrow> (map (\<lambda>_. False) calls, no_export)
      | (name, _) # _ \<Rightarrow>
          (let before = length (takeWhile (\<lambda>c. \<not> asks_for_export environ c) calls) in
           ((map (\<lambda>_. False) calls)[before := True],
            \<lparr> export_configured = True, installed_resource = Some name, tracer_providers = [name] \<rparr>)))"
proof (induction calls)
  case (Cons call calls)
  obtain name endpoint where call: "call = (name, endpoint)" by (cases call)
  show ?case
  proof (cases "asks_for_export environ call")
    case True
    then have "configure_export environ name endpoint no_export =
        (True, \<lparr> export_configured = True, installed_resource = Some name, tracer_providers = [name] \<rparr>)"
      by (simp add: configure_export_def asks_for_export_def call no_export_def Let_def)
    with True show ?thesis by (simp add: call configured_is_final)
  next
    case False
    then have "configure_export environ name endpoint no_export = (False, no_export)"
      by (simp add: configure_export_def asks_for_export_def call Let_def)
    with False Cons.IH show ?thesis by (auto simp: call Let_def split: list.splits prod.splits)
  qed
qed simp

section \<open>Spans\<close>

record 'c otel =
  otel_start :: "string \<Rightarrow> 'c \<Rightarrow> 'c"
  otel_inject :: "'c \<Rightarrow> string option"
  otel_extract :: "string \<Rightarrow> 'c"

record 'c span_record =
  sp_name :: string
  sp_context :: 'c
  sp_attributes :: "(string \<times> string) list"
  sp_error :: "string option"

type_synonym ('c, 'r) traced_body = "'c \<Rightarrow> (string + 'r) \<times> 'c span_record list"

definition identity_attributes :: "identity \<Rightarrow> (string \<times> string) list" where
  "identity_attributes who =
     (if falsy (ctx_actor who) then [] else [(''acl.actor_id'', the (ctx_actor who))]) @
     (if falsy (ctx_schedule who) then [] else [(''acl.schedule_id'', the (ctx_schedule who))])"

text \<open>\<open>set_attribute\<close> replaces an attribute of the same name.\<close>

definition span_attributes :: "identity \<Rightarrow> (string \<times> string) list \<Rightarrow> (string \<times> string) list" where
  "span_attributes who attributes =
     fold (\<lambda>(k, v) as. AList.update (''acl.'' @ k) v as) attributes (identity_attributes who)"

text \<open>The span is exported when its body ends, after those of the body.\<close>

definition span ::
  "'c otel \<Rightarrow> identity \<Rightarrow> string \<Rightarrow> (string \<times> string) list \<Rightarrow> ('c, 'r) traced_body \<Rightarrow> ('c, 'r) traced_body" where
  "span ot who name attributes body ctx =
     (let inside = otel_start ot name ctx; (r, spans) = body inside in
      (r, spans @ [\<lparr> sp_name = name, sp_context = inside, sp_attributes = span_attributes who attributes,
         sp_error = (case r of Inl message \<Rightarrow> Some message | Inr _ \<Rightarrow> None) \<rparr>]))"

definition current_traceparent :: "'c otel \<Rightarrow> 'c \<Rightarrow> string option" where
  "current_traceparent ot ctx = otel_inject ot ctx"

definition use_traceparent :: "'c otel \<Rightarrow> string option \<Rightarrow> ('c, 'r) traced_body \<Rightarrow> ('c, 'r) traced_body" where
  "use_traceparent ot traceparent body ctx =
     (if falsy traceparent then body ctx else body (otel_extract ot (the traceparent)))"

text \<open>\<open>ActorContextMiddleware._traced\<close>\<close>

definition traced ::
  "'c otel \<Rightarrow> identity \<Rightarrow> (string \<Rightarrow> string option) \<Rightarrow> string \<Rightarrow> string \<Rightarrow> ('c, 'r) traced_body \<Rightarrow> ('c, 'r) traced_body" where
  "traced ot who headers http_method route app =
     use_traceparent ot (headers ''traceparent'')
       (span ot who (http_method @ '' '' @ route) [(''route'', route)] app)"

lemma span_transparent:
  "fst (span ot who name attributes body ctx) = fst (body (otel_start ot name ctx))"
  by (simp add: span_def Let_def split: prod.split)

lemma span_emits:
  "snd (span ot who name attributes body ctx) =
     snd (body (otel_start ot name ctx)) @ [\<lparr> sp_name = name, sp_context = otel_start ot name ctx,
       sp_attributes = span_attributes who attributes,
       sp_error = (case fst (body (otel_start ot name ctx)) of Inl message \<Rightarrow> Some message | Inr _ \<Rightarrow> None) \<rparr>]"
  by (simp add: span_def Let_def split: prod.split)

section \<open>One trace over agent and services\<close>

text \<open>
  A service serves a request in the empty context \<open>task\<close> of its task: the middleware binds the
  identity or rejects the request, and the handler runs inside the server span. An exception that
  escapes from the handler goes through the span and reaches the caller as a 500.
\<close>

datatype 'r http_reply = Http_Rejected nat string | Internal_Server_Error | Http_Reply 'r

definition reply_of :: "string + 'r \<Rightarrow> 'r http_reply" where
  "reply_of r = (case r of Inl message \<Rightarrow> Internal_Server_Error | Inr r \<Rightarrow> Http_Reply r)"

definition serve ::
  "'c otel \<Rightarrow> 'c \<Rightarrow> header_list \<Rightarrow> string \<Rightarrow> string \<Rightarrow> (identity \<Rightarrow> ('c, 'r) traced_body) \<Rightarrow>
     'r http_reply \<times> 'c span_record list" where
  "serve ot task hs http_method route handler =
     (case fst (actor_context True True (header_dict hs)
         (\<lambda>who. (traced ot who (header_dict hs) http_method route (handler who) task, who))
         \<lparr>ctx_actor = None, ctx_schedule = None\<rparr>) of
        Rejected code message \<Rightarrow> (Http_Rejected code message, [])
      | Passed (r, spans) \<Rightarrow> (reply_of r, spans))"

text \<open>A request is a method, a route, and the handler that the service has for them.\<close>

type_synonym ('c, 'r) request = "string \<times> string \<times> (identity \<Rightarrow> ('c, 'r) traced_body)"

definition send_request ::
  "'c otel \<Rightarrow> (header_list \<Rightarrow> header_list) \<Rightarrow> 'c \<Rightarrow> identity \<Rightarrow> 'c \<Rightarrow> ('c, 'r) request \<Rightarrow>
     wire_error + 'r http_reply \<times> 'c span_record list" where
  "send_request ot wire task who ctx rq =
     (case rq of (m, route, handler) \<Rightarrow>
        (case outbound_headers who (current_traceparent ot ctx) of Inl e \<Rightarrow> Inl e
         | Inr hs \<Rightarrow> Inr (serve ot task (wire hs) m route handler)))"

text \<open>
  What the agent worker does around \<open>run_case\<close>: it binds its identity, opens the span
  \<open>agent.run_case\<close> and sends its requests, here a given list of them, from inside that span.
\<close>

definition agent_span ::
  "'c otel \<Rightarrow> (header_list \<Rightarrow> header_list) \<Rightarrow> 'c \<Rightarrow> identity \<Rightarrow> string \<Rightarrow> ('c, 'r) request list \<Rightarrow>
     'c \<Rightarrow> (string + (wire_error + 'r http_reply) list) \<times> 'c span_record list" where
  "agent_span ot wire task who case_id requests =
     span ot who ''agent.run_case'' [(''case_id'', case_id)]
       (\<lambda>ctx. let answers = map (send_request ot wire task who ctx) requests in
          (Inr (map (map_sum id fst) answers), concat (map (case_sum (\<lambda>_. []) snd) answers)))"

text \<open>
  What the documentation of OpenTelemetry promises: \<open>trace\<close> is the trace a context belongs to; a
  span started in a trace belongs to it; a started span belongs to some trace; the
  propagator writes a \<open>traceparent\<close>, of characters that a header carries, for a context in a
  trace, and reads the trace back from it.
\<close>

definition w3c_propagation :: "'c otel \<Rightarrow> ('c \<Rightarrow> 't option) \<Rightarrow> bool" where
  "w3c_propagation ot trace \<longleftrightarrow>
     (\<forall>name ctx. trace (otel_start ot name ctx) \<noteq> None) \<and>
     (\<forall>name ctx t. trace ctx = Some t \<longrightarrow> trace (otel_start ot name ctx) = Some t) \<and>
     (\<forall>ctx. trace ctx \<noteq> None \<longrightarrow> (\<exists>h. otel_inject ot ctx = Some h \<and> h \<noteq> '''' \<and> header_safe h
        \<and> trace (otel_extract ot h) = trace ctx))"

text \<open>The span that a service emits for a request it has served.\<close>

definition server_span :: "string \<Rightarrow> string \<Rightarrow> string \<Rightarrow> string \<Rightarrow> 'c \<Rightarrow> string + 'r \<Rightarrow> 'c span_record" where
  "server_span a s m route c r = \<lparr>sp_name = m @ '' '' @ route, sp_context = c,
     sp_attributes = [(''acl.actor_id'', a), (''acl.schedule_id'', s), (''acl.route'', route)],
     sp_error = (case r of Inl message \<Rightarrow> Some message | Inr _ \<Rightarrow> None)\<rparr>"

lemma send_request_traced:
  assumes w: "w3c_propagation ot trace" "http_wire wire" and t: "trace ctx = Some t"
    and who: "who = \<lparr>ctx_actor = Some a, ctx_schedule = Some s\<rparr>" "a \<noteq> ''''" "s \<noteq> ''''" "header_safe a" "header_safe s"
  shows "\<exists>c. trace c = Some t \<and> send_request ot wire task who ctx (m, route, handler) =
    Inr (reply_of (fst (handler who c)), snd (handler who c) @ [server_span a s m route c (fst (handler who c))])"
proof -
  obtain h where h: "otel_inject ot ctx = Some h" "h \<noteq> ''''" "header_safe h" "trace (otel_extract ot h) = Some t"
    using w(1) t unfolding w3c_propagation_def by (metis option.distinct(1))
  define c where "c = otel_start ot (m @ '' '' @ route) (otel_extract ot h)"
  have c: "trace c = Some t" using w(1) h(4) unfolding c_def w3c_propagation_def by blast
  have "\<exists>hs. outbound_headers who (Some h) = Inr hs" by (simp add: outbound_headers_def who(1))
  then obtain hs where hs: "outbound_headers who (Some h) = Inr hs" ..
  have "sendable who (Some h)" using who h(3) by (simp add: sendable_def)
  note l = outbound_lookup [OF w(2) this hs]
  have "send_request ot wire task who ctx (m, route, handler) =
    Inr (reply_of (fst (handler who c)), snd (handler who c) @ [server_span a s m route c (fst (handler who c))])"
    using l h(2) who(2,3)
    by (simp add: send_request_def current_traceparent_def h(1) hs [unfolded who(1)] who(1) serve_def actor_context_def traced_def use_traceparent_def
        span_def server_span_def span_attributes_def identity_attributes_def c_def Let_def split_def)
  with c show ?thesis by blast
qed

text \<open>
  C34. One trace spans the agent's case and every call it makes. Let OpenTelemetry and HTTP do what
  they promise, and the agent's actor and schedule be non-empty header values. Whether or not the
  agent's process was inside a trace, there is one trace such that: the agent's own span belongs
  to it; each request is handled, in some context \<open>c\<close> of that trace and under the agent's identity,
  and is answered with the handler's reply, or with a 500 when the handler raises; and what is
  emitted is, request by request, the handler's own spans and then one server span of the trace
  with method, route, actor, schedule and the handler's exception, and last the agent's span.
\<close>

theorem one_trace_spans_the_services:
  assumes "w3c_propagation ot trace" "http_wire wire"
    and "who = \<lparr>ctx_actor = Some a, ctx_schedule = Some s\<rparr>" "a \<noteq> ''''" "s \<noteq> ''''" "header_safe a" "header_safe s"
  shows "\<exists>t inside cs. trace inside = Some t \<and> length cs = length requests \<and> (\<forall>c\<in>set cs. trace c = Some t) \<and>
    agent_span ot wire task who case_id requests ctx =
      (Inr (map2 (\<lambda>c (m, route, handler). Inr (reply_of (fst (handler who c)))) cs requests),
       concat (map2 (\<lambda>c (m, route, handler).
           snd (handler who c) @ [server_span a s m route c (fst (handler who c))]) cs requests) @
         [\<lparr>sp_name = ''agent.run_case'', sp_context = inside,
           sp_attributes = [(''acl.actor_id'', a), (''acl.schedule_id'', s), (''acl.case_id'', case_id)],
           sp_error = None\<rparr>])"
proof -
  define inside where "inside = otel_start ot ''agent.run_case'' ctx"
  obtain t where t: "trace inside = Some t" using assms(1) unfolding w3c_propagation_def inside_def by blast
  have "\<exists>cs. length cs = length requests \<and> (\<forall>c\<in>set cs. trace c = Some t) \<and>
      map (send_request ot wire task who inside) requests =
      map2 (\<lambda>c (m, route, handler). Inr (reply_of (fst (handler who c)),
         snd (handler who c) @ [server_span a s m route c (fst (handler who c))])) cs requests"
  proof (induction requests)
    case (Cons rq requests)
    then obtain cs where cs: "length cs = length requests" "\<forall>c\<in>set cs. trace c = Some t"
      "map (send_request ot wire task who inside) requests =
       map2 (\<lambda>c (m, route, handler). Inr (reply_of (fst (handler who c)),
         snd (handler who c) @ [server_span a s m route c (fst (handler who c))])) cs requests" by blast
    obtain m route handler where rq: "rq = (m, route, handler)" by (cases rq)
    obtain c where "trace c = Some t" "send_request ot wire task who inside rq =
      Inr (reply_of (fst (handler who c)), snd (handler who c) @ [server_span a s m route c (fst (handler who c))])"
      using send_request_traced [OF assms(1,2) t assms(3-7)] unfolding rq by blast
    with cs show ?case by (intro exI [of _ "c # cs"]) (simp add: rq)
  qed simp
  then obtain cs where cs: "length cs = length requests" "\<forall>c\<in>set cs. trace c = Some t"
    "map (send_request ot wire task who inside) requests =
     map2 (\<lambda>c (m, route, handler). Inr (reply_of (fst (handler who c)),
       snd (handler who c) @ [server_span a s m route c (fst (handler who c))])) cs requests" by blast
  have zip: "map f (map2 g xs ys) = map2 (\<lambda>x y. f (g x y)) xs ys" for f :: "'p \<Rightarrow> 'q" and g :: "'u \<Rightarrow> 'v \<Rightarrow> 'p" and xs ys
    by (simp add: split_def)
  have "agent_span ot wire task who case_id requests ctx =
      (Inr (map2 (\<lambda>c (m, route, handler). Inr (reply_of (fst (handler who c)))) cs requests),
       concat (map2 (\<lambda>c (m, route, handler).
           snd (handler who c) @ [server_span a s m route c (fst (handler who c))]) cs requests) @
         [\<lparr>sp_name = ''agent.run_case'', sp_context = inside,
           sp_attributes = [(''acl.actor_id'', a), (''acl.schedule_id'', s), (''acl.case_id'', case_id)],
           sp_error = None\<rparr>])"
    unfolding agent_span_def span_def Let_def inside_def [symmetric] cs(3) zip
    using assms(4,5) by (simp add: split_def span_attributes_def identity_attributes_def assms(3))
  with t cs show ?thesis by blast
qed

text \<open>An implementation with numbers for traces, and a case whose second request fails.\<close>

definition number_otel :: "nat option otel" where
  "number_otel = \<lparr>
     otel_start = (\<lambda>name c. Some (case c of None \<Rightarrow> 7 | Some t \<Rightarrow> t)),
     otel_inject = (\<lambda>c. map_option (\<lambda>t. ''00-'' @ replicate t CHR ''1'') c),
     otel_extract = (\<lambda>h. Some (length h - 3)) \<rparr>"

lemma number_otel: "w3c_propagation number_otel id"
  by (auto simp: w3c_propagation_def number_otel_def header_safe_def list_all_iff)

theorem one_trace_spans_the_services_witness:
  "\<exists>c c' inside. id inside = id c \<and> id inside = id c' \<and> inside \<noteq> None \<and>
    agent_span number_otel plain_wire None \<lparr>ctx_actor = Some ''agent-a'', ctx_schedule = Some ''S1''\<rparr> ''case-1''
      [(''GET'', ''/refunds'', \<lambda>who c. (Inr (ctx_actor who), [])), (''POST'', ''/refunds'', \<lambda>who c. (Inl ''timeout'', []))] None =
    (Inr [Inr (Http_Reply (Some ''agent-a'')), Inr Internal_Server_Error],
     [server_span ''agent-a'' ''S1'' ''GET'' ''/refunds'' c (Inr () :: string + unit),
      server_span ''agent-a'' ''S1'' ''POST'' ''/refunds'' c' (Inl ''timeout'' :: string + unit),
      \<lparr>sp_name = ''agent.run_case'', sp_context = inside,
       sp_attributes = [(''acl.actor_id'', ''agent-a''), (''acl.schedule_id'', ''S1''), (''acl.case_id'', ''case-1'')],
       sp_error = None\<rparr>])"
proof -
  have safe: "header_safe ''agent-a''" "header_safe ''S1''" by (simp_all add: header_safe_def)
  let ?requests = "[(''GET'', ''/refunds'', \<lambda>who c. (Inr (ctx_actor who), [])),
    (''POST'', ''/refunds'', \<lambda>who c. (Inl ''timeout'', []))] :: (nat option, string option) request list"
  from one_trace_spans_the_services [OF number_otel plain_wire refl _ _ safe, of ?requests None "''case-1''" None]
  show ?thesis by (auto simp: length_Suc_conv reply_of_def server_span_def)
qed

text \<open>A caller outside any trace breaks it: every such call looks the same to the service.\<close>

lemma untraced_callers_start_new_traces:
  assumes "falsy (otel_inject ot ctx)" "falsy (otel_inject ot ctx')"
  shows "send_request ot wire task who ctx rq = send_request ot wire task who ctx' rq"
  using assms by (simp add: send_request_def outbound_headers_def current_traceparent_def split: option.split prod.split)

end
