(* ===== verification/Entitlements.thy ===== *)
theory Entitlements
  imports Services
begin

text \<open>
  The Entitlements service, \<^verbatim>\<open>apps/entitlements/main.py\<close> with the table of
  \<^verbatim>\<open>apps/entitlements/db.py\<close>, and the judge of its invariant, \<^verbatim>\<open>oracle/entitlements.py\<close>.
  The lemmas: a grant is idempotent and permanent, the listing is the set of granted features,
  and the verdict is set inclusion.
\<close>

section \<open>State\<close>

datatype grant_state = GRANTED | REVOKED

record grant_row =
  fg_id :: int
  fg_case :: string
  fg_actor :: string
  fg_key :: string
  fg_feature :: string
  fg_state :: grant_state

record entitlements_db =
  feature_grants :: "grant_row list"
  grant_seq :: int

definition empty_entitlements :: entitlements_db where
  "empty_entitlements = \<lparr>feature_grants = [], grant_seq = 0\<rparr>"

section \<open>Operations\<close>

definition grant_feature ::
  "string \<Rightarrow> checkpoints \<Rightarrow> string \<Rightarrow> string \<Rightarrow> string \<Rightarrow> entitlements_db \<Rightarrow>
     grant_row reply \<times> entitlements_db" where
  "grant_feature actor cp cid feature key db =
     (case cp ''entitlements.after_read_before_decide'' of
        Some e \<Rightarrow> (Inl (HTTPException 500 (Checkpoint_Failed e)), db)
      | None \<Rightarrow> (case row_where (\<lambda>g. fg_key g = key) (feature_grants db) of
          Some g \<Rightarrow> (Inr (200, g), db)
        | None \<Rightarrow>
          (let g = \<lparr>fg_id = grant_seq db + 1, fg_case = cid, fg_actor = actor, fg_key = key,
                fg_feature = feature, fg_state = GRANTED\<rparr>;
               db' = db\<lparr>feature_grants := feature_grants db @ [g], grant_seq := grant_seq db + 1\<rparr>
           in case cp ''entitlements.after_commit_before_ack'' of
                Some e \<Rightarrow> (Inl (HTTPException 500 (Checkpoint_Failed e)), db')
              | None \<Rightarrow> (Inr (201, g), db'))))"

definition list_features :: "string \<Rightarrow> entitlements_db \<Rightarrow> grant_row list \<times> string list" where
  "list_features cid db =
     (let rows = sort_key fg_id (filter (\<lambda>g. fg_case g = cid) (feature_grants db))
      in (rows, sorted_list_of_set (set (map fg_feature (filter (\<lambda>g. fg_state g = GRANTED) rows)))))"

definition truncate_entitlements :: "entitlements_db \<Rightarrow> entitlements_db" where
  "truncate_entitlements db = empty_entitlements"

datatype grant_op = Grant string checkpoints string string string

fun grant_step :: "grant_op \<Rightarrow> entitlements_db \<Rightarrow> entitlements_db" where
  "grant_step (Grant actor cp cid feature key) db = snd (grant_feature actor cp cid feature key db)"

definition grant_run :: "grant_op list \<Rightarrow> entitlements_db" where
  "grant_run xs = fold grant_step xs empty_entitlements"

section \<open>The judge\<close>

datatype entitlement_verdict = E_CLEAN | E_VIOLATION

record entitlement_result =
  en_verdict :: entitlement_verdict
  en_plan :: "string option"
  en_granted :: "string set"
  en_unpermitted :: "string set"

definition FEATURES_BY_PLAN :: "string \<Rightarrow> string set option" where
  "FEATURES_BY_PLAN = map_of [(''BASIC'', {''reports''}), (''PRO'', {''reports'', ''api'', ''sso''})]"

text \<open>None stands for the \<open>KeyError\<close> of a plan the table does not know.\<close>

definition evaluate_entitlements :: "string option \<Rightarrow> string set \<Rightarrow> entitlement_result option" where
  "evaluate_entitlements plan granted =
     (case (case plan of None \<Rightarrow> Some {} | Some p \<Rightarrow> FEATURES_BY_PLAN p) of
        None \<Rightarrow> None
      | Some permitted \<Rightarrow>
        (let unpermitted = granted - permitted in
         Some \<lparr>en_verdict = (if unpermitted \<noteq> {} then E_VIOLATION else E_CLEAN), en_plan = plan,
           en_granted = granted, en_unpermitted = unpermitted\<rparr>))"

section \<open>Invariant\<close>

definition grants_inv :: "entitlements_db \<Rightarrow> bool" where
  "grants_inv db \<longleftrightarrow> distinct (map fg_key (feature_grants db)) \<and>
     sorted_wrt (<) (map fg_id (feature_grants db)) \<and>
     (\<forall>g\<in>set (feature_grants db). fg_id g \<le> grant_seq db \<and> fg_state g = GRANTED)"

lemma grants_inv_empty: "grants_inv empty_entitlements"
  by (simp add: grants_inv_def empty_entitlements_def)

lemma grant_feature_inv: "grants_inv db \<Longrightarrow> grants_inv (snd (grant_feature actor cp cid f key db))"
  by (auto simp: grant_feature_def Let_def grants_inv_def sorted_wrt_append row_where_None
      split: option.split)

interpretation gr: stateful grant_step grants_inv
proof
  fix db x assume "grants_inv db"
  then show "grants_inv (grant_step x db)" by (cases x) (simp add: grant_feature_inv)
qed

lemma grant_run_inv: "grants_inv (grant_run xs)"
  unfolding grant_run_def by (rule gr.run_inv [OF grants_inv_empty])

text \<open>Without revoked rows the listing is the features of the case's rows.\<close>

definition features_of :: "string \<Rightarrow> grant_row list \<Rightarrow> string set" where
  "features_of cid gs = fg_feature ` set (filter (\<lambda>g. fg_case g = cid) gs)"

lemma features_of_append [simp]: "features_of cid (gs @ hs) = features_of cid gs \<union> features_of cid hs"
  by (auto simp: features_of_def)

lemma features_of_single [simp]: "features_of cid [g] = (if fg_case g = cid then {fg_feature g} else {})"
  by (simp add: features_of_def)

lemma features_of_mono: "set gs \<subseteq> set hs \<Longrightarrow> features_of cid gs \<subseteq> features_of cid hs"
  by (auto simp: features_of_def)

lemma listed_set:
  assumes "grants_inv db"
  shows "set (snd (list_features cid db)) = features_of cid (feature_grants db)"
  using assms by (auto simp: list_features_def Let_def grants_inv_def features_of_def)

lemma grant_feature_rows:
  "feature_grants (snd (grant_feature actor cp cid f key db)) =
     (if row_where (\<lambda>g. fg_key g = key) (feature_grants db) = None
        \<and> cp ''entitlements.after_read_before_decide'' = None
      then feature_grants db @ [\<lparr>fg_id = grant_seq db + 1, fg_case = cid, fg_actor = actor, fg_key = key,
                fg_feature = f, fg_state = GRANTED\<rparr>]
      else feature_grants db)"
  by (auto simp: grant_feature_def Let_def split: option.split)

text \<open>
  The entitlement verdict is set inclusion against the plan in force, and fails closed.
  Without a plan only an empty set of grants is clean; with a known plan the verdict is clean
  exactly when every grant is in the plan's table entry, and otherwise names exactly the
  grants that are not; an unknown plan raises. Granting less never turns a clean verdict into
  a violation.
\<close>

lemma entitlement_verdict_is_inclusion:
  "(evaluate_entitlements plan granted = None \<longleftrightarrow> (\<exists>p. plan = Some p \<and> p \<notin> {''BASIC'', ''PRO''}))
   \<and> (case evaluate_entitlements plan granted of None \<Rightarrow> True | Some r \<Rightarrow>
       (en_verdict r = E_CLEAN \<longleftrightarrow> granted \<subseteq> (if plan = None then {} else the (FEATURES_BY_PLAN (the plan))))
       \<and> en_unpermitted r = granted - (if plan = None then {} else the (FEATURES_BY_PLAN (the plan)))
       \<and> (\<forall>fewer. en_verdict r = E_CLEAN \<and> fewer \<subseteq> granted \<longrightarrow>
            map_option en_verdict (evaluate_entitlements plan fewer) = Some E_CLEAN))"
  by (auto simp: evaluate_entitlements_def FEATURES_BY_PLAN_def Let_def split: option.split)

text \<open>
  A grant takes effect once and stays. After a grant request that passes its first
  checkpoint the feature is listed for the case, unless the key was used before, and whatever
  requests follow, no feature that is listed ever disappears, the acknowledgement being lost
  or not.
\<close>

lemma grants_are_idempotent_and_permanent:
  "(if row_where (\<lambda>g. fg_key g = key) (feature_grants (grant_run xs)) = None
      \<and> cp ''entitlements.after_read_before_decide'' = None
    then set (snd (list_features c (snd (grant_feature actor cp cid f key (grant_run xs)))))
       = set (snd (list_features c (grant_run xs))) \<union> (if c = cid then {f} else {})
    else snd (grant_feature actor cp cid f key (grant_run xs)) = grant_run xs)
   \<and> set (snd (list_features c (grant_run xs))) \<subseteq> set (snd (list_features c (grant_run (xs @ ys))))"
proof
  let ?db = "grant_run xs"
  note inv = grant_run_inv [of xs]
  show "if row_where (\<lambda>g. fg_key g = key) (feature_grants ?db) = None
      \<and> cp ''entitlements.after_read_before_decide'' = None
    then set (snd (list_features c (snd (grant_feature actor cp cid f key ?db))))
       = set (snd (list_features c ?db)) \<union> (if c = cid then {f} else {})
    else snd (grant_feature actor cp cid f key ?db) = ?db"
    unfolding listed_set [OF inv] listed_set [OF grant_feature_inv [OF inv]] grant_feature_rows
    by (auto simp: grant_feature_def split: option.split)
  have "set (feature_grants ?db) \<subseteq> set (feature_grants (fold grant_step ys ?db))"
  proof (rule gr.run_rel [where R = "\<lambda>a b. set (feature_grants a) \<subseteq> set (feature_grants b)", OF _ _ _ inv])
    fix db x
    show "set (feature_grants db) \<subseteq> set (feature_grants (grant_step x db))"
      by (cases x) (auto simp: grant_feature_def Let_def split: option.split)
  qed auto
  then show "set (snd (list_features c ?db)) \<subseteq> set (snd (list_features c (grant_run (xs @ ys))))"
    unfolding listed_set [OF inv] listed_set [OF grant_run_inv]
    by (intro features_of_mono) (simp add: grant_run_def)
qed

end
