(* ===== verification/Schema.thy ===== *)
theory Schema
  imports Effect_Services Control Entitlements
begin

text \<open>
  The database schema, \<^verbatim>\<open>apps/*/migrations/*.sql\<close>: the constraints the tables declare, and the
  theorem that no sequence of requests leaves a state they forbid. The database checks them
  again; the theorem says that the model of the services, which decides which statement is
  rejected, never relies on it.
\<close>

section \<open>Columns and constraints\<close>

text \<open>\<open>NUMERIC(12, 2) CHECK (amount > 0)\<close>\<close>

definition positive_money :: "decimal \<Rightarrow> bool" where
  "positive_money x \<longleftrightarrow> numeric_12_2 x = Some x \<and> 0 < x"

text \<open>\<open>PRIMARY KEY\<close> and \<open>UNIQUE\<close>\<close>

definition unique_in :: "('r \<Rightarrow> 'k) \<Rightarrow> 'r list \<Rightarrow> bool" where
  "unique_in f rows \<longleftrightarrow> distinct (map f rows)"

definition effects_table :: "effect_row list \<Rightarrow> bool" where
  "effects_table rows \<longleftrightarrow> unique_in ef_id rows \<and> unique_in ef_key rows \<and>
     list_all (\<lambda>r. positive_money (ef_amount r)) rows"

definition outbox_table :: "outbox_row list \<Rightarrow> bool" where
  "outbox_table rows \<longleftrightarrow> unique_in ob_id rows \<and> list_all (\<lambda>e. numeric_12_2 (ob_amount e) = Some (ob_amount e)) rows"

text \<open>The serial \<open>id\<close> of the decision log, which nothing reads, is not part of a row here.\<close>

definition decision_table :: "decision_row list \<Rightarrow> bool" where
  "decision_table rows \<longleftrightarrow> unique_in (\<lambda>d. (dl_case d, dl_sequence d)) rows \<and>
     list_all (\<lambda>d. numeric_12_2 (dl_amount d) = Some (dl_amount d)) rows"

definition plan_table :: "plan_row list \<Rightarrow> bool" where
  "plan_table rows \<longleftrightarrow> unique_in pl_id rows \<and> unique_in pl_key rows \<and>
     list_all (\<lambda>p. pl_plan p \<in> {''BASIC'', ''PRO''}) rows"

definition reservations_table :: "reservation list \<Rightarrow> bool" where
  "reservations_table rows \<longleftrightarrow> unique_in rv_id rows \<and> unique_in rv_key rows \<and>
     list_all (\<lambda>r. positive_money (rv_amount r)) rows"

definition grants_table :: "grant_row list \<Rightarrow> bool" where
  "grants_table rows \<longleftrightarrow> unique_in fg_id rows \<and> unique_in fg_key rows"

section \<open>Lemmas\<close>

lemma positive_moneyI: "in_cents x \<Longrightarrow> 0 < x \<Longrightarrow> x < 10000000000 \<Longrightarrow> positive_money x"
  by (simp add: positive_money_def numeric_12_2_def round2_in_cents)

lemma sorted_unique: "sorted_wrt (<) (map f rows) \<Longrightarrow> unique_in (f :: 'r \<Rightarrow> int) rows"
  by (simp add: unique_in_def strict_sorted_iff)

text \<open>A log that is gapless per case has no case and number twice.\<close>

lemma gapless_unique:
  assumes "\<And>cid. case_log cid ds = [1..int (length (case_log cid ds))]"
  shows "unique_in (\<lambda>d. (dl_case d, dl_sequence d)) ds"
proof -
  have "distinct (case_log cid ds)" for cid using assms [of cid] distinct_upto by metis
  then have "distinct (map (\<lambda>d. (dl_case d, dl_sequence d)) ds)"
  proof (induction ds)
    case (Cons d ds)
    have tail: "distinct (case_log cid ds)" for cid
      using Cons.prems [of cid] by (auto simp: case_log_def split: if_splits)
    have "dl_sequence d \<notin> set (case_log (dl_case d) ds)" using Cons.prems [of "dl_case d"] by (simp add: case_log_def)
    then have "(dl_case d, dl_sequence d) \<notin> (\<lambda>d. (dl_case d, dl_sequence d)) ` set ds" by (force simp: case_log_def)
    then show ?case using Cons.IH [OF tail] by simp
  qed simp
  then show ?thesis by (simp add: unique_in_def)
qed

text \<open>The log holds amounts as the database stores them: every row comes from one \<open>INSERT\<close>.\<close>

definition logs_money :: "'a effect_db_scheme \<Rightarrow> bool" where
  "logs_money db \<longleftrightarrow> list_all (\<lambda>d. numeric_12_2 (dl_amount d) = Some (dl_amount d)) (decisions db)"

lemma logs_money_same [simp]:
  "logs_money (db\<lparr>effects := rs\<rparr>) = logs_money db" "logs_money (db\<lparr>effect_seq := n\<rparr>) = logs_money db"
  "logs_money (db\<lparr>outbox := es\<rparr>) = logs_money db" "logs_money (db\<lparr>outbox_seq := n\<rparr>) = logs_money db"
  by (simp_all add: logs_money_def)

lemma append_decision_money:
  assumes "append_decision cid actor service entity from_state to_state amount db = Inr db'" "logs_money db"
  shows "logs_money db'"
proof -
  have "numeric_12_2 a = Some a" if "numeric_12_2 amount = Some a" for a
    using that numeric_12_2_cents [OF that] by (auto simp: numeric_12_2_def round2_in_cents split: if_splits)
  then show ?thesis using assms by (auto simp: append_decision_def logs_money_def Let_def split: option.splits if_splits)
qed

lemma effect_tx_money:
  assumes "effect_tx service event cid actor key amount db = Inr (x, db')" "logs_money db"
  shows "logs_money db'"
  using assms
  by (auto simp: effect_tx_def insert_effect_def publish_def Let_def split: option.splits sum.splits prod.splits if_splits
      dest: append_decision_money)

lemma void_tx_money:
  assumes "void_tx service actor eid db = Inr (Some (x, db'))" "logs_money db"
  shows "logs_money db'"
  using assms
  by (auto simp: void_tx_def Let_def split: option.splits sum.splits
      dest: append_decision_money)

lemma billing_step_money: "logs_money db \<Longrightarrow> logs_money (billing_step x db)"
proof (induction x db rule: billing_step.induct)
  case (1 env cp req db)
  then show ?case
    by (cases rule: create_refund_cases [of env cp req db]) (auto simp: create_refund_tx_eq dest: effect_tx_money)
next
  case (2 actor i db)
  then show ?case by (auto simp: void_refund_def dest: void_tx_money split: sum.splits option.splits)
next
  case (6 actor cp cid plan key db)
  then show ?case by (auto simp: change_plan_def Let_def logs_money_def split: option.splits)
qed (auto simp: logs_money_def mark_event_applied_def mark_one_def redeliver_events_def redeliver_def truncate_billing_def
    empty_billing_def Let_def split: option.splits)

lemma ledger_step_money: "logs_money db \<Longrightarrow> logs_money (ledger_step x db)"
proof (induction x db rule: ledger_step.induct)
  case (1 env cp req db)
  then show ?case
    by (cases rule: create_credit_cases [of env cp req db]) (auto simp: create_credit_tx_eq dest: effect_tx_money)
next
  case (2 actor i db)
  then show ?case by (auto simp: void_credit_def dest: void_tx_money split: sum.splits option.splits)
qed (auto simp: logs_money_def mark_credit_event_applied_def mark_one_def redeliver_credit_events_def redeliver_def
    truncate_ledger_def empty_effect_db_def Let_def split: option.splits)

interpretation bm: stateful billing_step logs_money
  by unfold_locales (rule billing_step_money)

interpretation lm: stateful ledger_step logs_money
  by unfold_locales (rule ledger_step_money)

lemma effect_tables:
  assumes "effect_inv db" "logs_money db"
  shows "effects_table (effects db)" "outbox_table (outbox db)" "decision_table (decisions db)"
proof -
  have rows: "\<forall>r\<in>set (effects db). positive_money (ef_amount r)"
    using assms unfolding effect_inv_def by (auto intro: positive_moneyI)
  then show "effects_table (effects db)"
    using assms unfolding effect_inv_def by (simp add: effects_table_def sorted_unique list_all_iff) (simp add: unique_in_def)
  have "ob_amount e \<in> ef_amount ` set (effects db)" if "e \<in> set (outbox db)" for e
  proof -
    have "event_of e \<in> set (map effect_of (effects db))" using assms that unfolding effect_inv_def by (metis image_eqI set_map)
    then show ?thesis by (auto simp: event_of_def effect_of_def)
  qed
  with rows have "\<forall>e\<in>set (outbox db). numeric_12_2 (ob_amount e) = Some (ob_amount e)"
    by (metis imageE positive_money_def)
  moreover have "unique_in ob_id (outbox db)" using assms by (simp add: effect_inv_def sorted_unique)
  ultimately show "outbox_table (outbox db)" by (simp add: outbox_table_def list_all_iff)
  show "decision_table (decisions db)"
    using assms by (simp add: decision_table_def effect_inv_def gapless_unique logs_money_def)
qed

text \<open>
  C36. Stored rows keep their types. After any sequence of requests to Billing, Ledger, Control and
  Entitlements, refused and failing ones included, every table satisfies its declaration:
  ids and keys are unique, amounts are positive, of two places and of at most ten integer digits,
  plans are known ones, no case has a decision number twice, and logged amounts are of two
  places and at most ten integer digits.
\<close>

theorem stored_rows_keep_their_types:
  "effects_table (effects (billing_run xs)) \<and> outbox_table (outbox (billing_run xs))
   \<and> decision_table (decisions (billing_run xs)) \<and> plan_table (plan_changes (billing_run xs))
   \<and> effects_table (effects (ledger_run ys)) \<and> outbox_table (outbox (ledger_run ys))
   \<and> decision_table (decisions (ledger_run ys))
   \<and> reservations_table (reservations (control_run zs)) \<and> grants_table (feature_grants (grant_run gs))"
proof -
  have "plan_table (plan_changes (billing_run xs))"
    using billing_run_inv [of xs]
    by (simp add: billing_inv_def plan_inv_def plan_table_def sorted_unique list_all_iff) (simp add: unique_in_def)
  moreover have "\<forall>r\<in>set (reservations (control_run zs)). positive_money (rv_amount r)"
    using control_run_inv [of zs] unfolding control_inv_def by (auto intro: positive_moneyI)
  then have "reservations_table (reservations (control_run zs))"
    using control_run_inv [of zs]
    by (simp add: control_inv_def reservations_table_def sorted_unique list_all_iff) (simp add: unique_in_def)
  moreover have "grants_table (feature_grants (grant_run gs))"
    using grant_run_inv [of gs] by (simp add: grants_inv_def grants_table_def sorted_unique) (simp add: unique_in_def)
  ultimately show ?thesis
    using effect_tables [OF billing_run_effects [of xs]] effect_tables [OF ledger_run_inv [of ys]]
      bm.run_inv [of empty_billing xs] lm.run_inv [of empty_effect_db ys]
    by (simp add: billing_run_def ledger_run_def logs_money_def empty_billing_def empty_effect_db_def)
qed

end
