(* ===== verification/Demo.thy ===== *)
theory Demo
  imports Seats Reconciliation
begin

text \<open>
  \<^verbatim>\<open>demo/run.py\<close>: the figures and signals of the demo's screen, without colours, rules and
  fixed prose. The run itself is that of the harness (theory Service_Lab); \<open>reconcile\<close> reads the
  stores after it.
\<close>

text \<open>A signal, whether it shows OK, and the amounts and the verdict; \<open>alarm\<close> is the red colour.\<close>

datatype screen_line =
    Signal string bool
  | Committed_against decimal decimal
  | Verdict_line verdict decimal bool

definition is_spent_expired :: "finding \<Rightarrow> bool" where
  "is_spent_expired f = (case f of SPENT_EXPIRED_HOLD _ _ _ \<Rightarrow> True | _ \<Rightarrow> False)"

definition demo_screen :: "decimal \<Rightarrow> run_outcome \<Rightarrow> (string \<Rightarrow> finding list) \<Rightarrow> screen_line list" where
  "demo_screen limit r reconciled =
     (let agents_ok = list_all (\<lambda>(st, _). st = Actor_Ok) (ro_actor_outcomes r);
          report = reconciled (re_case (ro_result r));
          money_findings = filter is_spent_expired report;
          clean = (money_findings = []);
          v = re_verdict (ro_result r)
      in [Signal ''agents'' agents_ok,
          Signal ''trace'' True,
          Signal ''reconciliation'' clean,
          Committed_against (re_committed (ro_result r)) limit,
          Verdict_line v (re_overage (ro_result r)) (v = VIOLATION)])"

definition demo_main :: "'e + run_outcome \<Rightarrow> (string \<Rightarrow> finding list) \<Rightarrow> 'e + screen_line list" where
  "demo_main run reconciled =
     (case run of Inl e \<Rightarrow> Inl e | Inr r \<Rightarrow> Inr (demo_screen 1000 r reconciled))"

lemma only_spent_expired: "filter is_spent_expired (reconcile cid (c, w, k)) = check_spent_expired_holds cid w k"
proof -
  have "filter is_spent_expired (check_lag cid w) = []" "filter is_spent_expired (check_drift cid c) = []"
    "filter is_spent_expired (check_duplicate_keys cid w) = []" "filter is_spent_expired (check_orphans cid c w) = []"
    by (auto simp: filter_empty_conv is_spent_expired_def check_lag_def check_drift_def check_duplicate_keys_def
        check_orphans_def Let_def split: if_splits option.splits)
  moreover have "filter is_spent_expired (check_spent_expired_holds cid w k) = check_spent_expired_holds cid w k"
    by (rule filter_True) (auto simp: is_spent_expired_def check_spent_expired_holds_def split: if_splits)
  ultimately show ?thesis by (simp add: reconcile_def)
qed

text \<open>
  The demo's health signals. The reconciliation line only looks at spent holds that
  expired, and says of the rest, unread, that there is no drift, no duplicate key and no
  orphan: after any requests and projector runs that is true. The trace line is always
  green. So a run whose agents all returned and whose case has no expired hold shows three
  green signals, whatever the verdict below them.
\<close>

lemma demo_signals_are_green_over_a_breach:
  assumes "list_all client_op xs" "pipeline_run xs = (c, w)"
    and "list_all (\<lambda>(st, _). st = Actor_Ok) os"
    and "list_all (\<lambda>h. \<not> (rv_case h = cid \<and> rv_state h = EXPIRED)) (reservations k)"
  shows "demo_main (finish_run spec cid (Some os) [] order w) (\<lambda>cid. reconcile cid (c, w, k)) =
      (let r = evaluate cid (ss_authorized spec) w in
       Inr [Signal ''agents'' True, Signal ''trace'' True, Signal ''reconciliation'' True,
            Committed_against (re_committed r) 1000, Verdict_line (re_verdict r) (re_overage r) (re_verdict r = VIOLATION)])
    \<and> (\<forall>cid. check_drift cid c = [] \<and> check_duplicate_keys cid w = [] \<and> check_orphans cid c w = [])"
proof
  have "re_case (evaluate cid (ss_authorized spec) w) = cid" by (simp add: evaluate_def Let_def)
  moreover have "check_spent_expired_holds cid w k = []"
    using assms(4) by (auto simp: check_spent_expired_holds_def list_all_iff)
  ultimately show "demo_main (finish_run spec cid (Some os) [] order w) (\<lambda>cid. reconcile cid (c, w, k)) =
      (let r = evaluate cid (ss_authorized spec) w in
       Inr [Signal ''agents'' True, Signal ''trace'' True, Signal ''reconciliation'' True,
            Committed_against (re_committed r) 1000, Verdict_line (re_verdict r) (re_overage r) (re_verdict r = VIOLATION)])"
    using assms(3) by (simp add: finish_run_def ensure_quiescent_def demo_main_def demo_screen_def Let_def only_spent_expired)
  have okk: "es.ok (c, w)" using pipeline_run_ok [OF assms(1)] assms(2) by simp
  then have "crm_inv c" "sound_dbs w" by (auto simp: es.ok_def)
  then show "\<forall>cid. check_drift cid c = [] \<and> check_duplicate_keys cid w = [] \<and> check_orphans cid c w = []"
    using no_orphans [OF okk] by (simp add: no_drift no_duplicates)
qed

end
