(* ===== verification/Ownership.thy ===== *)
theory Ownership
  imports Lab_Prelude "HOL-Library.Multiset"
begin

text \<open>
  \<^verbatim>\<open>libs/procguard.py\<close>: which service processes belong to this session. A session
  claims the processes it spawns; a process is its own when one of its ancestors in the
  process table is claimed. The table comes from \<^verbatim>\<open>ps\<close>, need not be a tree, and may have
  cycles.
\<close>

section \<open>The process table\<close>

type_synonym pid = int
type_synonym process_table = "(pid \<times> pid) list"

text \<open>\<open>str.split()\<close>: the maximal runs of characters that are not white space.\<close>

definition py_space :: "char \<Rightarrow> bool" where
  "py_space c \<longleftrightarrow> of_char c \<in> ({9, 10, 11, 12, 13, 28, 29, 30, 31, 32, 133, 160} :: nat set)"

fun py_words :: "string \<Rightarrow> string \<Rightarrow> string list" where
  "py_words acc [] = (if acc = [] then [] else [rev acc])"
| "py_words acc (c # cs) =
     (if py_space c then (if acc = [] then py_words [] cs else rev acc # py_words [] cs) else py_words (c # acc) cs)"

definition py_split :: "string \<Rightarrow> string list" where
  "py_split s = py_words [] s"

text \<open>
  \<open>int(..)\<close> of a word: an optional sign, then decimal digits with single underscores between
  them. \<open>None\<close> is the \<open>ValueError\<close>.
\<close>

definition py_digit :: "char \<Rightarrow> int option" where
  "py_digit c = (let n = of_char c :: nat in if 48 \<le> n \<and> n \<le> 57 then Some (int n - 48) else None)"

fun py_digits :: "int \<Rightarrow> bool \<Rightarrow> string \<Rightarrow> int option" where
  "py_digits acc after_digit [] = (if after_digit then Some acc else None)"
| "py_digits acc after_digit (c # cs) =
     (case py_digit c of
        Some d \<Rightarrow> py_digits (10 * acc + d) True cs
      | None \<Rightarrow> if c = CHR ''_'' \<and> after_digit then py_digits acc False cs else None)"

fun py_int :: "string \<Rightarrow> int option" where
  "py_int (CHR ''-'' # cs) = map_option uminus (py_digits 0 False cs)"
| "py_int (CHR ''+'' # cs) = py_digits 0 False cs"
| "py_int cs = py_digits 0 False cs"

text \<open>
  \<open>parent_map\<close> over the lines of the listing: a line with two words is an entry, a later entry
  for the same process replaces the earlier one, any other line is skipped.
\<close>

fun parent_lines :: "string list \<Rightarrow> process_table \<Rightarrow> process_table option" where
  "parent_lines [] parents = Some parents"
| "parent_lines (line # more) parents =
     (case py_split line of
        [p, q] \<Rightarrow> (case (py_int p, py_int q) of
            (Some p, Some q) \<Rightarrow> parent_lines more (AList.update p q parents)
          | _ \<Rightarrow> None)
      | _ \<Rightarrow> parent_lines more parents)"

definition parent_map :: "string list \<Rightarrow> process_table option" where
  "parent_map out = parent_lines out []"

text \<open>\<open>running_service_pids\<close> reads every word of the listing.\<close>

definition running_service_pids :: "string \<Rightarrow> pid list option" where
  "running_service_pids out = those (map py_int (py_split out))"

section \<open>Ownership\<close>

text \<open>The claimed processes of a session.\<close>

type_synonym ownership = "pid set"

definition no_claims :: ownership where
  "no_claims = {}"

definition claim :: "pid \<Rightarrow> ownership \<Rightarrow> ownership" where
  "claim p claimed = insert p claimed"

definition release_claim :: "pid \<Rightarrow> ownership \<Rightarrow> ownership" where
  "release_claim p claimed = claimed - {p}"

text \<open>\<open>parent_of.get(current, 0)\<close>\<close>

definition parent_in :: "process_table \<Rightarrow> pid \<Rightarrow> pid" where
  "parent_in parents p = (case map_of parents p of Some q \<Rightarrow> q | None \<Rightarrow> 0)"

lemma parent_in_unlisted [simp]: "p \<notin> fst ` set parents \<Longrightarrow> parent_in parents p = 0"
  by (simp add: parent_in_def map_of_eq_None_iff [symmetric])

text \<open>
  The walk from a process towards its ancestors. Every listed process is visited once at most,
  and from an unlisted one the next is 0.
\<close>

definition walk_left :: "process_table \<Rightarrow> pid set \<Rightarrow> pid \<Rightarrow> nat" where
  "walk_left parents seen current = card (fst ` set parents - seen) + (if current = 0 then 0 else 1)"

lemma walk_left_step:
  assumes "current \<noteq> 0" "current \<notin> seen"
  shows "walk_left parents (insert current seen) (parent_in parents current) < walk_left parents seen current"
proof (cases "current \<in> fst ` set parents")
  case True
  then have "card (fst ` set parents - insert current seen) < card (fst ` set parents - seen)"
    using assms(2) by (intro psubset_card_mono) auto
  then show ?thesis using assms(1) by (simp add: walk_left_def)
next
  case False
  then have "fst ` set parents - insert current seen = fst ` set parents - seen" by blast
  then show ?thesis using False assms(1) by (simp add: walk_left_def)
qed

function owns_from :: "ownership \<Rightarrow> process_table \<Rightarrow> pid set \<Rightarrow> pid \<Rightarrow> bool" where
  "owns_from claimed parents seen current =
     (if current \<noteq> 0 \<and> current \<notin> seen
      then current \<in> claimed \<or> owns_from claimed parents (insert current seen) (parent_in parents current)
      else False)"
  by pat_completeness auto
termination
  by (relation "measure (\<lambda>(claimed, parents, seen, current). walk_left parents seen current)") (auto intro: walk_left_step)

declare owns_from.simps [simp del]

definition owns :: "ownership \<Rightarrow> pid \<Rightarrow> process_table \<Rightarrow> bool" where
  "owns claimed p parents = owns_from claimed parents {} p"

definition foreign :: "ownership \<Rightarrow> pid list \<Rightarrow> process_table \<Rightarrow> pid list" where
  "foreign claimed pids parents = sort (filter (\<lambda>p. \<not> owns claimed p parents) pids)"

section \<open>What ownership means\<close>

text \<open>\<open>q\<close> is \<open>p\<close> or one of its ancestors; process 0 is nobody.\<close>

inductive descends :: "process_table \<Rightarrow> pid \<Rightarrow> pid \<Rightarrow> bool" for parents where
  itself: "p \<noteq> 0 \<Longrightarrow> descends parents p p"
| parent: "p \<noteq> 0 \<Longrightarrow> descends parents (parent_in parents p) q \<Longrightarrow> descends parents p q"

lemma descends_pos: "descends parents p q \<Longrightarrow> p \<noteq> 0 \<and> q \<noteq> 0"
  by (induction rule: descends.induct) auto

lemma owns_from_sound: "owns_from claimed parents seen p \<Longrightarrow> \<exists>q\<in>claimed. descends parents p q"
proof (induction claimed parents seen p rule: owns_from.induct)
  case (1 claimed parents seen p)
  then show ?case by (subst (asm) (2) owns_from.simps) (auto split: if_splits intro: descends.intros)
qed

text \<open>The walk itself, as iterates of the parent function.\<close>

definition ancestor_at :: "process_table \<Rightarrow> pid \<Rightarrow> nat \<Rightarrow> pid" where
  "ancestor_at parents p k = (parent_in parents ^^ k) p"

lemma ancestor_at_simps [simp]:
  "ancestor_at parents p 0 = p"
  "ancestor_at parents p (Suc k) = parent_in parents (ancestor_at parents p k)"
  by (simp_all add: ancestor_at_def)

lemma descends_ancestor:
  "descends parents p q \<Longrightarrow> \<exists>k. ancestor_at parents p k = q \<and> (\<forall>i\<le>k. ancestor_at parents p i \<noteq> 0)"
proof (induction rule: descends.induct)
  case (parent p q)
  then obtain k where k: "ancestor_at parents (parent_in parents p) k = q"
    "\<forall>i\<le>k. ancestor_at parents (parent_in parents p) i \<noteq> 0" by blast
  have shift: "ancestor_at parents (parent_in parents p) i = ancestor_at parents p (Suc i)" for i
    by (induction i) simp_all
  have "\<forall>i\<le>Suc k. ancestor_at parents p i \<noteq> 0"
    using k(2) parent.hyps(1) unfolding shift by (metis Suc_le_mono ancestor_at_simps(1) not0_implies_Suc)
  then show ?case using k(1) unfolding shift by blast
qed (use descends.itself in \<open>auto intro: exI [of _ 0]\<close>)

lemma repeated_ancestor:
  assumes "ancestor_at parents p i = ancestor_at parents p j" "i \<le> j"
  shows "ancestor_at parents p (i + d) = ancestor_at parents p (j + d)"
  using assms by (induction d) simp_all

text \<open>Up to the first claimed ancestor the walk meets no process twice.\<close>

lemma owns_from_complete:
  assumes first: "ancestor_at parents p k \<in> claimed" "\<And>i. i < k \<Longrightarrow> ancestor_at parents p i \<notin> claimed"
    and pos: "\<forall>i\<le>k. ancestor_at parents p i \<noteq> 0" and "j \<le> k"
  shows "owns_from claimed parents (ancestor_at parents p ` {..<j}) (ancestor_at parents p j)"
  using \<open>j \<le> k\<close>
proof (induction rule: inc_induct)
  case base
  have "ancestor_at parents p k \<notin> ancestor_at parents p ` {..<k}" using first by auto
  then show ?case using first pos by (subst owns_from.simps) simp
next
  case (step n)
  have new: "ancestor_at parents p n \<notin> ancestor_at parents p ` {..<n}"
  proof
    assume "ancestor_at parents p n \<in> ancestor_at parents p ` {..<n}"
    then obtain i where i: "i < n" "ancestor_at parents p i = ancestor_at parents p n" by auto
    have "ancestor_at parents p (i + (k - n)) = ancestor_at parents p (n + (k - n))"
      using repeated_ancestor i by (metis less_imp_le)
    moreover have "i + (k - n) < k" using i(1) step.hyps by linarith
    ultimately show False using first step.hyps by (metis le_add_diff_inverse less_imp_le)
  qed
  have "insert (ancestor_at parents p n) (ancestor_at parents p ` {..<n}) = ancestor_at parents p ` {..<Suc n}"
    by (auto simp: lessThan_Suc)
  with step new pos show ?case by (subst owns_from.simps) simp
qed

lemma owns_iff: "owns claimed p parents \<longleftrightarrow> (\<exists>q\<in>claimed. descends parents p q)"
proof
  assume "\<exists>q\<in>claimed. descends parents p q"
  then obtain m where m: "ancestor_at parents p m \<in> claimed" "\<forall>i\<le>m. ancestor_at parents p i \<noteq> 0"
    using descends_ancestor by metis
  define k where "k = (LEAST k. ancestor_at parents p k \<in> claimed)"
  have k: "ancestor_at parents p k \<in> claimed" "k \<le> m" "\<And>i. i < k \<Longrightarrow> ancestor_at parents p i \<notin> claimed"
    using m(1) unfolding k_def by (auto intro: LeastI Least_le dest: not_less_Least)
  have "owns_from claimed parents (ancestor_at parents p ` {..<0}) (ancestor_at parents p 0)"
    using k m(2) by (intro owns_from_complete [where k = k]) auto
  then show "owns claimed p parents" by (simp add: owns_def)
qed (auto simp: owns_def dest: owns_from_sound)

text \<open>
  C39. The foreign processes are exactly those without a claimed ancestor, whatever the process
  table: entries may be missing, repeated or circular, as in \<open>ps\<close> output that went wrong. They
  come sorted, and a listed process is neither lost nor duplicated.
\<close>

theorem foreign_is_unclaimed_ancestry:
  "sorted (foreign claimed pids parents)
   \<and> set (foreign claimed pids parents) = {p \<in> set pids. \<forall>q. descends parents p q \<longrightarrow> q \<notin> claimed}
   \<and> (\<forall>p. count_list (foreign claimed pids parents) p =
        (if owns claimed p parents then 0 else count_list pids p))"
proof -
  have "count_list (filter P xs) p = (if P p then count_list xs p else 0)" for P xs and p :: pid
    by (induction xs) auto
  moreover have "count_list (sort xs) p = count_list xs p" for xs and p :: pid
    by (metis count_mset mset_sort)
  ultimately show ?thesis unfolding foreign_def by (auto simp: owns_iff)
qed

text \<open>
  A claimed process 10 with a worker 11 whose child 12 listens, a stranger 20, and two processes 30
  and 31 that name each other as their parents.
\<close>

theorem foreign_is_unclaimed_ancestry_witness:
  "foreign {10} [31, 12, 20, 11, 30] [(10, 1), (11, 10), (12, 11), (20, 1), (30, 31), (31, 30)] = [20, 30, 31]
   \<and> \<not> descends [(10, 1), (11, 10), (12, 11), (20, 1), (30, 31), (31, 30)] 30 10"
proof -
  have f: "foreign {10} [31, 12, 20, 11, 30] [(10, 1), (11, 10), (12, 11), (20, 1), (30, 31), (31, 30)] = [20, 30, 31]"
    by (simp add: foreign_def owns_def owns_from.simps parent_in_def)
  show ?thesis
    using foreign_is_unclaimed_ancestry [of "{10}" "[31, 12, 20, 11, 30]"
        "[(10, 1), (11, 10), (12, 11), (20, 1), (30, 31), (31, 30)]"] unfolding f by auto
qed

text \<open>The loop of \<open>_owns\<close> with a bound on its iterations; \<open>None\<close> when the bound is reached.\<close>

fun owns_loop :: "nat \<Rightarrow> ownership \<Rightarrow> process_table \<Rightarrow> pid set \<Rightarrow> pid \<Rightarrow> bool option" where
  "owns_loop 0 claimed parents seen current = None"
| "owns_loop (Suc n) claimed parents seen current =
     (if current = 0 \<or> current \<in> seen then Some False
      else if current \<in> claimed then Some True
      else owns_loop n claimed parents (insert current seen) (parent_in parents current))"

lemma owns_loop_enough:
  "walk_left parents seen current < n \<Longrightarrow>
   owns_loop n claimed parents seen current = Some (owns_from claimed parents seen current)"
proof (induction n arbitrary: seen current)
  case (Suc n)
  show ?case
  proof (cases "current = 0 \<or> current \<in> seen")
    case False
    then have "walk_left parents (insert current seen) (parent_in parents current) < n"
      using walk_left_step [of current seen parents] Suc.prems by linarith
    then show ?thesis using Suc.IH False by (simp add: owns_from.simps [of claimed parents seen current])
  qed (auto simp: owns_from.simps [of claimed parents seen current])
qed simp

text \<open>
  The walk ends on any table, circular ones included: it makes at most two iterations more
  than the table has lines, and answers whether an ancestor is claimed.
\<close>

lemma ownership_walk_terminates:
  assumes "length parents + 2 \<le> n"
  shows "owns_loop n claimed parents {} p = Some (\<exists>q\<in>claimed. descends parents p q)"
proof -
  have "card (fst ` set parents) \<le> length parents" by (metis card_length length_map list.set_map)
  then have "walk_left parents {} p < n" using assms by (simp add: walk_left_def)
  then show ?thesis by (simp add: owns_loop_enough owns_def [symmetric] owns_iff)
qed

text \<open>A released process vouches for nobody any more, whatever pid the system reuses.\<close>

lemma release_revokes:
  "owns (release_claim p claimed) r parents \<longleftrightarrow> (\<exists>q\<in>claimed. q \<noteq> p \<and> descends parents r q)"
  by (auto simp: owns_iff release_claim_def)

lemma claim_adopts:
  "owns (claim p claimed) r parents \<longleftrightarrow> owns claimed r parents \<or> descends parents r p"
  by (auto simp: owns_iff claim_def)

end
