(* ===== verification/Service_Lab.thy ===== *)
theory Service_Lab
  imports Ownership Oracle
begin

text \<open>
  \<^verbatim>\<open>libs/servicelab.py\<close> and \<^verbatim>\<open>demo/harness.py\<close>: spawning the services, waiting until they are
  ready, stopping them. The operating system and the network are a parameter, the record
  \<open>host\<close>; an exception is \<open>Inl\<close> of its message; the state is what the parent process did.
\<close>

section \<open>Processes\<close>

record launch =
  la_module :: string
  la_port :: nat
  la_workers :: nat
  la_env :: "(string \<times> string) list"

text \<open>
  \<open>Popen\<close> of the n-th process, the status of the n-th \<open>GET\<close> (\<open>None\<close>: it raises), whether a process exits
  within the grace period, the n-th free port, \<open>os.environ\<close>, and the repository's path.
\<close>

record host =
  ho_popen :: "nat \<Rightarrow> launch \<Rightarrow> pid option"
  ho_get :: "nat \<Rightarrow> string \<Rightarrow> nat option"
  ho_exits :: "pid \<Rightarrow> bool"
  ho_free_port :: "nat \<Rightarrow> nat"
  ho_environ :: "(string \<times> string) list"
  ho_repo :: string

record lab =
  started :: "(pid \<times> launch) list"
  terminated :: "pid list"
  killed :: "pid list"
  claims :: ownership
  gets :: nat
  naps :: nat

definition COORDINATOR_WORKERS :: nat where
  "COORDINATOR_WORKERS = 1"

definition COORDINATOR_READY_PATH :: string where
  "COORDINATOR_READY_PATH = ''/waiters''"

definition update_env :: "(string \<times> string) list \<Rightarrow> (string \<times> string) list \<Rightarrow> (string \<times> string) list" where
  "update_env extra env = fold (\<lambda>(k, v). AList.update k v) extra env"

definition spawn_service ::
  "host \<Rightarrow> string \<Rightarrow> nat \<Rightarrow> (string \<times> string) list \<Rightarrow> nat \<Rightarrow> (pid \<Rightarrow> ownership \<Rightarrow> ownership) option \<Rightarrow>
     lab \<Rightarrow> (string + pid) \<times> lab" where
  "spawn_service h app port env_extra workers on_spawn lab =
     (let launch = \<lparr> la_module = app, la_port = port, la_workers = workers,
        la_env = update_env env_extra (AList.update ''PYTHONPATH'' (ho_repo h) (ho_environ h)) \<rparr> in
      case ho_popen h (length (started lab)) launch of
        None \<Rightarrow> (Inl ''Popen failed'', lab)
      | Some pid \<Rightarrow> (Inr pid, lab\<lparr> started := started lab @ [(pid, launch)],
          claims := (case on_spawn of None \<Rightarrow> claims lab | Some f \<Rightarrow> f pid (claims lab)) \<rparr>))"

definition spawn_coordinator ::
  "host \<Rightarrow> nat \<Rightarrow> (pid \<Rightarrow> ownership \<Rightarrow> ownership) option \<Rightarrow> lab \<Rightarrow> (string + pid) \<times> lab" where
  "spawn_coordinator h port on_spawn lab =
     spawn_service h ''apps.coordinator.main:app'' port [] COORDINATOR_WORKERS on_spawn lab"

text \<open>\<open>wait_for\<close>; a failed attempt is followed by half a second of sleep. \<open>None\<close> is a normal return.\<close>

fun wait_for :: "host \<Rightarrow> string \<Rightarrow> nat \<Rightarrow> lab \<Rightarrow> string option \<times> lab" where
  "wait_for h url 0 lab = (Some (''never became ready: '' @ url), lab)"
| "wait_for h url (Suc attempts) lab =
     (let lab' = lab\<lparr> gets := gets lab + 1 \<rparr> in
      if ho_get h (gets lab) url = Some 200 then (None, lab')
      else wait_for h url attempts (lab'\<lparr> naps := naps lab' + 1 \<rparr>))"

fun stop_all :: "host \<Rightarrow> (pid \<Rightarrow> ownership \<Rightarrow> ownership) option \<Rightarrow> pid list \<Rightarrow> lab \<Rightarrow> lab" where
  "stop_all h on_stop [] lab = lab"
| "stop_all h on_stop (p # procs) lab =
     stop_all h on_stop procs (lab\<lparr> terminated := terminated lab @ [p],
       killed := (if ho_exits h p then killed lab else killed lab @ [p]),
       claims := (case on_stop of None \<Rightarrow> claims lab | Some f \<Rightarrow> f p (claims lab)) \<rparr>)"

lemma stop_all_eq:
  "started (stop_all h on_stop procs lab) = started lab"
  "terminated (stop_all h on_stop procs lab) = terminated lab @ procs"
  "killed (stop_all h on_stop procs lab) = killed lab @ filter (\<lambda>p. \<not> ho_exits h p) procs"
  by (induction procs arbitrary: lab) simp_all

lemma stop_all_releases: "claims (stop_all h (Some release_claim) procs lab) = claims lab - set procs"
  by (induction procs arbitrary: lab) (auto simp: release_claim_def)

lemma wait_for_processes [simp]:
  "started (snd (wait_for h url n lab)) = started lab"
  "terminated (snd (wait_for h url n lab)) = terminated lab"
  "killed (snd (wait_for h url n lab)) = killed lab"
  by (induction h url n lab rule: wait_for.induct) (simp_all add: Let_def)

text \<open>
  Waiting is bounded and stops at the first sign of life: \<open>wait_for\<close> returns after the first
  attempt that answers 200, with one nap for each attempt before it, and raises after exactly
  the given number of attempts when none does. It starts and stops no process.
\<close>

lemma waiting_is_bounded:
  "wait_for h url n lab =
     (case filter (\<lambda>i. ho_get h (gets lab + i) url = Some 200) [0..<n] of
        [] \<Rightarrow> (Some (''never became ready: '' @ url), lab\<lparr> gets := gets lab + n, naps := naps lab + n \<rparr>)
      | i # _ \<Rightarrow> (None, lab\<lparr> gets := gets lab + i + 1, naps := naps lab + i \<rparr>))"
proof (induction n arbitrary: lab)
  case (Suc n)
  have up: "[0..<Suc n] = 0 # map Suc [0..<n]" using upt_conv_Cons map_Suc_upt by fastforce
  show ?case
    unfolding up by (auto simp: Suc.IH filter_map o_def Let_def split: list.split)
qed simp

section \<open>The demo's harness\<close>

definition DEMO_ATTEMPTS :: nat where
  "DEMO_ATTEMPTS = 120"

definition local_url :: "nat \<Rightarrow> string" where
  "local_url port = ''http://127.0.0.1:'' @ str_nat port"

text \<open>The loops over the services; the list of processes grows as they are spawned.\<close>

fun spawn_services ::
  "host \<Rightarrow> (string \<times> string) list \<Rightarrow> (string \<times> nat) list \<Rightarrow> pid list \<Rightarrow> lab \<Rightarrow> string option \<times> pid list \<times> lab" where
  "spawn_services h env [] procs lab = (None, procs, lab)"
| "spawn_services h env ((name, port) # ports) procs lab =
     (case spawn_service h (''apps.'' @ name @ ''.main:app'') port env 4 None lab of
        (Inl e, lab) \<Rightarrow> (Some e, procs, lab)
      | (Inr p, lab) \<Rightarrow> spawn_services h env ports (procs @ [p]) lab)"

fun wait_for_services :: "host \<Rightarrow> (string \<times> nat) list \<Rightarrow> lab \<Rightarrow> string option \<times> lab" where
  "wait_for_services h [] lab = (None, lab)"
| "wait_for_services h ((name, port) # ports) lab =
     (case wait_for h (local_url port @ ''/health'') DEMO_ATTEMPTS lab of
        (Some e, lab) \<Rightarrow> (Some e, lab)
      | (None, lab) \<Rightarrow> wait_for_services h ports lab)"

type_synonym stack = "(string \<times> string) list"

definition demo_ports :: "host \<Rightarrow> (string \<times> nat) list" where
  "demo_ports h = [(''billing'', ho_free_port h 1), (''ledger'', ho_free_port h 2), (''crm'', ho_free_port h 3)]"

definition demo_env :: "string \<Rightarrow> (string \<times> string) list" where
  "demo_env coord_url = [(''BARRIER_ENABLED'', ''1''), (''BARRIER_URL'', coord_url), (''ACL_ENFORCE_POLICY'', ''1'')]"

text \<open>The body of the \<open>try\<close>: the result, the processes spawned so far, the state.\<close>

definition run_s1_body ::
  "host \<Rightarrow> (stack \<Rightarrow> string + 'r) \<Rightarrow> nat \<Rightarrow> pid list \<Rightarrow> lab \<Rightarrow> (string + 'r) \<times> pid list \<times> lab" where
  "run_s1_body h run_schedule coord_port procs lab =
     (let coord_url = local_url coord_port in
      case wait_for h (coord_url @ COORDINATOR_READY_PATH) DEMO_ATTEMPTS lab of
        (Some e, lab) \<Rightarrow> (Inl e, procs, lab)
      | (None, lab) \<Rightarrow>
          (case spawn_services h (demo_env coord_url) (demo_ports h) procs lab of
             (Some e, procs, lab) \<Rightarrow> (Inl e, procs, lab)
           | (None, procs, lab) \<Rightarrow>
               (case wait_for_services h (demo_ports h) lab of
                  (Some e, lab) \<Rightarrow> (Inl e, procs, lab)
                | (None, lab) \<Rightarrow>
                    (run_schedule ((''coordinator'', coord_url) # map (\<lambda>(n, p). (n, local_url p)) (demo_ports h)), procs, lab))))"

text \<open>
  \<open>prepare\<close> stands for the migrations, the grants and the truncations, \<open>run_schedule\<close> for the run of
  S1 against the stack: each may raise.
\<close>

definition run_s1 :: "host \<Rightarrow> string option \<Rightarrow> (stack \<Rightarrow> string + 'r) \<Rightarrow> lab \<Rightarrow> (string + 'r) \<times> lab" where
  "run_s1 h prepare run_schedule lab =
     (case prepare of
        Some e \<Rightarrow> (Inl e, lab)
      | None \<Rightarrow>
          (case spawn_coordinator h (ho_free_port h 0) None lab of
             (Inl e, lab) \<Rightarrow> (Inl e, lab)
           | (Inr p, lab) \<Rightarrow>
               (case run_s1_body h run_schedule (ho_free_port h 0) [p] lab of
                  (r, procs, lab) \<Rightarrow> (r, stop_all h None procs lab))))"

lemma spawn_service_starts:
  "spawn_service h m port env w f lab = (r, lab') \<Longrightarrow>
     terminated lab' = terminated lab \<and> killed lab' = killed lab \<and>
     (case r of Inl _ \<Rightarrow> started lab' = started lab
      | Inr p \<Rightarrow> \<exists>l. started lab' = started lab @ [(p, l)] \<and> la_workers l = w \<and> la_module l = m)"
  by (auto simp: spawn_service_def Let_def split: option.splits)

lemma spawn_services_starts:
  "spawn_services h env ports procs lab = (e, procs', lab') \<Longrightarrow>
     \<exists>ls. started lab' = started lab @ ls \<and> procs' = procs @ map fst ls \<and> terminated lab' = terminated lab \<and> killed lab' = killed lab"
proof (induction h env ports procs lab rule: spawn_services.induct)
  case (2 h env name port ports procs lab)
  show ?case
  proof (cases "spawn_service h (''apps.'' @ name @ ''.main:app'') port env 4 None lab")
    case (Pair r lab1)
    then show ?thesis
    proof (cases r)
      case (Inl e)
      then show ?thesis using 2 Pair spawn_service_starts [OF Pair] by auto
    next
      case (Inr p)
      then obtain l where l: "started lab1 = started lab @ [(p, l)]" "terminated lab1 = terminated lab" "killed lab1 = killed lab"
        using spawn_service_starts [OF Pair] by auto
      obtain ls where "started lab' = started lab1 @ ls" "procs' = (procs @ [p]) @ map fst ls" "terminated lab' = terminated lab1" "killed lab' = killed lab1"
        using 2 Pair Inr by fastforce
      with l show ?thesis by (intro exI [of _ "(p, l) # ls"]) simp
    qed
  qed
qed simp

lemma wait_for_services_processes:
  "wait_for_services h ports lab = (e, lab') \<Longrightarrow> started lab' = started lab \<and> terminated lab' = terminated lab \<and> killed lab' = killed lab"
proof (induction h ports lab rule: wait_for_services.induct)
  case (2 h name port ports lab)
  show ?case
    using 2 wait_for_processes [of h "local_url port @ ''/health''" DEMO_ATTEMPTS lab]
    by (auto simp del: wait_for_processes split: prod.splits option.splits)
qed simp

lemma run_s1_body_starts:
  assumes "run_s1_body h run coord_port procs lab = (r, procs', lab')"
  shows "\<exists>ls. started lab' = started lab @ ls \<and> procs' = procs @ map fst ls \<and> terminated lab' = terminated lab \<and> killed lab' = killed lab"
proof -
  define url where "url = local_url coord_port @ COORDINATOR_READY_PATH"
  obtain e1 lab1 where w: "wait_for h url DEMO_ATTEMPTS lab = (e1, lab1)" by fastforce
  have k: "started lab1 = started lab" "terminated lab1 = terminated lab" "killed lab1 = killed lab"
    using wait_for_processes [of h url DEMO_ATTEMPTS lab] unfolding w by simp_all
  obtain e2 procs2 lab2 where s: "spawn_services h (demo_env (local_url coord_port)) (demo_ports h) procs lab1 = (e2, procs2, lab2)"
    by (rule prod_cases3)
  obtain e3 lab3 where v: "wait_for_services h (demo_ports h) lab2 = (e3, lab3)" by fastforce
  have "(e1 \<noteq> None \<longrightarrow> lab' = lab1 \<and> procs' = procs) \<and> (e1 = None \<longrightarrow> procs' = procs2 \<and> (lab' = lab2 \<or> lab' = lab3))"
    using assms unfolding run_s1_body_def Let_def url_def [symmetric] w by (auto simp: s v split: option.splits)
  then show ?thesis
    using k spawn_services_starts [OF s] wait_for_services_processes [OF v] by (cases e1) auto
qed

text \<open>
  C37. The demo leaves no process behind. However the run ends, with a verdict, with a service
  that never becomes ready, with a failed spawn or with an exception from the schedule, every
  process that was started is told to terminate, once and in the order of starting, and one
  that does not go is killed. The coordinator is the first process and has one worker.
\<close>

theorem demo_leaves_no_process:
  "\<exists>ls. started (snd (run_s1 h prepare run lab)) = started lab @ ls
    \<and> terminated (snd (run_s1 h prepare run lab)) = terminated lab @ map fst ls
    \<and> killed (snd (run_s1 h prepare run lab)) = killed lab @ filter (\<lambda>p. \<not> ho_exits h p) (map fst ls)
    \<and> (ls = [] \<or> la_module (snd (hd ls)) = ''apps.coordinator.main:app'' \<and> la_workers (snd (hd ls)) = 1)"
proof (cases "prepare = None")
  case True
  obtain r lab1 where c: "spawn_coordinator h (ho_free_port h 0) None lab = (r, lab1)" by fastforce
  note sc = spawn_service_starts [OF c [unfolded spawn_coordinator_def]]
  show ?thesis
  proof (cases r)
    case (Inl e)
    then show ?thesis using sc c True by (auto simp: run_s1_def)
  next
    case (Inr p)
    then obtain l where l: "started lab1 = started lab @ [(p, l)]" "la_workers l = COORDINATOR_WORKERS"
      "la_module l = ''apps.coordinator.main:app''" "terminated lab1 = terminated lab" "killed lab1 = killed lab"
      using sc by auto
    obtain q procs lab2 where b: "run_s1_body h run (ho_free_port h 0) [p] lab1 = (q, procs, lab2)"
      by (rule prod_cases3)
    obtain ls where ls: "started lab2 = started lab1 @ ls" "procs = [p] @ map fst ls" "terminated lab2 = terminated lab1"
      "killed lab2 = killed lab1" using run_s1_body_starts [OF b] by blast
    have "run_s1 h prepare run lab = (q, stop_all h None procs lab2)" by (simp add: run_s1_def True c Inr b)
    then show ?thesis
      using l ls by (intro exI [of _ "(p, l) # ls"]) (simp add: stop_all_eq COORDINATOR_WORKERS_def)
  qed
qed (auto simp: run_s1_def)

end
