(* ===== verification/Catalog.thy ===== *)
theory Catalog
  imports Ownership Authorization
begin

text \<open>
  The failure catalogue, \<^verbatim>\<open>catalog/\<close>: \<open>verify.py\<close> checks the catalogue against a test report,
  \<open>reproduce.py\<close> resolves an id to a command, \<open>render.py\<close> writes the document. The catalogue
  is a YAML file; here it is the list of its parsed entries. Text is UTF-8, one character per
  byte.
\<close>

section \<open>Entries\<close>

record entry =
  en_id :: string
  en_name :: string
  en_status :: string
  en_class :: string
  en_family :: string
  en_symptom :: string
  en_mechanism :: string
  en_monitoring :: string
  en_control :: string
  en_reproduce :: "string option"
  en_verified_by :: "string list option"
  en_control_verified_by :: "string list option"
  en_schedules :: "string list option"
  en_requires :: "string option"
  en_notes :: "string option"

text \<open>\<open>x or []\<close>, and the truth of an optional text or list.\<close>

definition or_empty :: "'x list option \<Rightarrow> 'x list" where
  "or_empty x = (case x of None \<Rightarrow> [] | Some ys \<Rightarrow> ys)"

definition given :: "'x list option \<Rightarrow> bool" where
  "given x \<longleftrightarrow> or_empty x \<noteq> []"

section \<open>Verification against a report\<close>

datatype test_outcome = Failed | Passed | Skipped

record testcase =
  tc_file :: string
  tc_test :: "string option"
  tc_failure :: bool
  tc_error :: bool
  tc_skipped :: bool

definition base_name :: "testcase \<Rightarrow> string" where
  "base_name t = takeWhile (\<lambda>c. c \<noteq> CHR ''['') (or_empty (tc_test t))"

definition outcome_in_report :: "testcase \<Rightarrow> test_outcome" where
  "outcome_in_report t = (if tc_failure t \<or> tc_error t then Failed else if tc_skipped t then Skipped else Passed)"

text \<open>\<open>seen.setdefault(name, set()).add(outcome)\<close> over the cases.\<close>

definition add_outcome :: "testcase \<Rightarrow> (string \<rightharpoonup> test_outcome set) \<Rightarrow> (string \<rightharpoonup> test_outcome set)" where
  "add_outcome t seen =
     seen(base_name t \<mapsto> insert (outcome_in_report t) (case seen (base_name t) of None \<Rightarrow> {} | Some s \<Rightarrow> s))"

definition outcomes :: "testcase list \<Rightarrow> string \<rightharpoonup> test_outcome set" where
  "outcomes report = fold add_outcome report Map.empty"

text \<open>What is printed of a problem: the entry, the test, the sorted outcomes, and the hint.\<close>

datatype problem =
    Did_Not_Run string string
  | Outcome_Was string string "test_outcome list" bool

definition sorted_outcomes :: "test_outcome set \<Rightarrow> test_outcome list" where
  "sorted_outcomes s = filter (\<lambda>x. x \<in> s) [Failed, Passed, Skipped]"

definition check_citation :: "(string \<rightharpoonup> test_outcome set) \<Rightarrow> entry \<Rightarrow> string \<Rightarrow> problem list" where
  "check_citation seen e cited =
     (case seen cited of
        None \<Rightarrow> [Did_Not_Run (en_id e) cited]
      | Some result \<Rightarrow>
          if result = {Skipped} \<and> given (en_requires e) then []
          else if result \<noteq> {Passed} then [Outcome_Was (en_id e) cited (sorted_outcomes result) (\<not> given (en_requires e))]
          else [])"

definition citations :: "entry \<Rightarrow> string list" where
  "citations e = or_empty (en_verified_by e) @ or_empty (en_control_verified_by e)"

definition verify :: "entry list \<Rightarrow> testcase list \<Rightarrow> problem list" where
  "verify entries report =
     (let seen = outcomes report in
      concat (map (\<lambda>e. if en_status e \<noteq> ''reproduced'' then [] else concat (map (check_citation seen e) (citations e)))
        entries))"

definition verify_main :: "string list \<Rightarrow> (string \<rightharpoonup> testcase list) \<Rightarrow> entry list \<Rightarrow> int" where
  "verify_main argv files entries =
     (if length argv \<noteq> 2 then 2
      else (case files (argv ! 1) of
          None \<Rightarrow> 2
        | Some report \<Rightarrow> if verify entries report \<noteq> [] then 1 else 0))"

lemma outcomes_snoc: "outcomes (report @ [t]) = add_outcome t (outcomes report)"
  by (simp add: outcomes_def)

text \<open>The outcomes of a name are those of all test cases with that name, in whatever file.\<close>

lemma outcomes_eq:
  "outcomes report name =
     (let ts = filter (\<lambda>t. base_name t = name) report in if ts = [] then None else Some (outcome_in_report ` set ts))"
proof (induction report rule: rev_induct)
  case (snoc t report)
  show ?case
  proof (cases "base_name t = name")
    case True
    then show ?thesis by (auto simp: outcomes_snoc add_outcome_def snoc.IH Let_def filter_empty_conv)
  next
    case False
    then show ?thesis by (simp add: outcomes_snoc add_outcome_def snoc.IH Let_def)
  qed
qed (simp add: outcomes_def)

text \<open>
  What the check asks of a cited test: it is in the report, and it passed in all its occurrences,
  or the entry declares what it requires and the test was skipped in all of them.
\<close>

definition accounted_for :: "testcase list \<Rightarrow> entry \<Rightarrow> string \<Rightarrow> bool" where
  "accounted_for report e cited \<longleftrightarrow> (let os = map outcome_in_report (filter (\<lambda>t. base_name t = cited) report) in
     os \<noteq> [] \<and> (list_all (\<lambda>x. x = Passed) os \<or> given (en_requires e) \<and> list_all (\<lambda>x. x = Skipped) os))"

lemma singleton_outcomes: "xs \<noteq> [] \<Longrightarrow> f ` set xs = {x} \<longleftrightarrow> list_all (\<lambda>y. y = x) (map f xs)"
  by (cases xs) (auto simp: list_all_iff)

lemma check_citation_accounted: "check_citation (outcomes report) e cited = [] \<longleftrightarrow> accounted_for report e cited"
proof (cases "filter (\<lambda>t. base_name t = cited) report = []")
  case True
  then show ?thesis by (simp add: check_citation_def accounted_for_def outcomes_eq)
next
  case False
  then show ?thesis
    using singleton_outcomes [OF False, of outcome_in_report]
    by (auto simp: check_citation_def accounted_for_def outcomes_eq Let_def)
qed

lemma verify_empty:
  "verify entries report = [] \<longleftrightarrow>
     list_all (\<lambda>e. en_status e \<noteq> ''reproduced'' \<or> list_all (accounted_for report e) (citations e)) entries"
proof -
  have all: "concat (map f xs) = [] \<longleftrightarrow> list_all (\<lambda>x. f x = []) xs" for f :: "'x \<Rightarrow> problem list" and xs
    by (induction xs) auto
  show ?thesis
    unfolding verify_def Let_def all by (intro list_all_cong) (simp_all add: all check_citation_accounted list_all_iff)
qed

text \<open>
  The catalogue check is exact. It exits with 0 if and only if the report exists and
  every test that a reproduced entry cites appears in it and passed in all its
  occurrences, or was skipped in all of them while the entry declares what it requires. Entries
  with another status are not looked at.
\<close>

lemma catalogue_check_is_exact:
  "verify_main [prog, path] files entries = 0 \<longleftrightarrow>
     (\<exists>report. files path = Some report \<and>
        list_all (\<lambda>e. en_status e \<noteq> ''reproduced'' \<or> list_all (accounted_for report e) (citations e)) entries)"
  by (auto simp: verify_main_def verify_empty split: option.splits)

text \<open>
  An ambiguous citation is not reported: two files that define the same test name count as one
  when both passed. The module's documentation says that it is.
\<close>

lemma ambiguous_citation_is_not_reported:
  assumes "tc_file t \<noteq> tc_file u" "base_name t = name" "base_name u = name"
    "outcome_in_report t = Passed" "outcome_in_report u = Passed" "citations e = [name]"
  shows "verify [e] [t, u] = []"
  using assms by (simp add: verify_def Let_def check_citation_accounted accounted_for_def)

section \<open>Resolving an id\<close>

definition upper_char :: "char \<Rightarrow> char" where
  "upper_char c = (let n = of_char c :: nat in if 97 \<le> n \<and> n \<le> 122 then char_of (n - 32) else c)"

datatype unknown_failure = No_Command string | Unknown_Id string "string list"

fun find_entry :: "string \<Rightarrow> entry list \<Rightarrow> entry option" where
  "find_entry i [] = None"
| "find_entry i (e # es) = (if en_id e = i then Some e else find_entry i es)"

definition command_for :: "entry list \<Rightarrow> string \<Rightarrow> unknown_failure + string" where
  "command_for entries failure_id =
     (case find_entry (map upper_char failure_id) entries of
        Some e \<Rightarrow> if given (en_reproduce e) then Inr (or_empty (en_reproduce e)) else Inl (No_Command failure_id)
      | None \<Rightarrow> Inl (Unknown_Id failure_id (map en_id entries)))"

type_synonym environment = "(string \<times> string) list"

definition child_env :: "environment \<Rightarrow> environment" where
  "child_env env = AList.delete ''FAILURE'' (AList.delete ''MAKEFLAGS'' env)"

text \<open>\<open>shell\<close> runs a command in an environment and returns its exit code.\<close>

definition reproduce_main :: "string list \<Rightarrow> entry list \<Rightarrow> environment \<Rightarrow> (string \<Rightarrow> environment \<Rightarrow> int) \<Rightarrow> int" where
  "reproduce_main argv entries env shell =
     (if length argv \<noteq> 2 then 2
      else (case command_for entries (argv ! 1) of
          Inl e \<Rightarrow> 1
        | Inr command \<Rightarrow> shell command (child_env env)))"

lemma find_entry_exact:
  "distinct (map en_id entries) \<Longrightarrow> (find_entry i entries = Some e) = (e \<in> set entries \<and> en_id e = i)"
  by (induction entries) auto

lemma command_for_exact:
  assumes "distinct (map en_id entries)"
  shows "command_for entries failure = Inr command \<longleftrightarrow>
    (\<exists>e\<in>set entries. en_id e = map upper_char failure \<and> en_reproduce e = Some command \<and> command \<noteq> '''')"
proof -
  have "command_for entries failure = Inr command \<longleftrightarrow>
      (\<exists>e. find_entry (map upper_char failure) entries = Some e \<and> en_reproduce e = Some command \<and> command \<noteq> '''')"
  proof (cases "find_entry (map upper_char failure) entries")
    case (Some e)
    then show ?thesis by (cases "en_reproduce e") (simp_all add: command_for_def given_def or_empty_def, blast)
  qed (simp add: command_for_def)
  then show ?thesis unfolding find_entry_exact [OF assms] by blast
qed

text \<open>
  An id resolves to its own command or to an error, never to a near miss. With distinct ids,
  a command is run exactly when an entry's id is the argument in upper case and the entry has a
  command; it is that entry's, and it sees the caller's environment without the two variables
  through which \<^verbatim>\<open>make\<close> would recurse. Everything else exits with 1.
\<close>

lemma reproduction_is_never_guessed:
  assumes "distinct (map en_id entries)"
  shows "reproduce_main [prog, failure] entries env shell =
      (case find_entry (map upper_char failure) entries of
         Some e \<Rightarrow> if given (en_reproduce e) then shell (or_empty (en_reproduce e)) (child_env env) else 1
       | None \<Rightarrow> 1)
    \<and> (command_for entries failure = Inr command \<longleftrightarrow>
        (\<exists>e\<in>set entries. en_id e = map upper_char failure \<and> en_reproduce e = Some command \<and> command \<noteq> ''''))
    \<and> map_of (child_env env) = (map_of env)(''FAILURE'' := None, ''MAKEFLAGS'' := None)"
proof (intro conjI)
  show "reproduce_main [prog, failure] entries env shell =
      (case find_entry (map upper_char failure) entries of
         Some e \<Rightarrow> if given (en_reproduce e) then shell (or_empty (en_reproduce e)) (child_env env) else 1
       | None \<Rightarrow> 1)"
    by (simp add: reproduce_main_def command_for_def split: option.split)
  show "command_for entries failure = Inr command \<longleftrightarrow>
        (\<exists>e\<in>set entries. en_id e = map upper_char failure \<and> en_reproduce e = Some command \<and> command \<noteq> '''')"
    by (rule command_for_exact [OF assms])
  show "map_of (child_env env) = (map_of env)(''FAILURE'' := None, ''MAKEFLAGS'' := None)"
    by (auto simp: child_env_def AList.delete_conv' fun_eq_iff)
qed

text \<open>Two entries, the second without a command.\<close>

definition F02 :: entry where
  "F02 = \<lparr> en_id = ''ACL-F02'', en_name = ''Stale read model with no concurrency at all'', en_status = ''reproduced'',
     en_class = ''cross-service'', en_family = ''stale-state'', en_symptom = ''a'', en_mechanism = ''b'',
     en_monitoring = ''c'', en_control = ''d'', en_reproduce = Some ''make reproduce SCHEDULE=S1'',
     en_verified_by = Some [''test_s1_is_strictly_sequential''], en_control_verified_by = None,
     en_schedules = Some [''S1''], en_requires = None, en_notes = None \<rparr>"

definition F99 :: entry where
  "F99 = F02\<lparr> en_id := ''ACL-F99'', en_status := ''described'', en_reproduce := None \<rparr>"

end
