(* ===== verification/Render.thy ===== *)
theory Render
  imports Catalog Oracle "HOL-Library.Sublist"
begin

text \<open>
  \<^verbatim>\<open>catalog/render.py\<close>: the catalogue as a Markdown document. Text is UTF-8, one character per
  byte; \<open>strip\<close> takes ASCII white space away. \<open>None\<close> is the \<open>KeyError\<close> of a status without a
  label. Every other key an entry must have is a field of the record.
\<close>

section \<open>Text\<close>

abbreviation nl :: string where
  "nl \<equiv> [CHR 0x0A]"

definition em_dash :: string where
  "em_dash = [CHR 0xE2, CHR 0x80, CHR 0x94]"

definition mid_dot :: string where
  "mid_dot = [CHR 0xC2, CHR 0xB7]"

fun py_join :: "string \<Rightarrow> string list \<Rightarrow> string" where
  "py_join sep [] = ''''"
| "py_join sep [x] = x"
| "py_join sep (x # y # zs) = x @ sep @ py_join sep (y # zs)"

definition ascii_space :: "char \<Rightarrow> bool" where
  "ascii_space c \<longleftrightarrow> (let n = of_char c :: nat in n = 32 \<or> 9 \<le> n \<and> n \<le> 13 \<or> 28 \<le> n \<and> n \<le> 31)"

definition py_strip :: "string \<Rightarrow> string" where
  "py_strip s = rev (dropWhile ascii_space (rev (dropWhile ascii_space s)))"

definition ticked :: "string \<Rightarrow> string" where
  "ticked s = ''`'' @ s @ ''`''"

text \<open>A number in the document reads back as itself.\<close>

lemma py_digits_str_nat:
  "py_digits acc b (str_nat n @ s) = py_digits (acc * 10 ^ length (str_nat n) + int n) True s"
proof (induction n arbitrary: acc b s rule: str_nat.induct)
  case (1 n)
  have digit: "py_digits acc b (str_digit m @ s) = py_digits (10 * acc + int m) True s" if "m < 10" for m acc b s
  proof -
    have "m = 0 \<or> m = 1 \<or> m = 2 \<or> m = 3 \<or> m = 4 \<or> m = 5 \<or> m = 6 \<or> m = 7 \<or> m = 8 \<or> m = 9" using that by presburger
    then show ?thesis by (elim disjE) (simp_all add: str_digit_def py_digit_def)
  qed
  have len: "length (str_digit m) = 1" for m by (simp add: str_digit_def)
  show ?case
  proof (cases "n < 10")
    case True
    then show ?thesis by (simp add: str_nat.simps [of n] digit len mult.commute)
  next
    case False
    have n: "a + 10 * int (n div 10) + int (n mod 10) = a + int n" for a by presburger
    show ?thesis
      using False 1 by (simp add: str_nat.simps [of n] digit len n distrib_left mult.left_commute [of 10])
  qed
qed

lemma str_nat_head: "\<exists>c cs. str_nat n = c # cs \<and> c \<in> set ''0123456789''"
proof (induction n rule: str_nat.induct)
  case (1 n)
  show ?case
  proof (cases "n < 10")
    case True
    then have "''0123456789'' ! n \<in> set ''0123456789''" by (intro nth_mem) simp
    with True show ?thesis by (simp add: str_nat.simps [of n] str_digit_def)
  next
    case False
    with 1 show ?thesis by (force simp: str_nat.simps [of n])
  qed
qed

lemma py_int_unsigned: "c \<noteq> CHR ''-'' \<Longrightarrow> c \<noteq> CHR ''+'' \<Longrightarrow> py_int (c # cs) = py_digits 0 False (c # cs)"
  by (cases "c # cs" rule: py_int.cases) auto

lemma str_nat_reads_back: "py_int (str_nat n) = Some (int n)"
proof -
  obtain c cs where c: "str_nat n = c # cs" "c \<in> set ''0123456789''" using str_nat_head by blast
  then have "py_int (str_nat n) = py_digits 0 False (str_nat n)" by (auto simp: py_int_unsigned)
  also have "\<dots> = py_digits (int n) True []" using py_digits_str_nat [of 0 False n "[]"] by simp
  finally show ?thesis by simp
qed

section \<open>The document\<close>

text \<open>\<open>STATUS_LABEL[status]\<close>\<close>

definition reproduced_label :: string where
  "reproduced_label = ''**Reproduced here**''"

definition status_label :: "string \<Rightarrow> string option" where
  "status_label s =
     (if s = ''reproduced'' then Some reproduced_label
      else if s = ''documented'' then Some ''Documented in the wild''
      else if s = ''described'' then Some ''Described, not yet reproduced''
      else None)"

definition HEADER :: string where
  "HEADER = py_join nl [
     ''# Failure Catalogue'',
     '''',
     ''<!-- GENERATED from catalog/failures.yaml by `make catalog`. Do not hand-edit. -->'',
     '''',
     ''Named failure modes for action-taking agents. Every entry marked **Reproduced'',
     ''here** runs on your machine with one command, and a test asserts that claim '' @ em_dash,
     ''`tests/unit/test_failure_catalog.py` fails if any entry cites a test or schedule'',
     ''that does not exist.'',
     '''',
     ''Status means what it says:'',
     '''',
     ''| Status | Meaning |'',
     ''|---|---|'',
     ''| **Reproduced here** | A test in this repo produces it on demand |'',
     ''| Documented in the wild | Observed elsewhere, cited to a primary source read directly |'',
     ''| Described, not yet reproduced | Named and understood, not demonstrated here |'',
     '''',
     ''The third row is why this is usable. A catalogue that admits what it has not'',
     ''tested is worth more than one that does not distinguish.'',
     '''']"

text \<open>\<open>counts[key] = counts.get(key, 0) + 1\<close> over the entries.\<close>

definition count_key :: "string \<Rightarrow> (string \<rightharpoonup> nat) \<Rightarrow> (string \<rightharpoonup> nat)" where
  "count_key k counts = counts(k \<mapsto> (case counts k of None \<Rightarrow> 0 | Some n \<Rightarrow> n) + 1)"

definition tally :: "string list \<Rightarrow> string \<rightharpoonup> nat" where
  "tally keys = fold count_key keys Map.empty"

definition statuses :: "string list" where
  "statuses = [''reproduced'', ''documented'', ''described'']"

definition kinds :: "string list" where
  "kinds = [''local'', ''cross-service'', ''eventual'', ''hard'', ''bounded-time'']"

definition status_row :: "(string \<rightharpoonup> nat) \<Rightarrow> string \<Rightarrow> string list" where
  "status_row by_status st =
     (case (by_status st, status_label st) of
        (Some n, Some label) \<Rightarrow> [''| '' @ label @ '' | '' @ str_nat n @ '' |'']
      | _ \<Rightarrow> [])"

definition count_of :: "(string \<rightharpoonup> nat) \<Rightarrow> string \<Rightarrow> nat" where
  "count_of counts k = (case counts k of None \<Rightarrow> 0 | Some n \<Rightarrow> n)"

definition kind_row :: "(string \<rightharpoonup> nat) \<Rightarrow> string \<Rightarrow> string" where
  "kind_row by_class kind = ''| '' @ ticked kind @ '' | '' @ str_nat (count_of by_class kind) @ '' |''"

definition absent_kinds :: "(string \<rightharpoonup> nat) \<Rightarrow> string list" where
  "absent_kinds by_class = filter (\<lambda>k. count_of by_class k = 0) kinds"

definition absent_note :: "string list \<Rightarrow> string list" where
  "absent_note absent =
     (if absent = [] then []
      else [nl @ ''> **Incomplete by its own taxonomy.** `INVARIANT-CATALOG.md` names five '' @
        ''classes and this catalogue demonstrates '' @ str_int (5 - int (length absent)) @ '': '' @
        py_join '', '' (map ticked absent) @ '' '' @
        (if length absent = 1 then ''is'' else ''are'') @ '' named and not yet shown breaking. '' @
        ''Stated here rather than left for a reader to notice.''])"

definition summary_lines :: "entry list \<Rightarrow> string list" where
  "summary_lines entries =
     (let by_status = tally (map en_status entries); by_class = tally (map en_class entries) in
      [nl @ ''## Coverage'' @ nl, ''**'' @ str_nat (length entries) @ '' entries.**'' @ nl,
       ''| Status | Count |'', ''|---|---:|''] @
      concat (map (status_row by_status) statuses) @
      [nl @ ''| Invariant class | Count |'', ''|---|---:|''] @
      map (kind_row by_class) kinds @
      absent_note (absent_kinds by_class))"

definition summary :: "entry list \<Rightarrow> string" where
  "summary entries = py_join nl (summary_lines entries) @ nl"

definition index_row :: "entry \<Rightarrow> string option" where
  "index_row e =
     map_option (\<lambda>label. ''| ['' @ ticked (en_id e) @ ''](#'' @ map lower_char (en_id e) @ '') | '' @ en_name e @
       '' | '' @ ticked (en_class e) @ '' | '' @ label @ '' |'') (status_label (en_status e))"

definition index_of :: "entry list \<Rightarrow> string option" where
  "index_of entries =
     map_option (\<lambda>rows. py_join nl ([nl @ ''## Index'' @ nl, ''| ID | Failure | Class | Status |'', ''|---|---|---|---|''] @ rows) @ nl)
       (those (map index_row entries))"

definition when_given :: "'x list option \<Rightarrow> ('x list \<Rightarrow> string) \<Rightarrow> string list" where
  "when_given x f = (if given x then [f (or_empty x)] else [])"

definition entry_lines :: "entry \<Rightarrow> string \<Rightarrow> string list" where
  "entry_lines e label =
     [nl @ ''---'' @ nl @ nl @ ''## '' @ en_id e,
      nl @ ''### '' @ en_name e @ nl,
      ''**Family:** '' @ ticked (en_family e) @ '' '' @ mid_dot @ '' **Invariant class:** '' @ ticked (en_class e) @ '' '' @
        mid_dot @ '' **Status:** '' @ label @ nl,
      ''**Symptom.** '' @ py_strip (en_symptom e) @ nl,
      ''**Mechanism.** '' @ py_strip (en_mechanism e) @ nl,
      ''**What monitoring shows.** '' @ py_strip (en_monitoring e) @ nl,
      ''**Control.** '' @ py_strip (en_control e) @ nl] @
     when_given (en_reproduce e) (\<lambda>r. ''**Reproduce:**'' @ nl @ nl @ ''```'' @ nl @ r @ nl @ ''```'' @ nl) @
     when_given (en_verified_by e) (\<lambda>ts. ''**Verified by:** '' @ py_join '', '' (map ticked ts) @ nl) @
     when_given (en_control_verified_by e) (\<lambda>ts. ''**Control verified by:** '' @ py_join '', '' (map ticked ts) @ nl) @
     when_given (en_schedules e) (\<lambda>ss. ''**Schedules:** '' @ py_join '', '' (map ticked ss) @ nl) @
     when_given (en_requires e) (\<lambda>r. ''**Requires.** '' @ py_strip r @ '' '' @ em_dash @
       '' a default run skips this entry'' @ [CHR 0x27] @ ''s gated assertions.'' @ nl) @
     when_given (en_notes e) (\<lambda>n. ''**Note.** '' @ py_strip n @ nl)"

definition entry_text :: "entry \<Rightarrow> string option" where
  "entry_text e = map_option (\<lambda>label. py_join nl (entry_lines e label)) (status_label (en_status e))"

definition render :: "entry list \<Rightarrow> string option" where
  "render entries =
     (case (index_of entries, those (map entry_text entries)) of
        (Some index, Some texts) \<Rightarrow> Some (HEADER @ summary entries @ index @ concat texts)
      | _ \<Rightarrow> None)"

section \<open>What the document says\<close>

lemma tally_snoc: "tally (ks @ [k]) = count_key k (tally ks)"
  by (simp add: tally_def)

lemma tally_eq: "tally ks k = (if k \<in> set ks then Some (count_list ks k) else None)"
proof (induction ks rule: rev_induct)
  case (snoc k' ks)
  then show ?case by (auto simp: tally_snoc count_key_def count_list_0_iff)
qed (simp add: tally_def)

lemma count_of_tally: "count_of (tally ks) k = count_list ks k"
  by (simp add: count_of_def tally_eq count_list_0_iff)

lemma those_None: "those xs = None \<longleftrightarrow> None \<in> set xs"
  by (induction xs) (auto split: option.splits)

lemma status_label_None: "status_label s = None \<longleftrightarrow> s \<notin> set statuses"
  by (simp add: status_label_def statuses_def)

lemma index_None: "index_of entries = None \<longleftrightarrow> (\<exists>e\<in>set entries. en_status e \<notin> set statuses)"
  by (auto simp: index_of_def those_None index_row_def status_label_None [symmetric] image_iff)

lemma texts_None: "those (map entry_text entries) = None \<longleftrightarrow> (\<exists>e\<in>set entries. en_status e \<notin> set statuses)"
  by (auto simp: those_None entry_text_def status_label_None [symmetric] image_iff)

lemma rendering_fails: "render entries = None \<longleftrightarrow> (\<exists>e\<in>set entries. en_status e \<notin> set statuses)"
proof (cases "\<exists>e\<in>set entries. en_status e \<notin> set statuses")
  case True
  then have "index_of entries = None" by (simp only: index_None)
  with True show ?thesis by (simp add: render_def)
next
  case False
  then have "index_of entries \<noteq> None" "those (map entry_text entries) \<noteq> None" unfolding index_None texts_None by blast+
  then have "render entries \<noteq> None" by (auto simp: render_def)
  with False show ?thesis by blast
qed

text \<open>
  Rendering fails, with a \<open>KeyError\<close>, exactly when some entry has a status that has no
  label. No other catalogue of well-formed entries stops it.
\<close>

lemma rendering_fails_only_on_unknown_status:
  "render entries = None \<longleftrightarrow> (\<exists>e\<in>set entries. en_status e \<notin> {''reproduced'', ''documented'', ''described''})"
  unfolding rendering_fails by (simp add: statuses_def)

lemma sublist_py_join: "x \<in> set xs \<Longrightarrow> sublist x (py_join sep xs)"
proof (induction sep xs rule: py_join.induct)
  case (3 sep y z zs)
  show ?case
  proof (cases "x = y")
    case True
    then show ?thesis by (simp add: sublist_appendI)
  next
    case False
    then have "sublist x (py_join sep (z # zs))" using 3 by simp
    then show ?thesis by (simp add: sublist_append)
  qed
qed auto

lemma sublist_front: "sublist (x @ y) zs \<Longrightarrow> sublist x zs"
  unfolding sublist_def by force

lemma rendered:
  assumes "render entries = Some doc"
  obtains index texts where "doc = HEADER @ summary entries @ index @ concat texts"
    "index_of entries = Some index" "those (map entry_text entries) = Some texts"
  using assms by (auto simp: render_def split: option.splits)

lemma summary_line_in_document:
  assumes "render entries = Some doc" "l \<in> set (summary_lines entries)"
  shows "sublist l doc"
proof -
  have "sublist l (summary entries)"
    using sublist_py_join [OF assms(2)] by (simp add: summary_def sublist_append)
  with assms(1) show ?thesis by (elim rendered) (simp add: sublist_append)
qed

lemma count_list_sum:
  "distinct ss \<Longrightarrow> set ks \<subseteq> set ss \<Longrightarrow> sum_list (map (count_list ks) ss) = length ks"
  by (simp add: sum_list_distinct_conv_sum_set sum_count_set)

text \<open>
  The coverage tables of the document are true. It states the number of entries; for
  every status that occurs it has a row with the number of entries of that status, and these
  add up to all entries; for every one of the five classes it has a row with the number of
  entries of that class; and every number it prints reads back as the number counted.
\<close>

lemma coverage_tables_are_true:
  assumes "render entries = Some doc"
  shows "sublist (''**'' @ str_nat (length entries) @ '' entries.**'') doc
    \<and> list_all (\<lambda>s. count_list (map en_status entries) s = 0 \<or>
        sublist (''| '' @ the (status_label s) @ '' | '' @ str_nat (count_list (map en_status entries) s) @ '' |'') doc) statuses
    \<and> sum_list (map (count_list (map en_status entries)) statuses) = length entries
    \<and> list_all (\<lambda>k. sublist (''| `'' @ k @ ''` | '' @ str_nat (count_list (map en_class entries) k) @ '' |'') doc) kinds
    \<and> (\<forall>n. py_int (str_nat n) = Some (int n))"
proof (intro conjI allI str_nat_reads_back)
  note line = summary_line_in_document [OF assms]
  have "sublist ((''**'' @ str_nat (length entries) @ '' entries.**'') @ nl) doc"
    by (rule line) (simp add: summary_lines_def Let_def)
  then show "sublist (''**'' @ str_nat (length entries) @ '' entries.**'') doc"
    by (rule sublist_front)
  show "list_all (\<lambda>s. count_list (map en_status entries) s = 0 \<or>
      sublist (''| '' @ the (status_label s) @ '' | '' @ str_nat (count_list (map en_status entries) s) @ '' |'') doc) statuses"
    unfolding list_all_iff
  proof
    fix s assume s: "s \<in> set statuses"
    define n where "n = count_list (map en_status entries) s"
    obtain label where l: "status_label s = Some label" using s status_label_None by blast
    have "sublist (''| '' @ label @ '' | '' @ str_nat n @ '' |'') doc" if "n \<noteq> 0"
    proof (rule line)
      have "status_row (tally (map en_status entries)) s = [''| '' @ label @ '' | '' @ str_nat n @ '' |'']"
        using that l unfolding n_def by (simp add: status_row_def tally_eq count_list_0_iff)
      then show "''| '' @ label @ '' | '' @ str_nat n @ '' |'' \<in> set (summary_lines entries)"
        using s unfolding summary_lines_def Let_def by force
    qed
    then show "count_list (map en_status entries) s = 0 \<or>
        sublist (''| '' @ the (status_label s) @ '' | '' @ str_nat (count_list (map en_status entries) s) @ '' |'') doc"
      using l unfolding n_def by auto
  qed
  show "sum_list (map (count_list (map en_status entries)) statuses) = length entries"
  proof -
    have "index_of entries \<noteq> None" using assms by (elim rendered) simp
    then have "set (map en_status entries) \<subseteq> set statuses" unfolding index_None by auto
    then show ?thesis using count_list_sum [of statuses "map en_status entries"] by (simp add: statuses_def)
  qed
  show "list_all (\<lambda>k. sublist (''| `'' @ k @ ''` | '' @ str_nat (count_list (map en_class entries) k) @ '' |'') doc) kinds"
    unfolding list_all_iff
  proof
    fix k assume k: "k \<in> set kinds"
    have "kind_row (tally (map en_class entries)) k \<in> set (summary_lines entries)"
      using k by (simp add: summary_lines_def Let_def)
    from line [OF this] show "sublist (''| `'' @ k @ ''` | '' @ str_nat (count_list (map en_class entries) k) @ '' |'') doc"
      by (simp add: kind_row_def count_of_tally ticked_def)
  qed
qed



end
