(* ===== verification/Purity.thy ===== *)
theory Purity
  imports Lab_Prelude "HOL-Library.Multiset"
begin

text \<open>
  \<^verbatim>\<open>agents/diligent/purity.py\<close>: the lint that keeps the agent's module safe to run in a
  pooled interpreter. A module is the list of its top-level statements; an expression is its
  syntax tree as \<^verbatim>\<open>ast\<close> gives it, with the nodes the lint distinguishes and one constructor
  for every other node (calls, tuples, lambdas, operators, arguments, constants, ..), each with
  its child nodes. \<^verbatim>\<open>ast.parse\<close> itself is not modelled.
\<close>

section \<open>Syntax trees\<close>

datatype node_kind =
    Name string
  | Attribute string
  | Dict | List | Set | DictComp | ListComp | SetComp
  | Other_node string

datatype node = Node node_kind "node list"

fun kind_of :: "node \<Rightarrow> node_kind" where
  "kind_of (Node k ns) = k"

fun child_nodes :: "node \<Rightarrow> node list" where
  "child_nodes (Node k ns) = ns"

datatype stmt =
    Assign "node list" node
  | AnnAssign node "node option"
  | Expr node
  | Other_stmt string "stmt list"

text \<open>\<open>ast.walk\<close>: breadth first, with a queue.\<close>

lemma size_child_nodes: "sum_list (map size (child_nodes n)) < size n"
proof (cases n)
  case (Node k ns)
  have "sum_list (map size ns) \<le> size_list size ns" by (induction ns) auto
  then show ?thesis using Node by simp
qed

function walk :: "node list \<Rightarrow> node list" where
  "walk [] = []"
| "walk (n # todo) = n # walk (todo @ child_nodes n)"
  by pat_completeness auto
termination
  by (relation "measure (\<lambda>ns. sum_list (map size ns))") (use size_child_nodes in \<open>auto\<close>)

fun subnodes :: "node \<Rightarrow> node list" where
  "subnodes (Node k ns) = Node k ns # concat (map subnodes ns)"

lemma subnodes_eq: "subnodes n = n # concat (map subnodes (child_nodes n))"
  by (cases n) simp

lemma walk_visits: "mset (walk ns) = mset (concat (map subnodes ns))"
proof (induction ns rule: walk.induct)
  case (2 n todo)
  then show ?case by (simp add: subnodes_eq [of n])
qed simp

section \<open>The lint\<close>

definition MUTABLE_LITERALS :: "node_kind list" where
  "MUTABLE_LITERALS = [Dict, List, Set, DictComp, ListComp, SetComp]"

definition ENV_NAMES :: "string list" where
  "ENV_NAMES = [''environ'', ''getenv'']"

definition reads_env_here :: "node \<Rightarrow> bool" where
  "reads_env_here sub = (case kind_of sub of
       Attribute attr \<Rightarrow> attr \<in> set ENV_NAMES
     | Name i \<Rightarrow> i \<in> set ENV_NAMES
     | _ \<Rightarrow> False)"

definition is_env_read :: "node \<Rightarrow> bool" where
  "is_env_read n = list_ex reads_env_here (walk [n])"

text \<open>\<open>PurityViolation\<close>, with the assigned names the message lists.\<close>

datatype purity_violation =
    Env_Read_Assigned "string list"
  | Mutable_State "string list"
  | Env_Read

definition target_names :: "node list \<Rightarrow> string list" where
  "target_names targets = concat (map (\<lambda>t. case kind_of t of Name i \<Rightarrow> [i] | _ \<Rightarrow> []) targets)"

definition check_value :: "node list \<Rightarrow> node \<Rightarrow> purity_violation option" where
  "check_value targets v =
     (if is_env_read v then Some (Env_Read_Assigned (target_names targets))
      else if kind_of v \<in> set MUTABLE_LITERALS then Some (Mutable_State (target_names targets))
      else None)"

fun check_stmt :: "stmt \<Rightarrow> purity_violation option" where
  "check_stmt (Assign targets v) = check_value targets v"
| "check_stmt (AnnAssign target None) = None"
| "check_stmt (AnnAssign target (Some v)) = check_value [target] v"
| "check_stmt (Expr v) = (if is_env_read v then Some Env_Read else None)"
| "check_stmt (Other_stmt _ _) = None"

fun check_module_purity :: "stmt list \<Rightarrow> purity_violation option" where
  "check_module_purity [] = None"
| "check_module_purity (s # body) =
     (case check_stmt s of Some v \<Rightarrow> Some v | None \<Rightarrow> check_module_purity body)"

section \<open>What the lint accepts\<close>

text \<open>An expression mentions the environment, by the shape of the tree.\<close>

fun mentions_env :: "node \<Rightarrow> bool" where
  "mentions_env (Node k ns) \<longleftrightarrow> reads_env_here (Node k ns) \<or> list_ex mentions_env ns"

lemma mentions_env_subnodes: "mentions_env n \<longleftrightarrow> (\<exists>m\<in>set (subnodes n). reads_env_here m)"
  by (induction n) (auto simp: list_ex_iff)

lemma is_env_read_iff: "is_env_read n \<longleftrightarrow> mentions_env n"
proof -
  have "set (walk [n]) = set (subnodes n)"
    using arg_cong [OF walk_visits [of "[n]"], of set_mset] by simp
  then show ?thesis by (simp add: is_env_read_def list_ex_iff mentions_env_subnodes)
qed

definition pure_value :: "node \<Rightarrow> bool" where
  "pure_value v \<longleftrightarrow> \<not> mentions_env v \<and> kind_of v \<notin> {Dict, List, Set, DictComp, ListComp, SetComp}"

fun pure_stmt :: "stmt \<Rightarrow> bool" where
  "pure_stmt (Assign targets v) \<longleftrightarrow> pure_value v"
| "pure_stmt (AnnAssign target v) \<longleftrightarrow> v = None \<or> pure_value (the v)"
| "pure_stmt (Expr v) \<longleftrightarrow> \<not> mentions_env v"
| "pure_stmt (Other_stmt _ _) \<longleftrightarrow> True"

lemma check_value_None: "check_value targets v = None \<longleftrightarrow> pure_value v"
  by (auto simp: check_value_def is_env_read_iff MUTABLE_LITERALS_def pure_value_def)

lemma check_stmt_None: "check_stmt s = None \<longleftrightarrow> pure_stmt s"
  by (cases s rule: check_stmt.cases) (auto simp: check_value_None is_env_read_iff)

lemma check_module_append:
  "check_module_purity (xs @ ys) = (case check_module_purity xs of Some v \<Rightarrow> Some v | None \<Rightarrow> check_module_purity ys)"
  by (induction xs) (auto split: option.splits)

lemma check_module_None: "check_module_purity body = None \<longleftrightarrow> list_all pure_stmt body"
  by (induction body) (auto simp: check_stmt_None [symmetric] split: option.splits)

text \<open>
  The lint reports the first impure statement and no other. A module passes exactly when
  no value assigned at its top level, and no bare expression there, mentions the environment
  anywhere in its tree, and no assigned value is itself a mutable literal. Otherwise
  the violation is that of the first statement that breaks this, with the names it assigns.
\<close>

lemma purity_reports_the_first_violation:
  "(case check_module_purity body of
      None \<Rightarrow> list_all pure_stmt body
    | Some v \<Rightarrow> (\<exists>xs s ys. body = xs @ s # ys \<and> list_all pure_stmt xs \<and> \<not> pure_stmt s \<and> check_stmt s = Some v))"
proof (cases "check_module_purity body")
  case None
  then have "list_all pure_stmt body" unfolding check_module_None .
  with None show ?thesis by simp
next
  case (Some v)
  then have "\<exists>xs s ys. body = xs @ s # ys \<and> list_all pure_stmt xs \<and> \<not> pure_stmt s \<and> check_stmt s = Some v"
  proof (induction body)
    case (Cons s body)
    show ?case
    proof (cases "check_stmt s")
      case None
      then obtain xs t ys where "body = xs @ t # ys" "list_all pure_stmt xs" "\<not> pure_stmt t" "check_stmt t = Some v"
        using Cons by auto
      moreover have "pure_stmt s" using None check_stmt_None by blast
      ultimately have "s # body = (s # xs) @ t # ys \<and> list_all pure_stmt (s # xs) \<and> \<not> pure_stmt t \<and> check_stmt t = Some v"
        by simp
      then show ?thesis by blast
    next
      case (Some w)
      have "\<not> pure_stmt s" using Some unfolding check_stmt_None [symmetric] by simp
      then have "s # body = [] @ s # body \<and> list_all pure_stmt [] \<and> \<not> pure_stmt s \<and> check_stmt s = Some v"
        using Some Cons.prems by simp
      then show ?thesis by blast
    qed
  qed simp
  with Some show ?thesis by simp
qed

text \<open>
  What escapes it: a mutable container made by a call or held in a tuple, and everything inside
  a compound statement, whose body runs at import time as well.
\<close>

definition call_of :: "string \<Rightarrow> node list \<Rightarrow> node" where
  "call_of f args = Node (Other_node ''Call'') (Node (Name f) [] # args)"

lemma escapes_of_the_lint:
  "check_module_purity [Assign [Node (Name ''CACHE'') []] (call_of ''dict'' [])] = None"
  "check_module_purity [Assign [Node (Name ''CACHE'') []] (Node (Other_node ''Tuple'') [Node List []])] = None"
  "check_module_purity [Other_stmt ''If'' body] = None"
  unfolding check_module_None by (simp_all add: pure_value_def call_of_def reads_env_here_def ENV_NAMES_def)

text \<open>And what it rejects although it is read at call time: a function that reads the environment.\<close>

lemma lambda_is_rejected:
  "check_module_purity
     [Assign [Node (Name ''url'') []] (Node (Other_node ''Lambda'') [Node (Attribute ''environ'') [Node (Name ''os'') []]])]
   = Some (Env_Read_Assigned [''url''])"
  by (simp add: check_value_def is_env_read_iff reads_env_here_def ENV_NAMES_def target_names_def)

end
