(* ===== verification/Locks.thy ===== *)
theory Locks
  imports Main
begin

text \<open>
  Locks of transactions that are open at once, for the theories that interleave transactions
  statement by statement. Each transaction of a list holds some locks, read off its own state; \<open>locked_by_other\<close>
  is what makes it wait, \<open>apart\<close> says that no two hold the same one. \<open>taken\<close> and \<open>unshared\<close> are
  the same for transactions that hold one lock at most.
\<close>

definition locked_by_other :: "('t \<Rightarrow> 'v list) \<Rightarrow> nat \<Rightarrow> 'v \<Rightarrow> 't list \<Rightarrow> bool" where
  "locked_by_other f i v txs \<longleftrightarrow> list_ex (\<lambda>j. j \<noteq> i \<and> v \<in> set (f (txs ! j))) [0..<length txs]"

definition apart :: "('t \<Rightarrow> 'v list) \<Rightarrow> 't list \<Rightarrow> bool" where
  "apart f txs \<longleftrightarrow> (\<forall>i<length txs. \<forall>j<length txs. i \<noteq> j \<longrightarrow> set (f (txs ! i)) \<inter> set (f (txs ! j)) = {})"

lemma locked_by_otherE:
  assumes "locked_by_other f i v txs"
  obtains j where "j < length txs" "j \<noteq> i" "v \<in> set (f (txs ! j))"
  using assms by (auto simp: locked_by_other_def list_ex_iff)

lemma not_locked_by_other: "(\<And>j. j < length txs \<Longrightarrow> j \<noteq> i \<Longrightarrow> v \<notin> set (f (txs ! j))) \<Longrightarrow> \<not> locked_by_other f i v txs"
  by (auto simp: locked_by_other_def list_ex_iff)

text \<open>A transaction that takes only locks no other holds keeps them apart.\<close>

lemma apart_update:
  assumes "apart f txs" "\<And>v. v \<in> set (f t) \<Longrightarrow> v \<in> set (f (txs ! i)) \<or> \<not> locked_by_other f i v txs"
  shows "apart f (txs[i := t])"
  unfolding apart_def length_list_update
proof (intro allI impI)
  fix j k assume jk: "j < length txs" "k < length txs" "j \<noteq> k"
  have new: "set (f t) \<inter> set (f (txs ! m)) = {}" if "m < length txs" "m \<noteq> i" "i < length txs" for m
    using assms that unfolding apart_def locked_by_other_def list_ex_iff by fastforce
  have old: "set (f (txs ! j)) \<inter> set (f (txs ! k)) = {}" using assms(1) jk unfolding apart_def by blast
  show "set (f (txs[i := t] ! j)) \<inter> set (f (txs[i := t] ! k)) = {}"
    using old new [OF jk(1)] new [OF jk(2)] jk
    by (cases "i = j"; cases "i = k") (simp_all add: Int_commute)
qed

section \<open>One lock at most\<close>

definition held :: "('t \<Rightarrow> 'v option) \<Rightarrow> 't \<Rightarrow> 'v list" where
  "held f t = (case f t of None \<Rightarrow> [] | Some v \<Rightarrow> [v])"

lemma set_held [simp]: "set (held f t) = set_option (f t)"
  by (cases "f t") (simp_all add: held_def)

definition taken :: "('t \<Rightarrow> 'v option) \<Rightarrow> nat \<Rightarrow> 'v \<Rightarrow> 't list \<Rightarrow> bool" where
  "taken f = locked_by_other (held f)"

definition unshared :: "('t \<Rightarrow> 'v option) \<Rightarrow> 't list \<Rightarrow> bool" where
  "unshared f = apart (held f)"

lemma taken_iff: "taken f i v txs \<longleftrightarrow> (\<exists>j<length txs. j \<noteq> i \<and> f (txs ! j) = Some v)"
  by (auto simp: taken_def locked_by_other_def list_ex_iff elem_set)

lemma nothing_taken: "(\<And>j. j < length txs \<Longrightarrow> f (txs ! j) = None) \<Longrightarrow> \<not> taken f i v txs"
  by (auto simp: taken_iff)

lemma unshared_update:
  assumes "unshared f txs" "f t = None \<or> f t = f (txs ! i) \<or> \<not> taken f i (the (f t)) txs"
  shows "unshared f (txs[i := t])"
  using assms unfolding unshared_def taken_def by (intro apart_update) (auto simp: elem_set)

lemma unshared_apart:
  assumes "unshared f txs" "i < length txs" "j < length txs" "j \<noteq> i"
  shows "f (txs ! j) = None \<or> f (txs ! j) \<noteq> f (txs ! i)"
  using assms unfolding unshared_def apart_def by (cases "f (txs ! j)") fastforce+

lemma none_unshared: "(\<And>t. t \<in> set txs \<Longrightarrow> f t = None) \<Longrightarrow> unshared f txs"
  by (simp add: unshared_def apart_def held_def)

end
