(* ===== verification/Statements.thy ===== *)
theory Statements
  imports Effects Locks
begin

text \<open>
  The transactions of the effect services statement by statement. In theories Billing and Ledger a
  handler's transaction is one step; here several are open at once and each step is one SQL
  statement of one of them: of \<open>create_refund\<close> or \<open>create_credit\<close> with \<open>append_decision\<close> and \<open>publish\<close>, or
  of a void. The database does what PostgreSQL documents for its default level, READ COMMITTED: a
  statement sees the rows committed when it starts; a uniqueness violation against a committed
  row is an exception, against a row of an open transaction the statement waits for that
  transaction's end; so does an update of a row an open transaction has updated; a sequence
  value once taken is never given back. An exception rolls the transaction back.

  The theorems: whatever the interleaving, the committed tables are those of the one-step
  transactions in the order of their commits, up to the values of the two sequences; the
  transactions cannot block each other for ever; and what concurrency costs is shown by a pair
  of refunds of one case, of which one fails.
\<close>

section \<open>Transactions\<close>

datatype tx_job =
    Create_Tx string string string decimal
  | Void_Tx string int

datatype tx_result =
    Created effect_row | Replayed effect_row | Voided effect_row | Missing | Failed db_error

text \<open>
  Where a transaction is: before its first statement; after the replay check; at the \<open>INSERT\<close> of its
  row; with its row inserted or updated; with the sequence number read; with the decision
  inserted; with the event inserted; over.
\<close>

datatype tx_pc =
    At_Start
  | Key_Free
  | Insert_Row effect_row
  | Written effect_row
  | Numbered effect_row int
  | Logged effect_row decision_row
  | Published effect_row decision_row outbox_row
  | Over tx_result

type_synonym tx = "tx_job \<times> tx_pc"

record 'a store =
  st_db :: "'a effect_db_scheme"
  st_txs :: "tx list"

fun written_row :: "tx_pc \<Rightarrow> effect_row option" where
  "written_row (Written r) = Some r"
| "written_row (Numbered r n) = Some r"
| "written_row (Logged r d) = Some r"
| "written_row (Published r d e) = Some r"
| "written_row _ = None"

fun written_decision :: "tx_pc \<Rightarrow> decision_row option" where
  "written_decision (Logged r d) = Some d"
| "written_decision (Published r d e) = Some d"
| "written_decision _ = None"

text \<open>What an open transaction makes others wait for: its key, its row, its sequence number.\<close>

definition key_lock :: "tx \<Rightarrow> string option" where
  "key_lock t = (case t of (Create_Tx _ _ _ _, pc) \<Rightarrow> map_option ef_key (written_row pc) | _ \<Rightarrow> None)"

definition row_lock :: "tx \<Rightarrow> int option" where
  "row_lock t = (case t of (Void_Tx _ eid, pc) \<Rightarrow> map_option (\<lambda>_. eid) (written_row pc) | _ \<Rightarrow> None)"

definition number_lock :: "tx \<Rightarrow> (string \<times> int) option" where
  "number_lock t = map_option (\<lambda>d. (dl_case d, dl_sequence d)) (written_decision (snd t))"

section \<open>Statements\<close>

text \<open>The replay check of a create; the \<open>UPDATE\<close> of a void.\<close>

definition first_statement :: "nat \<Rightarrow> tx_job \<Rightarrow> tx list \<Rightarrow> 'a effect_db_scheme \<Rightarrow> tx_pc" where
  "first_statement i job txs db =
     (case job of
        Create_Tx cid actor key amount \<Rightarrow> (case key_row key db of Some r \<Rightarrow> Over (Replayed r) | None \<Rightarrow> Key_Free)
      | Void_Tx actor eid \<Rightarrow>
          (case row_where (\<lambda>r. ef_id r = eid) (effects db) of None \<Rightarrow> Over Missing
           | Some r \<Rightarrow> if taken row_lock i eid txs then At_Start else Written (r\<lparr>ef_state := VOIDED\<rparr>)))"

text \<open>The \<open>INSERT\<close> of the effect: the amount is cast before the sequence is asked, the row is formed and
  checked, then the index on the key is asked.\<close>

definition form_row :: "tx_job \<Rightarrow> 'a effect_db_scheme \<Rightarrow> tx_pc \<times> 'a effect_db_scheme" where
  "form_row job db =
     (case job of
        Create_Tx cid actor key amount \<Rightarrow>
          (case numeric_12_2 amount of None \<Rightarrow> (Over (Failed NumericOverflow), db)
           | Some a \<Rightarrow>
             let db = db\<lparr>effect_seq := effect_seq db + 1\<rparr> in
             if \<not> 0 < a then (Over (Failed (CheckViolation ''amount'')), db)
             else (Insert_Row \<lparr>ef_id = effect_seq db, ef_case = cid, ef_actor = actor, ef_key = key,
                ef_amount = a, ef_state = COMMITTED\<rparr>, db))
      | Void_Tx _ _ \<Rightarrow> (Key_Free, db))"

definition insert_row :: "nat \<Rightarrow> effect_row \<Rightarrow> tx list \<Rightarrow> 'a effect_db_scheme \<Rightarrow> tx_pc" where
  "insert_row i r txs db =
     (if list_ex (\<lambda>r'. ef_key r' = ef_key r) (effects db) then Over (Failed (UniqueViolation ''idempotency_key''))
      else if taken key_lock i (ef_key r) txs then Insert_Row r
      else Written r)"

fun tx_actor :: "tx_job \<Rightarrow> string" where
  "tx_actor (Create_Tx cid actor key amount) = actor"
| "tx_actor (Void_Tx actor eid) = actor"

fun tx_amount :: "tx_job \<Rightarrow> effect_row \<Rightarrow> decimal" where
  "tx_amount (Create_Tx cid actor key amount) r = amount"
| "tx_amount (Void_Tx actor eid) r = ef_amount r"

fun tx_from :: "tx_job \<Rightarrow> effect_state option" where
  "tx_from (Create_Tx cid actor key amount) = None"
| "tx_from (Void_Tx actor eid) = Some COMMITTED"

text \<open>\<open>append_decision\<close>: the number has been read by a statement of its own.\<close>

definition insert_decision ::
  "string \<Rightarrow> nat \<Rightarrow> tx_job \<Rightarrow> effect_row \<Rightarrow> int \<Rightarrow> tx list \<Rightarrow> 'a effect_db_scheme \<Rightarrow> tx_pc" where
  "insert_decision service i job r n txs db =
     (case numeric_12_2 (tx_amount job r) of None \<Rightarrow> Over (Failed NumericOverflow)
      | Some a \<Rightarrow>
        if list_ex (\<lambda>d. dl_case d = ef_case r \<and> dl_sequence d = n) (decisions db)
        then Over (Failed (UniqueViolation ''decision_log''))
        else if taken number_lock i (ef_case r, n) txs then Numbered r n
        else Logged r \<lparr>dl_case = ef_case r, dl_sequence = n, dl_actor = tx_actor job, dl_service = service,
          dl_entity = ef_id r, dl_from = tx_from job, dl_to = ef_state r, dl_amount = a\<rparr>)"

text \<open>After the decision: the event of a create, the commit of a void.\<close>

definition after_decision ::
  "string \<Rightarrow> string \<Rightarrow> tx_job \<Rightarrow> effect_row \<Rightarrow> decision_row \<Rightarrow> 'a effect_db_scheme \<Rightarrow> tx_pc \<times> 'a effect_db_scheme" where
  "after_decision service event job r d db =
     (case job of
        Create_Tx cid actor key amount \<Rightarrow>
          (case numeric_12_2 amount of None \<Rightarrow> (Over (Failed NumericOverflow), db)
           | Some a \<Rightarrow> (Published r d \<lparr>ob_id = outbox_seq db + 1, ob_case = cid, ob_actor = actor,
               ob_service = service, ob_type = event, ob_entity = ef_id r, ob_amount = a, ob_applied_at = None\<rparr>,
               db\<lparr>outbox_seq := outbox_seq db + 1\<rparr>))
      | Void_Tx actor eid \<Rightarrow> (Over (Voided r),
          db\<lparr>effects := update_where (\<lambda>r. ef_id r = eid) (\<lambda>r. r\<lparr>ef_state := VOIDED\<rparr>) (effects db),
             decisions := decisions db @ [d]\<rparr>))"

fun tx_next ::
  "string \<Rightarrow> string \<Rightarrow> nat \<Rightarrow> tx_job \<Rightarrow> tx_pc \<Rightarrow> tx list \<Rightarrow> 'a effect_db_scheme \<Rightarrow> tx_pc \<times> 'a effect_db_scheme" where
  "tx_next service event i job At_Start txs db = (first_statement i job txs db, db)"
| "tx_next service event i job Key_Free txs db = form_row job db"
| "tx_next service event i job (Insert_Row r) txs db = (insert_row i r txs db, db)"
| "tx_next service event i job (Written r) txs db = (Numbered r (next_sequence (ef_case r) (decisions db)), db)"
| "tx_next service event i job (Numbered r n) txs db = (insert_decision service i job r n txs db, db)"
| "tx_next service event i job (Logged r d) txs db = after_decision service event job r d db"
| "tx_next service event i job (Published r d e) txs db =
     (Over (Created r), db\<lparr>effects := effects db @ [r], decisions := decisions db @ [d], outbox := outbox db @ [e]\<rparr>)"
| "tx_next service event i job (Over x) txs db = (Over x, db)"

definition tx_step :: "string \<Rightarrow> string \<Rightarrow> nat \<Rightarrow> 'a store \<Rightarrow> 'a store" where
  "tx_step service event i s =
     (if i < length (st_txs s)
      then (let (job, pc) = st_txs s ! i; (pc', db') = tx_next service event i job pc (st_txs s) (st_db s)
        in \<lparr>st_db = db', st_txs = (st_txs s)[i := (job, pc')]\<rparr>)
      else s)"

definition tx_run :: "string \<Rightarrow> string \<Rightarrow> nat list \<Rightarrow> 'a store \<Rightarrow> 'a store" where
  "tx_run service event xs s = fold (tx_step service event) xs s"

definition open_store :: "tx_job list \<Rightarrow> 'a effect_db_scheme \<Rightarrow> 'a store" where
  "open_store jobs db = \<lparr>st_db = db, st_txs = map (\<lambda>job. (job, At_Start)) jobs\<rparr>"

section \<open>The invariant\<close>

definition gapless :: "'a effect_db_scheme \<Rightarrow> bool" where
  "gapless db \<longleftrightarrow> (\<forall>c. case_log c (decisions db) = [1..int (length (case_log c (decisions db)))])"

definition last_number :: "string \<Rightarrow> 'a effect_db_scheme \<Rightarrow> int" where
  "last_number c db = int (length (case_log c (decisions db)))"

lemma gapless_next: "gapless db \<Longrightarrow> next_sequence c (decisions db) = last_number c db + 1"
  unfolding gapless_def last_number_def by (blast intro: next_sequence_gapless)

lemma gapless_numbers:
  "gapless db \<Longrightarrow> (\<exists>d\<in>set (decisions db). dl_case d = c \<and> dl_sequence d = n) \<longleftrightarrow> 1 \<le> n \<and> n \<le> last_number c db"
proof -
  assume "gapless db"
  then have "set (case_log c (decisions db)) = {1..last_number c db}"
    unfolding gapless_def last_number_def by (metis set_upto)
  moreover have "(\<exists>d\<in>set (decisions db). dl_case d = c \<and> dl_sequence d = n) \<longleftrightarrow> n \<in> set (case_log c (decisions db))"
    by (auto simp: case_log_def)
  ultimately show ?thesis by simp
qed

lemma gapless_append:
  assumes "gapless db" "dl_sequence d = last_number (dl_case d) db + 1"
  shows "gapless (db\<lparr>decisions := decisions db @ [d]\<rparr>)"
  unfolding gapless_def
proof
  fix c
  have g: "case_log c (decisions db) = [1..int (length (case_log c (decisions db)))]"
    using assms(1) unfolding gapless_def by blast
  show "case_log c (decisions (db\<lparr>decisions := decisions db @ [d]\<rparr>)) =
      [1..int (length (case_log c (decisions (db\<lparr>decisions := decisions db @ [d]\<rparr>))))]"
  proof (cases "dl_case d = c")
    case True
    have "case_log c (decisions (db\<lparr>decisions := decisions db @ [d]\<rparr>)) =
        [1..int (length (case_log c (decisions db)))] @ [int (length (case_log c (decisions db))) + 1]"
      using assms(2) True g by (simp add: case_log_def last_number_def)
    also have "\<dots> = [1..int (length (case_log c (decisions db))) + 1]" by (simp add: upto_rec2)
    finally show ?thesis using True by (simp add: case_log_def)
  next
    case False
    then show ?thesis using g by (simp add: case_log_def)
  qed
qed

lemma last_number_append [simp]:
  "last_number c (db\<lparr>decisions := decisions db @ [d]\<rparr>) = last_number c db + (if dl_case d = c then 1 else 0)"
  by (simp add: last_number_def case_log_def)

text \<open>The row an open transaction has in hand.\<close>

definition row_ok :: "tx_job \<Rightarrow> effect_row \<Rightarrow> 'a effect_db_scheme \<Rightarrow> bool" where
  "row_ok job r db = (case job of
       Create_Tx cid actor key amount \<Rightarrow> \<exists>a. numeric_12_2 amount = Some a \<and> 0 < a \<and>
         r = \<lparr>ef_id = ef_id r, ef_case = cid, ef_actor = actor, ef_key = key, ef_amount = a, ef_state = COMMITTED\<rparr>
     | Void_Tx actor eid \<Rightarrow> \<exists>r0. row_where (\<lambda>r. ef_id r = eid) (effects db) = Some r0 \<and> r = r0\<lparr>ef_state := VOIDED\<rparr>)"

definition key_free :: "tx_job \<Rightarrow> 'a effect_db_scheme \<Rightarrow> bool" where
  "key_free job db = (case job of Create_Tx cid actor key amount \<Rightarrow> key_row key db = None | _ \<Rightarrow> True)"

definition decision_ok :: "string \<Rightarrow> tx_job \<Rightarrow> effect_row \<Rightarrow> decision_row \<Rightarrow> 'a effect_db_scheme \<Rightarrow> bool" where
  "decision_ok service job r d db \<longleftrightarrow> numeric_12_2 (tx_amount job r) = Some (dl_amount d) \<and>
     d = \<lparr>dl_case = ef_case r, dl_sequence = last_number (ef_case r) db + 1, dl_actor = tx_actor job,
       dl_service = service, dl_entity = ef_id r, dl_from = tx_from job, dl_to = ef_state r, dl_amount = dl_amount d\<rparr>"

definition is_create :: "tx_job \<Rightarrow> bool" where
  "is_create job = (case job of Create_Tx _ _ _ _ \<Rightarrow> True | _ \<Rightarrow> False)"

fun tx_ok :: "string \<Rightarrow> string \<Rightarrow> 'a effect_db_scheme \<Rightarrow> tx \<Rightarrow> bool" where
  "tx_ok service event db (job, At_Start) = True"
| "tx_ok service event db (job, Key_Free) = is_create job"
| "tx_ok service event db (job, Insert_Row r) = (is_create job \<and> row_ok job r db)"
| "tx_ok service event db (job, Written r) = (row_ok job r db \<and> key_free job db)"
| "tx_ok service event db (job, Numbered r n) =
     (row_ok job r db \<and> key_free job db \<and> 1 \<le> n \<and> n \<le> last_number (ef_case r) db + 1)"
| "tx_ok service event db (job, Logged r d) = (row_ok job r db \<and> key_free job db \<and> decision_ok service job r d db)"
| "tx_ok service event db (job, Published r d e) =
     (is_create job \<and> row_ok job r db \<and> key_free job db \<and> decision_ok service job r d db \<and>
      numeric_12_2 (tx_amount job r) = Some (ob_amount e) \<and>
      e = \<lparr>ob_id = ob_id e, ob_case = ef_case r, ob_actor = tx_actor job, ob_service = service, ob_type = event,
        ob_entity = ef_id r, ob_amount = ob_amount e, ob_applied_at = None\<rparr>)"
| "tx_ok service event db (job, Over x) = True"

definition store_ok :: "string \<Rightarrow> string \<Rightarrow> 'a store \<Rightarrow> bool" where
  "store_ok service event s \<longleftrightarrow> gapless (st_db s) \<and> list_all (tx_ok service event (st_db s)) (st_txs s) \<and>
     unshared key_lock (st_txs s) \<and> unshared row_lock (st_txs s) \<and> unshared number_lock (st_txs s)"

text \<open>The database without the values of its two sequences.\<close>

definition with_seqs :: "int \<Rightarrow> int \<Rightarrow> 'a effect_db_scheme \<Rightarrow> 'a effect_db_scheme" where
  "with_seqs i j db = db\<lparr>effect_seq := i, outbox_seq := j\<rparr>"

abbreviation tables :: "'a effect_db_scheme \<Rightarrow> 'a effect_db_scheme" where
  "tables \<equiv> with_seqs 0 0"

lemma with_seqs_simps [simp]:
  "effects (with_seqs i j db) = effects db" "outbox (with_seqs i j db) = outbox db"
  "decisions (with_seqs i j db) = decisions db" "effect_seq (with_seqs i j db) = i"
  "outbox_seq (with_seqs i j db) = j" "with_seqs i j (with_seqs k l db) = with_seqs i j db"
  by (simp_all add: with_seqs_def)

lemma tx_ok_tables:
  assumes "tx_ok service event db t" "tables db' = tables db"
  shows "tx_ok service event db' t"
proof -
  have e: "effects db' = effects db" "decisions db' = decisions db"
    using arg_cong [OF assms(2), of effects] arg_cong [OF assms(2), of decisions] by simp_all
  have "row_ok job r db' = row_ok job r db" "key_free job db' = key_free job db"
    "decision_ok service job r d db' = decision_ok service job r d db" "last_number c db' = last_number c db" for job r d c
    by (cases job; simp add: row_ok_def key_free_def key_row_def decision_ok_def last_number_def e)+
  with assms(1) show ?thesis by (cases "(service, event, db, t)" rule: tx_ok.cases) simp_all
qed

section \<open>A statement keeps the invariant\<close>

text \<open>The statements that commit: the last one of each kind of transaction.\<close>

definition commits :: "tx_job \<Rightarrow> tx_pc \<Rightarrow> bool" where
  "commits job pc \<longleftrightarrow> (case pc of Logged r d \<Rightarrow> \<not> is_create job | Published r d e \<Rightarrow> True | _ \<Rightarrow> False)"

lemma tx_next_tables:
  "\<not> commits job pc \<Longrightarrow> tables (snd (tx_next service event i job pc txs db)) = tables db"
  by (cases pc; cases job) (auto simp: commits_def is_create_def form_row_def after_decision_def with_seqs_def Let_def
      split: option.split)

lemma row_ok_case: "row_ok (Create_Tx cid actor key amount) r db \<Longrightarrow> ef_case r = cid \<and> ef_key r = key \<and> ef_actor r = actor"
  unfolding row_ok_def by (auto dest: arg_cong [of r _ ef_case] arg_cong [of r _ ef_key] arg_cong [of r _ ef_actor])

lemma tx_next_ok:
  assumes ok: "tx_ok service event db (job, pc)" and g: "gapless db"
  shows "tx_ok service event (snd (tx_next service event i job pc txs db)) (job, fst (tx_next service event i job pc txs db))"
proof (cases "commits job pc")
  case True
  then show ?thesis by (cases pc; cases job) (auto simp: commits_def is_create_def after_decision_def)
next
  case False
  have "tx_ok service event db (job, fst (tx_next service event i job pc txs db))"
  proof (cases pc)
    case At_Start
    then show ?thesis
      by (cases job) (auto simp: first_statement_def is_create_def row_ok_def key_free_def split: option.split)
  next
    case Key_Free
    then show ?thesis using ok
      by (cases job) (auto simp: form_row_def is_create_def row_ok_def Let_def split: option.split)
  next
    case (Insert_Row r)
    with ok obtain cid actor key amount where job: "job = Create_Tx cid actor key amount"
      by (cases job) (auto simp: is_create_def)
    then have "ef_key r = key" using ok Insert_Row row_ok_case by fastforce
    then show ?thesis using ok Insert_Row job
      by (auto simp: insert_row_def is_create_def key_free_def key_row_None list_ex_iff)
  next
    case (Written r)
    then show ?thesis using ok by (simp add: gapless_next [OF g] last_number_def)
  next
    case (Numbered r n)
    have "n = last_number (ef_case r) db + 1"
      if "\<not> list_ex (\<lambda>d. dl_case d = ef_case r \<and> dl_sequence d = n) (decisions db)"
      using that ok Numbered gapless_numbers [OF g, of "ef_case r" n] by (simp add: list_ex_iff)
    then show ?thesis using ok Numbered
      by (auto simp: insert_decision_def decision_ok_def split: option.split)
  next
    case (Logged r d)
    with False obtain cid actor key amount where job: "job = Create_Tx cid actor key amount"
      by (cases job) (auto simp: commits_def is_create_def)
    have "ef_case r = cid" using ok Logged job by (auto simp: row_ok_def dest: arg_cong [of r _ ef_case])
    then show ?thesis using ok Logged job
      by (auto simp: after_decision_def is_create_def split: option.split)
  next
    case (Published r d e)
    with False show ?thesis by (simp add: commits_def)
  qed simp
  then show ?thesis using tx_next_tables [OF False] by (rule tx_ok_tables)
qed

lemma tx_next_locks:
  fixes db :: "'a effect_db_scheme"
  assumes ok: "tx_ok service event db (job, pc)"
  defines "pc' \<equiv> \<lambda>service event i job pc txs (db :: 'a effect_db_scheme). fst (tx_next service event i job pc txs db)"
  shows "key_lock (job, pc' service event i job pc txs db) = None \<or>
      key_lock (job, pc' service event i job pc txs db) = key_lock (job, pc) \<or>
      \<not> taken key_lock i (the (key_lock (job, pc' service event i job pc txs db))) txs" (is ?K)
    and "row_lock (job, pc' service event i job pc txs db) = None \<or>
      row_lock (job, pc' service event i job pc txs db) = row_lock (job, pc) \<or>
      \<not> taken row_lock i (the (row_lock (job, pc' service event i job pc txs db))) txs" (is ?R)
    and "number_lock (job, pc' service event i job pc txs db) = None \<or>
      number_lock (job, pc' service event i job pc txs db) = number_lock (job, pc) \<or>
      \<not> taken number_lock i (the (number_lock (job, pc' service event i job pc txs db))) txs" (is ?N)
proof -
  note defs = first_statement_def form_row_def insert_row_def insert_decision_def after_decision_def Let_def
  show ?K unfolding pc'_def
    by (cases pc; cases job) (auto simp: key_lock_def defs split: option.split)
  show ?R unfolding pc'_def
    by (cases pc; cases job) (use ok in \<open>auto simp: row_lock_def is_create_def defs split: option.split\<close>)
  show ?N unfolding pc'_def
    by (cases pc; cases job) (auto simp: number_lock_def defs split: option.split)
qed

section \<open>A commit is the transaction in one step\<close>

text \<open>The one-step transactions of theory Effects, with the next values of the two sequences given.\<close>

definition tx_alone ::
  "string \<Rightarrow> string \<Rightarrow> tx_job \<Rightarrow> int \<Rightarrow> int \<Rightarrow> 'a effect_db_scheme \<Rightarrow> tx_result \<times> 'a effect_db_scheme" where
  "tx_alone service event job i j db =
     (let db = with_seqs i j db in
      case job of
        Create_Tx cid actor key amount \<Rightarrow>
          (case effect_tx service event cid actor key amount db of
             Inl e \<Rightarrow> (Failed e, db)
           | Inr ((replayed, r), db') \<Rightarrow> (if replayed then Replayed r else Created r, db'))
      | Void_Tx actor eid \<Rightarrow>
          (case void_tx service actor eid db of
             Inl e \<Rightarrow> (Failed e, db) | Inr None \<Rightarrow> (Missing, db) | Inr (Some (r, db')) \<Rightarrow> (Voided r, db')))"

lemma gapless_fresh_number:
  "gapless db \<Longrightarrow> d \<in> set (decisions db) \<Longrightarrow> dl_case d = c \<Longrightarrow> dl_sequence d \<noteq> last_number c db + 1"
  using gapless_numbers [of db c "last_number c db + 1"] by (auto simp: not_le)

lemma append_decision_ok:
  assumes g: "gapless db" and d: "decision_ok service job r d db" and same: "decisions db' = decisions db"
  shows "append_decision (ef_case r) (tx_actor job) service (ef_id r) (tx_from job) (ef_state r) (tx_amount job r) db' =
    Inr (db'\<lparr>decisions := decisions db @ [d]\<rparr>)"
proof -
  have "\<not> (\<exists>d\<in>set (decisions db). dl_case d = ef_case r \<and> dl_sequence d = last_number (ef_case r) db + 1)"
    using gapless_fresh_number [OF g] by blast
  moreover have "d = \<lparr>dl_case = ef_case r, dl_sequence = last_number (ef_case r) db + 1, dl_actor = tx_actor job,
       dl_service = service, dl_entity = ef_id r, dl_from = tx_from job, dl_to = ef_state r, dl_amount = dl_amount d\<rparr>"
    "numeric_12_2 (tx_amount job r) = Some (dl_amount d)"
    using d unfolding decision_ok_def by blast+
  ultimately show ?thesis
    unfolding append_decision_def Let_def same gapless_next [OF g] by (auto split: option.split)
qed

lemma create_commit_is_alone:
  assumes ok: "tx_ok service event db (job, Published r d e)" and g: "gapless db"
  shows "\<exists>i j db1. tx_alone service event job i j db = (Created r, db1) \<and>
    tables db1 = tables (db\<lparr>effects := effects db @ [r], decisions := decisions db @ [d], outbox := outbox db @ [e]\<rparr>)"
proof -
  from ok obtain cid actor key amount where job: "job = Create_Tx cid actor key amount"
    by (cases job) (auto simp: is_create_def)
  from ok obtain a where a: "numeric_12_2 amount = Some a" "0 < a"
    "r = \<lparr>ef_id = ef_id r, ef_case = cid, ef_actor = actor, ef_key = key, ef_amount = a, ef_state = COMMITTED\<rparr>"
    by (auto simp: job row_ok_def)
  define db0 where "db0 = with_seqs (ef_id r - 1) (ob_id e - 1) db"
  define db1 where "db1 = db0\<lparr>effect_seq := ef_id r, effects := effects db @ [r]\<rparr>"
  have key: "key_row key db0 = None" using ok by (simp add: job key_free_def key_row_def db0_def)
  then have none: "\<forall>r\<in>set (effects db). ef_key r \<noteq> key" by (auto simp: key_row_None db0_def)
  have ins: "insert_effect cid actor key amount db0 = Inr (r, db1)"
    using a(1,2) none by (simp add: insert_effect_def Let_def db1_def db0_def) (simp add: a(3) [symmetric])
  have "append_decision (ef_case r) (tx_actor job) service (ef_id r) (tx_from job) (ef_state r) (tx_amount job r) db1 =
      Inr (db1\<lparr>decisions := decisions db @ [d]\<rparr>)"
    using ok by (intro append_decision_ok [OF g]) (simp_all add: db1_def db0_def)
  moreover have fields: "ef_case r = cid" "ef_state r = COMMITTED"
    using arg_cong [OF a(3), of ef_case] arg_cong [OF a(3), of ef_state] by simp_all
  ultimately have dec: "append_decision cid actor service (ef_id r) None COMMITTED amount db1 =
      Inr (db1\<lparr>decisions := decisions db @ [d]\<rparr>)" by (simp add: job)
  have e: "e = \<lparr>ob_id = ob_id e, ob_case = cid, ob_actor = actor, ob_service = service, ob_type = event,
      ob_entity = ef_id r, ob_amount = ob_amount e, ob_applied_at = None\<rparr>" "numeric_12_2 amount = Some (ob_amount e)"
    using ok fields by (simp_all add: job)
  have "publish cid actor service event (ef_id r) amount (db1\<lparr>decisions := decisions db @ [d]\<rparr>) =
      Inr (db1\<lparr>decisions := decisions db @ [d], outbox_seq := ob_id e, outbox := outbox db @ [e]\<rparr>)"
    unfolding publish_def e(2) by (simp add: e(1) [symmetric] db1_def db0_def)
  then have "tx_alone service event job (ef_id r - 1) (ob_id e - 1) db =
      (Created r, db1\<lparr>decisions := decisions db @ [d], outbox_seq := ob_id e, outbox := outbox db @ [e]\<rparr>)"
    using key ins dec by (simp add: tx_alone_def Let_def job effect_tx_def db0_def [symmetric])
  then show ?thesis by (intro exI conjI) (assumption, simp add: db1_def db0_def with_seqs_def)
qed

lemma void_commit_is_alone:
  assumes ok: "tx_ok service event db (Void_Tx actor eid, Logged r d)" and g: "gapless db"
  shows "\<exists>db1. tx_alone service event (Void_Tx actor eid) 0 0 db = (Voided r, db1) \<and>
    tables db1 = tables (db\<lparr>effects := update_where (\<lambda>r. ef_id r = eid) (\<lambda>r. r\<lparr>ef_state := VOIDED\<rparr>) (effects db),
      decisions := decisions db @ [d]\<rparr>)"
proof -
  let ?upd = "update_where (\<lambda>r. ef_id r = eid) (\<lambda>r. r\<lparr>ef_state := VOIDED\<rparr>) (effects db)"
  from ok obtain r0 where r0: "row_where (\<lambda>r. ef_id r = eid) (effects db) = Some r0" "r = r0\<lparr>ef_state := VOIDED\<rparr>"
    by (auto simp: row_ok_def)
  then have row: "row_where (\<lambda>r. ef_id r = eid) ?upd = Some r" by (simp add: row_where_update)
  have "append_decision (ef_case r) (tx_actor (Void_Tx actor eid)) service (ef_id r) (tx_from (Void_Tx actor eid))
      (ef_state r) (tx_amount (Void_Tx actor eid) r) (tables db\<lparr>effects := ?upd\<rparr>) =
      Inr (tables db\<lparr>effects := ?upd, decisions := decisions db @ [d]\<rparr>)"
    using ok by (subst append_decision_ok [OF g]) simp_all
  moreover have "ef_state r = VOIDED" using r0(2) by simp
  ultimately have "tx_alone service event (Void_Tx actor eid) 0 0 db =
      (Voided r, tables db\<lparr>effects := ?upd, decisions := decisions db @ [d]\<rparr>)"
    using row by (simp add: tx_alone_def void_tx_def Let_def)
  then show ?thesis by (intro exI conjI) (assumption, simp add: with_seqs_def)
qed

section \<open>A commit leaves the other transactions intact\<close>

lemma decision_ok_number:
  assumes "decision_ok service job r d db"
  shows "dl_case d = ef_case r" "dl_sequence d = last_number (ef_case r) db + 1"
proof -
  have d: "d = \<lparr>dl_case = ef_case r, dl_sequence = last_number (ef_case r) db + 1, dl_actor = tx_actor job,
       dl_service = service, dl_entity = ef_id r, dl_from = tx_from job, dl_to = ef_state r, dl_amount = dl_amount d\<rparr>"
    using assms unfolding decision_ok_def by blast
  show "dl_case d = ef_case r" "dl_sequence d = last_number (ef_case r) db + 1" by (subst d, simp)+
qed

lemma commit_keeps_others:
  fixes db :: "'a effect_db_scheme"
  assumes g: "gapless db" and ok: "tx_ok service event db (job, pc)" and c: "commits job pc"
    and other: "tx_ok service event db t"
    and apart: "key_lock t = None \<or> key_lock t \<noteq> key_lock (job, pc)" "row_lock t = None \<or> row_lock t \<noteq> row_lock (job, pc)"
      "number_lock t = None \<or> number_lock t \<noteq> number_lock (job, pc)"
    and db': "db' = snd (tx_next service event i job pc txs db)"
  shows "gapless db' \<and> tx_ok service event db' t"
proof -
  obtain r d where rd: "written_row pc = Some r" "written_decision pc = Some d" "decision_ok service job r d db"
      "decisions db' = decisions db @ [d]"
    using ok c db' by (cases pc; cases job) (auto simp: commits_def is_create_def after_decision_def)
  have num: "number_lock (job, pc) = Some (dl_case d, last_number (dl_case d) db + 1)"
    using rd(2) decision_ok_number [OF rd(3)] by (simp add: number_lock_def)
  then have seq: "dl_sequence d = last_number (dl_case d) db + 1" using rd(2) by (simp add: number_lock_def)
  have last: "last_number x db' = last_number x db + (if dl_case d = x then 1 else 0)" for x
    using rd(4) by (simp add: last_number_def case_log_def)
  have g': "gapless db'"
    using gapless_append [OF g seq] rd(4) by (simp add: gapless_def)
  obtain job' pc' where t: "t = (job', pc')" by (cases t)
  have rows: "row_ok job' q db'" if q: "row_ok job' q db" "written_row pc' = Some q \<or> is_create job'" for q
  proof (cases job')
    case Create: (Create_Tx cid actor key amount)
    then show ?thesis using q(1) by (simp add: row_ok_def)
  next
    case Void: (Void_Tx actor eid)
    then obtain q0 where q0: "row_where (\<lambda>r. ef_id r = eid) (effects db) = Some q0" "q = q0\<lparr>ef_state := VOIDED\<rparr>"
      using q(1) by (auto simp: row_ok_def)
    have lock: "row_lock t = Some eid" using q(2) Void t by (auto simp: row_lock_def is_create_def)
    have "row_where (\<lambda>r. ef_id r = eid) (effects db') = Some q0"
    proof (cases job)
      case (Create_Tx cid' actor' key' amount')
      then have "\<exists>new. effects db' = effects db @ new"
        using c db' by (cases pc) (auto simp: commits_def is_create_def)
      then show ?thesis using q0(1) by auto
    next
      case (Void_Tx actor' eid')
      then have "row_lock (job, pc) = Some eid'" using rd(1) by (simp add: row_lock_def)
      then have "eid' \<noteq> eid" using apart(2) lock by auto
      moreover have "effects db' = update_where (\<lambda>r. ef_id r = eid') (\<lambda>r. r\<lparr>ef_state := VOIDED\<rparr>) (effects db)"
        using Void_Tx c db' ok by (cases pc) (auto simp: commits_def is_create_def after_decision_def)
      ultimately show ?thesis using q0(1)
          row_where_update_other [of "\<lambda>r. ef_id r = eid'" "\<lambda>r. ef_id r = eid" "\<lambda>r. r\<lparr>ef_state := VOIDED\<rparr>" "effects db"]
        by simp
    qed
    then show ?thesis using Void q0(2) by (simp add: row_ok_def)
  qed
  have keys: "key_free job' db'" if k: "key_free job' db" "written_row pc' = Some q" "row_ok job' q db" for q
  proof (cases job')
    case Create: (Create_Tx cid actor key amount)
    then have lock: "key_lock t = Some key" using k t row_ok_case by (fastforce simp: key_lock_def)
    have old: "key \<notin> ef_key ` set (effects db)" using k(1) Create by (simp add: key_free_def key_row_None)
    have create: "ef_key ` set (effects db') \<subseteq> insert key' (ef_key ` set (effects db))"
      if "job = Create_Tx cid' actor' key' amount'" for cid' actor' key' amount'
      using that c db' ok row_ok_case by (cases pc) (fastforce simp: commits_def is_create_def)+
    have differ: "key' \<noteq> key" if "job = Create_Tx cid' actor' key' amount'" for cid' actor' key' amount'
    proof -
      have "row_ok job r db" using ok rd(1) c by (cases pc) (auto simp: commits_def)
      then have "key_lock (job, pc) = Some key'" using that rd(1) row_ok_case by (fastforce simp: key_lock_def)
      then show ?thesis using apart(1) lock by auto
    qed
    have void: "ef_key ` set (effects db') = ef_key ` set (effects db)" if "job = Void_Tx actor' eid'" for actor' eid'
    proof -
      have "map ef_key (effects db') = map ef_key (effects db)"
        using that c db' ok by (cases pc) (auto simp: commits_def is_create_def after_decision_def)
      then show ?thesis by (metis list.set_map)
    qed
    have "key \<notin> ef_key ` set (effects db')"
    proof (cases job)
      case (Create_Tx cid' actor' key' amount')
      from create [OF this] differ [OF this] old show ?thesis by blast
    next
      case (Void_Tx actor' eid')
      from void [OF this] old show ?thesis by simp
    qed
    then show ?thesis using Create by (simp add: key_free_def key_row_None)
  qed (simp add: key_free_def)
  have numbers: "decision_ok service job' q d' db'"
    if q: "decision_ok service job' q d' db" "written_decision pc' = Some d'" for q d'
  proof -
    have d': "dl_case d' = ef_case q" "dl_sequence d' = last_number (ef_case q) db + 1"
      using decision_ok_number [OF q(1)] by blast+
    then have "number_lock t = Some (ef_case q, last_number (ef_case q) db + 1)" using q(2) t by (simp add: number_lock_def)
    then have "dl_case d \<noteq> ef_case q" using apart(3) num by auto
    then show ?thesis using q(1) by (simp add: decision_ok_def last)
  qed
  have "tx_ok service event db' t"
    using other unfolding t
    by (cases pc') (auto simp: last intro: rows keys numbers)
  with g' show ?thesis by blast
qed

lemma gapless_tables:
  assumes "tables db' = tables db"
  shows "gapless db' = gapless db"
proof -
  have "decisions db' = decisions db" using arg_cong [OF assms, of decisions] by simp
  then show ?thesis by (simp add: gapless_def)
qed

lemma tx_step_eq:
  "i < length (st_txs s) \<Longrightarrow> st_txs s ! i = (job, pc) \<Longrightarrow>
     tx_next service event i job pc (st_txs s) (st_db s) = (pc', db') \<Longrightarrow>
     tx_step service event i s = \<lparr>st_db = db', st_txs = (st_txs s)[i := (job, pc')]\<rparr>"
  by (simp add: tx_step_def)

lemma tx_step_ok:
  assumes ok: "store_ok service event s"
  shows "store_ok service event (tx_step service event i s)"
proof (cases "i < length (st_txs s)")
  case True
  obtain job pc where t: "st_txs s ! i = (job, pc)" by (cases "st_txs s ! i")
  obtain pc' db' where n: "tx_next service event i job pc (st_txs s) (st_db s) = (pc', db')" by fastforce
  have g: "gapless (st_db s)" and oks: "\<And>j. j < length (st_txs s) \<Longrightarrow> tx_ok service event (st_db s) (st_txs s ! j)"
    and locks: "unshared key_lock (st_txs s)" "unshared row_lock (st_txs s)" "unshared number_lock (st_txs s)"
    using ok by (simp_all add: store_ok_def list_all_length)
  have own: "tx_ok service event (st_db s) (job, pc)" using oks [OF True] t by simp
  have own': "tx_ok service event db' (job, pc')" using tx_next_ok [OF own g, of i "st_txs s"] n by simp
  have others: "gapless db' \<and> tx_ok service event db' (st_txs s ! j)" if j: "j < length (st_txs s)" "j \<noteq> i" for j
  proof (cases "commits job pc")
    case True
    show ?thesis
      by (rule commit_keeps_others [OF g own True oks [OF j(1)], where i = i and txs = "st_txs s"])
        (use unshared_apart [OF locks(1) \<open>i < length (st_txs s)\<close> j] unshared_apart [OF locks(2) \<open>i < length (st_txs s)\<close> j]
          unshared_apart [OF locks(3) \<open>i < length (st_txs s)\<close> j] t n in simp_all)
  next
    case False
    then have tb: "tables db' = tables (st_db s)" using tx_next_tables [OF False, of service event i "st_txs s" "st_db s"] n by simp
    moreover have "gapless db'" using g gapless_tables [OF tb] by simp
    ultimately show ?thesis using tx_ok_tables [OF oks [OF j(1)]] by blast
  qed
  have g': "gapless db'"
  proof (cases "commits job pc")
    case True
    show ?thesis
      by (rule conjunct1 [OF commit_keeps_others [OF g own True, where t = "(job, At_Start)" and i = i and txs = "st_txs s" and db' = db']])
        (simp_all add: key_lock_def row_lock_def number_lock_def n split: tx_job.split)
  next
    case False
    then have "tables db' = tables (st_db s)" using tx_next_tables [OF False, of service event i "st_txs s" "st_db s"] n by simp
    then show ?thesis using g gapless_tables by blast
  qed
  note l = tx_next_locks [OF own, of i "st_txs s", unfolded n fst_conv]
  have "unshared key_lock ((st_txs s)[i := (job, pc')])" "unshared row_lock ((st_txs s)[i := (job, pc')])"
    "unshared number_lock ((st_txs s)[i := (job, pc')])"
    using l unshared_update [OF locks(1)] unshared_update [OF locks(2)] unshared_update [OF locks(3)] t by metis+
  moreover have "list_all (tx_ok service event db') ((st_txs s)[i := (job, pc')])"
    unfolding list_all_length length_list_update
  proof (intro allI impI)
    fix m assume "m < length (st_txs s)"
    then show "tx_ok service event db' ((st_txs s)[i := (job, pc')] ! m)"
      using own' others [of m] by (cases "m = i") simp_all
  qed
  ultimately show ?thesis using g' unfolding tx_step_eq [OF True t n] store_ok_def by simp
next
  case False
  then show ?thesis using ok by (simp add: tx_step_def)
qed

section \<open>Interleavings are serial\<close>

text \<open>A serial run: the transactions given, one after the other, with the sequence values given.\<close>

type_synonym turn = "nat \<times> int \<times> int"

fun serially ::
  "string \<Rightarrow> string \<Rightarrow> tx_job list \<Rightarrow> turn list \<Rightarrow> 'a effect_db_scheme \<Rightarrow> (nat \<times> tx_result) list \<times> 'a effect_db_scheme" where
  "serially service event jobs [] db = ([], db)"
| "serially service event jobs ((k, i, j) # turns) db =
     (let (x, db1) = tx_alone service event (jobs ! k) i j db; (xs, db2) = serially service event jobs turns db1
      in ((k, x) # xs, db2))"

lemma serially_snoc:
  "serially service event jobs (turns @ [(k, i, j)]) db =
     (let (xs, db1) = serially service event jobs turns db; (x, db2) = tx_alone service event (jobs ! k) i j db1
      in (xs @ [(k, x)], db2))"
  by (induction service event jobs turns db rule: serially.induct) (auto simp: Let_def split: prod.splits)

lemma tx_alone_tables: "tx_alone service event job i j (tables db) = tx_alone service event job i j db"
  by (simp add: tx_alone_def)

lemma tx_alone_cong: "tables db = tables db' \<Longrightarrow> tx_alone service event job i j db = tx_alone service event job i j db'"
  by (metis tx_alone_tables)

definition has_committed :: "tx \<Rightarrow> bool" where
  "has_committed t = (case snd t of Over (Created r) \<Rightarrow> True | Over (Voided r) \<Rightarrow> True | _ \<Rightarrow> False)"

definition committed_txs :: "'a store \<Rightarrow> nat set" where
  "committed_txs s = {k. k < length (st_txs s) \<and> has_committed (st_txs s ! k)}"

text \<open>The serial run that explains a state.\<close>

definition explains ::
  "string \<Rightarrow> string \<Rightarrow> tx_job list \<Rightarrow> 'a effect_db_scheme \<Rightarrow> turn list \<Rightarrow> 'a store \<Rightarrow> bool" where
  "explains service event jobs db turns s \<longleftrightarrow>
     (case serially service event jobs turns db of (results, db') \<Rightarrow>
        tables (st_db s) = tables db' \<and> distinct (map fst turns) \<and> map fst results = map fst turns \<and>
        set (map fst turns) = committed_txs s \<and>
        list_all (\<lambda>(k, x). snd (st_txs s ! k) = Over x) results)"

lemma tx_step_job: "map fst (st_txs (tx_step service event i s)) = map fst (st_txs s)"
  by (cases "i < length (st_txs s)") (auto simp: tx_step_def Let_def map_update list_update_same_conv split: prod.split)

lemma commit_is_alone:
  assumes "tx_ok service event db (job, pc)" "gapless db" "commits job pc"
    "tx_next service event k job pc txs db = (pc', db')"
  shows "\<exists>i j x db1. tx_alone service event job i j db = (x, db1) \<and> tables db1 = tables db' \<and> pc' = Over x \<and>
    has_committed (job, pc')"
proof (cases pc)
  case (Logged r d)
  with assms(3) obtain actor eid where job: "job = Void_Tx actor eid"
    by (cases job) (auto simp: commits_def is_create_def)
  have "tx_ok service event db (Void_Tx actor eid, Logged r d)" using assms(1) Logged job by simp
  from void_commit_is_alone [OF this assms(2)] obtain db1 where
    a: "tx_alone service event job 0 0 db = (Voided r, db1)" "tables db1 = tables db'"
    using assms(4) Logged job by (auto simp: after_decision_def)
  have "pc' = Over (Voided r)" using assms(4) Logged job by (auto simp: after_decision_def)
  then have "tx_alone service event job 0 0 db = (Voided r, db1) \<and> tables db1 = tables db' \<and> pc' = Over (Voided r) \<and>
      has_committed (job, pc')" using a by (simp add: has_committed_def)
  then show ?thesis by blast
next
  case (Published r d e)
  have "tx_ok service event db (job, Published r d e)" using assms(1) Published by simp
  from create_commit_is_alone [OF this assms(2)] assms(4) Published show ?thesis
    by (auto simp: has_committed_def) blast
qed (use assms(3) in \<open>simp_all add: commits_def\<close>)

lemma quiet_step:
  assumes "tx_next service event k job pc txs db = (pc', db')" "\<not> commits job pc"
  shows "has_committed (job, pc') = has_committed (job, pc) \<and> (has_committed (job, pc) \<longrightarrow> pc' = pc)"
  using assms
  by (cases pc; cases job) (auto simp: commits_def is_create_def has_committed_def first_statement_def form_row_def
      insert_row_def insert_decision_def after_decision_def Let_def split: option.splits if_splits tx_result.splits)

lemma step_explained:
  assumes ok: "store_ok service event s" and jobs: "map fst (st_txs s) = jobs"
    and ex: "explains service event jobs db0 turns s"
  shows "\<exists>turns'. explains service event jobs db0 turns' (tx_step service event k s)"
proof (cases "k < length (st_txs s)")
  case True
  obtain job pc where t: "st_txs s ! k = (job, pc)" by (cases "st_txs s ! k")
  obtain pc' db' where n: "tx_next service event k job pc (st_txs s) (st_db s) = (pc', db')" by fastforce
  obtain results db1 where se: "serially service event jobs turns db0 = (results, db1)" by fastforce
  have e: "tables (st_db s) = tables db1" "distinct (map fst turns)" "map fst results = map fst turns"
    "set (map fst turns) = committed_txs s" "list_all (\<lambda>(k, x). snd (st_txs s ! k) = Over x) results"
    using ex by (simp_all add: explains_def se)
  have job: "jobs ! k = job" using jobs True t by (metis fst_conv nth_map)
  note step = tx_step_eq [OF True t n]
  have g: "gapless (st_db s)" and own: "tx_ok service event (st_db s) (job, pc)"
    using ok True t by (simp_all add: store_ok_def list_all_length) metis
  show ?thesis
  proof (cases "commits job pc")
    case c: True
    then have new: "k \<notin> committed_txs s"
      using t by (auto simp: committed_txs_def has_committed_def commits_def split: tx_pc.splits)
    from commit_is_alone [OF own g c n] obtain i j x db2 where
      a: "tx_alone service event job i j (st_db s) = (x, db2)" "tables db2 = tables db'" "pc' = Over x" "has_committed (job, pc')"
      by blast
    have "serially service event jobs (turns @ [(k, i, j)]) db0 = (results @ [(k, x)], db2)"
      using a(1) tx_alone_cong [OF e(1)] by (simp add: serially_snoc se job)
    moreover have "committed_txs (tx_step service event k s) = insert k (committed_txs s)"
      using a(4) True unfolding step by (auto simp: committed_txs_def nth_list_update)
    moreover have "list_all (\<lambda>(m, x). snd (st_txs (tx_step service event k s) ! m) = Over x) (results @ [(k, x)])"
    proof -
      have "snd ((st_txs s)[k := (job, pc')] ! m) = Over y" if m: "(m, y) \<in> set results" for m y
      proof -
        have "m \<noteq> k" using new e(3,4) m by (metis fst_conv image_eqI list.set_map)
        then show ?thesis using e(5) m by (auto simp: list_all_iff)
      qed
      then show ?thesis using a(3) True unfolding step by (auto simp: list_all_iff)
    qed
    ultimately have "explains service event jobs db0 (turns @ [(k, i, j)]) (tx_step service event k s)"
      using e(2,3,4) new a(2) unfolding explains_def by (simp add: step)
    then show ?thesis by blast
  next
    case False
    have tb: "tables db' = tables (st_db s)" using tx_next_tables [OF False, of service event k "st_txs s" "st_db s"] n by simp
    note q = quiet_step [OF n False]
    have "committed_txs (tx_step service event k s) = committed_txs s"
      using q True t unfolding step by (auto simp: committed_txs_def nth_list_update)
    moreover have "list_all (\<lambda>(m, x). snd (st_txs (tx_step service event k s) ! m) = Over x) results"
    proof -
      have "pc' = pc" if "(k, y) \<in> set results" for y
      proof -
        have "k \<in> committed_txs s" using e(3,4) that by (metis fst_conv image_eqI list.set_map)
        then show ?thesis using q t by (simp add: committed_txs_def)
      qed
      then show ?thesis using e(5) t True unfolding step by (fastforce simp: list_all_iff nth_list_update)
    qed
    ultimately have "explains service event jobs db0 turns (tx_step service event k s)"
      using e(1-4) tb unfolding explains_def se by (simp add: step)
    then show ?thesis by blast
  qed
next
  case False
  then show ?thesis using ex by (auto simp: tx_step_def)
qed

interpretation txs: stateful "tx_step service event" "store_ok service event"
  by unfold_locales (rule tx_step_ok)

lemma open_store_ok: "gapless db \<Longrightarrow> store_ok service event (open_store jobs db)"
  by (auto simp: store_ok_def open_store_def list_all_iff key_lock_def row_lock_def number_lock_def
      intro!: none_unshared split: tx_job.split)

lemma effect_inv_gapless: "effect_inv db \<Longrightarrow> gapless db"
  by (simp add: effect_inv_def gapless_def)

lemma tx_run_jobs: "map fst (st_txs (tx_run service event xs (open_store jobs db))) = jobs"
proof -
  have "map fst (st_txs (tx_run service event xs s)) = map fst (st_txs s)" for s :: "'a store"
    by (induction xs arbitrary: s) (simp_all add: tx_run_def tx_step_job)
  then show ?thesis by (simp add: open_store_def o_def)
qed

text \<open>
  C15. Every interleaving of the services' transactions, statement by statement, is serial. From any
  database the services can reach, let any number of creates and voids run concurrently, in any
  order of their statements: the committed tables are those of the one-step transactions that
  committed, each once, in some order and with some values of the two sequences; each of them
  answers what it answers alone; and a transaction that is still open, has failed or has found
  nothing to do has left nothing.
\<close>

theorem interleavings_are_serial:
  assumes "effect_inv db"
  shows "\<exists>turns. explains service event jobs db turns (tx_run service event xs (open_store jobs db))"
proof (induction xs rule: rev_induct)
  case Nil
  have "explains service event jobs db [] (open_store jobs db)"
    by (auto simp: explains_def committed_txs_def has_committed_def open_store_def)
  then show ?case unfolding tx_run_def fold.simps id_apply by blast
next
  case (snoc x xs)
  let ?s = "tx_run service event xs (open_store jobs db)"
  obtain turns where "explains service event jobs db turns ?s" using snoc.IH by blast
  moreover have "store_ok service event ?s"
    unfolding tx_run_def by (rule txs.run_inv [OF open_store_ok [OF effect_inv_gapless [OF assms]]])
  ultimately have "\<exists>turns'. explains service event jobs db turns' (tx_step service event x ?s)"
    using step_explained tx_run_jobs by blast
  then show ?case by (simp add: tx_run_def)
qed

section \<open>No deadlock\<close>

fun tx_rank :: "tx_pc \<Rightarrow> nat" where
  "tx_rank At_Start = 7"
| "tx_rank Key_Free = 6"
| "tx_rank (Insert_Row r) = 5"
| "tx_rank (Written r) = 4"
| "tx_rank (Numbered r n) = 3"
| "tx_rank (Logged r d) = 2"
| "tx_rank (Published r d e) = 1"
| "tx_rank (Over x) = 0"

lemma tx_next_rank:
  "tx_next service event i job pc txs db = (pc', db') \<Longrightarrow> (pc', db') = (pc, db) \<or> tx_rank pc' < tx_rank pc"
  by (cases pc; cases job) (auto simp: first_statement_def form_row_def insert_row_def insert_decision_def
      after_decision_def Let_def split: option.splits if_splits)

definition tx_left :: "'a store \<Rightarrow> nat" where
  "tx_left s = sum_list (map (tx_rank \<circ> snd) (st_txs s))"

lemma tx_step_left:
  "tx_step service event i s = s \<or> tx_left (tx_step service event i s) < tx_left s"
proof (cases "i < length (st_txs s)")
  case True
  obtain job pc where t: "st_txs s ! i = (job, pc)" by (cases "st_txs s ! i")
  obtain pc' db' where n: "tx_next service event i job pc (st_txs s) (st_db s) = (pc', db')" by fastforce
  note step = tx_step_eq [OF True t n]
  from tx_next_rank [OF n] show ?thesis
  proof
    assume "(pc', db') = (pc, st_db s)"
    moreover have "(st_txs s)[i := (job, pc)] = st_txs s" using t list_update_id [of "st_txs s" i] by simp
    ultimately have "tx_step service event i s = s" unfolding step by (intro store.equality) simp_all
    then show ?thesis by blast
  next
    assume less: "tx_rank pc' < tx_rank pc"
    have "sum_list ((map (tx_rank \<circ> snd) (st_txs s))[i := tx_rank pc']) < sum_list (map (tx_rank \<circ> snd) (st_txs s))"
    proof -
      have at: "map (tx_rank \<circ> snd) (st_txs s) ! i = tx_rank pc" using True t by simp
      then have "tx_rank pc \<in> set (map (tx_rank \<circ> snd) (st_txs s))" using True by (metis length_map nth_mem)
      then have "tx_rank pc \<le> sum_list (map (tx_rank \<circ> snd) (st_txs s))" by (rule member_le_sum_list) simp
      then show ?thesis using True less at by (subst sum_list_update) (simp_all del: nth_map map_map)
    qed
    then show ?thesis by (simp add: step tx_left_def map_update)
  qed
qed (simp add: tx_step_def)

fun tx_effective :: "string \<Rightarrow> string \<Rightarrow> nat list \<Rightarrow> 'a store \<Rightarrow> nat" where
  "tx_effective service event [] s = 0"
| "tx_effective service event (i # xs) s =
     (if tx_step service event i s = s then 0 else 1) + tx_effective service event xs (tx_step service event i s)"

lemma tx_effective_bound: "tx_effective service event xs s \<le> tx_left s"
proof (induction xs arbitrary: s)
  case (Cons i xs)
  show ?case
  proof (cases "tx_step service event i s = s")
    case True
    then show ?thesis using Cons.IH [of s] by simp
  next
    case False
    then show ?thesis
      using tx_step_left [of service event i s] Cons.IH [of "tx_step service event i s"] by simp
  qed
qed simp

lemma tx_step_moves:
  assumes "k < length (st_txs s)" "st_txs s ! k = (job, pc)"
    "fst (tx_next service event k job pc (st_txs s) (st_db s)) \<noteq> pc"
  shows "tx_step service event k s \<noteq> s"
proof
  assume same: "tx_step service event k s = s"
  obtain pc' db' where n: "tx_next service event k job pc (st_txs s) (st_db s) = (pc', db')" by fastforce
  have "st_txs (tx_step service event k s) ! k = (job, pc')" using assms(1) by (simp add: tx_step_eq [OF assms(1,2) n])
  then show False using same assms(2,3) n by simp
qed

lemma some_step_moves:
  assumes ok: "store_ok service event s" and open': "k < length (st_txs s)" "\<not> (\<exists>x. snd (st_txs s ! k) = Over x)"
  shows "\<exists>i<length (st_txs s). tx_step service event i s \<noteq> s"
proof -
  let ?pc = "\<lambda>j. snd (st_txs s ! j)"
  have oks: "tx_ok service event (st_db s) (st_txs s ! j)" if "j < length (st_txs s)" for j
    using ok that by (simp add: store_ok_def list_all_length)
  have pair: "st_txs s ! j = (fst (st_txs s ! j), ?pc j)" for j by simp
  consider (late) j where "j < length (st_txs s)" "written_decision (?pc j) \<noteq> None"
    | (numbered) j r n where "\<And>j. j < length (st_txs s) \<Longrightarrow> written_decision (?pc j) = None"
        "j < length (st_txs s)" "?pc j = Numbered r n"
    | (written) j r where "j < length (st_txs s)" "?pc j = Written r"
    | (early) "\<And>j. j < length (st_txs s) \<Longrightarrow> written_row (?pc j) = None"
  proof (cases "\<exists>j<length (st_txs s). written_row (?pc j) \<noteq> None")
    case True
    then obtain j where j: "j < length (st_txs s)" "written_row (?pc j) \<noteq> None" by blast
    show thesis
    proof (cases "\<exists>j<length (st_txs s). written_decision (?pc j) \<noteq> None")
      case True
      then show thesis using late by blast
    next
      case False
      then show thesis using j numbered [of j] written [of j] by (cases "?pc j") auto
    qed
  qed (use early in blast)
  then show ?thesis
  proof cases
    case (late j)
    have "fst (tx_next service event j (fst (st_txs s ! j)) (?pc j) (st_txs s) (st_db s)) \<noteq> ?pc j"
      using late(2) by (cases "?pc j"; cases "fst (st_txs s ! j)") (auto simp: after_decision_def split: option.split)
    with late(1) show ?thesis using tx_step_moves [OF late(1) pair] by blast
  next
    case (numbered j r n)
    then have "\<not> taken number_lock j (ef_case r, n) (st_txs s)" by (intro nothing_taken) (simp add: number_lock_def)
    then have "fst (tx_next service event j (fst (st_txs s ! j)) (?pc j) (st_txs s) (st_db s)) \<noteq> ?pc j"
      using numbered(3) by (auto simp: insert_decision_def split: option.split)
    with numbered(2) show ?thesis using tx_step_moves [OF numbered(2) pair] by blast
  next
    case (written j r)
    then have "fst (tx_next service event j (fst (st_txs s ! j)) (?pc j) (st_txs s) (st_db s)) \<noteq> ?pc j" by simp
    with written(1) show ?thesis using tx_step_moves [OF written(1) pair] by blast
  next
    case early
    then have free: "\<not> taken key_lock i v (st_txs s)" "\<not> taken row_lock i w (st_txs s)" for i v w
      by (auto intro!: nothing_taken simp: key_lock_def row_lock_def split: prod.splits tx_job.splits)
        (metis snd_conv option.simps(8))+
    have "fst (tx_next service event k (fst (st_txs s ! k)) (?pc k) (st_txs s) (st_db s)) \<noteq> ?pc k"
      using open'(2) early [OF open'(1)] oks [OF open'(1)] free
      by (subst (asm) (3) pair, cases "?pc k"; cases "fst (st_txs s ! k)")
        (auto simp: first_statement_def form_row_def insert_row_def is_create_def Let_def split: option.split)
    with open'(1) show ?thesis using tx_step_moves [OF open'(1) pair] by blast
  qed
qed

text \<open>
  The transactions cannot block each other for ever. In any state of any interleaving in which
  some transaction is not over, some transaction can go on; and as none takes more than seven
  statements, waiting not counted, after seven steps that change something for each of them all
  are over, however they are chosen.
\<close>

lemma transactions_never_deadlock:
  assumes "effect_inv db" and s: "s = tx_run service event xs (open_store jobs db)"
  shows "tx_effective service event xs (open_store jobs db) \<le> 7 * length jobs
    \<and> (list_ex (\<lambda>t. \<not> (\<exists>x. snd t = Over x)) (st_txs s) \<longrightarrow> (\<exists>i<length jobs. tx_step service event i s \<noteq> s))"
proof
  have "tx_left (open_store jobs db) = 7 * length jobs"
    by (simp add: tx_left_def open_store_def o_def sum_list_triv)
  then show "tx_effective service event xs (open_store jobs db) \<le> 7 * length jobs"
    using tx_effective_bound [of service event xs "open_store jobs db"] by simp
  have ok: "store_ok service event s"
    unfolding s tx_run_def by (rule txs.run_inv [OF open_store_ok [OF effect_inv_gapless [OF assms(1)]]])
  have "length (st_txs s) = length jobs"
    using arg_cong [OF tx_run_jobs [of service event xs jobs db], of length] by (simp add: s)
  then show "list_ex (\<lambda>t. \<not> (\<exists>x. snd t = Over x)) (st_txs s) \<longrightarrow> (\<exists>i<length jobs. tx_step service event i s \<noteq> s)"
    using some_step_moves [OF ok] by (auto simp: list_ex_iff in_set_conv_nth)
qed

section \<open>What concurrency costs\<close>

definition two_refunds :: "string \<Rightarrow> tx_job list" where
  "two_refunds cid = [Create_Tx cid ''A'' ''a'' 300, Create_Tx cid ''B'' ''b'' 200]"

text \<open>Both read the last sequence number of the case before either commits.\<close>

definition both_number_first :: "nat list" where
  "both_number_first = [0, 0, 0, 0, 1, 1, 1, 1, 0, 0, 0, 1]"

lemma numeric_small [simp]: "numeric_12_2 300 = Some 300" "numeric_12_2 200 = Some 200"
  using in_cents_of_int [of 300] in_cents_of_int [of 200] by (simp_all add: numeric_12_2_def round2_in_cents)

text \<open>
  Two refunds of one case, each legitimate and under its own key, collide: the second one's
  decision takes the same sequence number, it is rolled back and answered as a server error,
  although one after the other both succeed.
\<close>

lemma concurrent_refunds_of_a_case_collide:
  "map snd (st_txs (tx_run service event both_number_first (open_store (two_refunds cid) empty_effect_db))) =
     [Over (Created \<lparr>ef_id = 1, ef_case = cid, ef_actor = ''A'', ef_key = ''a'', ef_amount = 300, ef_state = COMMITTED\<rparr>),
      Over (Failed (UniqueViolation ''decision_log''))]"
  "map snd (st_txs (tx_run service event [0, 0, 0, 0, 0, 0, 0, 1, 1, 1, 1, 1, 1, 1]
      (open_store (two_refunds cid) empty_effect_db))) =
     [Over (Created \<lparr>ef_id = 1, ef_case = cid, ef_actor = ''A'', ef_key = ''a'', ef_amount = 300, ef_state = COMMITTED\<rparr>),
      Over (Created \<lparr>ef_id = 2, ef_case = cid, ef_actor = ''B'', ef_key = ''b'', ef_amount = 200, ef_state = COMMITTED\<rparr>)]"
  by (simp_all add: tx_run_def tx_step_def two_refunds_def both_number_first_def open_store_def empty_effect_db_def
      first_statement_def form_row_def insert_row_def insert_decision_def after_decision_def key_row_def
      key_lock_def number_lock_def taken_def held_def locked_by_other_def next_sequence_def)

text \<open>
  The same request sent twice at once: the second does not get the replay, it waits for the
  first and then fails as a server error.
\<close>

lemma concurrent_retry_is_a_server_error:
  "map snd (st_txs (tx_run service event [0, 0, 1, 1, 0, 1, 0, 0, 0, 0, 1]
      (open_store [Create_Tx cid ''A'' ''a'' 300, Create_Tx cid ''A'' ''a'' 300] empty_effect_db))) =
     [Over (Created \<lparr>ef_id = 1, ef_case = cid, ef_actor = ''A'', ef_key = ''a'', ef_amount = 300, ef_state = COMMITTED\<rparr>),
      Over (Failed (UniqueViolation ''idempotency_key''))]"
  by (simp add: tx_run_def tx_step_def open_store_def empty_effect_db_def
      first_statement_def form_row_def insert_row_def insert_decision_def after_decision_def key_row_def
      key_lock_def number_lock_def taken_def held_def locked_by_other_def next_sequence_def)

text \<open>
  The ids of the outbox are not in the order of the commits: of two refunds of different cases the
  one that published first may commit last, and a reader sees event 2 while event 1 does not
  exist yet.
\<close>

lemma outbox_ids_are_not_in_commit_order:
  "map ob_id (outbox (st_db (tx_run service event [0, 0, 0, 0, 0, 0, 1, 1, 1, 1, 1, 1, 1]
      (open_store [Create_Tx ''c'' ''A'' ''a'' 300, Create_Tx ''d'' ''B'' ''b'' 200] empty_effect_db)))) = [2]"
  "map ob_id (outbox (st_db (tx_run service event [0, 0, 0, 0, 0, 0, 1, 1, 1, 1, 1, 1, 1, 0]
      (open_store [Create_Tx ''c'' ''A'' ''a'' 300, Create_Tx ''d'' ''B'' ''b'' 200] empty_effect_db)))) = [2, 1]"
  by (simp_all add: tx_run_def tx_step_def open_store_def empty_effect_db_def
      first_statement_def form_row_def insert_row_def insert_decision_def after_decision_def key_row_def
      key_lock_def number_lock_def taken_def held_def locked_by_other_def next_sequence_def)

theorem interleavings_are_serial_witness:
  "\<exists>turns. explains ''billing'' ''RefundCommitted'' (two_refunds ''c'') empty_effect_db turns
     (tx_run ''billing'' ''RefundCommitted'' both_number_first (open_store (two_refunds ''c'') empty_effect_db))"
  by (rule interleavings_are_serial) (rule effect_inv_empty)

end
