(* ===== verification/Holds.thy ===== *)
theory Holds
  imports Control Locks
begin

text \<open>
  The control service statement by statement: several requests at once, each step one SQL
  statement of one of them, in the database PostgreSQL documents for READ COMMITTED. A statement
  sees what is committed and its own transaction's writes; \<open>pg_advisory_xact_lock\<close> waits until
  no other transaction holds the same number and lasts to the transaction's end; an \<open>UPDATE\<close> finds its rows
  when it starts, visits them one after the other, waits for a row that an open transaction has
  written, and tests its condition again when that one has ended; an \<open>INSERT\<close> waits for an open
  transaction that has inserted the same key. In theory Control each request is one step.

  The order in which an \<open>UPDATE\<close> visits its rows is a parameter.

  The theorems: the advisory lock is enough for the ceiling, whatever overlaps, up to commits
  that bring back a hold; none does when no hold has a deadline and each is settled by one request;
  expiry takes only holds that are still held; and the requests cannot block each other for ever if all scans
  visit rows in one common order, which PostgreSQL does not promise. Two lemmas show what the
  conditions exclude: scans in opposite orders that wait for each other, and a commit that brings
  a hold back although no deadline has lapsed. A release or a commit whose statements run alone is
  the handler of theory Control.
\<close>

section \<open>Transactions\<close>

text \<open>
  Where a reservation is: before the lock; with the lock; inside the \<open>UPDATE\<close> of \<open>expire_due\<close>, with the
  reading of the clock, the rows still to visit and the rows it has expired, which stay with
  it to the end; after it; after the search for the key; with the sum found to fit; at the
  index with its row; with the row inserted; answered but not committed; over.
\<close>

datatype reserve_reply = Granted grant | Turned_Down "control_detail http_error" | Key_Collision

datatype reserve_pc =
    R_Start
  | R_Locked
  | R_Reaping datetime "int list" "int list"
  | R_Reaped "int list"
  | R_New "int list"
  | R_Fits "int list"
  | R_Insert "int list" reservation
  | R_Inserted "int list" reservation
  | R_Answer "int list" reserve_reply
  | R_Over reserve_reply

text \<open>A release or a commit: before its \<open>SELECT\<close>, before its \<open>UPDATE\<close>, with the row written, over.\<close>

datatype settlement = Free | Spend

datatype settle_pc = S_Start | S_Write | S_Written | S_Over "control_detail http_error + bool"

datatype hold_tx =
    Reserving string reserve_request reserve_pc
  | Settling settlement int settle_pc

record hold_store =
  hs_db :: control_db
  hs_txs :: "hold_tx list"

fun reaped_ids :: "reserve_pc \<Rightarrow> int list" where
  "reaped_ids (R_Reaping now todo ids) = ids"
| "reaped_ids (R_Reaped ids) = ids"
| "reaped_ids (R_New ids) = ids"
| "reaped_ids (R_Fits ids) = ids"
| "reaped_ids (R_Insert ids r) = ids"
| "reaped_ids (R_Inserted ids r) = ids"
| "reaped_ids (R_Answer ids a) = ids"
| "reaped_ids _ = []"

text \<open>What an open transaction makes others wait for: rows it has written, its case, its key.\<close>

fun row_locks :: "hold_tx \<Rightarrow> int list" where
  "row_locks (Reserving actor req pc) = reaped_ids pc"
| "row_locks (Settling kind k pc) = (if pc = S_Written then [k] else [])"

fun case_locks :: "(string \<Rightarrow> int) \<Rightarrow> hold_tx \<Rightarrow> int list" where
  "case_locks hash (Reserving actor req pc) =
     (case pc of R_Start \<Rightarrow> [] | R_Over a \<Rightarrow> [] | _ \<Rightarrow> [hash (rq_case req)])"
| "case_locks hash (Settling kind k pc) = []"

fun key_locks :: "hold_tx \<Rightarrow> string list" where
  "key_locks (Reserving actor req (R_Inserted ids r)) = [rv_key r]"
| "key_locks _ = []"

section \<open>Statements\<close>

definition expire_ids :: "int list \<Rightarrow> control_db \<Rightarrow> control_db" where
  "expire_ids ids db = db\<lparr>reservations :=
     update_where (\<lambda>r. rv_id r \<in> set ids) (\<lambda>r. r\<lparr>rv_state := EXPIRED\<rparr>) (reservations db)\<rparr>"

text \<open>One row of the \<open>UPDATE\<close> of \<open>expire_due\<close>.\<close>

definition reap_row ::
  "nat \<Rightarrow> datetime \<Rightarrow> int \<Rightarrow> int list \<Rightarrow> int list \<Rightarrow> hold_tx list \<Rightarrow> control_db \<Rightarrow> reserve_pc" where
  "reap_row i now k todo ids txs db =
     (if locked_by_other row_locks i k txs then R_Reaping now (k # todo) ids
      else if list_ex (\<lambda>r. rv_id r = k \<and> due now r) (reservations db) then R_Reaping now todo (ids @ [k])
      else R_Reaping now todo ids)"

definition find_key :: "reserve_request \<Rightarrow> int list \<Rightarrow> control_db \<Rightarrow> reserve_pc" where
  "find_key req ids db =
     (case row_where (\<lambda>r. rv_key r = rq_key req) (reservations (expire_ids ids db)) of
        Some r \<Rightarrow> R_Answer ids (Granted \<lparr>gr_id = rv_id r, gr_granted = True, gr_amount = rv_amount r,
          gr_replayed = True\<rparr>)
      | None \<Rightarrow> R_New ids)"

definition check_budget :: "reserve_request \<Rightarrow> int list \<Rightarrow> control_db \<Rightarrow> reserve_pc" where
  "check_budget req ids db =
     (let held = total_held (rq_case req) (expire_ids ids db) in
      if held + rq_amount req > rq_authorized req
      then R_Answer ids (Turned_Down (HTTPException 409 (Reservation_Refused held (rq_amount req) (rq_authorized req))))
      else R_Fits ids)"

text \<open>The deadline is computed, then the \<open>INSERT\<close> forms its row and checks it, then asks the index.\<close>

definition form_hold :: "datetime \<Rightarrow> string \<Rightarrow> reserve_request \<Rightarrow> int list \<Rightarrow> control_db \<Rightarrow> reserve_pc \<times> control_db" where
  "form_hold now actor req ids db =
     (case (case rq_ttl req of None \<Rightarrow> Some None | Some s \<Rightarrow> map_option Some (add_seconds now s)) of
        None \<Rightarrow> (R_Over (Turned_Down (HTTPException 500 Deadline_Overflow)), db)
      | Some expires_at \<Rightarrow>
        (case numeric_12_2 (rq_amount req) of
           None \<Rightarrow> (R_Over (Turned_Down (HTTPException 500 Amount_Overflow)), db)
         | Some a \<Rightarrow>
           let i = reservation_seq db + 1; db = db\<lparr>reservation_seq := i\<rparr> in
           if \<not> 0 < a then (R_Over (Turned_Down (HTTPException 500 Amount_Check)), db)
           else (R_Insert ids \<lparr>rv_id = i, rv_case = rq_case req, rv_actor = actor, rv_key = rq_key req,
             rv_amount = a, rv_state = HELD, rv_expires_at = expires_at\<rparr>, db)))"

definition ask_index :: "nat \<Rightarrow> int list \<Rightarrow> reservation \<Rightarrow> hold_tx list \<Rightarrow> control_db \<Rightarrow> reserve_pc" where
  "ask_index i ids r txs db =
     (if list_ex (\<lambda>r'. rv_key r' = rv_key r) (reservations db) then R_Over Key_Collision
      else if locked_by_other key_locks i (rv_key r) txs then R_Insert ids r
      else R_Inserted ids r)"

text \<open>
  The order in which an \<open>UPDATE\<close> visits its rows is the database's choice: \<open>scan i ks\<close> is the
  order in which the one of transaction \<open>i\<close> visits the rows \<open>ks\<close>.
\<close>

type_synonym row_order = "nat \<Rightarrow> int list \<Rightarrow> int list"

fun reserve_next ::
  "row_order \<Rightarrow> (string \<Rightarrow> int) \<Rightarrow> nat \<Rightarrow> string \<Rightarrow> reserve_request \<Rightarrow> reserve_pc \<Rightarrow> hold_tx list \<Rightarrow> datetime \<Rightarrow> control_db \<Rightarrow>
     reserve_pc \<times> control_db" where
  "reserve_next scan hash i actor req R_Start txs now db =
     (if locked_by_other (case_locks hash) i (hash (rq_case req)) txs then R_Start else R_Locked, db)"
| "reserve_next scan hash i actor req R_Locked txs now db =
     (R_Reaping now (scan i (map rv_id (filter (due now) (reservations db)))) [], db)"
| "reserve_next scan hash i actor req (R_Reaping at_time [] ids) txs now db = (R_Reaped ids, db)"
| "reserve_next scan hash i actor req (R_Reaping at_time (k # todo) ids) txs now db =
     (reap_row i at_time k todo ids txs db, db)"
| "reserve_next scan hash i actor req (R_Reaped ids) txs now db = (find_key req ids db, db)"
| "reserve_next scan hash i actor req (R_New ids) txs now db = (check_budget req ids db, db)"
| "reserve_next scan hash i actor req (R_Fits ids) txs now db = form_hold now actor req ids db"
| "reserve_next scan hash i actor req (R_Insert ids r) txs now db = (ask_index i ids r txs db, db)"
| "reserve_next scan hash i actor req (R_Inserted ids r) txs now db =
     (R_Over (Granted \<lparr>gr_id = rv_id r, gr_granted = True, gr_amount = rq_amount req, gr_replayed = False\<rparr>),
      (expire_ids ids db)\<lparr>reservations := reservations (expire_ids ids db) @ [r]\<rparr>)"
| "reserve_next scan hash i actor req (R_Answer ids a) txs now db = (R_Over a, expire_ids ids db)"
| "reserve_next scan hash i actor req (R_Over a) txs now db = (R_Over a, db)"

definition settle_decision :: "settlement \<Rightarrow> hold_state option \<Rightarrow> (control_detail http_error + bool) \<times> bool" where
  "settle_decision kind row =
     (case kind of Free \<Rightarrow> release_decision row
      | Spend \<Rightarrow> (case commit_decision row of (reply, update) \<Rightarrow> (map_sum id (\<lambda>_. False) reply, update)))"

fun settled_state :: "settlement \<Rightarrow> hold_state" where
  "settled_state Free = RELEASED"
| "settled_state Spend = HOLD_COMMITTED"

fun settle_next ::
  "nat \<Rightarrow> settlement \<Rightarrow> int \<Rightarrow> settle_pc \<Rightarrow> hold_tx list \<Rightarrow> control_db \<Rightarrow> settle_pc \<times> control_db" where
  "settle_next i kind k S_Start txs db =
     (case settle_decision kind (state_of k db) of (reply, update) \<Rightarrow>
        (if update then S_Write else S_Over reply, db))"
| "settle_next i kind k S_Write txs db =
     (if locked_by_other row_locks i k txs then S_Write else S_Written, db)"
| "settle_next i kind k S_Written txs db = (S_Over (Inr False), set_state k (settled_state kind) db)"
| "settle_next i kind k (S_Over a) txs db = (S_Over a, db)"

fun hold_next ::
  "row_order \<Rightarrow> (string \<Rightarrow> int) \<Rightarrow> nat \<Rightarrow> hold_tx \<Rightarrow> hold_tx list \<Rightarrow> datetime \<Rightarrow> control_db \<Rightarrow> hold_tx \<times> control_db" where
  "hold_next scan hash i (Reserving actor req pc) txs now db =
     (case reserve_next scan hash i actor req pc txs now db of (pc', db') \<Rightarrow> (Reserving actor req pc', db'))"
| "hold_next scan hash i (Settling kind k pc) txs now db =
     (case settle_next i kind k pc txs db of (pc', db') \<Rightarrow> (Settling kind k pc', db'))"

text \<open>A step: which transaction, and what the clock shows it.\<close>

definition hold_step :: "row_order \<Rightarrow> (string \<Rightarrow> int) \<Rightarrow> nat \<times> datetime \<Rightarrow> hold_store \<Rightarrow> hold_store" where
  "hold_step scan hash x s =
     (if fst x < length (hs_txs s)
      then (case hold_next scan hash (fst x) (hs_txs s ! fst x) (hs_txs s) (snd x) (hs_db s) of
        (t, db) \<Rightarrow> \<lparr>hs_db = db, hs_txs = (hs_txs s)[fst x := t]\<rparr>)
      else s)"

definition hold_run :: "row_order \<Rightarrow> (string \<Rightarrow> int) \<Rightarrow> (nat \<times> datetime) list \<Rightarrow> hold_store \<Rightarrow> hold_store" where
  "hold_run scan hash xs s = fold (hold_step scan hash) xs s"

definition not_started :: "hold_tx \<Rightarrow> bool" where
  "not_started t = (case t of Reserving actor req pc \<Rightarrow> pc = R_Start | Settling kind k pc \<Rightarrow> pc = S_Start)"

definition is_over :: "hold_tx \<Rightarrow> bool" where
  "is_over t = (case t of Reserving actor req pc \<Rightarrow> (case pc of R_Over a \<Rightarrow> True | _ \<Rightarrow> False)
     | Settling kind k pc \<Rightarrow> (case pc of S_Over a \<Rightarrow> True | _ \<Rightarrow> False))"

text \<open>
  A release or a commit whose three statements run with nothing in between is the handler of
  theory Control.
\<close>

lemma settled_alone:
  assumes "i < length txs" "txs ! i = Settling kind k S_Start" "\<not> locked_by_other row_locks i k txs"
    and s: "s = hold_run scan hash [(i, t1), (i, t2), (i, t3)] \<lparr>hs_db = db, hs_txs = txs\<rparr>"
  shows "hs_db s = (case kind of Free \<Rightarrow> snd (release k db) | Spend \<Rightarrow> snd (commit k db))"
    and "hs_txs s ! i = Settling kind k (S_Over (case kind of Free \<Rightarrow> fst (release k db)
      | Spend \<Rightarrow> map_sum id (\<lambda>_. False) (fst (commit k db))))"
proof -
  have free: "\<not> locked_by_other row_locks i k (txs[i := t])" for t
    using assms(3) by (auto simp: locked_by_other_def list_ex_iff nth_list_update)
  obtain reply update where d: "settle_decision kind (state_of k db) = (reply, update)" by (rule prod.exhaust)
  have "hs_db s = (if update then set_state k (settled_state kind) db else db) \<and>
      hs_txs s ! i = Settling kind k (S_Over (if update then Inr False else reply))"
    unfolding s using assms(1,2) d free [of "Settling kind k S_Write"]
    by (cases update) (simp_all add: hold_run_def hold_step_def)
  moreover have "update \<Longrightarrow> reply = Inr False"
    using d by (cases kind) (auto simp: settle_decision_def release_decision_def commit_decision_def
        split: option.splits if_splits prod.splits)
  ultimately have R: "hs_db s = (if update then set_state k (settled_state kind) db else db)"
    "hs_txs s ! i = Settling kind k (S_Over reply)" by auto
  show "hs_db s = (case kind of Free \<Rightarrow> snd (release k db) | Spend \<Rightarrow> snd (commit k db))"
    using R(1) d by (cases kind) (auto simp: settle_decision_def release_def commit_def split: prod.splits)
  show "hs_txs s ! i = Settling kind k (S_Over (case kind of Free \<Rightarrow> fst (release k db)
      | Spend \<Rightarrow> map_sum id (\<lambda>_. False) (fst (commit k db))))"
    using R(2) d by (cases kind) (auto simp: settle_decision_def release_def commit_def split: prod.splits)
qed

section \<open>What a commit brings back\<close>

text \<open>
  The amount of the holds of a case that a step turns from released or expired into committed:
  only the end of a commit does so.
\<close>

definition back_by :: "string \<Rightarrow> nat \<times> datetime \<Rightarrow> hold_store \<Rightarrow> decimal" where
  "back_by cid x s =
     (if fst x < length (hs_txs s)
      then (case hs_txs s ! fst x of
          Settling Spend k S_Written \<Rightarrow>
            sum_where (\<lambda>r. rv_id r = k \<and> rv_case r = cid \<and> (rv_state r = RELEASED \<or> rv_state r = EXPIRED)) rv_amount
              (reservations (hs_db s))
        | _ \<Rightarrow> 0)
      else 0)"

fun brought_back :: "row_order \<Rightarrow> (string \<Rightarrow> int) \<Rightarrow> string \<Rightarrow> (nat \<times> datetime) list \<Rightarrow> hold_store \<Rightarrow> decimal" where
  "brought_back scan hash cid [] s = 0"
| "brought_back scan hash cid (x # xs) s = back_by cid x s + brought_back scan hash cid xs (hold_step scan hash x s)"

section \<open>The sum a reservation has read\<close>

definition funds_ok :: "control_db \<Rightarrow> bool" where
  "funds_ok db \<longleftrightarrow> (\<forall>r\<in>set (reservations db). 0 < rv_amount r \<and> in_cents (rv_amount r))"

definition held_under :: "int list \<Rightarrow> string \<Rightarrow> control_db \<Rightarrow> decimal" where
  "held_under ids cid db = sum_where (\<lambda>r. live cid r \<and> rv_id r \<notin> set ids) rv_amount (reservations db)"

lemma total_held_under: "total_held cid (expire_ids ids db) = held_under ids cid db"
  unfolding total_held_live held_under_def expire_ids_def
  by (simp add: sum_where_update) (rule sum_where_cong; auto simp: live_def)

lemma total_held_is_under: "total_held cid db = held_under [] cid db"
  by (simp add: held_under_def total_held_live)

lemma held_under_cents: "funds_ok db \<Longrightarrow> in_cents (held_under ids cid db)"
  unfolding held_under_def funds_ok_def by (intro sum_where_cents) auto

text \<open>How each way a transaction commits moves that sum.\<close>

lemma held_under_expire:
  assumes "funds_ok db"
  shows "held_under ids cid (expire_ids ids' db) \<le> held_under ids cid db"
proof -
  have "held_under ids cid (expire_ids ids' db)
      = sum_where (\<lambda>r. live cid r \<and> rv_id r \<notin> set ids \<and> rv_id r \<notin> set ids') rv_amount (reservations db)"
    unfolding held_under_def expire_ids_def
    by (simp add: sum_where_update) (rule sum_where_cong; auto simp: live_def)
  also have "\<dots> \<le> held_under ids cid db"
    using assms unfolding held_under_def funds_ok_def by (intro sum_where_mono) (auto simp: less_imp_le)
  finally show ?thesis .
qed

lemma held_under_append:
  "held_under ids cid (db\<lparr>reservations := reservations db @ [r]\<rparr>) =
     held_under ids cid db + (if live cid r \<and> rv_id r \<notin> set ids then rv_amount r else 0)"
  by (simp add: held_under_def)

lemma held_under_seq [simp]: "held_under ids cid (db\<lparr>reservation_seq := n\<rparr>) = held_under ids cid db"
  by (simp add: held_under_def)

lemma held_under_release:
  assumes "funds_ok db"
  shows "held_under ids cid (set_state k RELEASED db) \<le> held_under ids cid db"
proof -
  have "held_under ids cid (set_state k RELEASED db)
      = sum_where (\<lambda>r. live cid r \<and> rv_id r \<notin> set ids \<and> rv_id r \<noteq> k) rv_amount (reservations db)"
    unfolding held_under_def set_state_def
    by (simp add: sum_where_update) (rule sum_where_cong; auto simp: live_def)
  also have "\<dots> \<le> held_under ids cid db"
    using assms unfolding held_under_def funds_ok_def by (intro sum_where_mono) (auto simp: less_imp_le)
  finally show ?thesis .
qed

lemma held_under_spend:
  assumes "k \<notin> set ids"
  shows "held_under ids cid (set_state k HOLD_COMMITTED db) = held_under ids cid db
    + sum_where (\<lambda>r. rv_id r = k \<and> rv_case r = cid \<and> (rv_state r = RELEASED \<or> rv_state r = EXPIRED)) rv_amount
        (reservations db)"
proof -
  have "held_under ids cid (set_state k HOLD_COMMITTED db) =
      sum_where (\<lambda>r. if rv_id r = k then rv_case r = cid else live cid r \<and> rv_id r \<notin> set ids) rv_amount (reservations db)"
    unfolding held_under_def set_state_def using assms
    by (simp add: sum_where_update) (rule sum_where_cong; auto simp: live_def)
  also have "\<dots> = held_under ids cid db
    + sum_where (\<lambda>r. rv_id r = k \<and> rv_case r = cid \<and> (rv_state r = RELEASED \<or> rv_state r = EXPIRED)) rv_amount
        (reservations db)"
    unfolding held_under_def using assms
    by (intro sum_where_split) (auto simp: live_def, metis hold_state.exhaust)
  finally show ?thesis .
qed

lemma funds_ok_update [intro]:
  "funds_ok db \<Longrightarrow> funds_ok (expire_ids ids db)"
  "funds_ok db \<Longrightarrow> funds_ok (set_state k st db)"
  "funds_ok db \<Longrightarrow> funds_ok (db\<lparr>reservation_seq := n\<rparr>)"
  "funds_ok db \<Longrightarrow> 0 < rv_amount r \<Longrightarrow> in_cents (rv_amount r) \<Longrightarrow>
     funds_ok (db\<lparr>reservations := reservations db @ [r]\<rparr>)"
  by (auto simp: funds_ok_def expire_ids_def set_state_def set_update_where)

lemma back_by_nonneg: "funds_ok (hs_db s) \<Longrightarrow> 0 \<le> back_by cid x s"
  unfolding back_by_def funds_ok_def
  by (auto intro!: sum_where_nonneg simp: less_imp_le split: hold_tx.split settlement.split settle_pc.split)

lemma back_by_cents: "funds_ok (hs_db s) \<Longrightarrow> in_cents (back_by cid x s)"
  unfolding back_by_def funds_ok_def
  by (auto intro!: sum_where_cents split: hold_tx.split settlement.split settle_pc.split)

section \<open>The invariant\<close>

text \<open>What an open reservation of the case relies on, with \<open>C\<close> above its ceiling.\<close>

fun relies_on :: "string \<Rightarrow> decimal \<Rightarrow> reserve_request \<Rightarrow> reserve_pc \<Rightarrow> control_db \<Rightarrow> bool" where
  "relies_on cid C req (R_Fits ids) db \<longleftrightarrow> (rq_case req = cid \<longrightarrow> held_under ids cid db + rq_amount req \<le> C)"
| "relies_on cid C req (R_Insert ids r) db \<longleftrightarrow>
     rv_case r = rq_case req \<and> 0 < rv_amount r \<and> in_cents (rv_amount r) \<and>
     (rq_case req = cid \<longrightarrow> held_under ids cid db + rv_amount r \<le> C)"
| "relies_on cid C req (R_Inserted ids r) db \<longleftrightarrow>
     rv_case r = rq_case req \<and> 0 < rv_amount r \<and> in_cents (rv_amount r) \<and>
     (rq_case req = cid \<longrightarrow> held_under ids cid db + rv_amount r \<le> C)"
| "relies_on cid C req _ db \<longleftrightarrow> True"

fun hold_ok :: "string \<Rightarrow> decimal \<Rightarrow> control_db \<Rightarrow> hold_tx \<Rightarrow> bool" where
  "hold_ok cid C db (Reserving actor req pc) \<longleftrightarrow>
     (rq_case req = cid \<longrightarrow> rq_authorized req \<le> C) \<and> relies_on cid C req pc db"
| "hold_ok cid C db (Settling kind k pc) \<longleftrightarrow> True"

definition holds_ok :: "(string \<Rightarrow> int) \<Rightarrow> string \<Rightarrow> decimal \<Rightarrow> hold_store \<Rightarrow> bool" where
  "holds_ok hash cid C s \<longleftrightarrow> funds_ok (hs_db s) \<and> in_cents C \<and> total_held cid (hs_db s) \<le> C \<and>
     apart row_locks (hs_txs s) \<and> apart (case_locks hash) (hs_txs s) \<and> list_all (hold_ok cid C (hs_db s)) (hs_txs s)"

lemma relies_on_mono:
  assumes "relies_on cid C req pc db" "C \<le> C'"
    and "rq_case req = cid \<Longrightarrow> pc \<noteq> R_Start \<Longrightarrow> (\<And>a. pc \<noteq> R_Over a) \<Longrightarrow>
      held_under (reaped_ids pc) cid db' \<le> held_under (reaped_ids pc) cid db + (C' - C)"
  shows "relies_on cid C' req pc db'"
  using assms by (cases pc) force+

lemma reserve_locks:
  assumes "reserve_next scan hash i actor req pc txs now db = (pc', db')"
  shows "k \<in> set (reaped_ids pc') \<Longrightarrow> k \<in> set (reaped_ids pc) \<or> \<not> locked_by_other row_locks i k txs"
    and "v \<in> set (case_locks hash (Reserving actor req pc')) \<Longrightarrow>
      v \<in> set (case_locks hash (Reserving actor req pc)) \<or> \<not> locked_by_other (case_locks hash) i v txs"
  using assms
  by (cases "(scan, hash, i, actor, req, pc, txs, now, db)" rule: reserve_next.cases;
      force simp: reap_row_def find_key_def check_budget_def form_hold_def ask_index_def Let_def
        split: if_splits option.splits)+

text \<open>A step seen from the other open reservations: what they have read grows by what comes back.\<close>

lemma held_under_step:
  assumes ok: "holds_ok hash cid C s" and i: "i < length (hs_txs s)"
    and n: "hold_next scan hash i (hs_txs s ! i) (hs_txs s) now (hs_db s) = (t, db)"
    and free: "\<And>k. k \<in> set (row_locks (hs_txs s ! i)) \<Longrightarrow> k \<notin> set ids"
    and other: "\<And>actor req ids r. hs_txs s ! i = Reserving actor req (R_Inserted ids r) \<Longrightarrow> rq_case req \<noteq> cid"
  shows "held_under ids cid db \<le> held_under ids cid (hs_db s) + back_by cid (i, now) s"
proof -
  have funds: "funds_ok (hs_db s)" using ok by (simp add: holds_ok_def)
  have tx: "hold_ok cid C (hs_db s) (hs_txs s ! i)" using ok i by (simp add: holds_ok_def list_all_length)
  show ?thesis
  proof (cases "hs_txs s ! i")
    case (Reserving actor req pc)
    have none: "back_by cid (i, now) s = 0" using i Reserving by (simp add: back_by_def)
    obtain pc' where "reserve_next scan hash i actor req pc (hs_txs s) now (hs_db s) = (pc', db)"
      using n Reserving by (auto split: prod.splits)
    then show ?thesis unfolding none using held_under_expire [OF funds] other tx Reserving
      by (cases "(scan, hash, i, actor, req, pc, hs_txs s, now, hs_db s)" rule: reserve_next.cases)
        (auto simp: form_hold_def Let_def held_under_append live_def split: if_splits option.splits)
  next
    case (Settling kind k pc)
    show ?thesis
    proof (cases pc)
      case S_Written
      then have "k \<notin> set ids" using free Settling by simp
      with S_Written Settling n i held_under_release [OF funds] held_under_spend [of k ids cid "hs_db s"]
      show ?thesis by (cases kind) (auto simp: back_by_def)
    qed (use n Settling back_by_nonneg [OF funds, of cid "(i, now)"] in
        \<open>auto split: prod.splits settlement.splits if_splits\<close>)
  qed
qed

lemma reserve_own:
  assumes ok: "hold_ok cid C db (Reserving actor req pc)" and C: "in_cents C" "total_held cid db \<le> C" "funds_ok db"
    and n: "reserve_next scan hash i actor req pc txs now db = (pc', db')"
  shows "hold_ok cid C db' (Reserving actor req pc') \<and> total_held cid db' \<le> C \<and> funds_ok db'"
proof -
  have closed: "held_under ids cid db \<le> C" for ids
  proof -
    have "held_under ids cid db \<le> total_held cid db"
      using C(3) unfolding total_held_live held_under_def funds_ok_def by (intro sum_where_mono) (auto simp: less_imp_le)
    then show ?thesis using C(2) by simp
  qed
  have fits: "held_under ids cid db + a \<le> C"
    if "held_under ids cid db + x \<le> C" "numeric_12_2 x = Some a" for ids x a
  proof -
    have "a \<le> C - held_under ids cid db"
      using that(1) by (intro numeric_12_2_le [OF that(2)] in_cents_diff C held_under_cents) simp_all
    then show ?thesis by simp
  qed
  show ?thesis
  proof (cases pc)
    case (R_Fits ids)
    then have form: "form_hold now actor req ids db = (pc', db')" using n by simp
    then obtain m where db': "db' = db \<or> db' = db\<lparr>reservation_seq := m\<rparr>"
      by (auto simp: form_hold_def Let_def split: if_splits option.splits)
    then have same: "held_under js cid db' = held_under js cid db" for js by auto
    have "funds_ok db'" using C(3) db' by auto
    moreover have "relies_on cid C req pc' db'"
    proof (cases pc')
      case (R_Insert js r)
      then have r: "js = ids" "rv_case r = rq_case req" "0 < rv_amount r" "numeric_12_2 (rq_amount req) = Some (rv_amount r)"
        using form by (auto simp: form_hold_def Let_def split: if_splits option.splits)
      have "held_under ids cid db + rv_amount r \<le> C" if "rq_case req = cid"
        using ok R_Fits that by (intro fits [OF _ r(4)]) simp
      then show ?thesis using r(1-3) numeric_12_2_cents [OF r(4)] R_Insert same by simp
    qed (use form in \<open>auto simp: form_hold_def Let_def split: if_splits option.splits\<close>)
    moreover have "rq_case req = cid \<longrightarrow> rq_authorized req \<le> C" using ok by simp
    ultimately show ?thesis using C(2) same unfolding total_held_is_under by simp
  next
    case (R_Inserted ids r)
    have "db' = (expire_ids ids db)\<lparr>reservations := reservations (expire_ids ids db) @ [r]\<rparr>"
      using n R_Inserted by simp
    moreover have "total_held cid (expire_ids ids db) \<le> C" using closed by (simp add: total_held_under)
    moreover have "rq_case req = cid \<Longrightarrow> total_held cid (expire_ids ids db) + rv_amount r \<le> C"
      using ok R_Inserted by (simp add: total_held_under)
    ultimately show ?thesis using ok n C R_Inserted
      by (auto simp: total_held_is_under held_under_append live_def)
  next
    case (R_Answer ids a)
    then show ?thesis using ok n C closed by (auto simp: total_held_under)
  next
    case (R_Reaping at_time todo ids)
    then show ?thesis using ok n C by (cases todo) (auto simp: reap_row_def)
  qed (use ok n C in \<open>auto simp: find_key_def check_budget_def ask_index_def total_held_under Let_def
      split: if_splits option.splits\<close>)
qed

lemma hold_ok_mono: "hold_ok cid C db t \<Longrightarrow> C \<le> C' \<Longrightarrow> hold_ok cid C' db t"
  by (cases t) (auto intro: relies_on_mono)

lemma hold_step_ok:
  assumes ok: "holds_ok hash cid C s"
  shows "holds_ok hash cid (C + back_by cid (i, now) s) (hold_step scan hash (i, now) s)"
proof (cases "i < length (hs_txs s)")
  case True
  let ?b = "back_by cid (i, now) s"
  obtain t db where n: "hold_next scan hash i (hs_txs s ! i) (hs_txs s) now (hs_db s) = (t, db)" by fastforce
  have s': "hold_step scan hash (i, now) s = \<lparr>hs_db = db, hs_txs = (hs_txs s)[i := t]\<rparr>"
    using True n by (simp add: hold_step_def)
  have funds: "funds_ok (hs_db s)" and C: "in_cents C" "total_held cid (hs_db s) \<le> C"
    and rows: "apart row_locks (hs_txs s)" and cases_apart: "apart (case_locks hash) (hs_txs s)"
    and txs: "\<And>j. j < length (hs_txs s) \<Longrightarrow> hold_ok cid C (hs_db s) (hs_txs s ! j)"
    using ok by (simp_all add: holds_ok_def list_all_length)
  note b = back_by_nonneg [OF funds, of cid "(i, now)"] back_by_cents [OF funds, of cid "(i, now)"]
  have own: "hold_ok cid (C + ?b) db t \<and> total_held cid db \<le> C + ?b \<and> funds_ok db"
  proof (cases "hs_txs s ! i")
    case (Reserving actor req pc)
    obtain pc' where pc': "reserve_next scan hash i actor req pc (hs_txs s) now (hs_db s) = (pc', db)"
        "t = Reserving actor req pc'"
      using n Reserving by (auto split: prod.splits)
    have "hold_ok cid C (hs_db s) (Reserving actor req pc)" using txs [OF True] Reserving by simp
    from reserve_own [OF this C funds pc'(1)] show ?thesis
      using b(1) pc'(2) hold_ok_mono [of cid C db t "C + ?b"] by simp
  next
    case (Settling kind k pc)
    have "held_under [] cid db \<le> held_under [] cid (hs_db s) + ?b"
      by (rule held_under_step [OF ok True n]) (simp_all add: Settling)
    moreover have "funds_ok db" using n Settling funds by (cases pc) (auto split: prod.splits)
    moreover obtain pc' where "t = Settling kind k pc'" using n Settling by (auto split: prod.splits)
    ultimately show ?thesis using C(2) by (simp add: total_held_is_under)
  qed
  have others: "hold_ok cid (C + ?b) db (hs_txs s ! j)" if j: "j < length (hs_txs s)" "j \<noteq> i" for j
  proof (cases "hs_txs s ! j")
    case (Reserving actor req pc)
    have "relies_on cid (C + ?b) req pc db"
    proof (rule relies_on_mono)
      show "relies_on cid C req pc (hs_db s)" using txs [OF j(1)] Reserving by simp
      assume here: "rq_case req = cid" "pc \<noteq> R_Start" "\<And>a. pc \<noteq> R_Over a"
      have "held_under (reaped_ids pc) cid db \<le> held_under (reaped_ids pc) cid (hs_db s) + ?b"
      proof (rule held_under_step [OF ok True n])
        fix k assume "k \<in> set (row_locks (hs_txs s ! i))"
        then show "k \<notin> set (reaped_ids pc)" using rows j True Reserving unfolding apart_def by fastforce
      next
        fix actor' req' ids r assume i: "hs_txs s ! i = Reserving actor' req' (R_Inserted ids r)"
        have "hash cid \<in> set (case_locks hash (hs_txs s ! j))" using here Reserving by (cases pc) auto
        moreover have "hash (rq_case req') \<in> set (case_locks hash (hs_txs s ! i))" using i by simp
        ultimately show "rq_case req' \<noteq> cid" using cases_apart j True unfolding apart_def by (metis disjoint_iff)
      qed
      then show "held_under (reaped_ids pc) cid db \<le> held_under (reaped_ids pc) cid (hs_db s) + (C + ?b - C)" by simp
    qed (use b in simp)
    then show ?thesis using txs [OF j(1)] Reserving b by auto
  qed simp
  have "apart row_locks ((hs_txs s)[i := t])"
    using n by (intro apart_update [OF rows], cases "hs_txs s ! i")
      (auto split: prod.splits if_splits dest: reserve_locks(1) elim!: settle_next.elims)
  moreover have "apart (case_locks hash) ((hs_txs s)[i := t])"
    using n by (intro apart_update [OF cases_apart], cases "hs_txs s ! i")
      (auto split: prod.splits dest: reserve_locks(2) simp del: case_locks.simps(1))
  moreover have "list_all (hold_ok cid (C + ?b) db) ((hs_txs s)[i := t])"
    using own others True by (auto simp: list_all_length nth_list_update)
  ultimately show ?thesis using own in_cents_add [OF C(1) b(2)] by (simp add: s' holds_ok_def)
qed (use ok in \<open>simp add: hold_step_def back_by_def\<close>)

lemma hold_run_ok:
  "holds_ok hash cid C s \<Longrightarrow> holds_ok hash cid (C + brought_back scan hash cid xs s) (hold_run scan hash xs s)"
proof (induction xs arbitrary: s C)
  case (Cons x xs)
  have "holds_ok hash cid (C + back_by cid x s) (hold_step scan hash x s)"
    using hold_step_ok [OF Cons.prems, of "fst x" "snd x"] by simp
  from Cons.IH [OF this] show ?case by (simp add: hold_run_def add.assoc)
qed (simp add: hold_run_def)

definition asks_within :: "string \<Rightarrow> decimal \<Rightarrow> hold_tx \<Rightarrow> bool" where
  "asks_within cid C t \<longleftrightarrow> not_started t \<and> (case t of
     Reserving actor req pc \<Rightarrow> rq_case req = cid \<longrightarrow> rq_authorized req \<le> C | _ \<Rightarrow> True)"

lemma fresh_holds_ok:
  assumes "control_inv db" "in_cents C" "total_held cid db \<le> C" "list_all (asks_within cid C) txs"
  shows "holds_ok hash cid C \<lparr>hs_db = db, hs_txs = txs\<rparr>"
proof -
  have "row_locks t = [] \<and> case_locks hash t = [] \<and> hold_ok cid C db t" if "asks_within cid C t" for t
    using that by (auto simp: asks_within_def not_started_def split: hold_tx.splits)
  then have "list_all (\<lambda>t. row_locks t = [] \<and> case_locks hash t = [] \<and> hold_ok cid C db t) txs"
    using assms(4) by (simp add: list_all_iff)
  then show ?thesis
    using assms by (auto simp: holds_ok_def funds_ok_def control_inv_def apart_def list_all_length)
qed

text \<open>
  C16. The advisory lock is enough. Let reservations, releases and commits overlap statement by
  statement in any way, with any readings of the clock, from any database whose budget in use
  is at most \<open>C\<close>, and let the reservations of a case name a ceiling of at most \<open>C\<close>, a whole number
  of cents: at every moment the budget in use of the case exceeds \<open>C\<close> by at most the amounts of
  the holds that commits have brought back from released or expired. In particular two
  reservations that both see the room for one cannot both take it.
\<close>

theorem the_lock_keeps_the_ceiling:
  assumes "control_inv db" "in_cents C" "total_held cid db \<le> C" "list_all (asks_within cid C) txs"
    and s: "s = \<lparr>hs_db = db, hs_txs = txs\<rparr>"
  shows "list_reservations cid (hs_db (hold_run scan hash xs s)) \<le> C + brought_back scan hash cid xs s"
  using hold_run_ok [OF fresh_holds_ok [OF assms(1-4)], of hash scan xs] s
  by (simp add: holds_ok_def list_reservations_def)

section \<open>The numbers of the rows\<close>

fun new_ids :: "hold_tx \<Rightarrow> int list" where
  "new_ids (Reserving actor req (R_Insert ids r)) = [rv_id r]"
| "new_ids (Reserving actor req (R_Inserted ids r)) = [rv_id r]"
| "new_ids _ = []"

definition ids_ok :: "control_db \<Rightarrow> hold_tx \<Rightarrow> bool" where
  "ids_ok db t \<longleftrightarrow> (\<forall>k\<in>set (new_ids t). k \<le> reservation_seq db \<and> k \<notin> rv_id ` set (reservations db))"

definition numbered :: "hold_store \<Rightarrow> bool" where
  "numbered s \<longleftrightarrow> distinct (map rv_id (reservations (hs_db s))) \<and>
     (\<forall>r\<in>set (reservations (hs_db s)). rv_id r \<le> reservation_seq (hs_db s)) \<and>
     apart new_ids (hs_txs s) \<and> list_all (ids_ok (hs_db s)) (hs_txs s)"

text \<open>The table only grows, by a row that the transaction has in hand.\<close>

definition grown :: "control_db \<Rightarrow> int list \<Rightarrow> control_db \<Rightarrow> bool" where
  "grown db new db' \<longleftrightarrow> reservation_seq db \<le> reservation_seq db' \<and>
     map rv_id (reservations db') = map rv_id (reservations db) @ new"

lemma reserve_grows:
  assumes "reserve_next scan hash i actor req pc txs now db = (pc', db')"
  shows "\<exists>new. grown db new db' \<and>
      (new = [] \<and> set (new_ids (Reserving actor req pc')) \<subseteq> set (new_ids (Reserving actor req pc)) \<union>
          {k. k = reservation_seq db + 1 \<and> reservation_seq db' = reservation_seq db + 1} \<or>
       new = new_ids (Reserving actor req pc) \<and> new_ids (Reserving actor req pc') = [])"
  using assms
  by (cases "(scan, hash, i, actor, req, pc, txs, now, db)" rule: reserve_next.cases)
    (auto simp: grown_def reap_row_def find_key_def check_budget_def form_hold_def ask_index_def expire_ids_def Let_def
      split: if_splits option.splits)

lemma hold_next_grows:
  assumes "hold_next scan hash i t txs now db = (t', db')"
  shows "\<exists>new. grown db new db' \<and>
      (new = [] \<and> set (new_ids t') \<subseteq> set (new_ids t) \<union>
          {k. k = reservation_seq db + 1 \<and> reservation_seq db' = reservation_seq db + 1} \<or>
       new = new_ids t \<and> new_ids t' = [])"
proof (cases t)
  case (Reserving actor req pc)
  obtain pc' where r: "reserve_next scan hash i actor req pc txs now db = (pc', db')" "t' = Reserving actor req pc'"
    using assms(1) Reserving by (auto split: prod.splits)
  show ?thesis using reserve_grows [OF r(1)] Reserving r(2) by blast
next
  case (Settling kind k pc)
  then have "grown db [] db'" "new_ids t' = []"
    using assms(1) by (cases pc; auto simp: grown_def set_state_def split: prod.splits)+
  then show ?thesis by auto
qed

lemma hold_step_numbered:
  assumes ok: "numbered s"
  shows "numbered (hold_step scan hash (i, now) s)"
proof (cases "i < length (hs_txs s)")
  case True
  let ?db = "hs_db s" and ?txs = "hs_txs s"
  obtain t db where n: "hold_next scan hash i (?txs ! i) ?txs now ?db = (t, db)" by fastforce
  have s': "hold_step scan hash (i, now) s = \<lparr>hs_db = db, hs_txs = ?txs[i := t]\<rparr>"
    using True n by (simp add: hold_step_def)
  have dist: "distinct (map rv_id (reservations ?db))" and seq: "\<And>k. k \<in> rv_id ` set (reservations ?db) \<Longrightarrow> k \<le> reservation_seq ?db"
    and ap: "apart new_ids ?txs"
    and txs: "\<And>j. j < length ?txs \<Longrightarrow> ids_ok ?db (?txs ! j)"
    using ok by (auto simp: numbered_def list_all_length)
  have single: "distinct (new_ids t)" for t by (cases t rule: new_ids.cases) simp_all
  have mine: "k \<le> reservation_seq ?db \<and> k \<notin> rv_id ` set (reservations ?db)" if "k \<in> set (new_ids (?txs ! j))" "j < length ?txs" for j k
    using txs [OF that(2)] that(1) by (auto simp: ids_ok_def)
  obtain new where g: "grown ?db new db" and
    new: "new = [] \<and> set (new_ids t) \<subseteq> set (new_ids (?txs ! i)) \<union>
          {k. k = reservation_seq ?db + 1 \<and> reservation_seq db = reservation_seq ?db + 1} \<or>
       new = new_ids (?txs ! i) \<and> new_ids t = []"
    using hold_next_grows [OF n] by blast
  have rows: "map rv_id (reservations db) = map rv_id (reservations ?db) @ new" and up: "reservation_seq ?db \<le> reservation_seq db"
    using g by (simp_all add: grown_def)
  have sub: "set new \<subseteq> set (new_ids (?txs ! i))" using new by auto
  have ids: "rv_id ` set (reservations db) = rv_id ` set (reservations ?db) \<union> set new"
    using arg_cong [OF rows, of set] by simp
  have "distinct new" using new single by auto
  then have 1: "distinct (map rv_id (reservations db))"
    using dist mine [OF _ True] sub unfolding rows by auto
  have 2: "k \<le> reservation_seq db" if "k \<in> rv_id ` set (reservations db)" for k
    using that seq mine [OF _ True] sub up unfolding ids by force
  have 3: "apart new_ids (?txs[i := t])"
  proof (rule apart_update [OF ap])
    fix v assume "v \<in> set (new_ids t)"
    with new have "v \<in> set (new_ids (?txs ! i)) \<or> v = reservation_seq ?db + 1" by auto
    then show "v \<in> set (new_ids (?txs ! i)) \<or> \<not> locked_by_other new_ids i v ?txs"
      using mine by (fastforce simp: locked_by_other_def list_ex_iff)
  qed
  have 4: "ids_ok db t"
    unfolding ids_ok_def ids using new mine [OF _ True] seq up by fastforce
  have 5: "ids_ok db (?txs ! j)" if "j < length ?txs" "j \<noteq> i" for j
  proof -
    have "k \<notin> set new" if "k \<in> set (new_ids (?txs ! j))" for k
      using that sub ap True \<open>j < length ?txs\<close> \<open>j \<noteq> i\<close> unfolding apart_def by blast
    then show ?thesis using mine [OF _ that(1)] up unfolding ids_ok_def ids by fastforce
  qed
  show ?thesis using 1 2 3 4 5 True by (auto simp: s' numbered_def list_all_length nth_list_update)
qed (use ok in \<open>simp add: hold_step_def\<close>)

lemma fresh_numbered:
  assumes "control_inv db" "list_all not_started txs"
  shows "numbered \<lparr>hs_db = db, hs_txs = txs\<rparr>"
proof -
  have "new_ids t = []" if "not_started t" for t
    using that by (auto simp: not_started_def split: hold_tx.splits)
  then have "list_all (\<lambda>t. new_ids t = []) txs" using assms(2) by (simp add: list_all_iff)
  then show ?thesis using assms(1)
    by (auto simp: numbered_def control_inv_def strict_sorted_iff apart_def list_all_length ids_ok_def)
qed

section \<open>What expiry takes\<close>

text \<open>The rows that a reservation has expired and not yet committed: they were held, with a deadline, and still are.\<close>

fun reaps_held :: "control_db \<Rightarrow> hold_tx \<Rightarrow> bool" where
  "reaps_held db (Reserving actor req pc) \<longleftrightarrow> (\<forall>k\<in>set (reaped_ids pc). k \<in> rv_id ` set (reservations db) \<and>
     (\<forall>r\<in>set (reservations db). rv_id r = k \<longrightarrow> rv_state r = HELD \<and> rv_expires_at r \<noteq> None))"
| "reaps_held db (Settling kind k pc) \<longleftrightarrow> True"

definition reaping_ok :: "hold_store \<Rightarrow> bool" where
  "reaping_ok s \<longleftrightarrow> numbered s \<and> apart row_locks (hs_txs s) \<and> list_all (reaps_held (hs_db s)) (hs_txs s)"

lemma hold_step_rows_apart:
  assumes "apart row_locks txs" "hold_next scan hash i (txs ! i) txs now db = (t, db')"
  shows "apart row_locks (txs[i := t])"
  using assms(2)
  by (intro apart_update [OF assms(1)], cases "txs ! i")
    (auto split: prod.splits if_splits dest: reserve_locks(1) elim!: settle_next.elims)

text \<open>What one statement does to the rows that are there: nothing, or the end of a transaction does its part.\<close>

lemma hold_next_rows:
  assumes "hold_next scan hash i t txs now db = (t', db')"
  obtains (same) new where "reservations db' = reservations db @ new" "set (map rv_id new) \<subseteq> set (new_ids t)"
  | (reaped) actor req pc new where "t = Reserving actor req pc"
      "reservations db' = reservations (expire_ids (reaped_ids pc) db) @ new" "set (map rv_id new) \<subseteq> set (new_ids t)"
  | (settled) kind k where "t = Settling kind k S_Written" "db' = set_state k (settled_state kind) db"
proof (cases t)
  case (Reserving actor req pc)
  obtain pc' where r: "reserve_next scan hash i actor req pc txs now db = (pc', db')" "t' = Reserving actor req pc'"
    using assms Reserving by (auto split: prod.splits)
  have "(\<exists>new. reservations db' = reservations db @ new \<and> set (map rv_id new) \<subseteq> set (new_ids t)) \<or>
      (\<exists>new. reservations db' = reservations (expire_ids (reaped_ids pc) db) @ new \<and> set (map rv_id new) \<subseteq> set (new_ids t))"
    using r(1) unfolding Reserving
    by (cases "(scan, hash, i, actor, req, pc, txs, now, db)" rule: reserve_next.cases)
      (auto simp: form_hold_def Let_def split: if_splits option.splits)
  then show ?thesis using same reaped Reserving by blast
next
  case (Settling kind k pc)
  show ?thesis
  proof (cases "pc = S_Written")
    case True
    then show ?thesis using assms Settling settled by auto
  next
    case False
    then have "db' = db" using assms Settling by (cases pc) (auto split: prod.splits)
    then show ?thesis using same [of "[]"] by simp
  qed
qed

lemma reaps_held_own:
  assumes "reserve_next scan hash i actor req pc txs now db = (pc', db')" "reaps_held db (Reserving actor req pc)"
    "distinct (map rv_id (reservations db))"
  shows "reaps_held db' (Reserving actor req pc')"
proof (cases "\<exists>at_time k todo ids. pc = R_Reaping at_time (k # todo) ids")
  case True
  then obtain at_time k todo ids where pc: "pc = R_Reaping at_time (k # todo) ids" by blast
  have due: "rv_state r = HELD \<and> rv_expires_at r \<noteq> None"
    if "r \<in> set (reservations db)" "r' \<in> set (reservations db)" "rv_id r = rv_id r'" "due at_time r'" for r r'
  proof -
    have "r = r'" using assms(3) that(1-3) by (auto simp: distinct_map dest: inj_onD)
    then show ?thesis using that(4) by (cases "rv_expires_at r'") (auto simp: due_def)
  qed
  have db': "db' = db" using assms(1) pc by simp
  show ?thesis
  proof (cases "pc' = R_Reaping at_time todo (ids @ [k])")
    case True
    then have "\<exists>r\<in>set (reservations db). rv_id r = k \<and> due at_time r"
      using assms(1) pc by (auto simp: reap_row_def list_ex_iff split: if_splits)
    then show ?thesis using due assms(2) pc True unfolding db' by auto
  next
    case False
    then have "reaped_ids pc' = ids" using assms(1) pc by (auto simp: reap_row_def split: if_splits)
    then show ?thesis using assms(2) pc by (simp add: db')
  qed
next
  case False
  then have "set (reaped_ids pc') \<subseteq> set (reaped_ids pc) \<and> (reaped_ids pc' = [] \<or> reservations db' = reservations db)"
    using assms(1)
    by (cases "(scan, hash, i, actor, req, pc, txs, now, db)" rule: reserve_next.cases)
      (auto simp: find_key_def check_budget_def form_hold_def ask_index_def Let_def split: if_splits option.splits)
  then show ?thesis using assms(2) by fastforce
qed

lemma reaps_held_other:
  assumes "reaps_held db t" and "\<And>k. k \<in> set (row_locks t) \<Longrightarrow> k \<notin> set ids \<and> k \<notin> rv_id ` set new"
    and "reservations db' = update_where (\<lambda>r. rv_id r \<in> set ids) f (reservations db) @ new" and f: "\<And>r. rv_id (f r) = rv_id r"
  shows "reaps_held db' t"
proof (cases t)
  case (Reserving actor req pc)
  have keep: "r \<in> set (reservations db') \<longleftrightarrow> r \<in> set (reservations db)"
    if k: "k \<in> set (reaped_ids pc)" "rv_id r = k" for k r
  proof -
    have "k \<notin> set ids" "k \<notin> rv_id ` set new" using assms(2) k Reserving by simp_all
    then show ?thesis using k(2) by (auto simp: assms(3) set_update_where f)
  qed
  have "k \<in> rv_id ` set (reservations db')" if k: "k \<in> set (reaped_ids pc)" for k
  proof -
    obtain r where "r \<in> set (reservations db)" "rv_id r = k" using assms(1) Reserving k by auto
    then show ?thesis using keep [OF k, of r] by blast
  qed
  then show ?thesis using assms(1) keep Reserving by auto
qed simp

lemma hold_step_reaping:
  assumes ok: "reaping_ok s"
  shows "reaping_ok (hold_step scan hash (i, now) s)"
proof (cases "i < length (hs_txs s)")
  case True
  let ?db = "hs_db s" and ?txs = "hs_txs s"
  obtain t db where n: "hold_next scan hash i (?txs ! i) ?txs now ?db = (t, db)" by fastforce
  have s': "hold_step scan hash (i, now) s = \<lparr>hs_db = db, hs_txs = ?txs[i := t]\<rparr>"
    using True n by (simp add: hold_step_def)
  have num: "numbered s" and ap: "apart row_locks ?txs" and txs: "\<And>j. j < length ?txs \<Longrightarrow> reaps_held ?db (?txs ! j)"
    using ok by (simp_all add: reaping_ok_def list_all_length)
  have dist: "distinct (map rv_id (reservations ?db))" using num by (simp add: numbered_def)
  have own: "reaps_held db t"
  proof (cases "?txs ! i")
    case (Reserving actor req pc)
    obtain pc' where r: "reserve_next scan hash i actor req pc ?txs now ?db = (pc', db)" "t = Reserving actor req pc'"
      using n Reserving by (auto split: prod.splits)
    show ?thesis using reaps_held_own [OF r(1) _ dist] txs [OF True] Reserving r(2) by simp
  qed (use n in \<open>auto split: prod.splits\<close>)
  have others: "reaps_held db (?txs ! j)" if j: "j < length ?txs" "j \<noteq> i" for j
  proof -
    have away: "k \<notin> set (row_locks (?txs ! i))" if "k \<in> set (row_locks (?txs ! j))" for k
      using ap j True that unfolding apart_def by blast
    have old: "k \<in> rv_id ` set (reservations ?db)" if "k \<in> set (row_locks (?txs ! j))" "\<And>kind x pc. ?txs ! j \<noteq> Settling kind x pc" for k
      using txs [OF j(1)] that by (cases "?txs ! j") auto
    have fresh: "k \<notin> set (new_ids (?txs ! i))" if "k \<in> rv_id ` set (reservations ?db)" for k
      using num True that by (auto simp: numbered_def list_all_length ids_ok_def)
    show ?thesis
    proof (cases "\<exists>kind x pc. ?txs ! j = Settling kind x pc")
      case False
      then have lk: "k \<in> set (row_locks (?txs ! j)) \<Longrightarrow> k \<notin> set (row_locks (?txs ! i)) \<and> k \<notin> set (new_ids (?txs ! i))" for k
        using away old fresh by blast
      from n show ?thesis
      proof (cases rule: hold_next_rows)
        case (same new)
        have "reservations db = update_where (\<lambda>r. rv_id r \<in> set []) id (reservations ?db) @ new"
          using same(1) by (simp add: update_where_none)
        from reaps_held_other [OF txs [OF j(1)] _ this] lk same(2) show ?thesis by fastforce
      next
        case (reaped actor req pc new)
        have "reservations db = update_where (\<lambda>r. rv_id r \<in> set (reaped_ids pc)) (\<lambda>r. r\<lparr>rv_state := EXPIRED\<rparr>) (reservations ?db) @ new"
          using reaped(2) by (simp add: expire_ids_def)
        from reaps_held_other [OF txs [OF j(1)] _ this] lk reaped(1,3) show ?thesis by fastforce
      next
        case (settled kind k)
        have "reservations db = update_where (\<lambda>r. rv_id r \<in> set [k]) (\<lambda>r. r\<lparr>rv_state := settled_state kind\<rparr>) (reservations ?db) @ []"
          using settled(2) by (simp add: set_state_def)
        from reaps_held_other [OF txs [OF j(1)] _ this] lk settled(1) show ?thesis by simp
      qed
    qed auto
  qed
  show ?thesis
    using own others True hold_step_numbered [OF num, of scan hash i now] hold_step_rows_apart [OF ap n]
    by (auto simp: s' reaping_ok_def list_all_length nth_list_update)
qed (use ok in \<open>simp add: hold_step_def\<close>)

lemma fresh_reaping_ok:
  assumes "control_inv db" "list_all not_started txs"
  shows "reaping_ok \<lparr>hs_db = db, hs_txs = txs\<rparr>"
proof -
  have "row_locks t = [] \<and> reaps_held db t" if "not_started t" for t
    using that by (auto simp: not_started_def split: hold_tx.splits)
  then have "list_all (\<lambda>t. row_locks t = [] \<and> reaps_held db t) txs" using assms(2) by (simp add: list_all_iff)
  then show ?thesis using fresh_numbered [OF assms] by (auto simp: reaping_ok_def apart_def list_all_length)
qed

interpretation hr: stateful "hold_step scan hash" reaping_ok
  by unfold_locales (metis hold_step_reaping prod.collapse)

text \<open>
  C27. Expiry takes nothing that is settled. Let reservations, releases and commits overlap
  statement by statement, with any readings of the clock and any order of rows. Whatever statement
  comes next, a hold in the table stays as it is, or only its state changes, in one of three
  ways: the end of a reservation makes it expired, and then it was still held at that moment and
  has a deadline, because the reservation holds the row's lock since it tested both; the end of a
  release of this hold makes it released; the end of a commit of it makes it committed. So no hold
  is ever held again, and budget that was spent or given back is never reclaimed as expired.
\<close>

theorem expiry_takes_only_held:
  assumes "control_inv db" "list_all not_started txs"
    and s: "s = hold_run scan hash xs \<lparr>hs_db = db, hs_txs = txs\<rparr>"
    and r: "r \<in> set (reservations (hs_db s))"
  shows "\<exists>r'\<in>set (reservations (hs_db (hold_step scan hash (i, now) s))). r' = r
    \<or> r' = r\<lparr>rv_state := EXPIRED\<rparr> \<and> rv_state r = HELD \<and> rv_expires_at r \<noteq> None \<and>
        (\<exists>actor req pc. hs_txs s ! i = Reserving actor req pc \<and> rv_id r \<in> set (reaped_ids pc))
    \<or> r' = r\<lparr>rv_state := RELEASED\<rparr> \<and> hs_txs s ! i = Settling Free (rv_id r) S_Written
    \<or> r' = r\<lparr>rv_state := HOLD_COMMITTED\<rparr> \<and> hs_txs s ! i = Settling Spend (rv_id r) S_Written"
proof (cases "i < length (hs_txs s)")
  case True
  have ok: "reaping_ok s" unfolding s hold_run_def by (rule hr.run_inv [OF fresh_reaping_ok [OF assms(1,2)]])
  obtain t db' where n: "hold_next scan hash i (hs_txs s ! i) (hs_txs s) now (hs_db s) = (t, db')" by fastforce
  then have db': "hs_db (hold_step scan hash (i, now) s) = db'" using True by (simp add: hold_step_def)
  have held: "reaps_held (hs_db s) (hs_txs s ! i)" using ok True by (simp add: reaping_ok_def list_all_length)
  from n show ?thesis
  proof (cases rule: hold_next_rows)
    case (same new)
    then show ?thesis using r unfolding db' by (intro bexI [of _ r]) auto
  next
    case (reaped actor req pc new)
    show ?thesis
    proof (cases "rv_id r \<in> set (reaped_ids pc)")
      case True
      then have "r\<lparr>rv_state := EXPIRED\<rparr> \<in> set (reservations db')"
        using r by (auto simp: reaped(2) expire_ids_def set_update_where)
      then show ?thesis unfolding db' using held r reaped(1) True by fastforce
    next
      case False
      then have "r \<in> set (reservations db')" using r by (auto simp: reaped(2) expire_ids_def set_update_where)
      then show ?thesis unfolding db' by blast
    qed
  next
    case (settled kind k)
    show ?thesis
    proof (cases "rv_id r = k")
      case True
      then have "r\<lparr>rv_state := settled_state kind\<rparr> \<in> set (reservations db')"
        using r by (auto simp: settled(2) set_state_def set_update_where)
      then show ?thesis unfolding db' using settled(1) True by (cases kind) auto
    next
      case False
      then have "r \<in> set (reservations db')" using r by (auto simp: settled(2) set_state_def set_update_where)
      then show ?thesis unfolding db' by blast
    qed
  qed
qed (use r in \<open>auto simp: hold_step_def\<close>)

section \<open>No deadlock, when rows are visited in one order\<close>












section \<open>Without deadlines, each hold settled by one request\<close>

fun settles :: "hold_tx \<Rightarrow> int list" where
  "settles (Reserving actor req pc) = []"
| "settles (Settling kind k pc) = [k]"

definition no_deadline :: "hold_tx \<Rightarrow> bool" where
  "no_deadline t = (case t of Reserving actor req pc \<Rightarrow> rq_ttl req = None | _ \<Rightarrow> True)"

definition lasting :: "reservation \<Rightarrow> bool" where
  "lasting r \<longleftrightarrow> rv_expires_at r = None \<and> rv_state r \<noteq> EXPIRED"

text \<open>No row has been expired, none will be, and what a commit is about to write was not released.\<close>

fun calm_pc :: "reserve_pc \<Rightarrow> bool" where
  "calm_pc (R_Insert ids r) \<longleftrightarrow> ids = [] \<and> lasting r \<and> rv_state r \<noteq> RELEASED"
| "calm_pc (R_Inserted ids r) \<longleftrightarrow> ids = [] \<and> lasting r \<and> rv_state r \<noteq> RELEASED"
| "calm_pc pc \<longleftrightarrow> reaped_ids pc = []"

fun calm_tx :: "control_db \<Rightarrow> hold_tx \<Rightarrow> bool" where
  "calm_tx db (Reserving actor req pc) \<longleftrightarrow> rq_ttl req = None \<and> calm_pc pc"
| "calm_tx db (Settling Spend k S_Write) \<longleftrightarrow> (\<forall>r\<in>set (reservations db). rv_id r = k \<longrightarrow> rv_state r \<noteq> RELEASED)"
| "calm_tx db (Settling Spend k S_Written) \<longleftrightarrow> (\<forall>r\<in>set (reservations db). rv_id r = k \<longrightarrow> rv_state r \<noteq> RELEASED)"
| "calm_tx db (Settling kind k pc) \<longleftrightarrow> True"

definition calm :: "hold_store \<Rightarrow> bool" where
  "calm s \<longleftrightarrow> numbered s \<and> list_all lasting (reservations (hs_db s)) \<and> distinct (concat (map settles (hs_txs s))) \<and>
     list_all (calm_tx (hs_db s)) (hs_txs s)"

lemma expire_nothing [simp]: "expire_ids [] db = db"
  by (simp add: expire_ids_def update_where_none)

lemma reserve_calm:
  assumes "reserve_next scan hash i actor req pc txs now db = (pc', db')" "rq_ttl req = None" "calm_pc pc"
    "list_all lasting (reservations db)"
  shows "calm_pc pc' \<and> (\<exists>new. reservations db' = reservations db @ new \<and> list_all lasting new \<and>
    list_all (\<lambda>r. rv_state r \<noteq> RELEASED) new)"
proof -
  have "\<not> list_ex (\<lambda>r. rv_id r = k \<and> due at_time r) (reservations db)" for k at_time
    using assms(4) by (auto simp: list_all_iff list_ex_iff lasting_def due_def)
  then show ?thesis using assms
    by (cases "(scan, hash, i, actor, req, pc, txs, now, db)" rule: reserve_next.cases)
      (auto simp: reap_row_def find_key_def check_budget_def form_hold_def ask_index_def lasting_def Let_def
        split: if_splits option.splits)
qed

lemma calm_tx_grows:
  "calm_tx db t \<Longrightarrow> reservations db' = reservations db @ new \<Longrightarrow> list_all (\<lambda>r. rv_state r \<noteq> RELEASED) new \<Longrightarrow> calm_tx db' t"
  by (cases "(db, t)" rule: calm_tx.cases) (auto simp: list_all_iff)

lemma calm_tx_other: "calm_tx db t \<Longrightarrow> k \<notin> set (settles t) \<Longrightarrow> calm_tx (set_state k st db) t"
  by (cases "(db, t)" rule: calm_tx.cases) (auto simp: set_state_def set_update_where)

lemma settle_calm:
  assumes "settle_next i kind k pc txs db = (pc', db')" "calm_tx db (Settling kind k pc)" "distinct (map rv_id (reservations db))"
  shows "calm_tx db' (Settling kind k pc') \<and> (db' = db \<or> db' = set_state k (settled_state kind) db)"
proof (cases pc)
  case S_Start
  have "rv_state r = st" if "r \<in> set (reservations db)" "rv_id r = k" "state_of k db = Some st" for r st
    using row_where_unique [OF assms(3) that(1)] that(2,3) by (auto simp: state_of_def)
  then show ?thesis using assms(1) S_Start
    by (cases kind) (auto simp: settle_decision_def commit_decision_def split: prod.splits option.splits if_splits)
qed (use assms(1,2) in \<open>cases kind; auto split: if_splits\<close>)+

lemma other_settlement:
  assumes "distinct (concat (map settles txs))" "i < length txs" "j < length txs" "i \<noteq> j" "k \<in> set (settles (txs ! i))"
  shows "k \<notin> set (settles (txs ! j))"
  using assms
proof (induction txs arbitrary: i j)
  case (Cons t txs)
  have away: "set (settles t) \<inter> set (settles u) = {}" if "u \<in> set txs" for u using Cons.prems(1) that by auto
  show ?case
  proof (cases i)
    case 0
    then obtain m where "j = Suc m" using Cons.prems(4) by (cases j) auto
    then show ?thesis using 0 Cons.prems(3,5) away [of "txs ! m"] by auto
  next
    case (Suc n)
    show ?thesis
    proof (cases j)
      case 0
      then show ?thesis using Suc Cons.prems(2,5) away [of "txs ! n"] by auto
    next
      case (Suc m)
      then show ?thesis using \<open>i = Suc n\<close> Cons.prems Cons.IH [of n m] by simp
    qed
  qed
qed simp

lemma settles_update:
  "map settles ((txs :: hold_tx list)[i := t]) = map settles txs" if "settles t = settles (txs ! i)"
  using that by (cases "i < length txs") (simp_all add: map_update list_update_same_conv list_update_beyond)

lemma hold_step_calm:
  assumes ok: "calm s"
  shows "calm (hold_step scan hash (i, now) s)"
proof (cases "i < length (hs_txs s)")
  case True
  let ?db = "hs_db s" and ?txs = "hs_txs s"
  obtain t db where n: "hold_next scan hash i (?txs ! i) ?txs now ?db = (t, db)" by fastforce
  have s': "hold_step scan hash (i, now) s = \<lparr>hs_db = db, hs_txs = ?txs[i := t]\<rparr>"
    using True n by (simp add: hold_step_def)
  have scans: "numbered s" and rows: "list_all lasting (reservations ?db)" and sole: "distinct (concat (map settles ?txs))"
    and txs: "\<And>j. j < length ?txs \<Longrightarrow> calm_tx ?db (?txs ! j)"
    using ok by (simp_all add: calm_def list_all_length)
  have ids: "distinct (map rv_id (reservations ?db))" using scans by (simp add: numbered_def)
  have "calm_tx db t \<and> list_all lasting (reservations db) \<and> settles t = settles (?txs ! i) \<and>
    (\<forall>j<length ?txs. j \<noteq> i \<longrightarrow> calm_tx db (?txs ! j))"
  proof (cases "?txs ! i")
    case (Reserving actor req pc)
    obtain pc' where r: "reserve_next scan hash i actor req pc ?txs now ?db = (pc', db)" "t = Reserving actor req pc'"
      using n Reserving by (auto split: prod.splits)
    have pre: "rq_ttl req = None" "calm_pc pc" using txs [OF True] Reserving by simp_all
    from reserve_calm [OF r(1) pre rows] obtain new where new: "calm_pc pc'" "reservations db = reservations ?db @ new"
        "list_all lasting new" "list_all (\<lambda>r. rv_state r \<noteq> RELEASED) new"
      by blast
    have "calm_tx db (?txs ! j)" if "j < length ?txs" for j
      by (rule calm_tx_grows [OF txs [OF that] new(2,4)])
    then show ?thesis using r(2) Reserving rows pre(1) new by simp
  next
    case (Settling kind k pc)
    obtain pc' where r: "settle_next i kind k pc ?txs ?db = (pc', db)" "t = Settling kind k pc'"
      using n Settling by (auto split: prod.splits)
    have c: "calm_tx db t" "db = ?db \<or> db = set_state k (settled_state kind) ?db"
      using settle_calm [OF r(1) _ ids] txs [OF True] Settling r(2) by simp_all
    have "calm_tx db (?txs ! j)" if "j < length ?txs" "j \<noteq> i" for j
      using c(2) txs [OF that(1)] calm_tx_other other_settlement [OF sole True that(1)] that(2) Settling by auto
    moreover have "list_all lasting (reservations (set_state k (settled_state kind) ?db))"
      using rows by (cases kind) (auto simp: list_all_iff set_state_def set_update_where lasting_def)
    ultimately show ?thesis using c rows Settling r(2) by auto
  qed
  then show ?thesis using hold_step_numbered [OF scans, of scan hash i now] sole settles_update [of t ?txs i] True
    by (auto simp: s' calm_def list_all_length nth_list_update)
qed (use ok in \<open>simp add: hold_step_def\<close>)

lemma calm_brings_nothing_back: "calm s \<Longrightarrow> brought_back scan hash cid xs s = 0"
proof (induction xs arbitrary: s)
  case (Cons x xs)
  have "back_by cid x s = 0"
  proof (cases "fst x < length (hs_txs s)")
    case True
    then have tx: "calm_tx (hs_db s) (hs_txs s ! fst x)" and rows: "list_all lasting (reservations (hs_db s))"
      using Cons.prems by (simp_all add: calm_def list_all_length)
    then show ?thesis
      by (cases "(hs_db s, hs_txs s ! fst x)" rule: calm_tx.cases)
        (auto simp: back_by_def list_all_iff lasting_def intro!: sum_where_none split: settle_pc.split settlement.split)
  qed (simp add: back_by_def)
  moreover have "calm (hold_step scan hash x s)" using hold_step_calm [OF Cons.prems, of scan hash "fst x" "snd x"] by simp
  ultimately show ?case using Cons.IH by simp
qed simp

text \<open>
  C17. The ceiling itself holds, statement by statement, when no hold has a deadline and each is settled by one
  request at most, a release or a commit: whatever reservations, releases and commits
  overlap, and in whatever order of their statements, the budget in use of a case never exceeds
  what its reservations name as the ceiling. It takes a deadline or two settlements of one hold
  to get past it.
\<close>

theorem settled_once_keeps_the_ceiling:
  assumes "control_inv db" "list_all lasting (reservations db)" "in_cents C" "total_held cid db \<le> C"
    and "list_all (asks_within cid C) txs" "list_all no_deadline txs" "distinct (concat (map settles txs))"
  shows "list_reservations cid (hs_db (hold_run scan hash xs \<lparr>hs_db = db, hs_txs = txs\<rparr>)) \<le> C"
proof -
  have "calm_tx db t" if "not_started t" "no_deadline t" for t
    using that by (cases "(db, t)" rule: calm_tx.cases) (auto simp: not_started_def no_deadline_def)
  then have "list_all (calm_tx db) txs" "list_all not_started txs"
    using assms(5,6) by (auto simp: list_all_iff asks_within_def)
  then have "calm \<lparr>hs_db = db, hs_txs = txs\<rparr>" using assms(1,2,7) fresh_numbered by (simp add: calm_def)
  then show ?thesis
    using hold_run_ok [OF fresh_holds_ok [OF assms(1,3,4,5)], of hash scan xs] calm_brings_nothing_back
    by (simp add: holds_ok_def list_reservations_def)
qed

section \<open>A commit that brings a hold back\<close>

lemmas hold_eval = hold_run_def hold_step_def locked_by_other_def find_key_def check_budget_def form_hold_def
  ask_index_def settle_decision_def expire_ids_def hold_request_def release_decision_def commit_decision_def
  state_of_def set_state_def due_def total_held_def empty_control_def Let_def

definition two_requests :: "hold_tx list" where
  "two_requests = [Reserving ''A'' (hold_request ''a'' 600 None) R_Start, Reserving ''B'' (hold_request ''b'' 600 None) R_Start]"

definition turns :: "nat list \<Rightarrow> (nat \<times> datetime) list" where
  "turns is = map (\<lambda>i. (i, 0)) is"

text \<open>Rows visited by their numbers.\<close>

definition by_number :: row_order where
  "by_number i ks = sort ks"

lemma by_number_simps [simp]: "by_number i [] = []" "by_number i [k] = [k]"
  by (simp_all add: by_number_def)


text \<open>Two reservations that overlap: the second one waits for the lock, then it is refused.\<close>

lemma overlapping_reservations:
  "let s = hold_run by_number (\<lambda>_. 0) (turns [0, 0, 1, 0, 0, 1, 0, 0, 0, 0, 1, 1, 1, 1, 1, 1])
     \<lparr>hs_db = empty_control, hs_txs = two_requests\<rparr> in
   hs_txs s =
     [Reserving ''A'' (hold_request ''a'' 600 None) (R_Over (Granted \<lparr>gr_id = 1, gr_granted = True, gr_amount = 600, gr_replayed = False\<rparr>)),
      Reserving ''B'' (hold_request ''b'' 600 None) (R_Over (Turned_Down (HTTPException 409 (Reservation_Refused 600 600 1000))))] \<and>
   total_held ''c'' (hs_db s) = 600"
  by (simp add: two_requests_def turns_def hold_eval)

text \<open>
  A commit that reads its hold before a release of the same hold writes it, and writes after:
  both answer with success, the freed budget is granted again in between, and the commit takes
  it a second time. No hold has a deadline; 1200 of 1000 are in use.
\<close>

lemma late_commit_exceeds_the_ceiling:
  "let s = hold_run by_number (\<lambda>_. 0) (turns [0, 0, 0, 0, 0, 0, 0, 0, 2, 3, 3, 3, 1, 1, 1, 1, 1, 1, 1, 1, 2, 2])
     \<lparr>hs_db = empty_control, hs_txs = two_requests @ [Settling Spend 1 S_Start, Settling Free 1 S_Start]\<rparr> in
   map is_over (hs_txs s) = [True, True, True, True] \<and>
   drop 2 (hs_txs s) = [Settling Spend 1 (S_Over (Inr False)), Settling Free 1 (S_Over (Inr False))] \<and>
   list_reservations ''c'' (hs_db s) = 1200"
  by (simp add: two_requests_def turns_def hold_eval is_over_def list_reservations_def)

theorem the_lock_keeps_the_ceiling_witness:
  "list_reservations ''c'' (hs_db (hold_run by_number (\<lambda>_. 0) (turns [0, 0, 1, 0, 0, 1, 0, 0, 0, 0, 1, 1, 1, 1, 1, 1])
     \<lparr>hs_db = empty_control, hs_txs = two_requests\<rparr>)) \<le> 1000"
  using the_lock_keeps_the_ceiling [of empty_control 1000 "''c''" two_requests _ by_number "\<lambda>_. 0"
      "turns [0, 0, 1, 0, 0, 1, 0, 0, 0, 0, 1, 1, 1, 1, 1, 1]", OF control_inv_empty _ _ _ refl]
  by (simp add: two_requests_def turns_def hold_eval asks_within_def not_started_def back_by_def)


text \<open>
  With opposite orders they can: two reservations of different cases each expire one of two lapsed
  holds and wait for the other's, until the database aborts one of them.
\<close>

definition opposite :: row_order where
  "opposite i ks = (if i = 0 then ks else rev ks)"

definition lapsed_hold :: "int \<Rightarrow> string \<Rightarrow> reservation" where
  "lapsed_hold i key = \<lparr>rv_id = i, rv_case = ''c'', rv_actor = ''X'', rv_key = key, rv_amount = 100, rv_state = HELD,
     rv_expires_at = Some 0\<rparr>"

definition two_cases :: "string \<Rightarrow> int" where
  "two_cases c = (if c = ''c'' then 0 else 1)"

lemma opposite_orders_may_block:
  "\<exists>s. s = hold_run opposite two_cases (turns [0, 0, 0, 1, 1, 1])
      \<lparr>hs_db = \<lparr>reservations = [lapsed_hold 1 ''k'', lapsed_hold 2 ''l''], reservation_seq = 2\<rparr>,
       hs_txs = [Reserving ''A'' (hold_request ''a'' 600 None) R_Start,
         Reserving ''B'' ((hold_request ''b'' 600 None)\<lparr>rq_case := ''d''\<rparr>) R_Start]\<rparr>
    \<and> \<not> list_ex is_over (hs_txs s) \<and> (\<forall>i now. hold_step opposite two_cases (i, now) s = s)"
proof (intro exI conjI allI)
  let ?s = "\<lparr>hs_db = \<lparr>reservations = [lapsed_hold 1 ''k'', lapsed_hold 2 ''l''], reservation_seq = 2\<rparr>,
     hs_txs = [Reserving ''A'' (hold_request ''a'' 600 None) (R_Reaping 0 [2] [1]),
       Reserving ''B'' ((hold_request ''b'' 600 None)\<lparr>rq_case := ''d''\<rparr>) (R_Reaping 0 [1] [2])]\<rparr>"
  show "?s = hold_run opposite two_cases (turns [0, 0, 0, 1, 1, 1])
      \<lparr>hs_db = \<lparr>reservations = [lapsed_hold 1 ''k'', lapsed_hold 2 ''l''], reservation_seq = 2\<rparr>,
       hs_txs = [Reserving ''A'' (hold_request ''a'' 600 None) R_Start,
         Reserving ''B'' ((hold_request ''b'' 600 None)\<lparr>rq_case := ''d''\<rparr>) R_Start]\<rparr>"
    by (simp add: turns_def hold_run_def hold_step_def locked_by_other_def reap_row_def due_def lapsed_hold_def
        opposite_def two_cases_def hold_request_def)
  show "\<not> list_ex is_over (hs_txs ?s)" by (simp add: is_over_def)
  show "hold_step opposite two_cases (i, now) ?s = ?s" for i now
  proof -
    consider "i = 0" | "i = 1" | "\<not> i < 2" by linarith
    then show ?thesis by cases (simp_all add: hold_step_def reap_row_def locked_by_other_def)
  qed
qed

text \<open>A reservation that has expired another one's lapsed hold and has not committed yet.\<close>

definition lapsed_then_asked :: hold_store where
  "lapsed_then_asked = hold_run by_number (\<lambda>_. 0) (turns [0, 0, 0, 0, 0, 0, 0, 0, 1, 1, 1, 1, 1, 1])
     \<lparr>hs_db = empty_control, hs_txs = [Reserving ''A'' (hold_request ''a'' 600 (Some 0)) R_Start,
        Reserving ''B'' (hold_request ''b'' 600 None) R_Start]\<rparr>"

lemma lapsed_then_asked_state:
  "hs_txs lapsed_then_asked ! 1 = Reserving ''B'' (hold_request ''b'' 600 None) (R_Fits [1])"
  "map rv_state (reservations (hs_db lapsed_then_asked)) = [HELD]"
  by (simp_all add: lapsed_then_asked_def turns_def hold_eval reap_row_def add_seconds_def add_microseconds_def
      datetime_limit_def)

theorem expiry_takes_only_held_witness:
  "\<exists>r\<in>set (reservations (hs_db lapsed_then_asked)).
     \<exists>r'\<in>set (reservations (hs_db (hold_step by_number (\<lambda>_. 0) (1, 0) lapsed_then_asked))). rv_id r' = rv_id r"
proof -
  obtain r where r: "r \<in> set (reservations (hs_db lapsed_then_asked))"
    using lapsed_then_asked_state(2) by (cases "reservations (hs_db lapsed_then_asked)") auto
  have "list_all not_started [Reserving ''A'' (hold_request ''a'' 600 (Some 0)) R_Start, Reserving ''B'' (hold_request ''b'' 600 None) R_Start]"
    by (simp add: not_started_def)
  from expiry_takes_only_held [OF control_inv_empty this lapsed_then_asked_def r, of 1 0]
  obtain r' where "r' \<in> set (reservations (hs_db (hold_step by_number (\<lambda>_. 0) (1, 0) lapsed_then_asked)))" "rv_id r' = rv_id r"
    by (elim bexE disjE conjE) simp_all
  with r show ?thesis by blast
qed

theorem settled_once_keeps_the_ceiling_witness:
  "list_reservations ''c'' (hs_db (hold_run by_number (\<lambda>_. 0) (turns [0, 0, 0, 0, 0, 0, 0, 0, 2, 1, 1, 2, 2, 1, 1, 1, 1, 1, 1])
     \<lparr>hs_db = empty_control, hs_txs = two_requests @ [Settling Spend 1 S_Start]\<rparr>)) \<le> 1000"
  by (rule settled_once_keeps_the_ceiling [OF control_inv_empty])
    (simp_all add: empty_control_def total_held_def two_requests_def hold_request_def asks_within_def not_started_def
      no_deadline_def)

end
