(* ===== verification/Folds.thy ===== *)
theory Folds
  imports Crm Locks
begin

text \<open>
  Several projectors at once. In theory Crm the folding of an event into the projection is one
  step; here it is the transaction of \<^verbatim>\<open>apps/crm/projector.py\<close>, statement by statement: the search for
  the event, the \<open>INSERT\<close> into \<open>applied_events\<close>, the \<open>INSERT .. ON CONFLICT .. DO UPDATE\<close>, the commit. Any number
  of them overlap, of the same event or of different ones, under READ COMMITTED: an \<open>INSERT\<close> waits
  for an open transaction with the same key, and \<open>ON CONFLICT\<close> works on the row as last committed.
  The theorem: the committed projection is one that folds one after the other produce.
\<close>

section \<open>The transaction\<close>

datatype fold_result = Folded | Known | Fold_Overflow | Fold_Collision

datatype fold_pc =
    F_Start
  | F_New
  | F_Recorded applied_row
  | F_Counted applied_row projection_row
  | F_Over fold_result

type_synonym fold_tx = "(string \<times> event) \<times> fold_pc"

record fold_store =
  fs_db :: crm_db
  fs_txs :: "fold_tx list"

fun event_lock :: "fold_tx \<Rightarrow> (string \<times> int) option" where
  "event_lock (x, F_Recorded a) = Some (event_key a)"
| "event_lock (x, F_Counted a p) = Some (event_key a)"
| "event_lock _ = None"

fun case_lock :: "fold_tx \<Rightarrow> string option" where
  "case_lock (x, F_Counted a p) = Some (pr_case p)"
| "case_lock _ = None"

definition record_event :: "nat \<Rightarrow> string \<Rightarrow> event \<Rightarrow> fold_tx list \<Rightarrow> crm_db \<Rightarrow> fold_pc" where
  "record_event i service ev txs db =
     (case numeric_12_2 (ev_amount ev) of None \<Rightarrow> F_Over Fold_Overflow
      | Some a \<Rightarrow>
        if already_applied service (ev_id ev) db then F_Over Fold_Collision
        else if taken event_lock i (service, ev_id ev) txs then F_New
        else F_Recorded \<lparr>ap_service = service, ap_id = ev_id ev, ap_case = ev_case ev, ap_amount = a\<rparr>)"

definition count_event :: "nat \<Rightarrow> applied_row \<Rightarrow> fold_tx list \<Rightarrow> crm_db \<Rightarrow> fold_pc" where
  "count_event i a txs db =
     (if taken case_lock i (ap_case a) txs then F_Recorded a
      else case row_where (\<lambda>p. pr_case p = ap_case a) (projection db) of
        None \<Rightarrow> F_Counted a \<lparr>pr_case = ap_case a, pr_total = ap_amount a, pr_events_applied = 1\<rparr>
      | Some p \<Rightarrow> (case numeric_12_2 (pr_total p + ap_amount a) of None \<Rightarrow> F_Over Fold_Overflow
        | Some t \<Rightarrow> F_Counted a (p\<lparr>pr_total := t, pr_events_applied := pr_events_applied p + 1\<rparr>)))"

text \<open>The commit makes the transaction's two rows visible.\<close>

definition commit_fold :: "applied_row \<Rightarrow> projection_row \<Rightarrow> crm_db \<Rightarrow> crm_db" where
  "commit_fold a p db = \<lparr>applied_events = applied_events db @ [a],
     projection = (if list_ex (\<lambda>q. pr_case q = pr_case p) (projection db)
       then update_where (\<lambda>q. pr_case q = pr_case p) (\<lambda>_. p) (projection db) else projection db @ [p])\<rparr>"

fun fold_next :: "nat \<Rightarrow> string \<times> event \<Rightarrow> fold_pc \<Rightarrow> fold_tx list \<Rightarrow> crm_db \<Rightarrow> fold_pc \<times> crm_db" where
  "fold_next i (service, ev) F_Start txs db =
     (if already_applied service (ev_id ev) db then F_Over Known else F_New, db)"
| "fold_next i (service, ev) F_New txs db = (record_event i service ev txs db, db)"
| "fold_next i (service, ev) (F_Recorded a) txs db = (count_event i a txs db, db)"
| "fold_next i (service, ev) (F_Counted a p) txs db = (F_Over Folded, commit_fold a p db)"
| "fold_next i (service, ev) (F_Over x) txs db = (F_Over x, db)"

definition fold_step :: "nat \<Rightarrow> fold_store \<Rightarrow> fold_store" where
  "fold_step i s =
     (if i < length (fs_txs s)
      then (case fs_txs s ! i of (x, pc) \<Rightarrow> (case fold_next i x pc (fs_txs s) (fs_db s) of
        (pc', db) \<Rightarrow> \<lparr>fs_db = db, fs_txs = (fs_txs s)[i := (x, pc')]\<rparr>))
      else s)"

definition fold_run :: "nat list \<Rightarrow> fold_store \<Rightarrow> fold_store" where
  "fold_run xs s = fold fold_step xs s"

definition start_folds :: "(string \<times> event) list \<Rightarrow> crm_db \<Rightarrow> fold_store" where
  "start_folds offers db = \<lparr>fs_db = db, fs_txs = map (\<lambda>x. (x, F_Start)) offers\<rparr>"

section \<open>The invariant\<close>

definition one_row_per_case :: "crm_db \<Rightarrow> bool" where
  "one_row_per_case db \<longleftrightarrow> distinct (map pr_case (projection db))"

text \<open>The row a transaction has recorded, and the row it has counted, which its locks keep true.\<close>

definition recorded_ok :: "string \<times> event \<Rightarrow> applied_row \<Rightarrow> crm_db \<Rightarrow> bool" where
  "recorded_ok x a db \<longleftrightarrow> numeric_12_2 (ev_amount (snd x)) = Some (ap_amount a) \<and>
     a = \<lparr>ap_service = fst x, ap_id = ev_id (snd x), ap_case = ev_case (snd x), ap_amount = ap_amount a\<rparr> \<and>
     \<not> already_applied (fst x) (ev_id (snd x)) db"

definition counted_ok :: "applied_row \<Rightarrow> projection_row \<Rightarrow> crm_db \<Rightarrow> bool" where
  "counted_ok a p db \<longleftrightarrow> (case row_where (\<lambda>p. pr_case p = ap_case a) (projection db) of
       None \<Rightarrow> p = \<lparr>pr_case = ap_case a, pr_total = ap_amount a, pr_events_applied = 1\<rparr>
     | Some q \<Rightarrow> numeric_12_2 (pr_total q + ap_amount a) = Some (pr_total p) \<and>
         p = q\<lparr>pr_total := pr_total p, pr_events_applied := pr_events_applied q + 1\<rparr>)"

fun fold_ok :: "crm_db \<Rightarrow> fold_tx \<Rightarrow> bool" where
  "fold_ok db (x, F_Recorded a) \<longleftrightarrow> recorded_ok x a db"
| "fold_ok db (x, F_Counted a p) \<longleftrightarrow> recorded_ok x a db \<and> counted_ok a p db"
| "fold_ok db _ \<longleftrightarrow> True"

definition folds_ok :: "fold_store \<Rightarrow> bool" where
  "folds_ok s \<longleftrightarrow> one_row_per_case (fs_db s) \<and> unshared event_lock (fs_txs s) \<and> unshared case_lock (fs_txs s) \<and>
     list_all (fold_ok (fs_db s)) (fs_txs s)"

lemma counted_case: "counted_ok a p db \<Longrightarrow> pr_case p = ap_case a"
  unfolding counted_ok_def
  by (auto dest!: row_where_Some split: option.splits) (metis projection_row.select_convs(1) projection_row.surjective
      projection_row.update_convs(2,3))+

text \<open>With its rows still true, a transaction's commit is the fold of its event.\<close>

lemma commit_fold_is_fold_event:
  assumes "one_row_per_case db" "recorded_ok x a db" "counted_ok a p db"
  shows "fold_event (fst x) (snd x) db = Some (commit_fold a p db)"
proof -
  have a: "numeric_12_2 (ev_amount (snd x)) = Some (ap_amount a)"
    "\<lparr>ap_service = fst x, ap_id = ev_id (snd x), ap_case = ev_case (snd x), ap_amount = ap_amount a\<rparr> = a"
    using assms(2) by (simp_all add: recorded_ok_def)
  have c: "ev_case (snd x) = ap_case a" using a(2) by (metis applied_row.select_convs(3))
  note pc = counted_case [OF assms(3)]
  show ?thesis
  proof (cases "row_where (\<lambda>p. pr_case p = ap_case a) (projection db)")
    case None
    then have "\<not> list_ex (\<lambda>q. pr_case q = pr_case p) (projection db)" by (auto simp: row_where_None list_ex_iff pc)
    then show ?thesis using None assms(3) a by (simp add: fold_event_def counted_ok_def commit_fold_def c Let_def)
  next
    case (Some q)
    have q: "q \<in> set (projection db)" "pr_case q = ap_case a" using row_where_Some [OF Some] by auto
    have only: "r = q" if "r \<in> set (projection db)" "pr_case r = ap_case a" for r
      using assms(1) that q unfolding one_row_per_case_def by (metis distinct_map inj_onD)
    have p: "numeric_12_2 (pr_total q + ap_amount a) = Some (pr_total p)"
      "q\<lparr>pr_total := pr_total p, pr_events_applied := pr_events_applied q + 1\<rparr> = p"
      using assms(3) Some by (simp_all add: counted_ok_def)
    have "update_where (\<lambda>r. pr_case r = ap_case a) (\<lambda>r. r\<lparr>pr_total := pr_total p, pr_events_applied := pr_events_applied r + 1\<rparr>)
        (projection db) = update_where (\<lambda>r. pr_case r = ap_case a) (\<lambda>_. p) (projection db)"
      unfolding update_where_def using only p(2) by (intro map_cong refl) (metis (full_types))
    moreover have "list_ex (\<lambda>q. pr_case q = pr_case p) (projection db)" using q pc by (auto simp: list_ex_iff)
    ultimately show ?thesis using Some a p(1) pc by (simp add: fold_event_def commit_fold_def c Let_def)
  qed
qed

lemma commit_fold_applied [simp]:
  "already_applied service i (commit_fold a p db) \<longleftrightarrow> already_applied service i db \<or> event_key a = (service, i)"
  by (auto simp: already_applied_iff commit_fold_def)

lemma commit_fold_other:
  assumes "c \<noteq> pr_case p"
  shows "row_where (\<lambda>q. pr_case q = c) (projection (commit_fold a p db)) = row_where (\<lambda>q. pr_case q = c) (projection db)"
proof -
  have "row_where (\<lambda>q. pr_case q = c) (update_where (\<lambda>q. pr_case q = pr_case p) (\<lambda>_. p) rows)
      = row_where (\<lambda>q. pr_case q = c) rows" for rows
    using assms by (intro row_where_update_other) auto
  then show ?thesis using assms by (auto simp: commit_fold_def split: option.split)
qed

lemma commit_fold_one_row:
  assumes "one_row_per_case db" shows "one_row_per_case (commit_fold a p db)"
proof -
  have "map pr_case (update_where (\<lambda>q. pr_case q = pr_case p) (\<lambda>_. p) rows) = map pr_case rows" for rows
    by (induction rows) auto
  then show ?thesis using assms by (auto simp: one_row_per_case_def commit_fold_def list_ex_iff)
qed

text \<open>What another transaction has in hand stays true over a commit of other rows.\<close>

lemma commit_fold_keeps:
  assumes "fold_ok db t" "event_lock t \<noteq> Some (event_key a)" "case_lock t \<noteq> Some (pr_case p)"
  shows "fold_ok (commit_fold a p db) t"
  using assms
proof (cases "(db, t)" rule: fold_ok.cases)
  case (1 db' x b)
  then show ?thesis using assms by (auto simp: recorded_ok_def event_key_def) (metis applied_row.select_convs(1,2))+
next
  case (2 db' x b q)
  then have "ap_case b \<noteq> pr_case p" using assms(1,3) counted_case by fastforce
  then have "counted_ok b q (commit_fold a p db)" using assms(1) 2 by (simp add: counted_ok_def commit_fold_other)
  moreover have "recorded_ok x b (commit_fold a p db)"
    using 2 assms(1,2) by (auto simp: recorded_ok_def event_key_def) (metis applied_row.select_convs(1,2))+
  ultimately show ?thesis using 2 by simp
qed simp_all

lemma fold_next_own:
  assumes "fold_next i x pc txs db = (pc', db')" "fold_ok db (x, pc)" "\<And>a p. pc \<noteq> F_Counted a p"
  shows "db' = db \<and> fold_ok db (x, pc') \<and>
    (event_lock (x, pc') = None \<or> event_lock (x, pc') = event_lock (x, pc) \<or>
      \<not> taken event_lock i (the (event_lock (x, pc'))) txs) \<and>
    (case_lock (x, pc') = None \<or> \<not> taken case_lock i (the (case_lock (x, pc'))) txs)"
proof -
  obtain service ev where x: "x = (service, ev)" by fastforce
  show ?thesis
  proof (cases pc)
    case F_New
    then show ?thesis using assms x
      by (auto simp: record_event_def recorded_ok_def event_key_def split: option.splits if_splits)
  next
    case (F_Recorded a)
    have "pr_case q = ap_case a" if "row_where (\<lambda>p. pr_case p = ap_case a) (projection db) = Some q" for q
      using row_where_Some [OF that] by simp
    then show ?thesis using F_Recorded assms x
      by (auto simp: count_event_def counted_ok_def split: option.splits if_splits)
  qed (use assms x in \<open>auto split: if_splits\<close>)
qed

lemma fold_step_eq:
  assumes "i < length (fs_txs s)" "fs_txs s ! i = (x, pc)" "fold_next i x pc (fs_txs s) (fs_db s) = (pc', db)"
  shows "fold_step i s = \<lparr>fs_db = db, fs_txs = (fs_txs s)[i := (x, pc')]\<rparr>"
  using assms by (simp add: fold_step_def)

text \<open>A step commits a fold on the committed tables, or leaves them.\<close>

lemma fold_step_cases:
  assumes ok: "folds_ok s" and i: "i < length (fs_txs s)" "fs_txs s ! i = (x, pc)"
  obtains (quiet) pc' where "fold_step i s = s\<lparr>fs_txs := (fs_txs s)[i := (x, pc')]\<rparr>" "folds_ok (fold_step i s)"
      "pc = F_Over Folded \<longleftrightarrow> pc' = F_Over Folded"
  | (commit) a p where "pc = F_Counted a p" "folds_ok (fold_step i s)"
      "\<not> already_applied (fst x) (ev_id (snd x)) (fs_db s)" "already_applied (fst x) (ev_id (snd x)) (crm_step x (fs_db s))"
      "fold_step i s = \<lparr>fs_db = crm_step x (fs_db s), fs_txs = (fs_txs s)[i := (x, F_Over Folded)]\<rparr>"
proof -
  obtain service ev where x: "x = (service, ev)" by fastforce
  obtain pc' db where n: "fold_next i x pc (fs_txs s) (fs_db s) = (pc', db)" by fastforce
  note step = fold_step_eq [OF i n]
  have one: "one_row_per_case (fs_db s)" and ev: "unshared event_lock (fs_txs s)" and cs: "unshared case_lock (fs_txs s)"
    and txs: "\<And>j. j < length (fs_txs s) \<Longrightarrow> fold_ok (fs_db s) (fs_txs s ! j)"
    using ok by (simp_all add: folds_ok_def list_all_length)
  have own: "fold_ok (fs_db s) (x, pc)" using txs [OF i(1)] i(2) by simp
  show thesis
  proof (cases "\<exists>a p. pc = F_Counted a p")
    case True
    then obtain a p where pc: "pc = F_Counted a p" by blast
    then have db: "pc' = F_Over Folded" "db = commit_fold a p (fs_db s)" using n x by simp_all
    have rc: "recorded_ok x a (fs_db s)" "counted_ok a p (fs_db s)" using own pc by simp_all
    have crm: "crm_step x (fs_db s) = db"
      using commit_fold_is_fold_event [OF one rc] rc(1) x db(2) by (simp add: recorded_ok_def)
    have "unshared event_lock ((fs_txs s)[i := (x, F_Over Folded)])" "unshared case_lock ((fs_txs s)[i := (x, F_Over Folded)])"
      by (rule unshared_update [OF ev], simp, rule unshared_update [OF cs], simp)
    moreover have "fold_ok db (fs_txs s ! j)" if "j < length (fs_txs s)" "j \<noteq> i" for j
      unfolding db(2) using unshared_apart [OF ev i(1) that] unshared_apart [OF cs i(1) that] i(2) pc txs [OF that(1)]
      by (intro commit_fold_keeps) auto
    ultimately have "folds_ok (fold_step i s)"
      using commit_fold_one_row [OF one] i(1) db by (simp add: step folds_ok_def list_all_length nth_list_update)
    moreover have "event_key a = (fst x, ev_id (snd x))"
      using rc(1) by (cases a) (simp add: recorded_ok_def event_key_def)
    then have "already_applied (fst x) (ev_id (snd x)) db" unfolding db(2) by simp
    ultimately show thesis using commit [of a p] pc step crm db(1) rc(1) by (simp add: recorded_ok_def)
  next
    case False
    then have own': "db = fs_db s" "fold_ok (fs_db s) (x, pc')"
      "event_lock (x, pc') = None \<or> event_lock (x, pc') = event_lock (x, pc) \<or>
        \<not> taken event_lock i (the (event_lock (x, pc'))) (fs_txs s)"
      "case_lock (x, pc') = None \<or> \<not> taken case_lock i (the (case_lock (x, pc'))) (fs_txs s)"
      using fold_next_own [OF n own] by blast+
    have "unshared event_lock ((fs_txs s)[i := (x, pc')])" "unshared case_lock ((fs_txs s)[i := (x, pc')])"
      using own'(3,4) i(2) by (auto intro!: unshared_update [OF ev] unshared_update [OF cs])
    then have "folds_ok (fold_step i s)"
      using one txs own'(2) i(1) own'(1) by (simp add: step folds_ok_def list_all_length nth_list_update)
    moreover have "pc = F_Over Folded \<longleftrightarrow> pc' = F_Over Folded"
      using n x False by (cases pc) (auto simp: record_event_def count_event_def split: option.splits if_splits)
    ultimately show thesis using quiet [of pc'] step own'(1) by simp
  qed
qed

lemma fold_step_ok: "folds_ok s \<Longrightarrow> folds_ok (fold_step i s)"
proof (cases "i < length (fs_txs s)")
  case True
  assume "folds_ok s"
  obtain x pc where "fs_txs s ! i = (x, pc)" by fastforce
  from fold_step_cases [OF \<open>folds_ok s\<close> True this] show ?thesis by metis
qed (simp add: fold_step_def)

interpretation fl: stateful fold_step folds_ok
  by unfold_locales (rule fold_step_ok)

section \<open>Concurrent projectors are serial\<close>

definition folded :: "fold_store \<Rightarrow> nat set" where
  "folded s = {k. k < length (fs_txs s) \<and> snd (fs_txs s ! k) = F_Over Folded}"

lemma fold_step_offers: "map fst (fs_txs (fold_step i s)) = map fst (fs_txs s)"
  by (auto simp: fold_step_def map_update list_update_id split: prod.split)
    (metis fst_conv length_map list_update_id nth_map)

lemma fold_run_offers: "map fst (fs_txs (fold_run xs (start_folds offers db))) = offers"
proof -
  have "map fst (fs_txs (fold_run xs s)) = map fst (fs_txs s)" for s
    by (induction xs arbitrary: s) (simp_all add: fold_run_def fold_step_offers)
  then show ?thesis by (simp add: start_folds_def o_def)
qed

lemma one_row_per_case_step: "one_row_per_case db \<Longrightarrow> one_row_per_case (crm_step x db)"
proof (cases x)
  case (Pair service ev)
  assume "one_row_per_case db"
  moreover have "map pr_case (update_where (\<lambda>p. pr_case p = c) (\<lambda>p. p\<lparr>pr_total := t, pr_events_applied := pr_events_applied p + 1\<rparr>) rows)
      = map pr_case rows" for c t rows
    by (rule map_update_where) simp
  ultimately show ?thesis unfolding Pair
    by (auto simp: one_row_per_case_def fold_event_def Let_def row_where_None split: option.split)
qed

lemma start_folds_ok: "folds_ok (start_folds offers (fold crm_step old empty_crm))"
proof -
  have "one_row_per_case (fold crm_step old db)" if "one_row_per_case db" for db
    using that by (induction old arbitrary: db) (simp_all add: one_row_per_case_step)
  then have "one_row_per_case (fold crm_step old empty_crm)" by (simp add: one_row_per_case_def empty_crm_def)
  then show ?thesis
    by (auto simp: folds_ok_def start_folds_def list_all_iff intro!: none_unshared)
qed

definition offer_key :: "string \<times> event \<Rightarrow> string \<times> int" where
  "offer_key x = (fst x, ev_id (snd x))"

lemma already_applied_step: "already_applied service i db \<Longrightarrow> already_applied service i (crm_step x db)"
  by (cases x) (auto simp: already_applied_iff dest!: fold_event_applied split: option.split)

text \<open>The turns of the folds that have succeeded, with their events applied.\<close>

definition in_turn :: "(string \<times> event) list \<Rightarrow> (string \<times> event) list \<Rightarrow> fold_store \<Rightarrow> nat list \<Rightarrow> bool" where
  "in_turn old offers s turns \<longleftrightarrow> distinct (map (offer_key \<circ> (!) offers) turns) \<and> set turns = folded s \<and>
     fs_db s = fold crm_step (old @ map ((!) offers) turns) empty_crm \<and>
     list_all (\<lambda>k. already_applied (fst (offers ! k)) (ev_id (snd (offers ! k))) (fs_db s)) turns"

lemma fold_step_in_turn:
  assumes ok: "folds_ok s" and offers: "map fst (fs_txs s) = offers" and turns: "in_turn old offers s turns"
  shows "\<exists>turns. in_turn old offers (fold_step i s) turns"
proof (cases "i < length (fs_txs s)")
  case True
  obtain x pc where x: "fs_txs s ! i = (x, pc)" by fastforce
  have offer: "offers ! i = x" using x True offers by (metis fst_conv nth_map)
  show ?thesis
  proof (cases rule: fold_step_cases [OF ok True x])
    case (1 pc')
    then have "folded (fold_step i s) = folded s" using x True by (auto simp: folded_def nth_list_update)
    moreover have "fs_db (fold_step i s) = fs_db s" using 1(1) by simp
    ultimately have "in_turn old offers (fold_step i s) turns = in_turn old offers s turns" by (simp only: in_turn_def)
    then show ?thesis using turns by blast
  next
    case (2 a p)
    have "folded (fold_step i s) = insert i (folded s)" using True 2(5) by (auto simp: folded_def nth_list_update)
    moreover have "offer_key x \<notin> (offer_key \<circ> (!) offers) ` set turns"
      using turns 2(3) by (auto simp: in_turn_def list_all_iff offer_key_def)
    moreover have "fs_db (fold_step i s) = crm_step x (fs_db s)" using 2(5) by simp
    moreover have "already_applied (fst (offers ! k)) (ev_id (snd (offers ! k))) (crm_step x (fs_db s))" if "k \<in> set turns" for k
    proof (rule already_applied_step)
      show "already_applied (fst (offers ! k)) (ev_id (snd (offers ! k))) (fs_db s)"
        using turns that unfolding in_turn_def list_all_iff by blast
    qed
    ultimately have "in_turn old offers (fold_step i s) (turns @ [i])"
      using turns offer 2(4) by (auto simp: in_turn_def list_all_iff simp del: crm_step.simps)
    then show ?thesis by blast
  qed
qed (use turns in \<open>auto simp: fold_step_def\<close>)

lemma fold_run_in_turn:
  "\<exists>turns. in_turn old offers (fold_run xs (start_folds offers (fold crm_step old empty_crm))) turns"
proof (induction xs rule: rev_induct)
  case Nil
  show ?case by (rule exI [of _ "[]"]) (auto simp: in_turn_def fold_run_def start_folds_def folded_def)
next
  case (snoc i xs)
  have "folds_ok (fold_run xs (start_folds offers (fold crm_step old empty_crm)))"
    unfolding fold_run_def by (rule fl.run_inv [OF start_folds_ok])
  from fold_step_in_turn [OF this fold_run_offers] snoc.IH show ?case by (auto simp: fold_run_def)
qed

text \<open>
  C20. Projectors that run at the same time are as good as one. Whatever events have been offered
  to the CRM before, let any number of folds overlap, statement by statement and in any order,
  of different events or of the same event several times: the committed projection is the one
  that the folds which succeeded produce one after the other, and no two of these were of the
  same event; a fold that is still open, has failed or has found its event known has left
  nothing. So the totals miss none of them and count none twice.
\<close>

theorem concurrent_projectors_are_serial:
  "\<exists>turns. set turns = folded (fold_run xs (start_folds offers (fold crm_step old empty_crm)))
     \<and> distinct (map (\<lambda>k. offer_key (offers ! k)) turns)
     \<and> fs_db (fold_run xs (start_folds offers (fold crm_step old empty_crm)))
       = fold crm_step (old @ map ((!) offers) turns) empty_crm"
  using fold_run_in_turn [of old offers xs] by (auto simp: in_turn_def o_def)

section \<open>No deadlock\<close>

lemma fold_moves:
  assumes "i < length (fs_txs s)" "fs_txs s ! i = (x, pc)" "fst (fold_next i x pc (fs_txs s) (fs_db s)) \<noteq> pc"
  shows "fold_step i s \<noteq> s"
proof
  assume same: "fold_step i s = s"
  obtain pc' db where n: "fold_next i x pc (fs_txs s) (fs_db s) = (pc', db)" by fastforce
  have "fs_txs (fold_step i s) ! i = (x, pc')" using assms(1) by (simp add: fold_step_eq [OF assms(1,2) n])
  then show False using same assms(2,3) n by simp
qed

lemma counting_moves:
  assumes "i < length (fs_txs s)" "case_lock (fs_txs s ! i) = Some c"
  shows "fold_step i s \<noteq> s"
proof -
  obtain service ev pc where x: "fs_txs s ! i = ((service, ev), pc)" by (cases "fs_txs s ! i") auto
  then obtain a p where "pc = F_Counted a p" using assms(2) by (cases pc) auto
  then show ?thesis by (intro fold_moves [OF assms(1) x]) simp
qed

lemma recording_moves:
  assumes "i < length (fs_txs s)" "event_lock (fs_txs s ! i) = Some e"
  shows "\<exists>j<length (fs_txs s). fold_step j s \<noteq> s"
proof -
  obtain x pc where x: "fs_txs s ! i = (x, pc)" by fastforce
  obtain service ev where "x = (service, ev)" by fastforce
  note x = x [unfolded this]
  consider a where "pc = F_Recorded a" | a p where "pc = F_Counted a p" using assms(2) x by (cases pc) auto
  then show ?thesis
  proof cases
    case (1 a)
    show ?thesis
    proof (cases "taken case_lock i (ap_case a) (fs_txs s)")
      case True
      then show ?thesis using counting_moves by (auto simp: taken_iff)
    next
      case False
      then show ?thesis using 1 assms(1)
        by (intro exI [of _ i] conjI fold_moves [OF _ x]) (auto simp: count_event_def split: option.split)
    qed
  next
    case (2 a p)
    then show ?thesis using counting_moves [OF assms(1)] assms(1) x by auto
  qed
qed

text \<open>
  Concurrent projectors cannot block each other for ever: in any state in which some fold is
  not over, some transaction can execute its next statement.
\<close>

lemma some_fold_goes_on:
  assumes "t \<in> set (fs_txs s)" "\<And>r. snd t \<noteq> F_Over r"
  shows "\<exists>i<length (fs_txs s). fold_step i s \<noteq> s"
proof -
  obtain i where i: "i < length (fs_txs s)" "fs_txs s ! i = t" using assms(1) by (auto simp: in_set_conv_nth)
  obtain service ev pc where t: "t = ((service, ev), pc)" by (cases t) auto
  note x = i(2) [unfolded t]
  show ?thesis
  proof (cases pc)
    case F_Start
    then show ?thesis using i(1) by (intro exI [of _ i] conjI fold_moves [OF _ x]) simp_all
  next
    case F_New
    show ?thesis
    proof (cases "taken event_lock i (service, ev_id ev) (fs_txs s)")
      case True
      then show ?thesis using recording_moves by (auto simp: taken_iff)
    next
      case False
      then show ?thesis using i(1) F_New
        by (intro exI [of _ i] conjI fold_moves [OF _ x]) (auto simp: record_event_def split: option.split)
    qed
  next
    case (F_Over r)
    then show ?thesis using assms(2) [of r] t by simp
  qed (use recording_moves [OF i(1)] x in auto)
qed

text \<open>
  The same event folded by two projectors at once, as when a bus delivers it twice: it is
  counted once, and the second projector's run ends with a server error.
\<close>

lemma same_event_at_once:
  "let x = (''billing'', \<lparr>ev_id = 1, ev_case = ''c'', ev_amount = 300\<rparr>);
       s = fold_run [0, 1, 0, 1, 0, 1, 0, 1] (start_folds [x, x] empty_crm) in
   map snd (fs_txs s) = [F_Over Folded, F_Over Fold_Collision] \<and> get_compensation ''c'' (fs_db s) = (300, 1)"
  by code_simp

end
