(* ===== verification/Settlement.thy ===== *)
theory Settlement
  imports Llm Holds
begin

text \<open>
  How the agents settle their holds, between theory Holds, where a hold that is settled twice can
  get past the ceiling, and the agents' programs of calls. The theorem: the diligent agent
  settles one hold at most, once, and it is the one it was granted, whatever it is answered; so
  diligent agents with holds of their own are requests of the kind that keep the ceiling. The
  model-driven agent may settle a hold twice.
\<close>

section \<open>Along a sequence of answers\<close>

definition settled_by :: "call \<Rightarrow> int list" where
  "settled_by c = (case c of Release_Call i \<Rightarrow> [i] | Commit_Call i \<Rightarrow> [i] | _ \<Rightarrow> [])"

definition granted_by :: "call \<Rightarrow> answer \<Rightarrow> int list" where
  "granted_by c a = (case c of Reserve_Call cid amount key authorized \<Rightarrow>
       (case a of Grant_Answer (Some i) \<Rightarrow> [i] | _ \<Rightarrow> []) | _ \<Rightarrow> [])"

fun settled_along :: "answer list \<Rightarrow> agent \<Rightarrow> int list" where
  "settled_along (a # as) (Call c k) = settled_by c @ settled_along as (k a)"
| "settled_along as p = []"

fun granted_along :: "answer list \<Rightarrow> agent \<Rightarrow> int list" where
  "granted_along (a # as) (Call c k) = granted_by c a @ granted_along as (k a)"
| "granted_along as p = []"

text \<open>What follows a grant, or no grant; and a program from its start.\<close>

definition settles_at_most :: "int option \<Rightarrow> agent \<Rightarrow> bool" where
  "settles_at_most rid p \<longleftrightarrow> (\<forall>as. granted_along as p = [] \<and>
     (settled_along as p = [] \<or> (\<exists>i. rid = Some i \<and> settled_along as p = [i])))"

definition settles_its_grant :: "agent \<Rightarrow> bool" where
  "settles_its_grant p \<longleftrightarrow> (\<forall>as. settled_along as p = [] \<or>
     (\<exists>i. settled_along as p = [i] \<and> granted_along as p = [i]))"

definition plain_call :: "call \<Rightarrow> bool" where
  "plain_call c \<longleftrightarrow> settled_by c = [] \<and> (\<forall>a. granted_by c a = [])"

lemma plain_calls [simp]:
  "plain_call (Checkpoint_Call n)" "plain_call (Total_Call sv cid)" "plain_call (Create_Call sv cid amount key)"
  by (simp_all add: plain_call_def settled_by_def granted_by_def)

lemma at_most_Return [simp]: "settles_at_most rid (Return r)"
  by (simp add: settles_at_most_def)

lemma its_grant_Return [simp]: "settles_its_grant (Return r)"
  by (simp add: settles_its_grant_def)

lemma at_most_Call:
  assumes "plain_call c" "\<And>a. settles_at_most rid (k a)" shows "settles_at_most rid (Call c k)"
  unfolding settles_at_most_def
proof
  fix as
  show "granted_along as (Call c k) = [] \<and>
      (settled_along as (Call c k) = [] \<or> (\<exists>i. rid = Some i \<and> settled_along as (Call c k) = [i]))"
    using assms by (cases as) (simp_all add: plain_call_def settles_at_most_def)
qed

lemma its_grant_Call:
  assumes "plain_call c" "\<And>a. settles_its_grant (k a)" shows "settles_its_grant (Call c k)"
  unfolding settles_its_grant_def
proof
  fix as
  show "settled_along as (Call c k) = [] \<or>
      (\<exists>i. settled_along as (Call c k) = [i] \<and> granted_along as (Call c k) = [i])"
    using assms by (cases as) (simp_all add: plain_call_def settles_its_grant_def)
qed

lemma at_most_none: "settles_at_most None p \<Longrightarrow> settles_its_grant p"
  by (auto simp: settles_at_most_def settles_its_grant_def)

lemma its_grant_call_or_raise:
  "plain_call c \<Longrightarrow> (\<And>a. settles_its_grant (k a)) \<Longrightarrow> settles_its_grant (call_or_raise c k)"
  unfolding call_or_raise_def by (rule its_grant_Call) (auto split: answer.split)

text \<open>A settlement ends the program; a reservation starts what may settle it.\<close>

lemma at_most_settle:
  assumes "c = Release_Call i \<or> c = Commit_Call i" "\<And>a. \<exists>r. k a = Return r"
  shows "settles_at_most (Some i) (Call c k)"
  unfolding settles_at_most_def
proof
  fix as
  show "granted_along as (Call c k) = [] \<and>
      (settled_along as (Call c k) = [] \<or> (\<exists>j. Some i = Some j \<and> settled_along as (Call c k) = [j]))"
  proof (cases as)
    case (Cons a bs)
    obtain r where "k a = Return r" using assms(2) by blast
    then show ?thesis using assms(1) Cons by (cases bs) (auto simp: settled_by_def granted_by_def)
  qed simp
qed

lemma its_grant_reserve:
  assumes "\<And>i. settles_at_most (Some i) (k (Grant_Answer (Some i)))"
    and "\<And>a. (\<And>i. a \<noteq> Grant_Answer (Some i)) \<Longrightarrow> settles_at_most None (k a)"
  shows "settles_its_grant (Call (Reserve_Call cid amount key authorized) k)"
  unfolding settles_its_grant_def
proof
  fix as
  show "settled_along as (Call (Reserve_Call cid amount key authorized) k) = [] \<or>
      (\<exists>i. settled_along as (Call (Reserve_Call cid amount key authorized) k) = [i] \<and>
        granted_along as (Call (Reserve_Call cid amount key authorized) k) = [i])"
  proof (cases as)
    case (Cons a bs)
    show ?thesis
    proof (cases "\<exists>i. a = Grant_Answer (Some i)")
      case True
      then obtain i where "a = Grant_Answer (Some i)" by blast
      then show ?thesis using assms(1) [of i] Cons
        by (auto simp: settles_at_most_def settled_by_def granted_by_def)
    next
      case False
      then have "settles_at_most None (k a)" using assms(2) by blast
      then show ?thesis using Cons by (auto simp: settles_at_most_def settled_by_def)
    qed
  qed simp
qed

section \<open>The diligent agent\<close>

lemma settle_hold_once: "settles_at_most rid (settle_hold cl rid)"
  by (cases rid) (auto simp: settle_hold_def call_or_raise_def intro!: at_most_settle split: answer.split)

lemma unwind_hold_once: "settles_at_most rid (unwind_hold cl rid e)"
  by (cases rid) (auto simp: unwind_hold_def call_or_raise_def intro!: at_most_settle split: answer.split)

lemma act_once: "settles_at_most rid (act cid cfg cl rid)"
proof -
  have "settles_at_most rid (second_try cid cfg cl rid)"
    unfolding second_try_def create_call_def
    by (intro at_most_Call) (auto intro: settle_hold_once unwind_hold_once split: answer.split)
  then show ?thesis unfolding act_def create_call_def
    by (intro at_most_Call) (auto intro: settle_hold_once unwind_hold_once split: answer.split)
qed

lemma ask_for_hold_once: "settles_its_grant (ask_for_hold cid cfg cl)"
  unfolding ask_for_hold_def call_or_raise_def
  by (rule its_grant_reserve) (auto intro: act_once split: answer.split option.split)

lemma decide_once: "settles_its_grant (decide cid cfg cl observed)"
proof -
  have "settles_its_grant (act cid cfg cl None)" by (rule at_most_none [OF act_once])
  moreover have "settles_its_grant (call_or_raise (Checkpoint_Call ''agent.before_reserve'') (\<lambda>_. ask_for_hold cid cfg cl))"
    by (rule its_grant_call_or_raise) (simp_all add: ask_for_hold_once)
  ultimately show ?thesis by (simp add: decide_def)
qed

text \<open>
  C18. The diligent agent settles its hold once. Whatever the services answer, exceptions and lost
  replies included, and wherever the run is cut off: it has released or committed nothing, or
  exactly one hold, exactly once, and that is the hold its reservation was granted.
\<close>

theorem diligent_agent_settles_once:
  "settled_along answers (run_case cid cfg cl) = [] \<or>
     (\<exists>i. settled_along answers (run_case cid cfg cl) = [i] \<and> granted_along answers (run_case cid cfg cl) = [i])"
proof -
  have observe: "settles_its_grant (observed_compensation cid cl k)" if "\<And>d. settles_its_grant (k d)" for k
    using that unfolding observed_compensation_def by (auto intro!: its_grant_call_or_raise)
  have "settles_its_grant (run_case cid cfg cl)"
    unfolding run_case_def by (auto intro!: its_grant_call_or_raise observe decide_once)
  then show ?thesis by (simp add: settles_its_grant_def)
qed

section \<open>The model-driven agent\<close>

text \<open>A model that reserves, and then declines and issues in one reply: its hold is released and then committed.\<close>

definition declining_and_issuing :: model where
  "declining_and_issuing messages tools = Inr
     \<lparr>mr_tool_calls = map (\<lambda>n. \<lparr>tc_id = n, tc_name = n, tc_arguments = J_Object []\<rparr>)
        (if length messages = 2 then [''reserve_budget''] else [''decline'', ''issue_refund'']), mr_text = None\<rparr>"

lemma model_driven_agent_may_settle_twice:
  assumes "cf_action cfg = ''refund''" "cl = \<lparr>has_crm = False, has_reserve = True, has_release = True, has_commit = True\<rparr>"
  shows "settled_along [Grant_Answer (Some i), Done_Answer, Done_Answer, Done_Answer]
     (llm_run_case (Some declining_and_issuing) cid cfg cl) = [i, i]"
  using assms by (simp add: llm_run_case_def MAX_STEPS_def eval_nat_numeral declining_and_issuing_def dispatch_def
      dispatch_reserve_def dispatch_decline_def dispatch_issue_def call_or_raise_def remember_def new_transcript_def
      create_call_def settled_by_def Let_def)

end
