(* ===== verification/Provider.thy ===== *)
theory Provider
  imports Llm
begin

text \<open>
  \<^verbatim>\<open>agents/llm/model.py\<close>: the client that asks a model through a provider's API. The API is a
  parameter, a function from the request to a list of choices or an exception; so is
  \<open>json.loads\<close>, a function from a text to a value or to \<open>JSONDecodeError\<close>. The lemmas: a reply is
  exactly the provider's first choice, call for call, or an exception; and arguments that are
  no JSON end the agent before it has called anything.
\<close>

section \<open>The client\<close>

record deepseek =
  dk_model :: string
  dk_temperature :: decimal
  dk_base_url :: string
  dk_max_tokens :: nat

definition default_deepseek :: deepseek where
  "default_deepseek = \<lparr>dk_model = ''deepseek-chat'', dk_temperature = 0, dk_base_url = ''https://api.deepseek.com'',
     dk_max_tokens = 512\<rparr>"

text \<open>What the provider answers; \<open>None\<close> and the empty text are both possible where the API says null.\<close>

record provider_call =
  pc_id :: string
  pc_name :: string
  pc_arguments :: "string option"

record provider_message =
  pm_tool_calls :: "provider_call list option"
  pm_content :: "string option"

type_synonym provider_api =
  "deepseek \<Rightarrow> string \<Rightarrow> message list \<Rightarrow> tool list \<Rightarrow> string + provider_message list"

definition arguments_text :: "provider_call \<Rightarrow> string" where
  "arguments_text c = (case pc_arguments c of None \<Rightarrow> ''{}'' | Some t \<Rightarrow> if t = '''' then ''{}'' else t)"

definition message_calls :: "provider_message \<Rightarrow> provider_call list" where
  "message_calls m = (case pm_tool_calls m of None \<Rightarrow> [] | Some cs \<Rightarrow> cs)"

fun read_calls :: "(string \<Rightarrow> json option) \<Rightarrow> provider_call list \<Rightarrow> agent_exn + tool_call list" where
  "read_calls json_loads [] = Inr []"
| "read_calls json_loads (c # cs) =
     (case json_loads (arguments_text c) of
        None \<Rightarrow> Inl Model_Unavailable
      | Some arguments \<Rightarrow>
        (case read_calls json_loads cs of Inl e \<Rightarrow> Inl e
         | Inr ts \<Rightarrow> Inr (\<lparr>tc_id = pc_id c, tc_name = pc_name c, tc_arguments = arguments\<rparr> # ts)))"

text \<open>The key is read at every call; \<open>choices[0]\<close> of no choice raises an \<open>IndexError\<close> that nobody turns.\<close>

definition deepseek_reply ::
  "deepseek \<Rightarrow> string option \<Rightarrow> provider_api \<Rightarrow> (string \<Rightarrow> json option) \<Rightarrow> message list \<Rightarrow> tool list \<Rightarrow>
     agent_exn + model_reply" where
  "deepseek_reply self api_key provider json_loads messages tools =
     (case api_key of None \<Rightarrow> Inl Model_Unavailable
      | Some key \<Rightarrow>
        if key = '''' then Inl Model_Unavailable
        else (case provider self key messages tools of
            Inl exc \<Rightarrow> Inl Model_Unavailable
          | Inr [] \<Rightarrow> Inl Index_Error
          | Inr (m # _) \<Rightarrow>
            (case read_calls json_loads (message_calls m) of Inl e \<Rightarrow> Inl e
             | Inr calls \<Rightarrow> Inr \<lparr>mr_tool_calls = calls, mr_text = pm_content m\<rparr>)))"

section \<open>A reply is the provider's first choice\<close>

lemma read_calls_iff:
  "read_calls json_loads cs = Inr ts \<longleftrightarrow>
     list_all2 (\<lambda>c t. tc_id t = pc_id c \<and> tc_name t = pc_name c \<and>
       json_loads (arguments_text c) = Some (tc_arguments t)) cs ts"
proof (induction cs arbitrary: ts)
  case (Cons c cs)
  show ?case
  proof (cases ts)
    case Nil
    then show ?thesis by (simp split: option.split sum.split)
  next
    case ts: (Cons t us)
    have "read_calls json_loads (c # cs) = Inr (t # us) \<longleftrightarrow> (\<exists>x. json_loads (arguments_text c) = Some x \<and>
        t = \<lparr>tc_id = pc_id c, tc_name = pc_name c, tc_arguments = x\<rparr>) \<and> read_calls json_loads cs = Inr us"
      by (simp split: option.split sum.split) blast
    moreover have "(\<exists>x. json_loads (arguments_text c) = Some x \<and>
        t = \<lparr>tc_id = pc_id c, tc_name = pc_name c, tc_arguments = x\<rparr>) \<longleftrightarrow>
      tc_id t = pc_id c \<and> tc_name t = pc_name c \<and> json_loads (arguments_text c) = Some (tc_arguments t)"
      by (cases t) auto
    ultimately show ?thesis by (simp add: ts Cons.IH)
  qed
qed auto

text \<open>
  Nothing is degraded on the way from the provider. The client returns a reply exactly when
  there is a key, the provider has answered with a choice and the arguments of every call of
  the first choice are JSON; the reply then has its text and its calls, each under its id and
  its name, in order, with the arguments as parsed. Everything else raises.
\<close>

lemma reply_is_the_first_choice:
  "deepseek_reply self api_key provider json_loads messages tools = Inr reply \<longleftrightarrow>
     (\<exists>key m rest. api_key = Some key \<and> key \<noteq> '''' \<and> provider self key messages tools = Inr (m # rest) \<and>
        mr_text reply = pm_content m \<and>
        list_all2 (\<lambda>c t. tc_id t = pc_id c \<and> tc_name t = pc_name c \<and>
          json_loads (arguments_text c) = Some (tc_arguments t)) (message_calls m) (mr_tool_calls reply))"
proof -
  have "deepseek_reply self api_key provider json_loads messages tools = Inr reply \<longleftrightarrow>
     (\<exists>key m rest. api_key = Some key \<and> key \<noteq> '''' \<and> provider self key messages tools = Inr (m # rest) \<and>
        mr_text reply = pm_content m \<and> read_calls json_loads (message_calls m) = Inr (mr_tool_calls reply))"
    (is "_ = ?R")
  proof
    assume "deepseek_reply self api_key provider json_loads messages tools = Inr reply"
    then show ?R by (auto simp: deepseek_reply_def split: option.splits if_splits sum.splits list.splits)
  next
    assume ?R
    then obtain key m rest where m: "api_key = Some key" "key \<noteq> ''''" "provider self key messages tools = Inr (m # rest)"
      "mr_text reply = pm_content m" "read_calls json_loads (message_calls m) = Inr (mr_tool_calls reply)"
      by blast
    then show "deepseek_reply self api_key provider json_loads messages tools = Inr reply"
      by (cases reply) (simp add: deepseek_reply_def)
  qed
  then show ?thesis unfolding read_calls_iff .
qed

section \<open>In front of the agent\<close>

definition deepseek_model :: "deepseek \<Rightarrow> string option \<Rightarrow> provider_api \<Rightarrow> (string \<Rightarrow> json option) \<Rightarrow> model" where
  "deepseek_model self api_key provider json_loads = deepseek_reply self api_key provider json_loads"

lemma unreadable_calls_raise:
  "c \<in> set cs \<Longrightarrow> json_loads (arguments_text c) = None \<Longrightarrow> read_calls json_loads cs = Inl Model_Unavailable"
  by (induction cs) (auto split: option.split sum.split)

text \<open>
  A first reply with arguments that are no JSON, in whichever of its calls, ends the agent with
  the exception; the calls before it are not executed either.
\<close>

lemma malformed_arguments_stop_the_agent:
  assumes "cf_action cfg \<in> {''refund'', ''credit''}" "key \<noteq> ''''"
    and "\<And>messages tools. \<exists>m rest. provider self key messages tools = Inr (m # rest) \<and>
      (\<exists>c\<in>set (message_calls m). json_loads (arguments_text c) = None)"
  shows "llm_run_case (Some (deepseek_model self (Some key) provider json_loads)) cid cfg cl = Return (Inl Model_Unavailable)"
proof -
  have "deepseek_reply self (Some key) provider json_loads messages tools = Inl Model_Unavailable" for messages tools
    using assms(2) assms(3) [of messages tools]
    by (auto simp: deepseek_reply_def dest: unreadable_calls_raise [where json_loads = json_loads])
  then show ?thesis using assms(1) by (simp add: llm_run_case_def deepseek_model_def MAX_STEPS_def eval_nat_numeral)
qed

end
