(* ===== verification/Access.thy ===== *)
theory Access
  imports Oracle
begin

text \<open>
  What the oracle may do and where: \<^verbatim>\<open>grant_readonly\<close> of \<^verbatim>\<open>oracle/quiescence.py\<close> as the statements it
  executes on a server's roles and privileges, and \<^verbatim>\<open>build_manifest\<close> of \<^verbatim>\<open>oracle/manifest.py\<close> with what it asks
  the servers and git. The lemmas: whatever the privileges were, the judge can read every
  table and write none, now and in tables to come; and what the topology check does not see.
\<close>

section \<open>Roles and privileges\<close>

datatype privilege = P_Select | P_Insert | P_Update | P_Delete | P_Truncate

record pg_server =
  pg_roles :: "string set"
  pg_connect :: "(string \<times> string) set"
  pg_usage :: "string set"
  pg_tables :: "(string \<times> (string \<times> privilege) set) list"
  pg_default_acl :: "(string \<times> privilege) set"

datatype pg_statement =
    Create_Role string
  | Grant_Connect string string
  | Grant_Usage string
  | Grant_Select_On_All string
  | Default_Grant_Select string
  | Revoke_Writes_On_All string

definition writes :: "privilege set" where
  "writes = {P_Insert, P_Update, P_Delete, P_Truncate}"

text \<open>A statement, in autocommit; \<open>None\<close> where it raises: the role exists already, or it does not.\<close>

fun execute :: "pg_statement \<Rightarrow> pg_server \<Rightarrow> pg_server option" where
  "execute (Create_Role role) s = (if role \<in> pg_roles s then None else Some (s\<lparr>pg_roles := insert role (pg_roles s)\<rparr>))"
| "execute (Grant_Connect database role) s =
     (if role \<notin> pg_roles s then None else Some (s\<lparr>pg_connect := insert (database, role) (pg_connect s)\<rparr>))"
| "execute (Grant_Usage role) s =
     (if role \<notin> pg_roles s then None else Some (s\<lparr>pg_usage := insert role (pg_usage s)\<rparr>))"
| "execute (Grant_Select_On_All role) s =
     (if role \<notin> pg_roles s then None
      else Some (s\<lparr>pg_tables := map (\<lambda>(t, acl). (t, insert (role, P_Select) acl)) (pg_tables s)\<rparr>))"
| "execute (Default_Grant_Select role) s =
     (if role \<notin> pg_roles s then None else Some (s\<lparr>pg_default_acl := insert (role, P_Select) (pg_default_acl s)\<rparr>))"
| "execute (Revoke_Writes_On_All role) s =
     (if role \<notin> pg_roles s then None
      else Some (s\<lparr>pg_tables := map (\<lambda>(t, acl). (t, acl - {role} \<times> writes)) (pg_tables s)\<rparr>))"

fun execute_all :: "pg_statement list \<Rightarrow> pg_server \<Rightarrow> pg_server option" where
  "execute_all [] s = Some s"
| "execute_all (x # xs) s = (case execute x s of None \<Rightarrow> None | Some s' \<Rightarrow> execute_all xs s')"

text \<open>A table created later by the owner who set the default privileges.\<close>

definition create_table :: "string \<Rightarrow> pg_server \<Rightarrow> pg_server" where
  "create_table t s = s\<lparr>pg_tables := pg_tables s @ [(t, pg_default_acl s)]\<rparr>"

text \<open>What a role may do with a table, by its own privileges: it owns none and is a member of no other role.\<close>

definition may :: "string \<Rightarrow> privilege \<Rightarrow> string \<times> (string \<times> privilege) set \<Rightarrow> pg_server \<Rightarrow> bool" where
  "may role p table s \<longleftrightarrow> role \<in> pg_roles s \<and> role \<in> pg_usage s \<and> (role, p) \<in> snd table"

section \<open>The grants of the oracle\<close>

definition READONLY_USER :: string where
  "READONLY_USER = ''oracle_ro''"

definition grant_statements :: "string \<Rightarrow> pg_server \<Rightarrow> pg_statement list" where
  "grant_statements service s =
     (if READONLY_USER \<in> pg_roles s then [] else [Create_Role READONLY_USER]) @
     [Grant_Connect service READONLY_USER, Grant_Usage READONLY_USER, Grant_Select_On_All READONLY_USER,
      Default_Grant_Select READONLY_USER, Revoke_Writes_On_All READONLY_USER]"

definition OWNER_SERVICES :: "string list" where
  "OWNER_SERVICES = [''billing'', ''ledger'']"

definition grant_service :: "string \<Rightarrow> (string \<Rightarrow> pg_server) \<Rightarrow> (string \<Rightarrow> pg_server) option" where
  "grant_service service servers =
     map_option (\<lambda>s. servers(service := s)) (execute_all (grant_statements service (servers service)) (servers service))"

fun grant_each :: "string list \<Rightarrow> (string \<Rightarrow> pg_server) \<Rightarrow> (string \<Rightarrow> pg_server) option" where
  "grant_each [] servers = Some servers"
| "grant_each (service # services) servers =
     (case grant_service service servers of None \<Rightarrow> None | Some servers' \<Rightarrow> grant_each services servers')"

definition grant_readonly :: "(string \<Rightarrow> pg_server) \<Rightarrow> (string \<Rightarrow> pg_server) option" where
  "grant_readonly servers = grant_each OWNER_SERVICES servers"

text \<open>What the statements amount to on one server.\<close>

definition granted :: "string \<Rightarrow> pg_server \<Rightarrow> pg_server" where
  "granted service s = s\<lparr>pg_roles := insert READONLY_USER (pg_roles s),
     pg_connect := insert (service, READONLY_USER) (pg_connect s),
     pg_usage := insert READONLY_USER (pg_usage s),
     pg_tables := map (\<lambda>(t, acl). (t, insert (READONLY_USER, P_Select) acl - {READONLY_USER} \<times> writes)) (pg_tables s),
     pg_default_acl := insert (READONLY_USER, P_Select) (pg_default_acl s)\<rparr>"

lemma granted_once: "execute_all (grant_statements service s) s = Some (granted service s)"
  by (cases "READONLY_USER \<in> pg_roles s")
    (auto simp: grant_statements_def granted_def writes_def insert_absorb intro!: pg_server.equality)

lemma grant_readonly_is:
  "grant_readonly servers =
     Some (servers(''billing'' := granted ''billing'' (servers ''billing''), ''ledger'' := granted ''ledger'' (servers ''ledger'')))"
  by (simp add: grant_readonly_def OWNER_SERVICES_def grant_service_def granted_once)

lemma granted_twice: "granted service (granted service s) = granted service s"
  by (rule pg_server.equality) (auto simp: granted_def writes_def)

lemma default_tables:
  "pg_roles (fold create_table ts s) = pg_roles s" "pg_usage (fold create_table ts s) = pg_usage s"
  "pg_default_acl (fold create_table ts s) = pg_default_acl s"
  "pg_tables (fold create_table ts s) = pg_tables s @ map (\<lambda>t. (t, pg_default_acl s)) ts"
  by (induction ts arbitrary: s) (auto simp: create_table_def)

text \<open>
  The judge reads and does not write. On any two servers, with or without the role and
  whatever it was granted on the tables, \<open>grant_readonly\<close> raises nothing, running it again
  changes nothing, and afterwards the oracle's role may read every table of both services and
  write none; this includes tables created later, unless the owner's default privileges let the
  role write, which \<open>grant_readonly\<close> does not take back.
\<close>

lemma oracle_reads_and_does_not_write:
  "\<exists>servers'. grant_readonly servers = Some servers' \<and> grant_readonly servers' = Some servers' \<and>
     list_all (\<lambda>service. let s = fold create_table new (servers' service) in
       list_all (\<lambda>t. may READONLY_USER P_Select t s \<and>
         (\<forall>p. p \<in> writes \<and> may READONLY_USER p t s \<longrightarrow> fst t \<in> set new \<and> (READONLY_USER, p) \<in> pg_default_acl (servers service)))
         (pg_tables s)) OWNER_SERVICES"
proof -
  have "grant_readonly (servers(''billing'' := granted ''billing'' (servers ''billing''), ''ledger'' := granted ''ledger'' (servers ''ledger'')))
    = Some (servers(''billing'' := granted ''billing'' (servers ''billing''), ''ledger'' := granted ''ledger'' (servers ''ledger'')))"
    by (simp add: grant_readonly_is granted_twice fun_upd_twist)
  moreover have "list_all (\<lambda>t. may READONLY_USER P_Select t (fold create_table new (granted service s)) \<and>
      (\<forall>p. p \<in> writes \<and> may READONLY_USER p t (fold create_table new (granted service s)) \<longrightarrow>
        fst t \<in> set new \<and> (READONLY_USER, p) \<in> pg_default_acl s)) (pg_tables (fold create_table new (granted service s)))"
    for service s
    by (auto simp: list_all_iff may_def default_tables granted_def writes_def)
  ultimately show ?thesis
    by (auto simp: grant_readonly_is OWNER_SERVICES_def Let_def)
qed

section \<open>The manifest of a run\<close>

record database_facts =
  df_parts :: dsn_parts
  df_isolation_level :: string
  df_server_version :: string
  df_driver :: string
  df_driver_retries :: bool

record manifest =
  mf_git_sha :: string
  mf_topology_valid :: bool
  mf_topology_error :: "string option"
  mf_billing :: database_facts
  mf_ledger :: database_facts

text \<open>Git's answer, \<open>None\<close> when it raises; a server's answers to its two queries.\<close>

definition git_sha :: "string option \<Rightarrow> string" where
  "git_sha answer = (case answer of None \<Rightarrow> ''unknown'' | Some sha \<Rightarrow> sha)"

definition facts_of :: "(dsn_parts \<Rightarrow> string \<times> string) \<Rightarrow> dsn_parts \<Rightarrow> database_facts" where
  "facts_of server parts = (case server parts of (isolation, version) \<Rightarrow>
     \<lparr>df_parts = parts, df_isolation_level = isolation, df_server_version = version,
      df_driver = ''psycopg2'', df_driver_retries = False\<rparr>)"

definition shared_database :: string where
  "shared_database =
     ''billing and ledger share the same database -- there is a common transaction boundary, so the premise of the experiment is false''"

definition build_manifest ::
  "string option \<Rightarrow> (dsn_parts \<Rightarrow> string \<times> string) \<Rightarrow> dsn_parts \<Rightarrow> dsn_parts \<Rightarrow> manifest" where
  "build_manifest git server billing ledger =
     (let topology_error = (if topology_valid billing ledger then None else Some shared_database) in
      \<lparr>mf_git_sha = git_sha git, mf_topology_valid = (topology_error = None), mf_topology_error = topology_error,
       mf_billing = facts_of server billing, mf_ledger = facts_of server ledger\<rparr>)"

text \<open>
  The check sees two names, not two databases: one database reached under two names of its host,
  or once with its default port left out, is reported as a valid topology.
\<close>

lemma one_database_under_two_names:
  fixes name :: string
  defines "as_address \<equiv> \<lparr>dsn_host = Some ''127.0.0.1'', dsn_port = Some 5432, dsn_dbname = name, dsn_user = Some ''billing''\<rparr>"
  shows "mf_topology_valid (build_manifest git server as_address (as_address\<lparr>dsn_host := Some ''localhost''\<rparr>))"
    and "mf_topology_valid (build_manifest git server as_address (as_address\<lparr>dsn_port := None\<rparr>))"
    and "\<not> mf_topology_valid (build_manifest git server as_address (as_address\<lparr>dsn_user := Some ''ledger''\<rparr>))"
  by (simp_all add: build_manifest_def topology_valid_def as_address_def Let_def)

end
