(* ===== verification/Spec2Isabelle.thy ===== *)
theory Spec2Isabelle
  imports Mode_A Derailed Naturalistic Arms Pool Propagation Tracing Entitlements Schema Demo Service_Lab Catalog Render
    Purity Ownership Statements Holds Folds Settlement Provider Access
begin

text \<open>
  A verification development of agent-control-lab, a laboratory that shows how agents, each of
  them correct, break an invariant that no single service owns: the compensation of a case,
  refunds in Billing plus credits in Ledger, must not exceed what was authorised.

  \<^bold>\<open>The program.\<close> Two effect services (\<^verbatim>\<open>apps/billing\<close>, \<^verbatim>\<open>apps/ledger\<close>) commit effects under idempotency
  keys and publish them in an outbox. A CRM (\<^verbatim>\<open>apps/crm\<close>) projects the outboxes into a total that may
  be stale. A control service (\<^verbatim>\<open>apps/control\<close>) grants reservations against the ceiling. Agents
  (\<^verbatim>\<open>agents/diligent\<close>, \<^verbatim>\<open>agents/llm\<close>) read a total, decide, reserve if they have the control service, act,
  and settle. A coordinator (\<^verbatim>\<open>apps/coordinator\<close>) holds every checkpoint of agents, services and
  projector until the declared schedule names it. The runner (\<^verbatim>\<open>schedules/runner.py\<close>) starts a pool of
  actors on a schedule file, collects them, checks quiescence and asks the oracle (\<^verbatim>\<open>oracle\<close>), which
  reads the services' tables. Beside it a reconciler (\<^verbatim>\<open>apps/reconciliation\<close>) looks for operational
  anomalies.

  \<^bold>\<open>Theories and sources.\<close>
  \<^item> Lab_Prelude: money, SQL tables, the contract \<open>stateful\<close> of a component.
  \<^item> Schedules, Barriers, Coordinators: \<^verbatim>\<open>apps/coordinator\<close>. The schedule with its occurrence numbers;
    the barrier, whose blocking \<open>wait\<close> is cut at the condition variable; every handler as a step
    on the process's globals and its heap of barriers.
  \<^item> Authorization, Wire, Services, Propagation, Tracing: \<^verbatim>\<open>libs\<close>. Tokens, policy, enforcement, approvals;
    identity, checkpoints and request log; what a request carries; identity and trace from a caller to
    a service, over an HTTP whose promises about header values are named.
  \<^item> Effects, Billing, Ledger, Effect_Services, Schema: the effect services, their shared tables and
    decision log, their handlers, and the constraints of \<^verbatim>\<open>apps/*/migrations\<close>.
  \<^item> Locks, Statements, Holds, Folds: the transactions of the effect services, of the control service and
    of the projector, several open at once, one SQL statement a step, under READ COMMITTED.
  \<^item> Crm, Projection: \<^verbatim>\<open>apps/crm\<close>, the projector over the services' event endpoints.
  \<^item> Control, Entitlements: \<^verbatim>\<open>apps/control\<close> and \<^verbatim>\<open>apps/entitlements\<close> with \<^verbatim>\<open>oracle/entitlements.py\<close>.
  \<^item> Oracle, Access, Reconciliation: \<^verbatim>\<open>oracle\<close>, with the grants and the manifest in Access, and \<^verbatim>\<open>apps/reconciliation/worker.py\<close>.
  \<^item> Agents, Diligent, Llm, Provider: an agent is a tree of client calls (\<^verbatim>\<open>agents/diligent/clients.py\<close>), which
    \<open>perform\<close> answers by the modelled services; the two policies. The model of \<^verbatim>\<open>agents/llm\<close> is any function
    from the conversation to a reply.
  \<^item> Settlement: how often the agents settle their holds.
  \<^item> Coordination, Teams, Races, Serial: any number of agents, interleaved call by call.
  \<^item> Threads, Gates, Runner, Pool: the actors of a schedule cut at their checkpoints, an abstract
    scheduler of gates, \<^verbatim>\<open>schedules/runner.py\<close>, and \<^verbatim>\<open>agents/diligent/pool.py\<close> with its queues.
  \<^item> Gate_Refinement: the hub, actors in front of the modelled coordinator, refines the gates.
  \<^item> Stages, Fresh, Seats, Mode_A, Derailed: the twelve files \<^verbatim>\<open>schedules/*.yaml\<close>.
  \<^item> Naturalistic, Arms: \<^verbatim>\<open>schedules/naturalistic.py\<close> and \<^verbatim>\<open>schedules/llm_arms.py\<close>, runs without a schedule.
  \<^item> Ownership, Service_Lab, Demo, Purity, Catalog, Render: \<^verbatim>\<open>libs/procguard.py\<close>, \<^verbatim>\<open>libs/servicelab.py\<close> with
    \<^verbatim>\<open>demo/harness.py\<close>, \<^verbatim>\<open>demo/run.py\<close>, \<^verbatim>\<open>agents/diligent/purity.py\<close>, and \<^verbatim>\<open>catalog\<close>.

  \<^bold>\<open>Interfaces.\<close> \<open>stateful\<close> (Lab_Prelude): an invariant that operations keep. \<open>effect_store\<close> (Effects): an
  idempotent store of effects, provided by Billing and Ledger, relied on by agents and oracle.
  \<open>event_source\<close> (Crm): what the projector needs of an outbox, provided by the two services over
  HTTP. \<open>budget_authority\<close> (Coordination): what agents need of the control service, which provides it
  for holds without deadlines. Each is interpreted on the model's own definitions.

  \<^bold>\<open>What the lemmas show.\<close>
  \<^item> The barrier releases exactly the declared keys in the declared order, or the run is aborted and
    says so; with all actors arriving, the schedule completes. A 200 of \<^verbatim>\<open>/await\<close> means released.
  \<^item> The hub implements the gates: what holds for every run under the gates holds for the coordinator
    in front of real actors. With it every schedule file is followed through every order the
    operating system may choose: P1, P2, P3, P0, S1, S1H and S6 determine their verdicts, and
    S1C, S3, S4, S5 and S8 leave something to a race. Of S1C every run is CLEAN with the first effect or
    is aborted at one and the same undeclared checkpoint, and both happen.
  \<^item> One idempotency key has one effect, one event and one entry of the log, whatever requests are
    repeated or lost; a projector run that succeeds has caught up; no event is counted twice.
  \<^item> Statement by statement: overlapping transactions of the effect services, and of projectors, commit
    what they commit one after the other; reservations keep the ceiling behind their advisory
    lock. Transactions of the effect services and folds of the projectors cannot deadlock; those of the control
    service cannot as long as
    the scans of the expiry \<^verbatim>\<open>UPDATE\<close> meet their rows in one common order, which PostgreSQL does not
    promise: with opposite orders two of them do. What concurrency costs are server errors, and, if a
    hold has a deadline or is settled by two requests that overlap, the ceiling. Settlement shows that the diligent agent settles its hold once and
    that a model may make its agent settle one twice.
  \<^item> Agents that reserve stay within the ceiling in every interleaving, the diligent one as long as
    it learns of its effects, the model-driven one whatever the model says but for one
    combination of calls; without reservations the excess has a bound; serial agents with exact
    views need none. The lemmas about lost replies and expired holds are the ways around it.
  \<^item> The oracle's verdict is exact, its calibration rejects judges that always say the same, and the
    reconciler is blind to the ceiling on every state the program can reach.
  \<^item> The harness: the pool reports every job once the workers have come to rest, and its shutdown leaves
    no worker and loses only what had not been put by then; the demo leaves no process; the
    ownership walk ends on any process table and finds the foreign processes; the published
    catalogue calls reproduced what a test report bears out, or what was skipped for a declared reason.

  \<^bold>\<open>Choices and bounds.\<close> A \<open>Decimal\<close> is an exact rational, and the columns \<open>NUMERIC(12, 2)\<close> round and
  overflow as PostgreSQL does; times are integers, in microseconds where they come from a
  clock. Strings are character lists. A handler is one transaction. For the effect services and
  the projector, theories Statements and Folds show that this is what interleaved statements
  amount to; for the control service, whose \<open>release\<close> and \<open>commit\<close> nothing serialises, theory Control is
  about handlers that run one after the other, and theory Holds, which cuts them at their
  statements, says how much of the ceiling remains when they overlap. Outside Statements and Holds, sequences have no gaps: the values that a rollback would lose
  are used again. The runs of the gates are
  explored by rewriting with a bound on the number of steps which the statements carry: it is
  the number of calls and gates of all actors of the file, so that every thread has halted
  when it is reached. The hub's statements assume that no wait times out and no lease lapses,
  which is what the runner establishes afterwards from the release order; the results it
  collects are listed in the order of the actors. The bound on the ownership walk is the number of
  lines of the process table plus two.

  \<^bold>\<open>Parameters.\<close> The JWT library, the HTTP transport between the processes, OpenTelemetry, the operating
  system's processes, \<open>json.loads\<close>, PostgreSQL's \<open>hashtext\<close>, the model provider's API and the
  language model are arguments of the definitions that use them.

  \<^bold>\<open>Not modelled.\<close> The diagnostic job of the pool, and what a killed worker may do to the pipe of a
  queue; a request that its client gives up on and that lands later, since a call of an agent is
  answered or lost in one step; an evaluator that raises during the calibration; tokens whose
  scopes are not a list of strings; header values that are not printable ASCII; database
  connections and migrations as scripts; what git, the servers and \<open>urlparse\<close> tell
  \<^verbatim>\<open>oracle/manifest.py\<close>; texts that are only printed, among them \<^verbatim>\<open>summary()\<close> of the oracle's
  reports and the fixed prose of the demo; \<^verbatim>\<open>tools/build_assessment_pdf.py\<close>, which lays out a document with
  a library; parsers of YAML, XML and Python.
\<close>

end
